(* ===== verification/DS_Prelude.thy ===== *)
theory DS_Prelude
  imports Main "HOL-Library.Word" "HOL-Library.Signed_Division" "HOL-Library.Monad_Syntax"
begin

text \<open>
  Shared vocabulary of the development.

  \<^item> Machine integers of the C++ sources are mathematical integers on which every conversion is
    written out: \<open>u8\<close>, \<open>u16\<close>, \<open>u32\<close>, \<open>u64\<close> are the conversions to the unsigned types of
    that width (reduction modulo a power of two) and \<open>s8\<close>, \<open>s16\<close>, \<open>s32\<close>, \<open>s64\<close> the
    conversions to the two's complement types. An arithmetic step that can leave its type is wrapped
    in the conversion of that type.
  \<^item> A byte (\<open>uchar\<close>) is an 8-bit word; a block of memory is a list of bytes and a pointer into
    it is an offset. A read outside of the block is undefined behaviour in C++; it is the value
    \<open>None\<close> here, so a theorem that an operation returns \<open>Some\<close> also says that it stays
    inside its buffer.
  \<^item> The collection \<open>c_conv\<close> holds the facts that remove a conversion from a value that is
    already in range.
\<close>

named_theorems c_conv \<open>conversions that are the identity on values in range\<close>

type_synonym uchar = "8 word"
type_synonym buffer = "uchar list"

section \<open>Conversions between the C integer types\<close>

definition u8 :: "int \<Rightarrow> int" where "u8 x = take_bit 8 x"
definition u16 :: "int \<Rightarrow> int" where "u16 x = take_bit 16 x"
definition u32 :: "int \<Rightarrow> int" where "u32 x = take_bit 32 x"
definition u64 :: "int \<Rightarrow> int" where "u64 x = take_bit 64 x"
definition s8 :: "int \<Rightarrow> int" where "s8 x = signed_take_bit 7 x"
definition s16 :: "int \<Rightarrow> int" where "s16 x = signed_take_bit 15 x"
definition s32 :: "int \<Rightarrow> int" where "s32 x = signed_take_bit 31 x"
definition s64 :: "int \<Rightarrow> int" where "s64 x = signed_take_bit 63 x"

text \<open>Shifts of a C integer: to the left a multiplication, to the right a division that rounds
  towards minus infinity (the arithmetic shift of the compilers the code is built with).\<close>

abbreviation shl :: "int \<Rightarrow> nat \<Rightarrow> int" where "shl x n \<equiv> push_bit n x"
abbreviation shr :: "int \<Rightarrow> nat \<Rightarrow> int" where "shr x n \<equiv> drop_bit n x"

lemma u8_id [c_conv]: "0 \<le> x \<Longrightarrow> x < 256 \<Longrightarrow> u8 x = x"
  by (simp add: u8_def take_bit_int_eq_self)

lemma u16_id [c_conv]: "0 \<le> x \<Longrightarrow> x < 65536 \<Longrightarrow> u16 x = x"
  by (simp add: u16_def take_bit_int_eq_self)

lemma u32_id [c_conv]: "0 \<le> x \<Longrightarrow> x < 4294967296 \<Longrightarrow> u32 x = x"
  by (simp add: u32_def take_bit_int_eq_self)

lemma u64_id [c_conv]: "0 \<le> x \<Longrightarrow> x < 18446744073709551616 \<Longrightarrow> u64 x = x"
  by (simp add: u64_def take_bit_int_eq_self)

lemma s8_id [c_conv]: "-128 \<le> x \<Longrightarrow> x < 128 \<Longrightarrow> s8 x = x"
  by (simp add: s8_def signed_take_bit_int_eq_self)

lemma s16_id [c_conv]: "-32768 \<le> x \<Longrightarrow> x < 32768 \<Longrightarrow> s16 x = x"
  by (simp add: s16_def signed_take_bit_int_eq_self)

lemma s32_id [c_conv]: "-2147483648 \<le> x \<Longrightarrow> x < 2147483648 \<Longrightarrow> s32 x = x"
  by (simp add: s32_def signed_take_bit_int_eq_self)

lemma s64_id [c_conv]:
  "-9223372036854775808 \<le> x \<Longrightarrow> x < 9223372036854775808 \<Longrightarrow> s64 x = x"
  by (simp add: s64_def signed_take_bit_int_eq_self)

lemma s64_s64 [simp]: "s64 (s64 x) = s64 x"
  by (simp add: s64_def)

lemma u32_mod: "u32 x = x mod 4294967296"
  by (simp add: u32_def take_bit_eq_mod)

lemma u16_mod: "u16 x = x mod 65536"
  by (simp add: u16_def take_bit_eq_mod)

lemma u8_mod: "u8 x = x mod 256"
  by (simp add: u8_def take_bit_eq_mod)

lemma u64_mod: "u64 x = x mod 18446744073709551616"
  by (simp add: u64_def take_bit_eq_mod)

lemma u32_range [simp]: "0 \<le> u32 x" "u32 x < 4294967296"
  by (simp_all add: u32_mod)

lemma u16_range [simp]: "0 \<le> u16 x" "u16 x < 65536"
  by (simp_all add: u16_mod)

lemma shl_mult: "shl x n = x * 2 ^ n"
  by (simp add: push_bit_eq_mult)

lemma shr_div: "shr x n = x div 2 ^ n"
  by (simp add: drop_bit_eq_div)

text \<open>A bitwise or of a shifted value and a value that fits below it is a sum.\<close>

lemma or_shl_add:
  assumes "0 \<le> y" and "y < 2 ^ n"
  shows "or (shl x n) y = shl x n + y"
proof -
  have "y = take_bit n y" using assms by (simp add: take_bit_int_eq_self)
  then have "or (shl x n) y = concat_bit n y x"
    by (metis concat_bit_def or.commute)
  then show ?thesis
    using \<open>y = take_bit n y\<close> by (simp add: concat_bit_eq)
qed

section \<open>Bytes\<close>

text \<open>\<open>uchar_of\<close> is the conversion \<open>(uchar)\<close> of an integer.\<close>

definition uchar_of :: "int \<Rightarrow> uchar" where
  "uchar_of x = word_of_int x"

lemma uint_uchar_of [simp]: "uint (uchar_of x) = x mod 256"
  by (simp add: uchar_of_def uint_word_of_int)

lemma uint_uchar_bounds [simp]: "0 \<le> uint (b :: uchar)" "uint (b :: uchar) < 256" "uint (b :: uchar) \<le> 255"
  using uint_lt2p [of b] by simp_all

lemma uchar_of_uint [simp]: "uchar_of (uint b) = b"
  by (simp add: uchar_of_def)

lemma uchar_of_mod [simp]: "uchar_of (x mod 256) = uchar_of x"
  by (simp add: word_uint_eq_iff)

text \<open>Characters of a C string as bytes.\<close>

definition bytes_of :: "string \<Rightarrow> buffer" where
  "bytes_of s = map (\<lambda>c. of_char c) s"

lemma length_bytes_of [simp]: "length (bytes_of s) = length s"
  by (simp add: bytes_of_def)

section \<open>Reading memory\<close>

definition byte_at :: "buffer \<Rightarrow> nat \<Rightarrow> uchar option" where
  "byte_at buf off = (if off < length buf then Some (buf ! off) else None)"

text \<open>\<open>bytes_at buf off n\<close> is what \<open>memcpy\<close> of \<open>n\<close> bytes from \<open>buf + off\<close> copies.\<close>

definition bytes_at :: "buffer \<Rightarrow> nat \<Rightarrow> nat \<Rightarrow> buffer option" where
  "bytes_at buf off n = (if off + n \<le> length buf then Some (take n (drop off buf)) else None)"

lemma bytes_at_length: "bytes_at buf off n = Some bs \<Longrightarrow> length bs = n"
  by (auto simp: bytes_at_def split: if_splits)

lemma bytes_at_prefix [simp]: "length xs = n \<Longrightarrow> bytes_at (xs @ ys) 0 n = Some xs"
  by (simp add: bytes_at_def)

lemma bytes_at_skip [simp]:
  "bytes_at (xs @ ys) (length xs + off) n = bytes_at ys off n"
  by (simp add: bytes_at_def)

lemma byte_at_Some_iff: "byte_at buf off = Some b \<longleftrightarrow> off < length buf \<and> buf ! off = b"
  by (auto simp: byte_at_def)

text \<open>The bytes before the terminating zero of a C string, and its length.\<close>

definition c_str :: "buffer \<Rightarrow> buffer" where
  "c_str bs = takeWhile (\<lambda>b. b \<noteq> 0) bs"

definition c_strlen :: "buffer \<Rightarrow> nat \<Rightarrow> nat option" where
  "c_strlen buf off =
     (let n = length (c_str (drop off buf)) in if off + n < length buf then Some n else None)"

lemma c_str_id [simp]: "0 \<notin> set bs \<Longrightarrow> c_str bs = bs"
  by (induction bs) (auto simp: c_str_def)

lemma c_str_idem [simp]: "c_str (c_str bs) = c_str bs"
  by (rule c_str_id) (auto simp: c_str_def dest: set_takeWhileD)

section \<open>Decimal text\<close>

text \<open>The characters \<open>printf\<close> writes for an unsigned number, without and with a minimal width
  filled with zeros.\<close>

definition digit_char :: "nat \<Rightarrow> char" where
  "digit_char k = char_of (48 + k)"

fun dec_nat :: "nat \<Rightarrow> string" where
  "dec_nat n = (if n < 10 then [digit_char n] else dec_nat (n div 10) @ [digit_char (n mod 10)])"

declare dec_nat.simps [simp del]

definition fmt_u :: "nat \<Rightarrow> int \<Rightarrow> string" where
  "fmt_u w x = (let s = dec_nat (nat x) in replicate (w - length s) (CHR ''0'') @ s)"

definition fmt_d :: "int \<Rightarrow> string" where
  "fmt_d x = (if x < 0 then CHR ''-'' # dec_nat (nat (- x)) else dec_nat (nat x))"

text \<open>The conversion \<open>%0wd\<close>: the sign counts for the width.\<close>

definition fmt_0d :: "nat \<Rightarrow> int \<Rightarrow> string" where
  "fmt_0d w x = (if x < 0 then CHR ''-'' # fmt_u (w - 1) (- x) else fmt_u w x)"

text \<open>The character code \<open>'0' + v\<close>, as it is stored in a \<open>char\<close>.\<close>

definition ascii_digit :: "int \<Rightarrow> char" where
  "ascii_digit v = char_of (nat (u8 (48 + v)))"

lemma ascii_digit_nat: "0 \<le> v \<Longrightarrow> v < 10 \<Longrightarrow> ascii_digit v = digit_char (nat v)"
  by (simp add: ascii_digit_def digit_char_def u8_id nat_add_distrib)

text \<open>The number a string of digits denotes.\<close>

definition digit_val :: "char \<Rightarrow> nat" where
  "digit_val c = of_char c - 48"

definition dec_val :: "string \<Rightarrow> nat" where
  "dec_val s = foldl (\<lambda>a c. 10 * a + digit_val c) 0 s"

lemma digit_val_digit_char [simp]: "k < 10 \<Longrightarrow> digit_val (digit_char k) = k"
  by (simp add: digit_val_def digit_char_def)

lemma dec_val_snoc [simp]: "dec_val (s @ [c]) = 10 * dec_val s + digit_val c"
  by (simp add: dec_val_def)

lemma dec_val_dec_nat [simp]: "dec_val (dec_nat n) = n"
proof (induction n rule: dec_nat.induct)
  case (1 n)
  show ?case
  proof (cases "n < 10")
    case True
    then show ?thesis by (simp add: dec_nat.simps [of n]) (simp add: dec_val_def)
  next
    case False
    then show ?thesis using 1 by (simp add: dec_nat.simps [of n])
  qed
qed

lemma dec_val_pad [simp]: "dec_val (replicate k (CHR ''0'') @ s) = dec_val s"
proof -
  have "foldl (\<lambda>a c. 10 * a + digit_val c) 0 (replicate k (CHR ''0'')) = 0"
    by (induction k) (simp_all add: digit_val_def)
  then show ?thesis by (simp add: dec_val_def)
qed

lemma dec_val_fmt_u: "dec_val (fmt_u w x) = nat x"
  by (simp add: fmt_u_def Let_def)

lemma length_dec_nat: "0 < k \<Longrightarrow> n < 10 ^ k \<Longrightarrow> length (dec_nat n) \<le> k"
proof (induction n arbitrary: k rule: dec_nat.induct)
  case (1 n)
  show ?case
  proof (cases "n < 10")
    case True
    then show ?thesis using 1(2) by (simp add: dec_nat.simps [of n])
  next
    case False
    then obtain k' where k': "k = Suc k'" "0 < k'"
      using 1(2,3) by (cases k; cases "k - 1") auto
    then have "n div 10 < 10 ^ k'" using 1(3) by (simp add: less_mult_imp_div_less mult.commute)
    then have "length (dec_nat (n div 10)) \<le> k'" using 1(1) False k' by simp
    then show ?thesis using False k' by (simp add: dec_nat.simps [of n])
  qed
qed

lemma length_fmt_u: "0 < w \<Longrightarrow> 0 \<le> x \<Longrightarrow> x < 10 ^ w \<Longrightarrow> length (fmt_u w x) = w"
  using length_dec_nat [of w "nat x"] by (simp add: fmt_u_def Let_def nat_less_iff)

text \<open>The characters of a number are digits.\<close>

definition all_digits :: "string \<Rightarrow> bool" where
  "all_digits s \<longleftrightarrow> (\<forall>c \<in> set s. \<exists>k<10. c = digit_char k)"

lemma dec_nat_digits: "all_digits (dec_nat n)"
proof (induction n rule: dec_nat.induct)
  case (1 n)
  show ?case
  proof (cases "n < 10")
    case True
    then show ?thesis by (auto simp: dec_nat.simps [of n] all_digits_def)
  next
    case False
    moreover have "\<exists>k<10. digit_char (n mod 10) = digit_char k" by (rule exI [of _ "n mod 10"]) simp
    ultimately show ?thesis using 1 by (auto simp: dec_nat.simps [of n] all_digits_def)
  qed
qed

lemma fmt_u_digits: "all_digits (fmt_u w x)"
proof -
  have "CHR ''0'' = digit_char 0" by code_simp
  moreover have "\<exists>k<10. digit_char 0 = digit_char k" by (rule exI [of _ 0]) simp
  ultimately show ?thesis using dec_nat_digits [of "nat x"] by (auto simp: fmt_u_def Let_def all_digits_def)
qed

lemma digit_byte:
  assumes "k < 10" shows "(of_char (digit_char k) :: uchar) = 48 + of_nat k"
proof -
  have "(of_char (digit_char k) :: uchar) = of_nat (of_char (digit_char k))" by (simp only: of_nat_of_char)
  also have "\<dots> = of_nat (48 + k)" using assms by (simp add: digit_char_def)
  finally show ?thesis by simp
qed

lemma digit_byte_range:
  assumes "k < 10" shows "48 \<le> (48 + of_nat k :: uchar) \<and> 48 + of_nat k \<le> (57 :: uchar) \<and> uint (48 + of_nat k :: uchar) = 48 + int k"
proof -
  have e: "(48 + of_nat k :: uchar) = of_nat (48 + k)" by simp
  have "unat (of_nat (48 + k) :: uchar) = 48 + k"
    using assms by (simp only: unsigned_of_nat) (simp add: take_bit_nat_eq_self)
  then show ?thesis using assms unfolding e by (simp add: word_le_nat_alt uint_nat del: of_nat_add)
qed

lemma digit_bytes:
  assumes "all_digits s" "b \<in> set (bytes_of s)"
  shows "48 \<le> b \<and> b \<le> 57"
  using assms digit_byte digit_byte_range by (fastforce simp: all_digits_def bytes_of_def)

section \<open>Division that truncates, and disjoint bitwise or\<close>

lemma sdiv_nonneg [c_conv]: "0 \<le> a \<Longrightarrow> 0 \<le> b \<Longrightarrow> (a::int) sdiv b = a div b"
  by (cases "a = 0"; cases "b = 0") (simp_all add: signed_divide_int_def)

lemma smod_nonneg [c_conv]: "0 \<le> a \<Longrightarrow> 0 \<le> b \<Longrightarrow> (a::int) smod b = a mod b"
  by (cases "a = 0"; cases "b = 0") (simp_all add: signed_modulo_int_def)

lemma sdiv_mult_self [simp]: "0 < c \<Longrightarrow> (k * c :: int) sdiv c = k"
  by (simp add: signed_divide_int_eq_divide_int)

lemma or_dvd_add:
  fixes a y :: int
  assumes "2 ^ n dvd a" "0 \<le> y" "y < 2 ^ n"
  shows "or a y = a + y"
proof -
  from assms(1) obtain x where "a = shl x n" by (auto simp: shl_mult mult.commute)
  then show ?thesis using assms(2,3) by (simp add: or_shl_add)
qed

text \<open>Splitting a number written in a mixed radix.\<close>

lemma radix_div: "0 \<le> r \<Longrightarrow> r < k \<Longrightarrow> (q * k + r) div (k :: int) = q"
  by (simp add: div_add1_eq)

lemma radix_mod: "0 \<le> r \<Longrightarrow> r < k \<Longrightarrow> (q * k + r) mod (k :: int) = r"
  by (metis add.commute mod_mult_self1 mod_pos_pos_trivial)

lemma lex_packed:
  fixes i j f g :: int
  assumes "0 \<le> f" "f < K" "0 \<le> g" "g < K"
  shows "i * K + f < j * K + g \<longleftrightarrow> i < j \<or> (i = j \<and> f < g)"
proof (cases i j rule: linorder_cases)
  case less
  then have "(i + 1) * K \<le> j * K" using assms by (intro mult_right_mono) simp_all
  then show ?thesis using less assms by (simp add: algebra_simps)
next
  case greater
  then have "(j + 1) * K \<le> i * K" using assms by (intro mult_right_mono) simp_all
  then show ?thesis using greater assms by (simp add: algebra_simps)
qed simp

lemma radix_eq:
  fixes i j f g :: int
  assumes "0 \<le> f" "f < K" "0 \<le> g" "g < K"
  shows "i * K + f = j * K + g \<longleftrightarrow> i = j \<and> f = g"
  using assms radix_div [of f K i] radix_div [of g K j] radix_mod [of f K i] radix_mod [of g K j] by metis

end
