(* ===== verification/Byteorder.thy ===== *)
theory Byteorder
  imports DS_Prelude
begin

text \<open>
  The byte-order readers and writers of the binary log library.

  \<^item> Low byte first: \<open>uint2korr\<close> \<dots> \<open>uint8korr\<close>, \<open>sint2korr\<close> \<dots>, \<open>int2store\<close> \<dots> of
    \<open>binlog/include/my_byteorder.h\<close>, \<open>byte_order_generic.h\<close> and
    \<open>byte_order_generic_x86.h\<close> (on the little-endian machines the latter is for, a read of a
    16-, 32- or 64-bit object is the same sum of bytes).
  \<^item> High byte first: \<open>mi_uint2korr\<close> \<dots>, \<open>mi_int2store\<close> \<dots> of
    \<open>binlog/include/myisampack.h\<close>.

  A reader takes a buffer and an offset; it is \<open>None\<close> when it would read past the end of the
  buffer. A writer is the list of the bytes it stores. The locale \<open>int_codec\<close> states what the
  formats promise and is interpreted for every reader/writer pair.
\<close>

section \<open>The value of a run of bytes\<close>

text \<open>Specification: the number that a list of bytes denotes in base 256.\<close>

fun le_val :: "buffer \<Rightarrow> int" where
  "le_val [] = 0"
| "le_val (b # bs) = uint b + 256 * le_val bs"

definition be_val :: "buffer \<Rightarrow> int" where
  "be_val bs = le_val (rev bs)"

lemma le_val_append: "le_val (xs @ ys) = le_val xs + 256 ^ length xs * le_val ys"
  by (induction xs) (simp_all add: algebra_simps)

lemma le_val_bounds: "0 \<le> le_val bs \<and> le_val bs < 256 ^ length bs"
proof (induction bs)
  case (Cons b bs)
  have "uint b \<le> 255" by simp
  moreover have "le_val bs + 1 \<le> 256 ^ length bs" using Cons by simp
  ultimately have "uint b + 256 * le_val bs < 256 * 256 ^ length bs" by linarith
  then show ?case using Cons by simp
qed simp

lemma be_val_bounds: "0 \<le> be_val bs \<and> be_val bs < 256 ^ length bs"
  using le_val_bounds [of "rev bs"] by (simp add: be_val_def)

lemma le_val_inj: "length xs = length ys \<Longrightarrow> le_val xs = le_val ys \<Longrightarrow> xs = ys"
proof (induction xs ys rule: list_induct2)
  case (Cons x xs y ys)
  from Cons.prems have eq: "uint x + 256 * le_val xs = uint y + 256 * le_val ys" by simp
  have "uint x = (uint x + 256 * le_val xs) mod 256"
    by simp
  also have "\<dots> = uint y"
    by (subst eq) simp
  finally have "uint x = uint y" .
  with eq show ?case using Cons.IH by (simp add: word_uint_eq_iff)
qed simp

section \<open>Low byte first\<close>

definition korr :: "(buffer \<Rightarrow> int) \<Rightarrow> nat \<Rightarrow> buffer \<Rightarrow> nat \<Rightarrow> int option" where
  "korr f n buf off = map_option f (bytes_at buf off n)"

definition uint2_of :: "buffer \<Rightarrow> int" where
  "uint2_of A = u16 (uint (A ! 0) + shl (uint (A ! 1)) 8)"

definition uint3_of :: "buffer \<Rightarrow> int" where
  "uint3_of A = u32 (uint (A ! 0) + shl (uint (A ! 1)) 8 + shl (uint (A ! 2)) 16)"

definition uint4_of :: "buffer \<Rightarrow> int" where
  "uint4_of A = u32 (uint (A ! 0) + shl (uint (A ! 1)) 8 + shl (uint (A ! 2)) 16
                     + shl (uint (A ! 3)) 24)"

definition uint5_of :: "buffer \<Rightarrow> int" where
  "uint5_of A = u64 (u32 (uint (A ! 0) + shl (uint (A ! 1)) 8 + shl (uint (A ! 2)) 16
                     + shl (uint (A ! 3)) 24) + shl (uint (A ! 4)) 32)"

definition uint6_of :: "buffer \<Rightarrow> int" where
  "uint6_of A = u64 (u32 (uint (A ! 0) + shl (uint (A ! 1)) 8 + shl (uint (A ! 2)) 16
                     + shl (uint (A ! 3)) 24) + shl (uint (A ! 4)) 32 + shl (uint (A ! 5)) 40)"

definition uint8_of :: "buffer \<Rightarrow> int" where
  "uint8_of A = u64 (u32 (uint (A ! 0) + shl (uint (A ! 1)) 8 + shl (uint (A ! 2)) 16
                     + shl (uint (A ! 3)) 24)
                   + shl (u32 (uint (A ! 4) + shl (uint (A ! 5)) 8 + shl (uint (A ! 6)) 16
                     + shl (uint (A ! 7)) 24)) 32)"

definition uint2korr :: "buffer \<Rightarrow> nat \<Rightarrow> int option" where "uint2korr = korr uint2_of 2"
definition uint3korr :: "buffer \<Rightarrow> nat \<Rightarrow> int option" where "uint3korr = korr uint3_of 3"
definition uint4korr :: "buffer \<Rightarrow> nat \<Rightarrow> int option" where "uint4korr = korr uint4_of 4"
definition uint5korr :: "buffer \<Rightarrow> nat \<Rightarrow> int option" where "uint5korr = korr uint5_of 5"
definition uint6korr :: "buffer \<Rightarrow> nat \<Rightarrow> int option" where "uint6korr = korr uint6_of 6"
definition uint8korr :: "buffer \<Rightarrow> nat \<Rightarrow> int option" where "uint8korr = korr uint8_of 8"

definition sint2korr :: "buffer \<Rightarrow> nat \<Rightarrow> int option" where
  "sint2korr = korr (\<lambda>A. s16 (uint (A ! 0) + shl (uint (A ! 1)) 8)) 2"

definition sint3korr :: "buffer \<Rightarrow> nat \<Rightarrow> int option" where
  "sint3korr = korr (\<lambda>A. s32 (if and (uint (A ! 2)) 128 \<noteq> 0
      then or (or (or (shl 255 24) (shl (uint (A ! 2)) 16)) (shl (uint (A ! 1)) 8)) (uint (A ! 0))
      else or (or (shl (uint (A ! 2)) 16) (shl (uint (A ! 1)) 8)) (uint (A ! 0)))) 3"

definition sint4korr :: "buffer \<Rightarrow> nat \<Rightarrow> int option" where
  "sint4korr = korr (\<lambda>A. s32 (uint (A ! 0) + shl (uint (A ! 1)) 8 + shl (uint (A ! 2)) 16
                     + shl (uint (A ! 3)) 24)) 4"

definition sint8korr :: "buffer \<Rightarrow> nat \<Rightarrow> int option" where
  "sint8korr = korr (\<lambda>A. s64 (uint8_of A)) 8"

definition int2store :: "int \<Rightarrow> buffer" where
  "int2store A = (let t = u16 A in [uchar_of t, uchar_of (shr t 8)])"

definition int3store :: "int \<Rightarrow> buffer" where
  "int3store A = (let t = u32 A in [uchar_of t, uchar_of (shr t 8), uchar_of (shr t 16)])"

definition int4store :: "int \<Rightarrow> buffer" where
  "int4store A = (let t = u32 A in
     [uchar_of t, uchar_of (shr t 8), uchar_of (shr t 16), uchar_of (shr t 24)])"

definition int5store :: "int \<Rightarrow> buffer" where
  "int5store A = (let t = u64 A in
     [uchar_of t, uchar_of (shr t 8), uchar_of (shr t 16), uchar_of (shr t 24),
      uchar_of (shr t 32)])"

definition int6store :: "int \<Rightarrow> buffer" where
  "int6store A = (let t = u64 A in
     [uchar_of t, uchar_of (shr t 8), uchar_of (shr t 16), uchar_of (shr t 24),
      uchar_of (shr t 32), uchar_of (shr t 40)])"

definition int8store :: "int \<Rightarrow> buffer" where
  "int8store A = (let t = u32 A; t2 = u32 (shr (u64 A) 32) in int4store t @ int4store t2)"

section \<open>High byte first\<close>

definition mi_uint2_of :: "buffer \<Rightarrow> int" where
  "mi_uint2_of A = u16 (uint (A ! 1) + shl (uint (A ! 0)) 8)"

definition mi_uint3_of :: "buffer \<Rightarrow> int" where
  "mi_uint3_of A = u32 (uint (A ! 2) + shl (uint (A ! 1)) 8 + shl (uint (A ! 0)) 16)"

definition mi_uint4_of :: "buffer \<Rightarrow> int" where
  "mi_uint4_of A = u32 (uint (A ! 3) + shl (uint (A ! 2)) 8 + shl (uint (A ! 1)) 16
                        + shl (uint (A ! 0)) 24)"

definition mi_uint5_of :: "buffer \<Rightarrow> int" where
  "mi_uint5_of A = u64 (u32 (uint (A ! 4) + shl (uint (A ! 3)) 8 + shl (uint (A ! 2)) 16
                        + shl (uint (A ! 1)) 24) + shl (uint (A ! 0)) 32)"

definition mi_uint6_of :: "buffer \<Rightarrow> int" where
  "mi_uint6_of A = u64 (u32 (uint (A ! 5) + shl (uint (A ! 4)) 8 + shl (uint (A ! 3)) 16
                        + shl (uint (A ! 2)) 24)
                      + shl (u32 (uint (A ! 1) + shl (uint (A ! 0)) 8)) 32)"

definition mi_uint7_of :: "buffer \<Rightarrow> int" where
  "mi_uint7_of A = u64 (u32 (uint (A ! 6) + shl (uint (A ! 5)) 8 + shl (uint (A ! 4)) 16
                        + shl (uint (A ! 3)) 24)
                      + shl (u32 (uint (A ! 2) + shl (uint (A ! 1)) 8 + shl (uint (A ! 0)) 16)) 32)"

definition mi_uint8_of :: "buffer \<Rightarrow> int" where
  "mi_uint8_of A = u64 (u32 (uint (A ! 7) + shl (uint (A ! 6)) 8 + shl (uint (A ! 5)) 16
                        + shl (uint (A ! 4)) 24)
                      + shl (u32 (uint (A ! 3) + shl (uint (A ! 2)) 8 + shl (uint (A ! 1)) 16
                        + shl (uint (A ! 0)) 24)) 32)"

definition mi_uint2korr :: "buffer \<Rightarrow> nat \<Rightarrow> int option" where "mi_uint2korr = korr mi_uint2_of 2"
definition mi_uint3korr :: "buffer \<Rightarrow> nat \<Rightarrow> int option" where "mi_uint3korr = korr mi_uint3_of 3"
definition mi_uint4korr :: "buffer \<Rightarrow> nat \<Rightarrow> int option" where "mi_uint4korr = korr mi_uint4_of 4"
definition mi_uint5korr :: "buffer \<Rightarrow> nat \<Rightarrow> int option" where "mi_uint5korr = korr mi_uint5_of 5"
definition mi_uint6korr :: "buffer \<Rightarrow> nat \<Rightarrow> int option" where "mi_uint6korr = korr mi_uint6_of 6"
definition mi_uint7korr :: "buffer \<Rightarrow> nat \<Rightarrow> int option" where "mi_uint7korr = korr mi_uint7_of 7"
definition mi_uint8korr :: "buffer \<Rightarrow> nat \<Rightarrow> int option" where "mi_uint8korr = korr mi_uint8_of 8"

definition mi_sint1korr :: "buffer \<Rightarrow> nat \<Rightarrow> int option" where
  "mi_sint1korr = korr (\<lambda>A. s8 (uint (A ! 0))) 1"

definition mi_sint2korr :: "buffer \<Rightarrow> nat \<Rightarrow> int option" where
  "mi_sint2korr = korr (\<lambda>A. s16 (uint (A ! 1) + shl (s16 (s8 (uint (A ! 0)))) 8)) 2"

definition mi_sint3korr :: "buffer \<Rightarrow> nat \<Rightarrow> int option" where
  "mi_sint3korr = korr (\<lambda>A. s32 (if and (uint (A ! 0)) 128 \<noteq> 0
      then or (or (or (shl 255 24) (shl (uint (A ! 0)) 16)) (shl (uint (A ! 1)) 8)) (uint (A ! 2))
      else or (or (shl (uint (A ! 0)) 16) (shl (uint (A ! 1)) 8)) (uint (A ! 2)))) 3"

definition mi_sint4korr :: "buffer \<Rightarrow> nat \<Rightarrow> int option" where
  "mi_sint4korr = korr (\<lambda>A. s32 (uint (A ! 3) + shl (uint (A ! 2)) 8 + shl (uint (A ! 1)) 16
                        + shl (s16 (s8 (uint (A ! 0)))) 24)) 4"

definition mi_int2store :: "int \<Rightarrow> buffer" where
  "mi_int2store A = (let t = u32 A in [uchar_of (shr t 8), uchar_of t])"

definition mi_int3store :: "int \<Rightarrow> buffer" where
  "mi_int3store A = (let t = u32 A in [uchar_of (shr t 16), uchar_of (shr t 8), uchar_of t])"

definition mi_int4store :: "int \<Rightarrow> buffer" where
  "mi_int4store A = (let t = u32 A in
     [uchar_of (shr t 24), uchar_of (shr t 16), uchar_of (shr t 8), uchar_of t])"

definition mi_int5store :: "int \<Rightarrow> buffer" where
  "mi_int5store A = (let t = u32 A; t2 = u32 (shr A 32) in
     [uchar_of t2, uchar_of (shr t 24), uchar_of (shr t 16), uchar_of (shr t 8), uchar_of t])"

definition mi_int6store :: "int \<Rightarrow> buffer" where
  "mi_int6store A = (let t = u32 A; t2 = u32 (shr A 32) in
     [uchar_of (shr t2 8), uchar_of t2, uchar_of (shr t 24), uchar_of (shr t 16),
      uchar_of (shr t 8), uchar_of t])"

definition mi_int7store :: "int \<Rightarrow> buffer" where
  "mi_int7store A = (let t = u32 A; t2 = u32 (shr A 32) in
     [uchar_of (shr t2 16), uchar_of (shr t2 8), uchar_of t2, uchar_of (shr t 24),
      uchar_of (shr t 16), uchar_of (shr t 8), uchar_of t])"

definition mi_int8store :: "int \<Rightarrow> buffer" where
  "mi_int8store A = (let t3 = u32 A; t4 = u32 (shr A 32) in mi_int4store t4 @ mi_int4store t3)"

section \<open>What the formats promise\<close>

text \<open>A fixed-width integer format: \<open>val\<close> reads \<open>n\<close> bytes, \<open>store\<close> writes them.\<close>

locale int_codec =
  fixes n :: nat and val :: "buffer \<Rightarrow> int" and store :: "int \<Rightarrow> buffer"
  assumes store_length: "length (store x) = n"
    and val_store: "val (store x) = x mod 256 ^ n"
    and val_inj: "length xs = n \<Longrightarrow> length ys = n \<Longrightarrow> val xs = val ys \<Longrightarrow> xs = ys"
begin

lemma store_val:
  assumes "length bs = n" and "0 \<le> val bs" and "val bs < 256 ^ n"
  shows "store (val bs) = bs"
  using assms by (intro val_inj) (simp_all add: store_length val_store)

lemma korr_store: "korr val n (pre @ store x @ post) (length pre) = Some (x mod 256 ^ n)"
proof -
  have "bytes_at (pre @ store x @ post) (length pre + 0) n = Some (store x)"
    by (simp only: bytes_at_skip bytes_at_prefix [OF store_length])
  then show ?thesis by (simp add: korr_def val_store)
qed

lemma korr_store_first: "korr val n (store x @ post) 0 = Some (x mod 256 ^ n)"
  using korr_store [of "[]"] by simp

lemma korr_store_id:
  assumes "0 \<le> x" and "x < 256 ^ n"
  shows "korr val n (pre @ store x @ post) (length pre) = Some x"
  using assms by (simp add: korr_store)

lemma store_eq_iff: "store x = store y \<longleftrightarrow> x mod 256 ^ n = y mod 256 ^ n"
  by (metis val_store val_inj store_length)

end

text \<open>Reference writers: the digits of a number in base 256.\<close>

fun le_bytes :: "nat \<Rightarrow> int \<Rightarrow> buffer" where
  "le_bytes 0 x = []"
| "le_bytes (Suc n) x = uchar_of x # le_bytes n (x div 256)"

definition be_bytes :: "nat \<Rightarrow> int \<Rightarrow> buffer" where
  "be_bytes n x = rev (le_bytes n x)"

lemma length_le_bytes [simp]: "length (le_bytes n x) = n"
  by (induction n arbitrary: x) auto

lemma length_be_bytes [simp]: "length (be_bytes n x) = n"
  by (simp add: be_bytes_def)

lemma le_val_le_bytes: "le_val (le_bytes n x) = x mod 256 ^ n"
  by (induction n arbitrary: x) (simp_all add: zmod_zmult2_eq)

lemma be_val_be_bytes: "be_val (be_bytes n x) = x mod 256 ^ n"
  by (simp add: be_val_def be_bytes_def le_val_le_bytes)

lemma be_val_inj: "length xs = length ys \<Longrightarrow> be_val xs = be_val ys \<Longrightarrow> xs = ys"
  using le_val_inj [of "rev xs" "rev ys"] by (simp add: be_val_def)

text \<open>A byte taken from a truncated value is the byte of the value.\<close>

lemma uchar_of_take_bit: "8 \<le> m \<Longrightarrow> uchar_of (take_bit m x) = uchar_of x"
  by (simp add: uchar_of_def word_uint_eq_iff uint_word_of_int flip: take_bit_eq_mod [of 8, simplified])

lemma uchar_of_shr_take_bit: "k + 8 \<le> m \<Longrightarrow> uchar_of (shr (take_bit m x) k) = uchar_of (shr x k)"
  by (simp add: drop_bit_take_bit uchar_of_take_bit)

lemma div_256_shr: "x div 256 = shr x 8"
  by (simp add: shr_div)

lemmas store_defs = int2store_def int3store_def int4store_def int5store_def int6store_def
  int8store_def mi_int2store_def mi_int3store_def mi_int4store_def mi_int5store_def
  mi_int6store_def mi_int7store_def mi_int8store_def

lemma store_le_bytes:
  "int2store x = le_bytes 2 x" "int3store x = le_bytes 3 x" "int4store x = le_bytes 4 x"
  "int5store x = le_bytes 5 x" "int6store x = le_bytes 6 x" "int8store x = le_bytes 8 x"
  by (simp_all add: store_defs Let_def u16_def u32_def u64_def uchar_of_take_bit
      uchar_of_shr_take_bit div_256_shr eval_nat_numeral)

lemma mi_store_be_bytes:
  "mi_int2store x = be_bytes 2 x" "mi_int3store x = be_bytes 3 x" "mi_int4store x = be_bytes 4 x"
  "mi_int5store x = be_bytes 5 x" "mi_int6store x = be_bytes 6 x" "mi_int7store x = be_bytes 7 x"
  "mi_int8store x = be_bytes 8 x"
  by (simp_all add: store_defs be_bytes_def Let_def u16_def u32_def u64_def uchar_of_take_bit
      uchar_of_shr_take_bit div_256_shr eval_nat_numeral)

section \<open>The readers compute the value of the bytes\<close>

lemma length_ge_conv:
  "length xs = Suc n \<longleftrightarrow> (\<exists>x ys. xs = x # ys \<and> length ys = n)"
  by (cases xs) auto

lemmas korr_of_defs = uint2_of_def uint3_of_def uint4_of_def uint5_of_def uint6_of_def uint8_of_def
  mi_uint2_of_def mi_uint3_of_def mi_uint4_of_def mi_uint5_of_def mi_uint6_of_def mi_uint7_of_def
  mi_uint8_of_def

lemma quad_in_range:
  fixes a b c d :: uchar
  shows "(uint a + uint b * 256 + uint c * 65536 + uint d * 16777216) mod 4294967296
       = uint a + uint b * 256 + uint c * 65536 + uint d * 16777216"
    and "(uint a + uint b * 256 + uint c * 65536) mod 4294967296
       = uint a + uint b * 256 + uint c * 65536"
    and "(uint a + uint b * 256) mod 4294967296 = uint a + uint b * 256"
    and "(uint a + uint b * 256) mod 65536 = uint a + uint b * 256"
  using uint_uchar_bounds [of a] uint_uchar_bounds [of b] uint_uchar_bounds [of c]
    uint_uchar_bounds [of d]
  by (simp_all del: uint_uchar_bounds)

lemma uint_of_le_val:
  "length A = 2 \<Longrightarrow> uint2_of A = le_val A"
  "length A = 3 \<Longrightarrow> uint3_of A = le_val A"
  "length A = 4 \<Longrightarrow> uint4_of A = le_val A"
  "length A = 5 \<Longrightarrow> uint5_of A = le_val A"
  "length A = 6 \<Longrightarrow> uint6_of A = le_val A"
  "length A = 8 \<Longrightarrow> uint8_of A = le_val A"
  using le_val_bounds [of A]
  by (auto simp: korr_of_defs shl_mult eval_nat_numeral length_ge_conv u16_mod u32_mod u64_mod
      quad_in_range)

lemma mi_uint_of_be_val:
  "length A = 2 \<Longrightarrow> mi_uint2_of A = be_val A"
  "length A = 3 \<Longrightarrow> mi_uint3_of A = be_val A"
  "length A = 4 \<Longrightarrow> mi_uint4_of A = be_val A"
  "length A = 5 \<Longrightarrow> mi_uint5_of A = be_val A"
  "length A = 6 \<Longrightarrow> mi_uint6_of A = be_val A"
  "length A = 7 \<Longrightarrow> mi_uint7_of A = be_val A"
  "length A = 8 \<Longrightarrow> mi_uint8_of A = be_val A"
  using be_val_bounds [of A]
  by (auto simp: korr_of_defs be_val_def shl_mult eval_nat_numeral length_ge_conv u16_mod u32_mod
      u64_mod quad_in_range)

lemma korr_cong: "(\<And>A. length A = n \<Longrightarrow> f A = g A) \<Longrightarrow> korr f n = korr g n"
  by (intro ext) (auto simp: korr_def bytes_at_def)

lemmas ukorr_defs = uint2korr_def uint3korr_def uint4korr_def uint5korr_def uint6korr_def
  uint8korr_def mi_uint2korr_def mi_uint3korr_def mi_uint4korr_def mi_uint5korr_def
  mi_uint6korr_def mi_uint7korr_def mi_uint8korr_def

lemma ukorr_le_val:
  "uint2korr = korr le_val 2" "uint3korr = korr le_val 3" "uint4korr = korr le_val 4"
  "uint5korr = korr le_val 5" "uint6korr = korr le_val 6" "uint8korr = korr le_val 8"
  by (simp_all add: ukorr_defs uint_of_le_val cong: korr_cong)

lemma ukorr_be_val:
  "mi_uint2korr = korr be_val 2" "mi_uint3korr = korr be_val 3" "mi_uint4korr = korr be_val 4"
  "mi_uint5korr = korr be_val 5" "mi_uint6korr = korr be_val 6" "mi_uint7korr = korr be_val 7"
  "mi_uint8korr = korr be_val 8"
  by (simp_all add: ukorr_defs mi_uint_of_be_val cong: korr_cong)

text \<open>The signed readers are the two's complement reading of the same bytes.\<close>

definition sext :: "nat \<Rightarrow> int \<Rightarrow> int" where
  "sext n x = (if x < 2 ^ (n - 1) then x else x - 2 ^ n)"

lemma signed_take_bit_sext:
  assumes "0 \<le> x" and "x < 2 ^ Suc n"
  shows "signed_take_bit n x = sext (Suc n) x"
proof (cases "x < 2 ^ n")
  case True
  then show ?thesis using assms
    by (simp add: sext_def signed_take_bit_int_eq_self)
next
  case False
  have "signed_take_bit n x = signed_take_bit n (x - 2 ^ Suc n)"
    by (simp add: signed_take_bit_eq_iff_take_bit_eq take_bit_eq_mod mod_diff_eq)
  also have "\<dots> = x - 2 ^ Suc n"
    using assms False by (intro signed_take_bit_int_eq_self) simp_all
  finally show ?thesis using False by (simp add: sext_def)
qed

lemma s_sext:
  "0 \<le> x \<Longrightarrow> x < 256 \<Longrightarrow> s8 x = sext 8 x"
  "0 \<le> x \<Longrightarrow> x < 65536 \<Longrightarrow> s16 x = sext 16 x"
  "0 \<le> x \<Longrightarrow> x < 4294967296 \<Longrightarrow> s32 x = sext 32 x"
  "0 \<le> x \<Longrightarrow> x < 18446744073709551616 \<Longrightarrow> s64 x = sext 64 x"
  using signed_take_bit_sext [of x 7] signed_take_bit_sext [of x 15] signed_take_bit_sext [of x 31]
    signed_take_bit_sext [of x 63]
  by (simp_all add: s8_def s16_def s32_def s64_def)

lemma or_bytes:
  assumes "0 \<le> b" "b < 256" "0 \<le> a" "a < 256"
  shows "or (or (shl c 16) (shl b 8)) a = c * 65536 + b * 256 + a"
proof -
  have "or (shl c 16) (shl b 8) = shl (or (shl c 8) b) 8"
    by (simp add: push_bit_or)
  also have "\<dots> = shl (shl c 8 + b) 8"
    using assms by (simp add: or_shl_add)
  finally have "or (or (shl c 16) (shl b 8)) a = shl (shl c 8 + b) 8 + a"
    using assms by (simp add: or_shl_add)
  then show ?thesis by (simp add: shl_mult algebra_simps)
qed

lemma or_high_byte:
  assumes "0 \<le> c" "c < 256"
  shows "or 4278190080 (shl c 16) = shl (65280 + c) 16"
proof -
  have "or (shl 255 24) (shl c 16) = shl (or (shl 255 8) c) 16"
    by (simp add: push_bit_or)
  also have "or (shl 255 8) c = shl 255 8 + c"
    by (rule or_shl_add) (use assms in simp_all)
  finally show ?thesis by simp
qed

lemma and_128:
  fixes b :: int
  assumes "0 \<le> b" "b < 256"
  shows "and b 128 = 0 \<longleftrightarrow> b < 128"
proof -
  have "and b (2 ^ 7) = 0 \<longleftrightarrow> \<not> odd (b div 2 ^ 7)"
    by (simp only: and_exp_eq_0_iff_not_bit bit_iff_odd)
  moreover have "b div 2 ^ 7 = (if b < 128 then 0 else 1)"
    using assms by (simp, presburger)
  ultimately show ?thesis by (simp split: if_splits)
qed

lemma sint24_aux:
  assumes "0 \<le> a" "a < 256" "0 \<le> b" "b < 256" "0 \<le> c" "c < 256"
  shows "s32 (if and c 128 \<noteq> 0
      then or (or (or (shl 255 24) (shl c 16)) (shl b 8)) a
      else or (or (shl c 16) (shl b 8)) a) = sext 24 (a + (256 * b + 65536 * c))"
  using assms by (simp add: and_128 or_high_byte or_bytes s_sext sext_def)

lemma sint24:
  fixes a b c :: uchar
  shows "s32 (if and (uint c) 128 \<noteq> 0
      then or (or (or (shl 255 24) (shl (uint c) 16)) (shl (uint b) 8)) (uint a)
      else or (or (shl (uint c) 16) (shl (uint b) 8)) (uint a)) = sext 24 (le_val [a, b, c])"
  by (subst sint24_aux) simp_all

lemma s_mod_eq: "take_bit 16 x = take_bit 16 y \<Longrightarrow> s16 x = s16 y"
  "take_bit 32 x = take_bit 32 y \<Longrightarrow> s32 x = s32 y"
  by (simp_all add: s16_def s32_def signed_take_bit_eq_iff_take_bit_eq)

text \<open>The top byte may be sign-extended before it is shifted in: the result is the same.\<close>

lemma sext_top_byte:
  fixes a b c d :: uchar
  shows "s16 (uint b + shl (s16 (s8 (uint a))) 8) = sext 16 (be_val [a, b])"
    and "s32 (uint d + shl (uint c) 8 + shl (uint b) 16 + shl (s16 (s8 (uint a))) 24)
       = sext 32 (be_val [a, b, c, d])"
proof -
  note bounds = uint_uchar_bounds [of a] uint_uchar_bounds [of b] uint_uchar_bounds [of c]
    uint_uchar_bounds [of d]
  have sa: "s16 (s8 (uint a)) = (if uint a < 128 then uint a else uint a - 256)"
    using bounds by (simp add: s_sext sext_def s16_id del: uint_uchar_bounds)
  have "s16 (uint b + shl (s16 (s8 (uint a))) 8) = s16 (be_val [a, b])"
    by (rule s_mod_eq) (simp add: sa be_val_def shl_mult take_bit_eq_mod mod_eq_dvd_iff algebra_simps)
  then show "s16 (uint b + shl (s16 (s8 (uint a))) 8) = sext 16 (be_val [a, b])"
    using be_val_bounds [of "[a, b]"] by (simp add: s_sext)
  have "s32 (uint d + shl (uint c) 8 + shl (uint b) 16 + shl (s16 (s8 (uint a))) 24)
      = s32 (be_val [a, b, c, d])"
    by (rule s_mod_eq) (simp add: sa be_val_def shl_mult take_bit_eq_mod mod_eq_dvd_iff algebra_simps)
  then show "s32 (uint d + shl (uint c) 8 + shl (uint b) 16 + shl (s16 (s8 (uint a))) 24)
       = sext 32 (be_val [a, b, c, d])"
    using be_val_bounds [of "[a, b, c, d]"] by (simp add: s_sext)
qed

lemma length_small_conv:
  "length xs = 1 \<longleftrightarrow> (\<exists>a. xs = [a])"
  "length xs = 2 \<longleftrightarrow> (\<exists>a b. xs = [a, b])"
  "length xs = 3 \<longleftrightarrow> (\<exists>a b c. xs = [a, b, c])"
  "length xs = 4 \<longleftrightarrow> (\<exists>a b c d. xs = [a, b, c, d])"
  by (auto simp: eval_nat_numeral length_ge_conv)

lemma skorr_le_val:
  "sint2korr = korr (\<lambda>A. sext 16 (le_val A)) 2" "sint3korr = korr (\<lambda>A. sext 24 (le_val A)) 3"
  "sint4korr = korr (\<lambda>A. sext 32 (le_val A)) 4" "sint8korr = korr (\<lambda>A. sext 64 (le_val A)) 8"
  unfolding sint2korr_def sint3korr_def sint4korr_def sint8korr_def
proof (rule_tac [!] korr_cong)
  fix A :: buffer
  note bounds = le_val_bounds [of A]
  show "s16 (uint (A ! 0) + shl (uint (A ! 1)) 8) = sext 16 (le_val A)" if "length A = 2"
    using that bounds by (auto simp: length_small_conv shl_mult s_sext algebra_simps)
  show "s32 (if and (uint (A ! 2)) 128 \<noteq> 0
      then or (or (or (shl 255 24) (shl (uint (A ! 2)) 16)) (shl (uint (A ! 1)) 8)) (uint (A ! 0))
      else or (or (shl (uint (A ! 2)) 16) (shl (uint (A ! 1)) 8)) (uint (A ! 0)))
      = sext 24 (le_val A)" if "length A = 3"
  proof -
    from that obtain a b c where "A = [a, b, c]" by (auto simp: length_small_conv)
    then show ?thesis by (simp only: sint24) simp
  qed
  show "s32 (uint (A ! 0) + shl (uint (A ! 1)) 8 + shl (uint (A ! 2)) 16 + shl (uint (A ! 3)) 24)
      = sext 32 (le_val A)" if "length A = 4"
    using that bounds by (auto simp: length_small_conv shl_mult s_sext algebra_simps)
  show "s64 (uint8_of A) = sext 64 (le_val A)" if "length A = 8"
    using that bounds by (simp add: uint_of_le_val s_sext)
qed

lemma skorr_be_val:
  "mi_sint1korr = korr (\<lambda>A. sext 8 (be_val A)) 1" "mi_sint2korr = korr (\<lambda>A. sext 16 (be_val A)) 2"
  "mi_sint3korr = korr (\<lambda>A. sext 24 (be_val A)) 3" "mi_sint4korr = korr (\<lambda>A. sext 32 (be_val A)) 4"
  unfolding mi_sint1korr_def mi_sint2korr_def mi_sint3korr_def mi_sint4korr_def
proof (rule_tac [!] korr_cong)
  fix A :: buffer
  show "s8 (uint (A ! 0)) = sext 8 (be_val A)" if "length A = 1"
    using that [unfolded length_small_conv] by (auto simp: be_val_def s_sext)
  show "s16 (uint (A ! 1) + shl (s16 (s8 (uint (A ! 0)))) 8) = sext 16 (be_val A)" if "length A = 2"
    using that by (auto simp: length_small_conv sext_top_byte)
  show "s32 (if and (uint (A ! 0)) 128 \<noteq> 0
      then or (or (or (shl 255 24) (shl (uint (A ! 0)) 16)) (shl (uint (A ! 1)) 8)) (uint (A ! 2))
      else or (or (shl (uint (A ! 0)) 16) (shl (uint (A ! 1)) 8)) (uint (A ! 2)))
      = sext 24 (be_val A)" if "length A = 3"
  proof -
    from that obtain a b c where "A = [a, b, c]" by (auto simp: length_small_conv)
    then show ?thesis by (simp only: sint24) (simp add: be_val_def)
  qed
  show "s32 (uint (A ! 3) + shl (uint (A ! 2)) 8 + shl (uint (A ! 1)) 16
      + shl (s16 (s8 (uint (A ! 0)))) 24) = sext 32 (be_val A)" if "length A = 4"
    using that by (auto simp: length_small_conv sext_top_byte)
qed

text \<open>Every reader/writer pair is a codec.\<close>

interpretation le: int_codec n le_val "le_bytes n" for n
  by unfold_locales (simp_all add: le_val_le_bytes le_val_inj)

interpretation be: int_codec n be_val "be_bytes n" for n
  by unfold_locales (simp_all add: be_val_be_bytes be_val_inj)

lemma sext_mod_id: "0 < n \<Longrightarrow> - (2 ^ (n - 1)) \<le> x \<Longrightarrow> x < 2 ^ (n - 1) \<Longrightarrow> sext n (x mod 2 ^ n) = x"
proof -
  assume n: "0 < n" and lo: "- (2 ^ (n - 1)) \<le> x" and hi: "x < 2 ^ (n - 1)"
  have two: "(2::int) ^ n = 2 * 2 ^ (n - 1)" using n by (cases n) simp_all
  show ?thesis
  proof (cases "0 \<le> x")
    case True
    then have "x mod 2 ^ n = x" using hi two by simp
    then show ?thesis using hi by (simp add: sext_def)
  next
    case False
    have "x mod 2 ^ n = (x + 2 ^ n) mod 2 ^ n" by simp
    also have "\<dots> = x + 2 ^ n"
      using False lo two by (intro mod_pos_pos_trivial) linarith+
    finally show ?thesis using lo two by (simp add: sext_def)
  qed
qed

lemma korr_comp: "korr (\<lambda>A. f (g A)) n buf off = map_option f (korr g n buf off)"
  by (simp add: korr_def option.map_comp o_def)

lemmas sext_id = sext_mod_id [of 8, simplified] sext_mod_id [of 16, simplified]
  sext_mod_id [of 24, simplified] sext_mod_id [of 32, simplified] sext_mod_id [of 64, simplified]

text \<open>Reading behind a prefix of the buffer.\<close>

lemma korr_drop: "length xs \<le> k \<Longrightarrow> korr f n (xs @ ys) k = korr f n ys (k - length xs)"
  by (auto simp: korr_def bytes_at_def)

lemma byte_at_drop: "length xs \<le> k \<Longrightarrow> byte_at (xs @ ys) k = byte_at ys (k - length xs)"
  by (auto simp: byte_at_def nth_append)

lemma korr_Cons: "korr f n (x # ys) (Suc k) = korr f n ys k"
  by (auto simp: korr_def bytes_at_def)

lemmas store_read_simps = ukorr_le_val ukorr_be_val skorr_le_val skorr_be_val korr_comp
  store_le_bytes mi_store_be_bytes korr_drop byte_at_drop le.korr_store_first be.korr_store_first

section \<open>Properties\<close>

text \<open>What a low-byte-first writer stores, the unsigned reader of that width reads back from
  wherever in a buffer it was stored, reduced to the width of the format; no other byte of the
  buffer matters.\<close>

theorem le_store_read_back:
  "uint2korr (pre @ int2store x @ post) (length pre) = Some (x mod 2 ^ 16)
 \<and> uint3korr (pre @ int3store x @ post) (length pre) = Some (x mod 2 ^ 24)
 \<and> uint4korr (pre @ int4store x @ post) (length pre) = Some (x mod 2 ^ 32)
 \<and> uint5korr (pre @ int5store x @ post) (length pre) = Some (x mod 2 ^ 40)
 \<and> uint6korr (pre @ int6store x @ post) (length pre) = Some (x mod 2 ^ 48)
 \<and> uint8korr (pre @ int8store x @ post) (length pre) = Some (x mod 2 ^ 64)"
  by (simp add: store_le_bytes ukorr_le_val le.korr_store)

text \<open>The high-byte-first formats of \<open>myisampack.h\<close> read back what they store, for every width
  from two to eight bytes.\<close>

theorem mi_store_read_back:
  "mi_uint2korr (pre @ mi_int2store x @ post) (length pre) = Some (x mod 2 ^ 16)
 \<and> mi_uint3korr (pre @ mi_int3store x @ post) (length pre) = Some (x mod 2 ^ 24)
 \<and> mi_uint4korr (pre @ mi_int4store x @ post) (length pre) = Some (x mod 2 ^ 32)
 \<and> mi_uint5korr (pre @ mi_int5store x @ post) (length pre) = Some (x mod 2 ^ 40)
 \<and> mi_uint6korr (pre @ mi_int6store x @ post) (length pre) = Some (x mod 2 ^ 48)
 \<and> mi_uint7korr (pre @ mi_int7store x @ post) (length pre) = Some (x mod 2 ^ 56)
 \<and> mi_uint8korr (pre @ mi_int8store x @ post) (length pre) = Some (x mod 2 ^ 64)"
  by (simp add: mi_store_be_bytes ukorr_be_val be.korr_store)

text \<open>The signed readers, low and high byte first, recover every value of their range, negative
  ones included, from the bytes the writers store.\<close>

theorem signed_read_back:
  assumes "- (2 ^ 15) \<le> x2" "x2 < 2 ^ 15" and "- (2 ^ 23) \<le> x3" "x3 < 2 ^ 23"
    and "- (2 ^ 31) \<le> x4" "x4 < 2 ^ 31" and "- (2 ^ 63) \<le> x8" "x8 < 2 ^ 63"
  shows "sint2korr (pre @ int2store x2 @ post) (length pre) = Some x2
   \<and> sint3korr (pre @ int3store x3 @ post) (length pre) = Some x3
   \<and> sint4korr (pre @ int4store x4 @ post) (length pre) = Some x4
   \<and> sint8korr (pre @ int8store x8 @ post) (length pre) = Some x8
   \<and> mi_sint2korr (pre @ mi_int2store x2 @ post) (length pre) = Some x2
   \<and> mi_sint3korr (pre @ mi_int3store x3 @ post) (length pre) = Some x3
   \<and> mi_sint4korr (pre @ mi_int4store x4 @ post) (length pre) = Some x4"
  using assms
  by (simp add: skorr_le_val skorr_be_val korr_comp store_le_bytes mi_store_be_bytes
      le.korr_store be.korr_store sext_id)

theorem signed_read_back_witness:
  "sint2korr ([7] @ int2store (-2) @ [9]) (length [7 :: uchar]) = Some (-2)
 \<and> mi_sint3korr ([7] @ mi_int3store (-70000) @ [9]) (length [7 :: uchar]) = Some (-70000)"
  using signed_read_back [of "-2" "-70000" 0 0 "[7]" "[9]"] by simp

end
