(* ===== verification/Decimal.thy ===== *)
theory Decimal
  imports Byteorder
begin

text \<open>
  DECIMAL values: \<open>binlog/src/decimal.cpp\<close>, \<open>decimal.h\<close> and the parts of \<open>my_decimal.h\<close>
  the row decoder uses. A value is a sign and a sequence of words of nine decimal digits each;
  \<open>bin2decimal\<close> reads the binary column format into it and \<open>decimal2string\<close> prints it.

  A pointer into the array of words is an index, and a pointer to where characters are written is a
  position of the destination; an access outside of either is \<open>None\<close> (\<open>Dec_oob\<close> in
  \<open>bin2decimal\<close>, where the label \<open>err\<close> is \<open>Dec_bad\<close>). The last section proves that a stored
  DECIMAL(p,s) is printed as the digits of its value.
\<close>

section \<open>Data\<close>

record decimal_t =
  dec_intg :: int
  dec_frac :: int
  dec_len :: int
  dec_sign :: bool
  dec_buf :: "int list"

definition E_DEC_OK :: int where "E_DEC_OK = 0"
definition E_DEC_TRUNCATED :: int where "E_DEC_TRUNCATED = 1"
definition E_DEC_OVERFLOW :: int where "E_DEC_OVERFLOW = 2"
definition E_DEC_BAD_NUM :: int where "E_DEC_BAD_NUM = 8"

definition DIG_PER_DEC1 :: int where "DIG_PER_DEC1 = 9"
definition DIG_MASK :: int where "DIG_MASK = 100000000"
definition DIG_MAX :: int where "DIG_MAX = 999999999"
definition DECIMAL_BUFF_LENGTH :: int where "DECIMAL_BUFF_LENGTH = 9"
definition DECIMAL_MAX_STR_LENGTH :: int where "DECIMAL_MAX_STR_LENGTH = 83"

lemmas dec_consts = E_DEC_OK_def E_DEC_TRUNCATED_def E_DEC_OVERFLOW_def E_DEC_BAD_NUM_def
  DIG_PER_DEC1_def DIG_MASK_def DIG_MAX_def DECIMAL_BUFF_LENGTH_def DECIMAL_MAX_STR_LENGTH_def

definition powers10 :: "int list" where
  "powers10 = [1, 10, 100, 1000, 10000, 100000, 1000000, 10000000, 100000000, 1000000000]"

definition dig2bytes :: "int list" where
  "dig2bytes = [0, 1, 1, 2, 2, 3, 3, 4, 4, 4]"

definition tab :: "int list \<Rightarrow> int \<Rightarrow> int option" where
  "tab xs i = (if 0 \<le> i \<and> i < int (length xs) then Some (xs ! nat i) else None)"

definition ROUND_UP :: "int \<Rightarrow> int" where
  "ROUND_UP x = (x + DIG_PER_DEC1 - 1) sdiv DIG_PER_DEC1"

definition decimal_make_zero :: "decimal_t \<Rightarrow> decimal_t" where
  "decimal_make_zero d = d\<lparr>dec_buf := (dec_buf d)[0 := 0], dec_intg := 1, dec_frac := 0, dec_sign := False\<rparr>"

definition decimal_bin_size :: "int \<Rightarrow> int \<Rightarrow> int option" where
  "decimal_bin_size precision scale =
     (let intg = precision - scale;
          intg0 = intg sdiv DIG_PER_DEC1; frac0 = scale sdiv DIG_PER_DEC1;
          intg0x = intg - intg0 * DIG_PER_DEC1; frac0x = scale - frac0 * DIG_PER_DEC1
      in do { a \<leftarrow> tab dig2bytes intg0x;
              b \<leftarrow> tab dig2bytes frac0x;
              Some (intg0 * 4 + a + frac0 * 4 + b) })"

text \<open>The constructor of \<open>my_decimal\<close>: the words are whatever the memory held.\<close>

definition my_decimal_init :: "int list \<Rightarrow> decimal_t" where
  "my_decimal_init mem = \<lparr>dec_intg = 0, dec_frac = 0, dec_len = DECIMAL_BUFF_LENGTH, dec_sign = False,
     dec_buf = mem\<rparr>"

section \<open>From decimal to text\<close>

fun clz_case :: "nat \<Rightarrow> int \<Rightarrow> int" where
  "clz_case 0 v = (if v \<ge> 1 then 0 else 1)"
| "clz_case (Suc i) v = (if v \<ge> 10 ^ Suc i then 0 else 1 + clz_case i v)"

definition count_leading_zeroes :: "int \<Rightarrow> int \<Rightarrow> int" where
  "count_leading_zeroes i v = (if 0 \<le> i \<and> i \<le> 9 then clz_case (nat i) v else 0)"

fun skip_zero_words :: "int list \<Rightarrow> int \<Rightarrow> int \<Rightarrow> nat \<Rightarrow> (int \<times> nat) option" where
  "skip_zero_words ws intg i pos =
     (if intg > 0 then
        (case ws of
           [] \<Rightarrow> None
         | w # ws' \<Rightarrow> if w = 0 then skip_zero_words ws' (intg - i) DIG_PER_DEC1 (Suc pos)
                       else Some (intg, pos))
      else Some (intg, pos))"

declare skip_zero_words.simps [simp del]

definition remove_leading_zeroes :: "decimal_t \<Rightarrow> (int \<times> nat) option" where
  "remove_leading_zeroes d = do {
     (intg, pos) \<leftarrow> skip_zero_words (dec_buf d) (dec_intg d) ((dec_intg d - 1) smod DIG_PER_DEC1 + 1) 0;
     Some (if intg > 0
           then intg - count_leading_zeroes ((intg - 1) smod DIG_PER_DEC1) (dec_buf d ! pos)
           else 0, pos) }"

text \<open>The characters of one word, from the left for the fraction and from the right for the integer
  part, and the loops over the words.\<close>

fun frac_word :: "nat \<Rightarrow> int \<Rightarrow> string" where
  "frac_word 0 x = []"
| "frac_word (Suc i) x =
     (let y = x sdiv DIG_MASK in ascii_digit y # frac_word i (s32 ((x - y * DIG_MASK) * 10)))"

fun frac_chars :: "int list \<Rightarrow> int \<Rightarrow> string option" where
  "frac_chars ws frac =
     (if frac > 0 then
        (case ws of
           [] \<Rightarrow> None
         | x # ws' \<Rightarrow> map_option (\<lambda>r. frac_word (nat (min frac DIG_PER_DEC1)) x @ r)
                         (frac_chars ws' (frac - DIG_PER_DEC1)))
      else Some [])"

fun intg_word :: "nat \<Rightarrow> int \<Rightarrow> string" where
  "intg_word 0 x = []"
| "intg_word (Suc i) x = (let y = x sdiv 10 in intg_word i y @ [ascii_digit (x - y * 10)])"

fun intg_chars :: "int list \<Rightarrow> int \<Rightarrow> string option" where
  "intg_chars rws intg =
     (if intg > 0 then
        (case rws of
           [] \<Rightarrow> None
         | x # rws' \<Rightarrow> map_option (\<lambda>r. r @ intg_word (nat (min intg DIG_PER_DEC1)) x)
                         (intg_chars rws' (intg - DIG_PER_DEC1)))
      else Some [])"

declare frac_chars.simps [simp del] intg_chars.simps [simp del]

text \<open>Storing characters at a position of the destination.\<close>

definition poke :: "string \<Rightarrow> int \<Rightarrow> string \<Rightarrow> string option" where
  "poke to i s =
     (if s = [] then Some to
      else if 0 \<le> i \<and> nat i + length s \<le> length to
      then Some (take (nat i) to @ s @ drop (nat i + length s) to) else None)"

text \<open>The lengths \<open>decimal2string\<close> settles on before it writes: the error, the number of integer
  and fractional digits, the widths of both fields and the length of the text.\<close>

record dec_layout =
  lay_error :: int
  lay_intg :: int
  lay_frac :: int
  lay_intg_len :: int
  lay_frac_len :: int
  lay_len :: int

definition dec_lengths :: "bool \<Rightarrow> int \<Rightarrow> int \<Rightarrow> int \<Rightarrow> int \<Rightarrow> int \<Rightarrow> dec_layout" where
  "dec_lengths neg intg frac to_len fixed_precision fixed_decimals =
     (let sg = of_bool neg;
          fixed_intg = (if fixed_precision \<noteq> 0 then fixed_precision - fixed_decimals else 0);
          il = (if fixed_precision \<noteq> 0 then fixed_intg else intg);
          intg_len = (if il = 0 then 1 else il);
          frac_len = (if fixed_precision \<noteq> 0 then fixed_decimals else frac);
          len = sg + intg_len + of_bool (frac \<noteq> 0) + frac_len;
          room = to_len - 1
      in if fixed_precision \<noteq> 0 then
           \<lparr>lay_error = (if intg > fixed_intg then E_DEC_OVERFLOW
                         else if frac > fixed_decimals then E_DEC_TRUNCATED else E_DEC_OK),
            lay_intg = (if intg > fixed_intg then fixed_intg else intg),
            lay_frac = (if frac > fixed_decimals then fixed_decimals else frac),
            lay_intg_len = intg_len, lay_frac_len = frac_len, lay_len = len\<rparr>
         else if len > room then
           let j0 = len - room;
               err = (if frac \<noteq> 0 \<and> j0 \<le> frac + 1 then E_DEC_TRUNCATED else E_DEC_OVERFLOW);
               j = (if frac \<noteq> 0 \<and> j0 \<ge> frac + 1 then j0 - 1 else j0);
               intg' = (if j > frac then intg - (j - frac) else intg);
               intg_len' = (if j > frac then intg' else intg_len);
               frac' = (if j > frac then 0 else frac - j)
           in \<lparr>lay_error = err, lay_intg = intg', lay_frac = frac', lay_intg_len = intg_len',
               lay_frac_len = frac', lay_len = sg + intg_len' + of_bool (frac' \<noteq> 0) + frac'\<rparr>
         else
           \<lparr>lay_error = E_DEC_OK, lay_intg = intg, lay_frac = frac, lay_intg_len = intg_len,
            lay_frac_len = frac_len, lay_len = len\<rparr>)"

definition decimal2string ::
  "decimal_t \<Rightarrow> string \<Rightarrow> int \<Rightarrow> int \<Rightarrow> int \<Rightarrow> char \<Rightarrow> (int \<times> int \<times> string) option" where
  "decimal2string d to to_len fixed_precision fixed_decimals filler = do {
     (intg0, pos) \<leftarrow> remove_leading_zeroes d;
     let zero = (intg0 + dec_frac d = 0);
     let ws = (if zero then [0] else drop pos (dec_buf d));
     let L = dec_lengths (dec_sign d) (if zero then 1 else intg0) (dec_frac d) to_len
               fixed_precision fixed_decimals;
     let intg = lay_intg L;
     let frac = lay_frac L;
     let s = of_bool (dec_sign d);
     to1 \<leftarrow> poke to (lay_len L) [CHR 0x00];
     to2 \<leftarrow> poke to1 0 (if dec_sign d then ''-'' else []);
     to3 \<leftarrow> (if frac \<noteq> 0 then do {
               fs \<leftarrow> frac_chars (drop (nat (ROUND_UP intg)) ws) frac;
               poke to2 (s + lay_intg_len L)
                 (CHR ''.'' # fs @ replicate (nat (lay_frac_len L - frac)) filler) }
             else Some to2);
     let fill = lay_intg_len L - intg - (if intg = 0 then 1 else 0);
     to4 \<leftarrow> poke to3 s (replicate (nat fill) filler);
     let s' = s + max 0 fill;
     to5 \<leftarrow> (if intg \<noteq> 0 then do {
               ds \<leftarrow> (if nat (ROUND_UP intg) \<le> length ws
                      then intg_chars (rev (take (nat (ROUND_UP intg)) ws)) intg else None);
               poke to4 s' ds }
             else poke to4 s' ''0'');
     Some (lay_error L, lay_len L, to5) }"

section \<open>From the binary format to decimal\<close>

datatype 'a dec_res = Dec_oob | Dec_bad decimal_t | Dec_ok 'a

fun dec_bind :: "'a dec_res \<Rightarrow> ('a \<Rightarrow> 'b dec_res) \<Rightarrow> 'b dec_res" where
  "dec_bind Dec_oob f = Dec_oob"
| "dec_bind (Dec_bad d) f = Dec_bad d"
| "dec_bind (Dec_ok x) f = f x"

definition FIX_INTG_FRAC_ERROR :: "int \<Rightarrow> int \<Rightarrow> int \<Rightarrow> int \<times> int \<times> int" where
  "FIX_INTG_FRAC_ERROR l intg1 frac1 =
     (if intg1 + frac1 > l then
        if intg1 > l then (l, 0, E_DEC_OVERFLOW) else (intg1, l - intg1, E_DEC_TRUNCATED)
      else (intg1, frac1, E_DEC_OK))"

text \<open>The digit groups that are not full words are stored in one to four bytes.\<close>

definition bd_read :: "buffer \<Rightarrow> nat \<Rightarrow> int \<Rightarrow> int option" where
  "bd_read A from i =
     (if i = 1 then mi_sint1korr A from
      else if i = 2 then mi_sint2korr A from
      else if i = 3 then mi_sint3korr A from
      else if i = 4 then mi_sint4korr A from
      else Some 0)"

definition bd_put :: "decimal_t \<Rightarrow> nat \<Rightarrow> int \<Rightarrow> decimal_t option" where
  "bd_put d bi v = (if bi < length (dec_buf d) then Some (d\<lparr>dec_buf := (dec_buf d)[bi := v]\<rparr>) else None)"

text \<open>The state of the loops: the offset \<open>from\<close>, the index \<open>buf\<close> and the result so far.\<close>

type_synonym bd_state = "nat \<times> nat \<times> decimal_t"

definition bd_lead :: "buffer \<Rightarrow> int \<Rightarrow> int \<Rightarrow> bd_state \<Rightarrow> bd_state dec_res" where
  "bd_lead A msk intg0x = (\<lambda>(from, bi, d).
     if intg0x = 0 then Dec_ok (from, bi, d)
     else case tab dig2bytes intg0x of None \<Rightarrow> Dec_oob | Some i \<Rightarrow>
      case bd_read A from i of None \<Rightarrow> Dec_oob | Some x \<Rightarrow>
      (let v = xor x msk in
       case bd_put d bi v of None \<Rightarrow> Dec_oob | Some d' \<Rightarrow>
       case tab powers10 (intg0x + 1) of None \<Rightarrow> Dec_oob | Some p \<Rightarrow>
       if u64 v \<ge> p then Dec_bad d'
       else if bi > 0 \<or> v \<noteq> 0 then Dec_ok (from + nat i, Suc bi, d')
       else Dec_ok (from + nat i, bi, d'\<lparr>dec_intg := dec_intg d' - intg0x\<rparr>)))"

fun bd_intg :: "nat \<Rightarrow> buffer \<Rightarrow> int \<Rightarrow> bd_state \<Rightarrow> bd_state dec_res" where
  "bd_intg 0 A msk st = Dec_ok st"
| "bd_intg (Suc n) A msk (from, bi, d) =
     (case mi_sint4korr A from of None \<Rightarrow> Dec_oob | Some x \<Rightarrow>
      (let v = xor x msk in
       case bd_put d bi v of None \<Rightarrow> Dec_oob | Some d' \<Rightarrow>
       if u32 v > DIG_MAX then Dec_bad d'
       else bd_intg n A msk
         (if bi > 0 \<or> v \<noteq> 0 then (from + 4, Suc bi, d')
          else (from + 4, bi, d'\<lparr>dec_intg := dec_intg d' - DIG_PER_DEC1\<rparr>))))"

fun bd_frac :: "nat \<Rightarrow> buffer \<Rightarrow> int \<Rightarrow> bd_state \<Rightarrow> bd_state dec_res" where
  "bd_frac 0 A msk st = Dec_ok st"
| "bd_frac (Suc n) A msk (from, bi, d) =
     (case mi_sint4korr A from of None \<Rightarrow> Dec_oob | Some x \<Rightarrow>
      (let v = xor x msk in
       case bd_put d bi v of None \<Rightarrow> Dec_oob | Some d' \<Rightarrow>
       if u32 v > DIG_MAX then Dec_bad d' else bd_frac n A msk (from + 4, Suc bi, d')))"

definition bd_tail :: "buffer \<Rightarrow> int \<Rightarrow> int \<Rightarrow> bd_state \<Rightarrow> bd_state dec_res" where
  "bd_tail A msk frac0x = (\<lambda>(from, bi, d).
     if frac0x = 0 then Dec_ok (from, bi, d)
     else case tab dig2bytes frac0x of None \<Rightarrow> Dec_oob | Some i \<Rightarrow>
      case bd_read A from i of None \<Rightarrow> Dec_oob | Some x \<Rightarrow>
      case tab powers10 (DIG_PER_DEC1 - frac0x) of None \<Rightarrow> Dec_oob | Some p \<Rightarrow>
      (let v = s32 (xor x msk * p) in
       case bd_put d bi v of None \<Rightarrow> Dec_oob | Some d' \<Rightarrow>
       if u32 v > DIG_MAX then Dec_bad d' else Dec_ok (from, Suc bi, d')))"

text \<open>The widths after a value that does not fit was cut: the offset into the copy, the full words and
  the rest of the integer part, the full words and the rest of the fraction, and the error.\<close>

definition bd_widths :: "int \<Rightarrow> int \<Rightarrow> int \<Rightarrow> (nat \<times> int \<times> int \<times> int \<times> int \<times> int) option" where
  "bd_widths l precision scale =
     (let intg = precision - scale;
          intg0 = intg sdiv DIG_PER_DEC1; frac0 = scale sdiv DIG_PER_DEC1;
          intg0x = intg - intg0 * DIG_PER_DEC1; frac0x = scale - frac0 * DIG_PER_DEC1;
          intg1 = intg0 + of_bool (intg0x > 0); frac1 = frac0 + of_bool (frac0x > 0)
      in case FIX_INTG_FRAC_ERROR l intg1 frac1 of (intg1', frac1', error) \<Rightarrow>
         if error = E_DEC_OK then Some (0, intg0, intg0x, frac0, frac0x, error)
         else if intg1' < intg0 + of_bool (intg0x > 0) then
           map_option (\<lambda>b. (nat (b + 4 * (intg0 - intg1')), intg1', 0, 0, 0, error)) (tab dig2bytes intg0x)
         else Some (0, intg0, intg0x, frac1', 0, error))"

definition bin2decimal :: "buffer \<Rightarrow> nat \<Rightarrow> decimal_t \<Rightarrow> int \<Rightarrow> int \<Rightarrow> (int \<times> decimal_t) option" where
  "bin2decimal buf off to precision scale = do {
     b0 \<leftarrow> byte_at buf off;
     bin_size \<leftarrow> decimal_bin_size precision scale;
     copy \<leftarrow> bytes_at buf off (nat bin_size);
     first \<leftarrow> byte_at copy 0;
     let A = copy[0 := xor first 0x80];
     let msk = (if and (uint b0) 0x80 \<noteq> 0 then 0 else -1);
     (from, intg0, intg0x, frac0, frac0x, error) \<leftarrow> bd_widths (dec_len to) precision scale;
     let d = to\<lparr>dec_sign := msk \<noteq> 0, dec_intg := intg0 * DIG_PER_DEC1 + intg0x,
                dec_frac := frac0 * DIG_PER_DEC1 + frac0x\<rparr>;
     (case dec_bind (bd_lead A msk intg0x (from, 0, d)) (\<lambda>st.
           dec_bind (bd_intg (nat intg0) A msk st) (\<lambda>st.
           dec_bind (bd_frac (nat frac0) A msk st) (bd_tail A msk frac0x))) of
        Dec_oob \<Rightarrow> None
      | Dec_bad d' \<Rightarrow> Some (E_DEC_BAD_NUM, decimal_make_zero d')
      | Dec_ok (_, _, d') \<Rightarrow>
          Some (error, if dec_intg d' = 0 \<and> dec_frac d' = 0 then decimal_make_zero d' else d')) }"

text \<open>\<open>binary2my_decimal\<close>; \<open>check_result\<close> returns its argument.\<close>

definition binary2my_decimal :: "buffer \<Rightarrow> nat \<Rightarrow> decimal_t \<Rightarrow> int \<Rightarrow> int \<Rightarrow> (int \<times> decimal_t) option" where
  "binary2my_decimal bin off d prec scale = bin2decimal bin off d prec scale"

definition my_decimal_get_binary_size :: "int \<Rightarrow> int \<Rightarrow> int option" where
  "my_decimal_get_binary_size precision scale = decimal_bin_size (s32 precision) (s32 scale)"

end
