(* ===== verification/Tabledef.thy ===== *)
theory Tabledef
  imports Decimal
begin

text \<open>
  Table definitions: the column types of \<open>binary_log_types.h\<close>, the sizes of column values of
  \<open>binary_log_funcs.cpp\<close> and the class \<open>CTableDef\<close> (\<open>TableDef.cpp\<close>, \<open>TableDef.h\<close>), which
  unpacks the metadata of a table map event.

  A column type is the number the binary log carries. An access outside of a vector, a read outside of
  the event and a shift by a width that C++ leaves undefined are \<open>None\<close>.
\<close>

section \<open>Column types\<close>

definition MYSQL_TYPE_DECIMAL :: int where "MYSQL_TYPE_DECIMAL = 0"
definition MYSQL_TYPE_TINY :: int where "MYSQL_TYPE_TINY = 1"
definition MYSQL_TYPE_SHORT :: int where "MYSQL_TYPE_SHORT = 2"
definition MYSQL_TYPE_LONG :: int where "MYSQL_TYPE_LONG = 3"
definition MYSQL_TYPE_FLOAT :: int where "MYSQL_TYPE_FLOAT = 4"
definition MYSQL_TYPE_DOUBLE :: int where "MYSQL_TYPE_DOUBLE = 5"
definition MYSQL_TYPE_NULL :: int where "MYSQL_TYPE_NULL = 6"
definition MYSQL_TYPE_TIMESTAMP :: int where "MYSQL_TYPE_TIMESTAMP = 7"
definition MYSQL_TYPE_LONGLONG :: int where "MYSQL_TYPE_LONGLONG = 8"
definition MYSQL_TYPE_INT24 :: int where "MYSQL_TYPE_INT24 = 9"
definition MYSQL_TYPE_DATE :: int where "MYSQL_TYPE_DATE = 10"
definition MYSQL_TYPE_TIME :: int where "MYSQL_TYPE_TIME = 11"
definition MYSQL_TYPE_DATETIME :: int where "MYSQL_TYPE_DATETIME = 12"
definition MYSQL_TYPE_YEAR :: int where "MYSQL_TYPE_YEAR = 13"
definition MYSQL_TYPE_NEWDATE :: int where "MYSQL_TYPE_NEWDATE = 14"
definition MYSQL_TYPE_VARCHAR :: int where "MYSQL_TYPE_VARCHAR = 15"
definition MYSQL_TYPE_BIT :: int where "MYSQL_TYPE_BIT = 16"
definition MYSQL_TYPE_TIMESTAMP2 :: int where "MYSQL_TYPE_TIMESTAMP2 = 17"
definition MYSQL_TYPE_DATETIME2 :: int where "MYSQL_TYPE_DATETIME2 = 18"
definition MYSQL_TYPE_TIME2 :: int where "MYSQL_TYPE_TIME2 = 19"
definition MYSQL_TYPE_JSON :: int where "MYSQL_TYPE_JSON = 245"
definition MYSQL_TYPE_NEWDECIMAL :: int where "MYSQL_TYPE_NEWDECIMAL = 246"
definition MYSQL_TYPE_ENUM :: int where "MYSQL_TYPE_ENUM = 247"
definition MYSQL_TYPE_SET :: int where "MYSQL_TYPE_SET = 248"
definition MYSQL_TYPE_TINY_BLOB :: int where "MYSQL_TYPE_TINY_BLOB = 249"
definition MYSQL_TYPE_MEDIUM_BLOB :: int where "MYSQL_TYPE_MEDIUM_BLOB = 250"
definition MYSQL_TYPE_LONG_BLOB :: int where "MYSQL_TYPE_LONG_BLOB = 251"
definition MYSQL_TYPE_BLOB :: int where "MYSQL_TYPE_BLOB = 252"
definition MYSQL_TYPE_VAR_STRING :: int where "MYSQL_TYPE_VAR_STRING = 253"
definition MYSQL_TYPE_STRING :: int where "MYSQL_TYPE_STRING = 254"
definition MYSQL_TYPE_GEOMETRY :: int where "MYSQL_TYPE_GEOMETRY = 255"

lemmas mysql_types =
  MYSQL_TYPE_DECIMAL_def MYSQL_TYPE_TINY_def MYSQL_TYPE_SHORT_def MYSQL_TYPE_LONG_def
  MYSQL_TYPE_FLOAT_def MYSQL_TYPE_DOUBLE_def MYSQL_TYPE_NULL_def MYSQL_TYPE_TIMESTAMP_def
  MYSQL_TYPE_LONGLONG_def MYSQL_TYPE_INT24_def MYSQL_TYPE_DATE_def MYSQL_TYPE_TIME_def
  MYSQL_TYPE_DATETIME_def MYSQL_TYPE_YEAR_def MYSQL_TYPE_NEWDATE_def MYSQL_TYPE_VARCHAR_def
  MYSQL_TYPE_BIT_def MYSQL_TYPE_TIMESTAMP2_def MYSQL_TYPE_DATETIME2_def MYSQL_TYPE_TIME2_def
  MYSQL_TYPE_JSON_def MYSQL_TYPE_NEWDECIMAL_def MYSQL_TYPE_ENUM_def MYSQL_TYPE_SET_def
  MYSQL_TYPE_TINY_BLOB_def MYSQL_TYPE_MEDIUM_BLOB_def MYSQL_TYPE_LONG_BLOB_def MYSQL_TYPE_BLOB_def
  MYSQL_TYPE_VAR_STRING_def MYSQL_TYPE_STRING_def MYSQL_TYPE_GEOMETRY_def

section \<open>Sizes\<close>

definition uint_max :: "int \<Rightarrow> int option" where
  "uint_max bits =
     (if 1 \<le> bits \<and> bits \<le> 32 then Some (or (u32 (shl (u32 (shl 1 (nat (bits - 1)) - 1)) 1)) 1) else None)"

definition my_time_binary_length :: "int \<Rightarrow> int" where
  "my_time_binary_length dec = 3 + (dec + 1) div 2"

definition my_datetime_binary_length :: "int \<Rightarrow> int" where
  "my_datetime_binary_length dec = 5 + (dec + 1) div 2"

definition my_timestamp_binary_length :: "int \<Rightarrow> int" where
  "my_timestamp_binary_length dec = 4 + (dec + 1) div 2"

definition max_display_length_for_field :: "int \<Rightarrow> int \<Rightarrow> int option" where
  "max_display_length_for_field sql_type metadata =
     (if sql_type = MYSQL_TYPE_NEWDECIMAL then Some (shr metadata 8)
      else if sql_type = MYSQL_TYPE_FLOAT then Some 12
      else if sql_type = MYSQL_TYPE_DOUBLE then Some 22
      else if sql_type = MYSQL_TYPE_SET \<or> sql_type = MYSQL_TYPE_ENUM then Some (and metadata 0xff)
      else if sql_type = MYSQL_TYPE_STRING then
        (let type = u8 (shr metadata 8) in
         if type = MYSQL_TYPE_SET \<or> type = MYSQL_TYPE_ENUM then Some (and metadata 0xff)
         else Some (xor (and (shr metadata 4) 0x300) 0x300 + and metadata 0xff))
      else if sql_type = MYSQL_TYPE_YEAR \<or> sql_type = MYSQL_TYPE_TINY then Some 4
      else if sql_type = MYSQL_TYPE_SHORT then Some 6
      else if sql_type = MYSQL_TYPE_INT24 then Some 9
      else if sql_type = MYSQL_TYPE_LONG then Some 11
      else if sql_type = MYSQL_TYPE_LONGLONG then Some 20
      else if sql_type = MYSQL_TYPE_NULL then Some 0
      else if sql_type = MYSQL_TYPE_NEWDATE then Some 3
      else if sql_type = MYSQL_TYPE_DATE \<or> sql_type = MYSQL_TYPE_TIME \<or> sql_type = MYSQL_TYPE_TIME2 then Some 3
      else if sql_type = MYSQL_TYPE_TIMESTAMP \<or> sql_type = MYSQL_TYPE_TIMESTAMP2 then Some 4
      else if sql_type = MYSQL_TYPE_DATETIME \<or> sql_type = MYSQL_TYPE_DATETIME2 then Some 8
      else if sql_type = MYSQL_TYPE_BIT then Some (u32 (8 * shr metadata 8 + and metadata 0xff))
      else if sql_type = MYSQL_TYPE_VAR_STRING \<or> sql_type = MYSQL_TYPE_VARCHAR then Some metadata
      else if sql_type = MYSQL_TYPE_TINY_BLOB then uint_max (1 * 8)
      else if sql_type = MYSQL_TYPE_MEDIUM_BLOB then uint_max (3 * 8)
      else if sql_type = MYSQL_TYPE_BLOB then uint_max (s32 (metadata * 8))
      else if sql_type = MYSQL_TYPE_LONG_BLOB \<or> sql_type = MYSQL_TYPE_GEOMETRY \<or> sql_type = MYSQL_TYPE_JSON
        then uint_max (4 * 8)
      else Some 4294967295)"

definition decimal_binary_size :: "int \<Rightarrow> int \<Rightarrow> int option" where
  "decimal_binary_size precision scale =
     (let dig2bytes = [0, 1, 1, 2, 2, 3, 3, 4, 4, 4];
          intg = precision - scale;
          intg0 = intg sdiv 9; frac0 = scale sdiv 9;
          intg0x = intg - intg0 * 9; frac0x = scale - frac0 * 9
      in do { a \<leftarrow> tab dig2bytes intg0x;
              b \<leftarrow> tab dig2bytes frac0x;
              Some (intg0 * 4 + a + frac0 * 4 + b) })"

text \<open>A length prefix of one to four bytes, copied into a zeroed \<open>uint32\<close> and converted from low byte
  first.\<close>

definition le_prefix :: "buffer \<Rightarrow> nat \<Rightarrow> nat \<Rightarrow> int option" where
  "le_prefix data off n = map_option le_val (bytes_at data off n)"

definition calc_field_size :: "int \<Rightarrow> buffer \<Rightarrow> nat \<Rightarrow> int \<Rightarrow> int option" where
  "calc_field_size col data off metadata =
     (if col = MYSQL_TYPE_NEWDECIMAL then
        map_option u32 (decimal_binary_size (shr metadata 8) (and metadata 0xff))
      else if col = MYSQL_TYPE_DECIMAL \<or> col = MYSQL_TYPE_FLOAT \<or> col = MYSQL_TYPE_DOUBLE then Some metadata
      else if col = MYSQL_TYPE_SET \<or> col = MYSQL_TYPE_ENUM \<or> col = MYSQL_TYPE_STRING then
        (let type = u8 (shr metadata 8) in
         if type = MYSQL_TYPE_SET \<or> type = MYSQL_TYPE_ENUM then Some (and metadata 0xff)
         else do {
           m \<leftarrow> max_display_length_for_field MYSQL_TYPE_STRING metadata;
           if m > 255 then map_option (\<lambda>t. u32 (2 + t)) (le_prefix data off 2)
           else map_option (\<lambda>t. u32 (1 + t)) (le_prefix data off 1) })
      else if col = MYSQL_TYPE_YEAR \<or> col = MYSQL_TYPE_TINY then Some 1
      else if col = MYSQL_TYPE_SHORT then Some 2
      else if col = MYSQL_TYPE_INT24 then Some 3
      else if col = MYSQL_TYPE_LONG then Some 4
      else if col = MYSQL_TYPE_LONGLONG then Some 8
      else if col = MYSQL_TYPE_NULL then Some 0
      else if col = MYSQL_TYPE_NEWDATE then Some 3
      else if col = MYSQL_TYPE_DATE \<or> col = MYSQL_TYPE_TIME then Some 3
      else if col = MYSQL_TYPE_TIME2 then Some (my_time_binary_length metadata)
      else if col = MYSQL_TYPE_TIMESTAMP then Some 4
      else if col = MYSQL_TYPE_TIMESTAMP2 then Some (my_timestamp_binary_length metadata)
      else if col = MYSQL_TYPE_DATETIME then Some 8
      else if col = MYSQL_TYPE_DATETIME2 then Some (my_datetime_binary_length metadata)
      else if col = MYSQL_TYPE_BIT then
        Some (and (shr metadata 8) 0xff + (if and metadata 0xff > 0 then 1 else 0))
      else if col = MYSQL_TYPE_VARCHAR then
        (if metadata > 255 then map_option (\<lambda>t. u32 (2 + t)) (le_prefix data off 2)
         else map_option (\<lambda>t. u32 (1 + t)) (le_prefix data off 1))
      else if col = MYSQL_TYPE_TINY_BLOB \<or> col = MYSQL_TYPE_MEDIUM_BLOB \<or> col = MYSQL_TYPE_LONG_BLOB
          \<or> col = MYSQL_TYPE_BLOB \<or> col = MYSQL_TYPE_GEOMETRY \<or> col = MYSQL_TYPE_JSON then
        (if metadata = 1 \<or> metadata = 2 \<or> metadata = 3 \<or> metadata = 4
         then map_option (\<lambda>t. u32 (t + metadata)) (le_prefix data off (nat metadata))
         else Some (u32 metadata))
      else Some 4294967295)"

section \<open>The table definition\<close>

record table_def =
  td_column_size :: int
  td_field_metadata_size :: int
  td_flags :: int
  td_column_type :: buffer
  td_null_bits :: buffer
  td_field_metadata :: "int list"

definition binlog_type :: "table_def \<Rightarrow> nat \<Rightarrow> int option" where
  "binlog_type td index = map_option uint (byte_at (td_column_type td) index)"

text \<open>One round of the loop of the constructor: the metadata of a column and the bytes it takes.\<close>

definition one_metadata :: "int \<Rightarrow> buffer \<Rightarrow> nat \<Rightarrow> (int \<times> nat) option" where
  "one_metadata t meta index =
     (if t = MYSQL_TYPE_TINY_BLOB \<or> t = MYSQL_TYPE_BLOB \<or> t = MYSQL_TYPE_MEDIUM_BLOB \<or> t = MYSQL_TYPE_LONG_BLOB
         \<or> t = MYSQL_TYPE_DOUBLE \<or> t = MYSQL_TYPE_FLOAT \<or> t = MYSQL_TYPE_GEOMETRY \<or> t = MYSQL_TYPE_JSON then do {
        b \<leftarrow> byte_at meta index;
        Some (uint b, index + 1) }
      else if t = MYSQL_TYPE_SET \<or> t = MYSQL_TYPE_ENUM \<or> t = MYSQL_TYPE_STRING then do {
        b0 \<leftarrow> byte_at meta index;
        b1 \<leftarrow> byte_at meta (index + 1);
        Some (u16 (u16 (shl (uint b0) 8) + uint b1), index + 2) }
      else if t = MYSQL_TYPE_BIT then do {
        b0 \<leftarrow> byte_at meta index;
        b1 \<leftarrow> byte_at meta (index + 1);
        Some (u16 (uint b0 + shl (uint b1) 8), index + 2) }
      else if t = MYSQL_TYPE_VARCHAR then do {
        x \<leftarrow> uint2korr meta index;
        Some (x, index + 2) }
      else if t = MYSQL_TYPE_NEWDECIMAL then do {
        b0 \<leftarrow> byte_at meta index;
        b1 \<leftarrow> byte_at meta (index + 1);
        Some (u16 (u16 (shl (uint b0) 8) + uint b1), index + 2) }
      else if t = MYSQL_TYPE_TIME2 \<or> t = MYSQL_TYPE_DATETIME2 \<or> t = MYSQL_TYPE_TIMESTAMP2 then do {
        b \<leftarrow> byte_at meta index;
        Some (uint b, index + 1) }
      else Some (0, index))"

fun metadata_loop :: "nat \<Rightarrow> nat \<Rightarrow> table_def \<Rightarrow> buffer \<Rightarrow> nat \<Rightarrow> table_def option" where
  "metadata_loop 0 i td meta index = Some td"
| "metadata_loop (Suc n) i td meta index = do {
     t \<leftarrow> binlog_type td i;
     (x, index') \<leftarrow> one_metadata t meta index;
     metadata_loop n (Suc i) (td\<lparr>td_field_metadata := td_field_metadata td @ [x]\<rparr>) meta index' }"

definition CTableDef :: "buffer \<Rightarrow> int \<Rightarrow> buffer \<Rightarrow> int \<Rightarrow> buffer \<Rightarrow> int \<Rightarrow> table_def option" where
  "CTableDef colType colSize fieldMetadata metadataSize nullBitmap flags =
     (let td = \<lparr>td_column_size = colSize, td_field_metadata_size = metadataSize, td_flags = flags,
                td_column_type = colType, td_null_bits = nullBitmap, td_field_metadata = []\<rparr>
      in if colSize \<noteq> 0 \<and> metadataSize \<noteq> 0 then metadata_loop (nat colSize) 0 td fieldMetadata 0 else Some td)"

definition td_type :: "table_def \<Rightarrow> nat \<Rightarrow> int option" where
  "td_type td index = do {
     t \<leftarrow> binlog_type td index;
     meta \<leftarrow> (if index < length (td_field_metadata td) then Some (td_field_metadata td ! index) else None);
     Some (if t = MYSQL_TYPE_STRING then
             (let real_type = shr meta 8 in
              if real_type = MYSQL_TYPE_ENUM \<or> real_type = MYSQL_TYPE_SET then real_type else t)
           else if t = MYSQL_TYPE_DATE then MYSQL_TYPE_NEWDATE
           else t) }"

definition maybe_null :: "table_def \<Rightarrow> nat \<Rightarrow> bool option" where
  "maybe_null td index = do {
     b \<leftarrow> byte_at (td_null_bits td) (index div 8);
     Some (and (uint b) (shl 1 (index mod 8)) = shl 1 (index mod 8)) }"

definition field_metadata :: "table_def \<Rightarrow> nat \<Rightarrow> int option" where
  "field_metadata td index =
     (if td_field_metadata_size td \<noteq> 0
      then (if index < length (td_field_metadata td) then Some (td_field_metadata td ! index) else None)
      else Some 0)"

definition td_calc_field_size :: "table_def \<Rightarrow> nat \<Rightarrow> buffer \<Rightarrow> nat \<Rightarrow> int option" where
  "td_calc_field_size td col data off = do {
     t \<leftarrow> td_type td col;
     meta \<leftarrow> (if col < length (td_field_metadata td) then Some (td_field_metadata td ! col) else None);
     calc_field_size (u8 t) data off meta }"

section \<open>Properties\<close>

text \<open>How a server packs the metadata of a column: nothing, one byte, or two bytes, high byte first
  except for BIT and VARCHAR.\<close>

definition meta_types1 :: "int set" where
  "meta_types1 = {MYSQL_TYPE_TINY_BLOB, MYSQL_TYPE_BLOB, MYSQL_TYPE_MEDIUM_BLOB, MYSQL_TYPE_LONG_BLOB,
     MYSQL_TYPE_DOUBLE, MYSQL_TYPE_FLOAT, MYSQL_TYPE_GEOMETRY, MYSQL_TYPE_JSON, MYSQL_TYPE_TIME2,
     MYSQL_TYPE_DATETIME2, MYSQL_TYPE_TIMESTAMP2}"

definition meta_types2 :: "int set" where
  "meta_types2 = {MYSQL_TYPE_SET, MYSQL_TYPE_ENUM, MYSQL_TYPE_STRING, MYSQL_TYPE_NEWDECIMAL}"

definition meta_types2_le :: "int set" where
  "meta_types2_le = {MYSQL_TYPE_BIT, MYSQL_TYPE_VARCHAR}"

lemmas meta_types = meta_types1_def meta_types2_def meta_types2_le_def

definition pack_metadata :: "int \<Rightarrow> int \<Rightarrow> buffer" where
  "pack_metadata t x =
     (if t \<in> meta_types1 then [uchar_of x]
      else if t \<in> meta_types2 then be_bytes 2 x
      else if t \<in> meta_types2_le then le_bytes 2 x
      else [])"

definition metadata_ok :: "int \<Rightarrow> int \<Rightarrow> bool" where
  "metadata_ok t x \<longleftrightarrow>
     0 \<le> x \<and> (if t \<in> meta_types1 then x < 256
              else if t \<in> meta_types2 \<union> meta_types2_le then x < 65536 else x = 0)"

lemma byte_at_in: "byte_at (pre @ b # post) (length pre) = Some b"
  by (simp add: byte_at_def)

lemma byte_at_in2: "byte_at (pre @ a # b # post) (Suc (length pre)) = Some b"
  by (simp add: byte_at_def nth_append)

lemma bytes2: "be_bytes 2 x = [uchar_of (x div 256), uchar_of x]" "le_bytes 2 x = [uchar_of x, uchar_of (x div 256)]"
  by (simp_all add: be_bytes_def eval_nat_numeral)

lemma one_metadata_unpacks:
  assumes "metadata_ok t x"
  shows "one_metadata t (pre @ pack_metadata t x @ post) (length pre)
    = Some (x, length pre + length (pack_metadata t x))"
proof -
  have two: "u16 (u16 (shl (x div 256 mod 256) 8) + x mod 256) = x" "u16 (x mod 256 + shl (x div 256 mod 256) 8) = x"
    if "x < 65536"
  proof -
    have "0 \<le> x" using assms by (simp add: metadata_ok_def)
    then have d: "x div 256 mod 256 = x div 256" using that by simp
    have "0 \<le> x div 256 * 256" "x div 256 * 256 \<le> x" using \<open>0 \<le> x\<close> by simp_all
    then show "u16 (u16 (shl (x div 256 mod 256) 8) + x mod 256) = x" "u16 (x mod 256 + shl (x div 256 mod 256) 8) = x"
      using that \<open>0 \<le> x\<close> unfolding d by (simp_all add: shl_mult u16_id)
  qed
  have var: "uint2korr (pre @ le_bytes 2 x @ post) (length pre) = Some x" if "x < 65536"
    using that assms by (simp add: ukorr_le_val le.korr_store metadata_ok_def)
  consider (a) "t \<in> meta_types1" | (b) "t \<in> meta_types2" | (c) "t = MYSQL_TYPE_BIT" | (d) "t = MYSQL_TYPE_VARCHAR"
    | (e) "t \<notin> meta_types1" "t \<notin> meta_types2" "t \<notin> meta_types2_le"
    by (auto simp: meta_types2_le_def)
  then show ?thesis
  proof cases
    case a
    then show ?thesis using assms
      by (auto simp: one_metadata_def pack_metadata_def meta_types metadata_ok_def mysql_types byte_at_in)
  next
    case b
    then show ?thesis using assms two
      by (auto simp: one_metadata_def pack_metadata_def meta_types metadata_ok_def mysql_types byte_at_in byte_at_in2 bytes2)
  next
    case c
    then show ?thesis using assms two
      by (auto simp: one_metadata_def pack_metadata_def meta_types metadata_ok_def mysql_types byte_at_in byte_at_in2 bytes2)
  next
    case d
    then show ?thesis using assms var
      by (auto simp: one_metadata_def pack_metadata_def meta_types metadata_ok_def mysql_types)
  next
    case e
    then show ?thesis using assms
      by (auto simp: one_metadata_def pack_metadata_def meta_types metadata_ok_def)
  qed
qed

definition pack_all :: "(int \<times> int) list \<Rightarrow> buffer" where
  "pack_all cols = concat (map (\<lambda>(t, x). pack_metadata t x) cols)"

lemma metadata_loop_unpacks:
  assumes "\<forall>(t, x)\<in>set cols. metadata_ok t x \<and> 0 \<le> t \<and> t < 256"
    and "length done = i" "td_column_type td = done @ map (\<lambda>(t, x). uchar_of t) cols"
  shows "metadata_loop (length cols) i td (pre @ pack_all cols @ post) (length pre)
    = Some (td\<lparr>td_field_metadata := td_field_metadata td @ map snd cols\<rparr>)"
  using assms
proof (induction cols arbitrary: i td pre "done")
  case Nil
  then show ?case by simp
next
  case (Cons c cols)
  obtain t x where c: "c = (t, x)" by (cases c)
  have ok: "metadata_ok t x" "0 \<le> t" "t < 256" using Cons.prems(1) by (auto simp: c)
  have t: "binlog_type td i = Some t"
    using Cons.prems(2,3) ok by (auto simp: binlog_type_def c byte_at_in)
  define td' where "td' = td\<lparr>td_field_metadata := td_field_metadata td @ [x]\<rparr>"
  have "metadata_loop (length cols) (Suc i) td' ((pre @ pack_metadata t x) @ pack_all cols @ post) (length (pre @ pack_metadata t x))
    = Some (td'\<lparr>td_field_metadata := td_field_metadata td' @ map snd cols\<rparr>)"
    using Cons.prems by (intro Cons.IH [of "done @ [uchar_of t]"]) (auto simp: td'_def c)
  then show ?case
    using t one_metadata_unpacks [OF ok(1), of pre "pack_all cols @ post"]
    by (simp add: c pack_all_def td'_def)
qed

text \<open>The constructor of a table definition recovers the type and the metadata of every column
  from the packed metadata block of a table map event, with no read outside of it.\<close>

theorem table_def_metadata_roundtrip:
  assumes "\<forall>(t, x)\<in>set cols. metadata_ok t x \<and> 0 \<le> t \<and> t < 256" "pack_all cols \<noteq> []"
  shows "\<exists>td. CTableDef (map (\<lambda>(t, x). uchar_of t) cols) (int (length cols)) (pack_all cols)
       (int (length (pack_all cols))) nulls flags = Some td
    \<and> (\<forall>i < length cols. binlog_type td i = Some (fst (cols ! i)) \<and> field_metadata td i = Some (snd (cols ! i)))"
proof -
  have ne: "cols \<noteq> []" using assms(2) by (auto simp: pack_all_def)
  define td0 where "td0 = \<lparr>td_column_size = int (length cols), td_field_metadata_size = int (length (pack_all cols)),
    td_flags = flags, td_column_type = map (\<lambda>(t, x). uchar_of t) cols, td_null_bits = nulls, td_field_metadata = []\<rparr>"
  have "metadata_loop (length cols) 0 td0 ([] @ pack_all cols @ []) (length ([] :: buffer))
      = Some (td0\<lparr>td_field_metadata := td_field_metadata td0 @ map snd cols\<rparr>)"
    using assms(1) by (intro metadata_loop_unpacks) (simp_all add: td0_def)
  moreover have "fst (cols ! i) mod 256 = fst (cols ! i)" if "i < length cols" for i
    using assms(1) that nth_mem [OF that] by (auto simp: case_prod_beta)
  ultimately show ?thesis using ne assms
    by (auto simp: CTableDef_def td0_def binlog_type_def byte_at_def field_metadata_def case_prod_beta)
qed

theorem table_def_metadata_roundtrip_witness:
  "let cols = [(MYSQL_TYPE_LONG, 0), (MYSQL_TYPE_VARCHAR, 300), (MYSQL_TYPE_NEWDECIMAL, 2562), (MYSQL_TYPE_DATETIME2, 3)] in
   \<exists>td. CTableDef (map (\<lambda>(t, x). uchar_of t) cols) (int (length cols)) (pack_all cols)
       (int (length (pack_all cols))) [0] 1 = Some td \<and> field_metadata td 2 = Some 2562"
proof -
  let ?cols = "[(MYSQL_TYPE_LONG, 0), (MYSQL_TYPE_VARCHAR, 300), (MYSQL_TYPE_NEWDECIMAL, 2562), (MYSQL_TYPE_DATETIME2, 3)]"
  have "\<forall>(t, x)\<in>set ?cols. metadata_ok t x \<and> 0 \<le> t \<and> t < 256"
    by (simp add: metadata_ok_def meta_types mysql_types)
  moreover have "pack_all ?cols \<noteq> []"
    by (simp add: pack_all_def pack_metadata_def meta_types mysql_types bytes2)
  ultimately show ?thesis unfolding Let_def
    by (rule ex_forward [OF table_def_metadata_roundtrip [where nulls = "[0]" and flags = 1]]) (auto dest: spec [of _ 2])
qed

text \<open>A table whose columns need no metadata at all (integer columns only, say) gets an empty
  metadata vector, and asking for the type of any of its columns reads outside of that vector.\<close>

theorem type_without_metadata_out_of_bounds:
  "\<exists>td. CTableDef types n [] 0 nulls flags = Some td \<and> td_field_metadata td = []
     \<and> (\<forall>i. td_type td i = None) \<and> (\<forall>i. field_metadata td i = Some 0)"
  by (auto simp: CTableDef_def td_type_def field_metadata_def Option.bind_eq_None_conv)

text \<open>The sizes of the digit groups.\<close>

lemma tab_dig2bytes:
  assumes "0 \<le> r" "r < 9"
  shows "\<exists>b. tab dig2bytes r = Some b \<and> 0 \<le> b \<and> b \<le> 4 \<and> 2 * b \<le> r + 1 \<and> 4 * r \<le> 9 * b"
proof -
  have "r = 0 \<or> r = 1 \<or> r = 2 \<or> r = 3 \<or> r = 4 \<or> r = 5 \<or> r = 6 \<or> r = 7 \<or> r = 8" using assms by presburger
  then show ?thesis by (elim disjE) (simp_all add: tab_def dig2bytes_def)
qed

lemma decimal_bin_size_bounds:
  assumes "0 \<le> s" "s \<le> p"
  shows "\<exists>n. decimal_bin_size p s = Some n \<and> 4 * p \<le> 9 * n \<and> 2 * n \<le> p + 2"
proof -
  have m: "0 \<le> x - x sdiv 9 * 9 \<and> x - x sdiv 9 * 9 < 9 \<and> 0 \<le> x sdiv 9" if "0 \<le> x" for x :: int
    using that by (simp add: sdiv_nonneg minus_div_mult_eq_mod pos_imp_zdiv_nonneg_iff)
  obtain a where a: "tab dig2bytes ((p - s) - (p - s) sdiv 9 * 9) = Some a" 
    "2 * a \<le> (p - s) - (p - s) sdiv 9 * 9 + 1" "4 * ((p - s) - (p - s) sdiv 9 * 9) \<le> 9 * a"
    using tab_dig2bytes m [of "p - s"] assms by (metis diff_ge_0_iff_ge)
  obtain b where b: "tab dig2bytes (s - s sdiv 9 * 9) = Some b" 
    "2 * b \<le> s - s sdiv 9 * 9 + 1" "4 * (s - s sdiv 9 * 9) \<le> 9 * b"
    using tab_dig2bytes m [of s] assms by metis
  show ?thesis using a b m [of s] m [of "p - s"] assms
    by (auto simp: decimal_bin_size_def Let_def DIG_PER_DEC1_def)
qed

text \<open>The size table and the decoder compute the size of a stored DECIMAL by the same function of
  precision and scale; for \<open>0 \<le> scale \<le> precision\<close> it is defined and lies between four ninths of a
  byte and about half a byte per digit.\<close>

theorem decimal_sizes_agree:
  "decimal_binary_size p s = decimal_bin_size p s
   \<and> (0 \<le> s \<and> s \<le> p \<longrightarrow> (\<exists>n. decimal_binary_size p s = Some n \<and> 4 * p \<le> 9 * n \<and> 2 * n \<le> p + 2))"
proof -
  have "decimal_binary_size p s = decimal_bin_size p s"
    by (simp add: decimal_binary_size_def decimal_bin_size_def DIG_PER_DEC1_def dig2bytes_def Let_def)
  then show ?thesis using decimal_bin_size_bounds [of s p] by simp
qed

theorem decimal_sizes_agree_witness:
  "\<exists>n. decimal_binary_size 10 2 = Some n \<and> 4 * 10 \<le> 9 * n \<and> 2 * n \<le> 10 + 2"
  by (rule mp [OF conjunct2 [OF decimal_sizes_agree]]) simp

end
