(* ===== verification/Rowvalue.thy ===== *)
theory Rowvalue
  imports Tabledef
begin

text \<open>
  The values of row columns: \<open>binlog/src/tx_rowvalue.cpp\<close> and \<open>include/binlog/tx_rowvalue.h\<close>.

  The union \<open>row_value_group\<close> is a datatype with a constructor per member, \<open>G_none\<close> for the zeroed
  union of a fresh value. A string is the block of bytes behind the pointer, without its terminating
  zero. A \<open>double\<close> is kept as the bits that were read, of a single or a double precision number.
\<close>

record row_value_time =
  rt_year :: int
  rt_month :: int
  rt_day :: int
  rt_hour :: int
  rt_min :: int
  rt_sec :: int
  rt_usec :: int

datatype double_bits = Single_bits int | Double_bits int

datatype row_value_group =
    G_none | G_long int | G_char "buffer option" | G_double double_bits | G_time row_value_time

datatype value_type =
    VALUE_TYPE_UNSET | VALUE_TYPE_CHAR | VALUE_TYPE_LONGLONG | VALUE_TYPE_NULL | VALUE_TYPE_DOUBLE
  | VALUE_TYPE_TIME

record row_value =
  rv_type :: value_type
  rv_mysql_type :: int
  rv_value :: row_value_group

definition row_value_init :: "int \<Rightarrow> row_value" where
  "row_value_init mysqlType = \<lparr>rv_type = VALUE_TYPE_UNSET, rv_mysql_type = u16 mysqlType, rv_value = G_none\<rparr>"

definition row_set_value_char :: "row_value \<Rightarrow> buffer option \<Rightarrow> row_value \<times> bool" where
  "row_set_value_char rv szBuf =
     (case szBuf of None \<Rightarrow> (rv, False)
      | Some bs \<Rightarrow> (rv\<lparr>rv_type := VALUE_TYPE_CHAR, rv_value := G_char (Some bs)\<rparr>, True))"

definition row_set_value_long :: "row_value \<Rightarrow> int \<Rightarrow> row_value" where
  "row_set_value_long rv v = rv\<lparr>rv_type := VALUE_TYPE_LONGLONG, rv_value := G_long v\<rparr>"

definition row_set_value_double :: "row_value \<Rightarrow> double_bits \<Rightarrow> row_value" where
  "row_set_value_double rv v = rv\<lparr>rv_type := VALUE_TYPE_DOUBLE, rv_value := G_double v\<rparr>"

definition row_set_value_time :: "row_value \<Rightarrow> row_value_time \<Rightarrow> row_value" where
  "row_set_value_time rv v = rv\<lparr>rv_type := VALUE_TYPE_TIME, rv_value := G_time v\<rparr>"

definition row_set_value_null :: "row_value \<Rightarrow> row_value" where
  "row_set_value_null rv = rv\<lparr>rv_type := VALUE_TYPE_NULL\<rparr>"

definition row_value_free :: "row_value \<Rightarrow> row_value" where
  "row_value_free rv =
     (case rv_value rv of
        G_char (Some _) \<Rightarrow> if rv_type rv = VALUE_TYPE_CHAR then rv\<lparr>rv_value := G_char None\<rparr> else rv
      | _ \<Rightarrow> rv)"

text \<open>The copy constructor duplicates a string up to its first zero byte; \<open>strlen\<close> of a null pointer is
  undefined.\<close>

definition row_value_copy :: "row_value \<Rightarrow> row_value option" where
  "row_value_copy rv =
     (if rv_type rv = VALUE_TYPE_CHAR then
        (case rv_value rv of
           G_char (Some bs) \<Rightarrow> Some (rv\<lparr>rv_value := G_char (Some (c_str bs))\<rparr>)
         | _ \<Rightarrow> None)
      else Some rv)"

definition time_init :: "int \<Rightarrow> int \<Rightarrow> int \<Rightarrow> int \<Rightarrow> int \<Rightarrow> int \<Rightarrow> int \<Rightarrow> row_value_time" where
  "time_init yr mon dy hr mi se us =
     \<lparr>rt_year = yr, rt_month = mon, rt_day = dy, rt_hour = hr, rt_min = mi, rt_sec = se, rt_usec = us\<rparr>"

text \<open>For any other type the local buffer is returned without having been written: \<open>None\<close>.\<close>

definition time_struct_to_string :: "row_value_time \<Rightarrow> int \<Rightarrow> string \<Rightarrow> string \<Rightarrow> string option" where
  "time_struct_to_string tv mysqlType szSplit1 szSplit2 =
     (if mysqlType = MYSQL_TYPE_DATETIME \<or> mysqlType = MYSQL_TYPE_DATETIME2 then
        Some (fmt_0d 4 (s32 (rt_year tv)) @ szSplit1 @ fmt_0d 2 (s32 (rt_month tv)) @ szSplit1
              @ fmt_0d 2 (s32 (rt_day tv)) @ '' '' @ fmt_0d 2 (s32 (rt_hour tv)) @ szSplit2
              @ fmt_0d 2 (s32 (rt_min tv)) @ szSplit2 @ fmt_0d 2 (s32 (rt_sec tv)))
      else if mysqlType = MYSQL_TYPE_DATE \<or> mysqlType = MYSQL_TYPE_NEWDATE then
        Some (fmt_0d 4 (s32 (rt_year tv)) @ szSplit1 @ fmt_0d 2 (s32 (rt_month tv)) @ szSplit1
              @ fmt_0d 2 (s32 (rt_day tv)))
      else if mysqlType = MYSQL_TYPE_TIME \<or> mysqlType = MYSQL_TYPE_TIME2 then
        Some (fmt_0d 2 (s32 (rt_hour tv)) @ szSplit2 @ fmt_0d 2 (s32 (rt_min tv)) @ szSplit2
              @ fmt_0d 2 (s32 (rt_sec tv)))
      else None)"

section \<open>Properties\<close>

text \<open>A value whose pointer is valid whenever it is a string.\<close>

definition row_value_ok :: "row_value \<Rightarrow> bool" where
  "row_value_ok rv \<longleftrightarrow> (rv_type rv = VALUE_TYPE_CHAR \<longrightarrow> (\<exists>bs. rv_value rv = G_char (Some bs)))"

lemma row_value_copy_ok: "row_value_ok rv \<Longrightarrow> \<exists>rv'. row_value_copy rv = Some rv' \<and> row_value_ok rv'"
  by (auto simp: row_value_ok_def row_value_copy_def)

lemma row_value_copy_idem: "row_value_copy rv = Some rv' \<Longrightarrow> row_value_copy rv' = Some rv'"
  by (auto simp: row_value_copy_def split: if_splits row_value_group.splits option.splits)

end
