(* ===== verification/Mytime.thy ===== *)
theory Mytime
  imports Byteorder
begin

text \<open>
  The time library of the binary log reader: \<open>binlog/src/my_time.cpp\<close> with the structure
  \<open>MYSQL_TIME\<close> of \<open>mysql_time.h\<close> and the macros of \<open>my_time.h\<close>.

  The library is built for Windows, where \<open>long\<close> and \<open>unsigned long\<close> have 32 bits.
  A function that writes through a pointer returns the new value of what the pointer points to. The
  calendar functions, the packed and the binary representation of TIME, DATETIME and TIMESTAMP values
  and the conversions from numbers and to text are modelled. \<open>str_to_datetime\<close> and
  \<open>str_to_time\<close>, whose bodies are commented out in the source, return their constant.
\<close>

section \<open>Data\<close>

datatype timestamp_type =
    MYSQL_TIMESTAMP_NONE | MYSQL_TIMESTAMP_ERROR | MYSQL_TIMESTAMP_DATE
  | MYSQL_TIMESTAMP_DATETIME | MYSQL_TIMESTAMP_TIME

record mysql_time =
  year :: int
  month :: int
  day :: int
  hour :: int
  minute :: int
  second :: int
  second_part :: int
  neg :: bool
  time_type :: timestamp_type

record timeval =
  tv_sec :: int
  tv_usec :: int

definition log_10_int :: "int list" where
  "log_10_int = [1, 10, 100, 1000, 10000, 100000, 1000000, 10000000, 100000000, 1000000000,
    10000000000, 100000000000, 1000000000000, 10000000000000, 100000000000000, 1000000000000000,
    10000000000000000, 100000000000000000, 1000000000000000000, 10000000000000000000]"

definition days_in_month :: "int list" where
  "days_in_month = [31, 28, 31, 30, 31, 30, 31, 31, 30, 31, 30, 31, 0]"

definition days_at_timestart :: int where "days_at_timestart = 719528"

definition TIME_FUZZY_DATE :: int where "TIME_FUZZY_DATE = 1"
definition TIME_NO_ZERO_IN_DATE :: int where "TIME_NO_ZERO_IN_DATE = 16"
definition TIME_NO_ZERO_DATE :: int where "TIME_NO_ZERO_DATE = 32"
definition TIME_INVALID_DATES :: int where "TIME_INVALID_DATES = 64"

definition MYSQL_TIME_WARN_TRUNCATED :: int where "MYSQL_TIME_WARN_TRUNCATED = 1"
definition MYSQL_TIME_WARN_OUT_OF_RANGE :: int where "MYSQL_TIME_WARN_OUT_OF_RANGE = 2"
definition MYSQL_TIME_WARN_ZERO_DATE :: int where "MYSQL_TIME_WARN_ZERO_DATE = 8"
definition MYSQL_TIME_WARN_ZERO_IN_DATE :: int where "MYSQL_TIME_WARN_ZERO_IN_DATE = 32"

definition TIME_MAX_HOUR :: int where "TIME_MAX_HOUR = 838"
definition TIME_MAX_MINUTE :: int where "TIME_MAX_MINUTE = 59"
definition TIME_MAX_SECOND :: int where "TIME_MAX_SECOND = 59"
definition TIME_MAX_VALUE :: int where
  "TIME_MAX_VALUE = TIME_MAX_HOUR * 10000 + TIME_MAX_MINUTE * 100 + TIME_MAX_SECOND"
definition YY_PART_YEAR :: int where "YY_PART_YEAR = 70"

lemmas time_consts = TIME_FUZZY_DATE_def TIME_NO_ZERO_IN_DATE_def TIME_NO_ZERO_DATE_def
  TIME_INVALID_DATES_def MYSQL_TIME_WARN_TRUNCATED_def MYSQL_TIME_WARN_OUT_OF_RANGE_def
  MYSQL_TIME_WARN_ZERO_DATE_def MYSQL_TIME_WARN_ZERO_IN_DATE_def TIME_MAX_HOUR_def
  TIME_MAX_MINUTE_def TIME_MAX_SECOND_def TIME_MAX_VALUE_def YY_PART_YEAR_def days_at_timestart_def

section \<open>Calendar\<close>

definition calc_days_in_year :: "int \<Rightarrow> int" where
  "calc_days_in_year y =
     (if and y 3 = 0 \<and> (y mod 100 \<noteq> 0 \<or> (y mod 400 = 0 \<and> y \<noteq> 0)) then 366 else 365)"

definition set_zero_time :: "timestamp_type \<Rightarrow> mysql_time" where
  "set_zero_time tt = \<lparr>year = 0, month = 0, day = 0, hour = 0, minute = 0, second = 0,
     second_part = 0, neg = False, time_type = tt\<rparr>"

definition set_max_hhmmss :: "mysql_time \<Rightarrow> mysql_time" where
  "set_max_hhmmss tm = tm\<lparr>hour := TIME_MAX_HOUR, minute := TIME_MAX_MINUTE, second := TIME_MAX_SECOND\<rparr>"

definition set_max_time :: "bool \<Rightarrow> mysql_time" where
  "set_max_time ng = (set_max_hhmmss (set_zero_time MYSQL_TIMESTAMP_TIME))\<lparr>neg := ng\<rparr>"

text \<open>\<open>check_date\<close> returns whether the date is bad and the new value of \<open>was_cut\<close>; it reads
  the table of month lengths at \<open>month - 1\<close>, which is outside of it for a month above 13.\<close>

definition check_date :: "mysql_time \<Rightarrow> bool \<Rightarrow> int \<Rightarrow> int \<Rightarrow> (bool \<times> int) option" where
  "check_date t not_zero_date flags was_cut =
     (if not_zero_date then
        if (and flags TIME_NO_ZERO_IN_DATE \<noteq> 0 \<or> and flags TIME_FUZZY_DATE = 0)
           \<and> (month t = 0 \<or> day t = 0)
        then Some (True, MYSQL_TIME_WARN_ZERO_IN_DATE)
        else if and flags TIME_INVALID_DATES = 0 \<and> month t \<noteq> 0
        then (if month t > 13 then None
              else if day t > days_in_month ! nat (month t - 1)
                 \<and> (month t \<noteq> 2 \<or> calc_days_in_year (year t) \<noteq> 366 \<or> day t \<noteq> 29)
              then Some (True, MYSQL_TIME_WARN_OUT_OF_RANGE)
              else Some (False, was_cut))
        else Some (False, was_cut)
      else if and flags TIME_NO_ZERO_DATE \<noteq> 0 then Some (True, MYSQL_TIME_WARN_ZERO_DATE)
      else Some (False, was_cut))"

definition check_time_mmssff_range :: "mysql_time \<Rightarrow> bool" where
  "check_time_mmssff_range t \<longleftrightarrow> minute t \<ge> 60 \<or> second t \<ge> 60 \<or> second_part t > 999999"

definition check_time_range_quick :: "mysql_time \<Rightarrow> bool" where
  "check_time_range_quick t =
     (let h = hour t + 24 * day t in
      \<not> (h \<le> TIME_MAX_HOUR
         \<and> (h \<noteq> TIME_MAX_HOUR \<or> minute t \<noteq> TIME_MAX_MINUTE \<or> second t \<noteq> TIME_MAX_SECOND
             \<or> second_part t = 0)))"

definition check_datetime_range :: "mysql_time \<Rightarrow> bool" where
  "check_datetime_range t \<longleftrightarrow>
     year t > 9999 \<or> month t > 12 \<or> day t > 31 \<or> minute t > 59 \<or> second t > 59
     \<or> second_part t > 999999
     \<or> hour t > (if time_type t = MYSQL_TIMESTAMP_TIME then TIME_MAX_HOUR else 23)"

definition year_2000_handling :: "int \<Rightarrow> int" where
  "year_2000_handling y =
     (let y' = u32 (y + 1900) in if y' < 1900 + YY_PART_YEAR then u32 (y' + 100) else y')"

definition calc_daynr :: "int \<Rightarrow> int \<Rightarrow> int \<Rightarrow> int" where
  "calc_daynr yr mon dy =
     (let y = s32 yr in
      if y = 0 \<and> mon = 0 then 0
      else
        let delsum = s32 (365 * y + 31 * (s32 mon - 1) + s32 dy);
            y' = (if mon \<le> 2 then s32 (y - 1) else y);
            delsum' = (if mon \<le> 2 then delsum else s32 (delsum - (s32 mon * 4 + 23) sdiv 10));
            temp = ((y' sdiv 100 + 1) * 3) sdiv 4
        in s32 (delsum' + y' sdiv 4 - temp))"

definition str_to_datetime :: "string \<Rightarrow> mysql_time \<Rightarrow> int \<Rightarrow> mysql_time \<times> bool" where
  "str_to_datetime str l_time flags = (l_time, True)"

definition str_to_time :: "string \<Rightarrow> mysql_time \<Rightarrow> mysql_time \<times> bool" where
  "str_to_time str l_time = (l_time, False)"

section \<open>Numbers\<close>

definition TIME_to_ulonglong_datetime :: "mysql_time \<Rightarrow> int" where
  "TIME_to_ulonglong_datetime t =
     u64 (u64 (u32 (year t * 10000 + month t * 100 + day t) * 1000000)
          + u32 (hour t * 10000 + minute t * 100 + second t))"

definition TIME_to_ulonglong_date :: "mysql_time \<Rightarrow> int" where
  "TIME_to_ulonglong_date t = u32 (year t * 10000 + month t * 100 + day t)"

definition TIME_to_ulonglong_time :: "mysql_time \<Rightarrow> int" where
  "TIME_to_ulonglong_time t = u32 (hour t * 10000 + minute t * 100 + second t)"

definition TIME_to_ulonglong :: "mysql_time \<Rightarrow> int" where
  "TIME_to_ulonglong t =
     (case time_type t of
        MYSQL_TIMESTAMP_DATETIME \<Rightarrow> TIME_to_ulonglong_datetime t
      | MYSQL_TIMESTAMP_DATE \<Rightarrow> TIME_to_ulonglong_date t
      | MYSQL_TIMESTAMP_TIME \<Rightarrow> TIME_to_ulonglong_time t
      | MYSQL_TIMESTAMP_NONE \<Rightarrow> 0
      | MYSQL_TIMESTAMP_ERROR \<Rightarrow> 0)"

definition TIME_set_yymmdd :: "mysql_time \<Rightarrow> int \<Rightarrow> mysql_time" where
  "TIME_set_yymmdd t yymmdd =
     t\<lparr>day := yymmdd mod 100, month := s32 (yymmdd div 100) smod 100, year := yymmdd div 10000\<rparr>"

definition TIME_set_hhmmss :: "mysql_time \<Rightarrow> int \<Rightarrow> mysql_time" where
  "TIME_set_hhmmss t hhmmss =
     t\<lparr>second := hhmmss mod 100, minute := s32 (hhmmss div 100) smod 100, hour := hhmmss div 10000\<rparr>"

text \<open>\<open>number_to_datetime\<close>: the chain of tests before the label \<open>ok\<close>, with the way it is
  left (to \<open>ok\<close> with a number and a time type, to \<open>err\<close>, or by the early return for a number
  beyond 9999-99-99 99:99:99), then the part after the label.\<close>

datatype ndt_exit = Ndt_ok int timestamp_type | Ndt_err timestamp_type | Ndt_huge

definition ndt_classify :: "int \<Rightarrow> int \<Rightarrow> ndt_exit" where
  "ndt_classify nr flags =
     (if nr = 0 \<or> nr \<ge> 10000101000000
      then (if nr > 99999999999999 then Ndt_huge else Ndt_ok nr MYSQL_TIMESTAMP_DATETIME)
      else if nr < 101 then Ndt_err MYSQL_TIMESTAMP_DATE
      else if nr \<le> (YY_PART_YEAR - 1) * 10000 + 1231
      then Ndt_ok ((nr + 20000000) * 1000000) MYSQL_TIMESTAMP_DATE
      else if nr < YY_PART_YEAR * 10000 + 101 then Ndt_err MYSQL_TIMESTAMP_DATE
      else if nr \<le> 991231 then Ndt_ok ((nr + 19000000) * 1000000) MYSQL_TIMESTAMP_DATE
      else if nr < 10000101 \<and> and flags TIME_FUZZY_DATE = 0 then Ndt_err MYSQL_TIMESTAMP_DATE
      else if nr \<le> 99991231 then Ndt_ok (nr * 1000000) MYSQL_TIMESTAMP_DATE
      else if nr < 101000000 then Ndt_err MYSQL_TIMESTAMP_DATE
      else if nr \<le> (YY_PART_YEAR - 1) * 10000000000 + 1231235959
      then Ndt_ok (nr + 20000000000000) MYSQL_TIMESTAMP_DATETIME
      else if nr < YY_PART_YEAR * 10000000000 + 101000000 then Ndt_err MYSQL_TIMESTAMP_DATETIME
      else if nr \<le> 991231235959 then Ndt_ok (nr + 19000000000000) MYSQL_TIMESTAMP_DATETIME
      else Ndt_ok nr MYSQL_TIMESTAMP_DATETIME)"

definition ndt_fields :: "int \<Rightarrow> timestamp_type \<Rightarrow> mysql_time" where
  "ndt_fields nr tt =
     (let part1 = s32 (nr sdiv 1000000);
          part2 = s32 (nr - part1 * 1000000);
          p1 = part1 smod 10000;
          p2 = part2 smod 10000
      in (set_zero_time tt)\<lparr>year := u32 (part1 sdiv 10000), month := u32 (p1 sdiv 100),
           day := u32 (p1 smod 100), hour := u32 (part2 sdiv 10000), minute := u32 (p2 sdiv 100),
           second := u32 (p2 smod 100)\<rparr>)"

text \<open>The result: the returned number (-1 for an error), the time and the value of \<open>was_cut\<close>.\<close>

definition number_to_datetime :: "int \<Rightarrow> int \<Rightarrow> (int \<times> mysql_time \<times> int) option" where
  "number_to_datetime nr flags =
     (case ndt_classify nr flags of
        Ndt_huge \<Rightarrow>
          Some (-1, set_zero_time MYSQL_TIMESTAMP_DATETIME, MYSQL_TIME_WARN_OUT_OF_RANGE)
      | Ndt_err tt \<Rightarrow> Some (-1, set_zero_time tt, MYSQL_TIME_WARN_TRUNCATED)
      | Ndt_ok n tt \<Rightarrow>
          (let t = ndt_fields n tt in
           if check_datetime_range t then
             (if n = 0 \<and> and flags TIME_NO_ZERO_DATE \<noteq> 0 then Some (-1, t, 0)
              else Some (-1, t, MYSQL_TIME_WARN_TRUNCATED))
           else case check_date t (n \<noteq> 0) flags 0 of
             None \<Rightarrow> None
           | Some (bad, wc) \<Rightarrow>
               (if \<not> bad then Some (n, t, wc)
                else if n = 0 \<and> and flags TIME_NO_ZERO_DATE \<noteq> 0 then Some (-1, t, wc)
                else Some (-1, t, MYSQL_TIME_WARN_TRUNCATED))))"

text \<open>\<open>number_to_time\<close>: whether it failed, the time and the warnings.\<close>

definition number_to_time :: "int \<Rightarrow> mysql_time \<Rightarrow> int \<Rightarrow> (bool \<times> mysql_time \<times> int) option" where
  "number_to_time nr ltime warnings =
     (let too_big = Some (True, set_max_time False, or warnings MYSQL_TIME_WARN_OUT_OF_RANGE) in
      if nr > TIME_MAX_VALUE then
        (if nr \<ge> 10000000000 then
           (case number_to_datetime nr 0 of
              None \<Rightarrow> None
            | Some (r, t, wc) \<Rightarrow> if r \<noteq> -1 then Some (False, t, wc) else too_big)
         else too_big)
      else if nr < - TIME_MAX_VALUE then
        Some (True, set_max_time True, or warnings MYSQL_TIME_WARN_OUT_OF_RANGE)
      else
        let ng = nr < 0; n = (if ng then - nr else nr) in
        if n smod 100 \<ge> 60 \<or> (n sdiv 100) smod 100 \<ge> 60 then
          Some (True, set_zero_time MYSQL_TIMESTAMP_TIME, or warnings MYSQL_TIME_WARN_OUT_OF_RANGE)
        else
          let t = ltime\<lparr>neg := ng, time_type := MYSQL_TIMESTAMP_TIME, year := 0, month := 0, day := 0\<rparr>
          in Some (False, (TIME_set_hhmmss t (u32 n))\<lparr>second_part := 0\<rparr>, warnings))"

definition adjust_time_range :: "mysql_time \<Rightarrow> int \<Rightarrow> mysql_time \<times> int" where
  "adjust_time_range t warning =
     (if check_time_range_quick t
      then (set_max_hhmmss (t\<lparr>day := 0, second_part := 0\<rparr>), or warning MYSQL_TIME_WARN_OUT_OF_RANGE)
      else (t, warning))"

section \<open>Packed representation\<close>

definition MY_PACKED_TIME_GET_INT_PART :: "int \<Rightarrow> int" where
  "MY_PACKED_TIME_GET_INT_PART x = shr x 24"

definition MY_PACKED_TIME_GET_FRAC_PART :: "int \<Rightarrow> int" where
  "MY_PACKED_TIME_GET_FRAC_PART x = x smod 2 ^ 24"

definition MY_PACKED_TIME_MAKE :: "int \<Rightarrow> int \<Rightarrow> int" where
  "MY_PACKED_TIME_MAKE i f = s64 (s64 (shl i 24) + f)"

definition MY_PACKED_TIME_MAKE_INT :: "int \<Rightarrow> int" where
  "MY_PACKED_TIME_MAKE_INT i = s64 (shl i 24)"

definition TIME_to_longlong_time_packed :: "mysql_time \<Rightarrow> int" where
  "TIME_to_longlong_time_packed t =
     (let hms = s32 (or (or (u32 (shl (u32 ((if month t \<noteq> 0 then 0 else u32 (day t * 24)) + hour t)) 12))
                            (u32 (shl (minute t) 6))) (second t));
          tmp = MY_PACKED_TIME_MAKE hms (second_part t)
      in if neg t then s64 (- tmp) else tmp)"

definition TIME_from_longlong_time_packed :: "int \<Rightarrow> mysql_time" where
  "TIME_from_longlong_time_packed tmp =
     (let ng = tmp < 0;
          tmp' = (if ng then s64 (- tmp) else tmp);
          hms = MY_PACKED_TIME_GET_INT_PART tmp'
      in \<lparr>year = 0, month = 0, day = 0,
          hour = u32 (shr hms 12) mod 2 ^ 10,
          minute = u32 (shr hms 6) mod 2 ^ 6,
          second = u32 hms mod 2 ^ 6,
          second_part = u32 (MY_PACKED_TIME_GET_FRAC_PART tmp'),
          neg = ng, time_type = MYSQL_TIMESTAMP_TIME\<rparr>)"

definition TIME_to_longlong_datetime_packed :: "mysql_time \<Rightarrow> int" where
  "TIME_to_longlong_datetime_packed t =
     (let ymd = or (u32 (shl (u32 (year t * 13 + month t)) 5)) (day t);
          hms = or (or (u32 (shl (hour t) 12)) (u32 (shl (minute t) 6))) (second t);
          tmp = MY_PACKED_TIME_MAKE (or (s64 (shl ymd 17)) hms) (second_part t)
      in if neg t then s64 (- tmp) else tmp)"

definition TIME_to_longlong_date_packed :: "mysql_time \<Rightarrow> int" where
  "TIME_to_longlong_date_packed t =
     (let ymd = or (u32 (shl (u32 (year t * 13 + month t)) 5)) (day t)
      in MY_PACKED_TIME_MAKE_INT (s64 (shl ymd 17)))"

definition year_to_longlong_datetime_packed :: "int \<Rightarrow> int" where
  "year_to_longlong_datetime_packed y =
     (let ymd = s32 (shl (s32 (y * 13)) 5) in MY_PACKED_TIME_MAKE_INT (s64 (shl ymd 17)))"

definition TIME_from_longlong_datetime_packed :: "int \<Rightarrow> mysql_time" where
  "TIME_from_longlong_datetime_packed tmp =
     (let ng = tmp < 0;
          tmp' = (if ng then s64 (- tmp) else tmp);
          ymdhms = MY_PACKED_TIME_GET_INT_PART tmp';
          ymd = shr ymdhms 17;
          ym = shr ymd 5;
          hms = ymdhms smod 2 ^ 17
      in \<lparr>year = u32 (ym sdiv 13), month = u32 (ym smod 13), day = u32 (ymd smod 2 ^ 5),
          hour = u32 (shr hms 12), minute = u32 (shr hms 6 smod 2 ^ 6), second = u32 (hms smod 2 ^ 6),
          second_part = u32 (MY_PACKED_TIME_GET_FRAC_PART tmp'),
          neg = ng, time_type = MYSQL_TIMESTAMP_DATETIME\<rparr>)"

definition TIME_from_longlong_date_packed :: "int \<Rightarrow> mysql_time" where
  "TIME_from_longlong_date_packed tmp =
     (TIME_from_longlong_datetime_packed tmp)\<lparr>time_type := MYSQL_TIMESTAMP_DATE\<rparr>"

definition TIME_to_longlong_packed :: "mysql_time \<Rightarrow> int" where
  "TIME_to_longlong_packed t =
     (case time_type t of
        MYSQL_TIMESTAMP_DATE \<Rightarrow> TIME_to_longlong_date_packed t
      | MYSQL_TIMESTAMP_DATETIME \<Rightarrow> TIME_to_longlong_datetime_packed t
      | MYSQL_TIMESTAMP_TIME \<Rightarrow> TIME_to_longlong_time_packed t
      | MYSQL_TIMESTAMP_NONE \<Rightarrow> 0
      | MYSQL_TIMESTAMP_ERROR \<Rightarrow> 0)"

section \<open>Binary representation\<close>

text \<open>A writer is the list of bytes stored at \<open>ptr\<close>; \<open>dec\<close> is the number of fractional digits.\<close>

definition TIMEF_OFS :: int where "TIMEF_OFS = 0x800000000000"
definition TIMEF_INT_OFS :: int where "TIMEF_INT_OFS = 0x800000"
definition DATETIMEF_INT_OFS :: int where "DATETIMEF_INT_OFS = 0x8000000000"

definition my_time_packed_to_binary :: "int \<Rightarrow> nat \<Rightarrow> buffer" where
  "my_time_packed_to_binary nr dec =
     (let ip = MY_PACKED_TIME_GET_INT_PART nr; fp = MY_PACKED_TIME_GET_FRAC_PART nr in
      if dec = 1 \<or> dec = 2 then mi_int3store (TIMEF_INT_OFS + ip) @ [uchar_of (fp sdiv 10000)]
      else if dec = 3 \<or> dec = 4 then mi_int3store (TIMEF_INT_OFS + ip) @ mi_int2store (fp sdiv 100)
      else if dec = 5 \<or> dec = 6 then mi_int6store (nr + TIMEF_OFS)
      else mi_int3store (TIMEF_INT_OFS + ip))"

definition my_time_packed_from_binary :: "buffer \<Rightarrow> nat \<Rightarrow> nat \<Rightarrow> int option" where
  "my_time_packed_from_binary buf off dec =
     (if dec = 1 \<or> dec = 2 then do {
        v \<leftarrow> mi_uint3korr buf off;
        b \<leftarrow> byte_at buf (off + 3);
        let ip = v - TIMEF_INT_OFS; frac = uint b in
        Some (if ip < 0 \<and> frac \<noteq> 0 then MY_PACKED_TIME_MAKE (ip + 1) ((frac - 0x100) * 10000)
              else MY_PACKED_TIME_MAKE ip (frac * 10000)) }
      else if dec = 3 \<or> dec = 4 then do {
        v \<leftarrow> mi_uint3korr buf off;
        frac \<leftarrow> mi_uint2korr buf (off + 3);
        let ip = v - TIMEF_INT_OFS in
        Some (if ip < 0 \<and> frac \<noteq> 0 then MY_PACKED_TIME_MAKE (ip + 1) ((frac - 0x10000) * 100)
              else MY_PACKED_TIME_MAKE ip (frac * 100)) }
      else if dec = 5 \<or> dec = 6 then do {
        v \<leftarrow> mi_uint6korr buf off;
        Some (v - TIMEF_OFS) }
      else do {
        v \<leftarrow> mi_uint3korr buf off;
        Some (MY_PACKED_TIME_MAKE_INT (v - TIMEF_INT_OFS)) })"

definition my_datetime_packed_to_binary :: "int \<Rightarrow> nat \<Rightarrow> buffer" where
  "my_datetime_packed_to_binary nr dec =
     (let fp = MY_PACKED_TIME_GET_FRAC_PART nr in
      mi_int5store (MY_PACKED_TIME_GET_INT_PART nr + DATETIMEF_INT_OFS) @
      (if dec = 1 \<or> dec = 2 then [uchar_of (fp sdiv 10000)]
       else if dec = 3 \<or> dec = 4 then mi_int2store (fp sdiv 100)
       else if dec = 5 \<or> dec = 6 then mi_int3store fp
       else []))"

definition my_datetime_packed_from_binary :: "buffer \<Rightarrow> nat \<Rightarrow> nat \<Rightarrow> int option" where
  "my_datetime_packed_from_binary buf off dec = do {
     v \<leftarrow> mi_uint5korr buf off;
     let intpart = v - DATETIMEF_INT_OFS in
     if dec = 1 \<or> dec = 2 then do {
       b \<leftarrow> byte_at buf (off + 5);
       Some (MY_PACKED_TIME_MAKE intpart (s8 (uint b) * 10000)) }
     else if dec = 3 \<or> dec = 4 then do {
       f \<leftarrow> mi_sint2korr buf (off + 5);
       Some (MY_PACKED_TIME_MAKE intpart (f * 100)) }
     else if dec = 5 \<or> dec = 6 then do {
       f \<leftarrow> mi_sint3korr buf (off + 5);
       Some (MY_PACKED_TIME_MAKE intpart f) }
     else Some (MY_PACKED_TIME_MAKE_INT intpart) }"

definition my_timestamp_to_binary :: "timeval \<Rightarrow> nat \<Rightarrow> buffer" where
  "my_timestamp_to_binary tm dec =
     mi_int4store (tv_sec tm) @
     (if dec = 1 \<or> dec = 2 then [uchar_of (tv_usec tm sdiv 10000)]
      else if dec = 3 \<or> dec = 4 then mi_int2store (tv_usec tm sdiv 100)
      else if dec = 5 \<or> dec = 6 then mi_int3store (tv_usec tm)
      else [])"

text \<open>The field \<open>tv_sec\<close> is a 32-bit \<open>long\<close>.\<close>

definition my_timestamp_from_binary :: "buffer \<Rightarrow> nat \<Rightarrow> nat \<Rightarrow> timeval option" where
  "my_timestamp_from_binary buf off dec = do {
     sec \<leftarrow> mi_uint4korr buf off;
     if dec = 1 \<or> dec = 2 then do {
       b \<leftarrow> byte_at buf (off + 4);
       Some \<lparr>tv_sec = s32 sec, tv_usec = uint b * 10000\<rparr> }
     else if dec = 3 \<or> dec = 4 then do {
       f \<leftarrow> mi_sint2korr buf (off + 4);
       Some \<lparr>tv_sec = s32 sec, tv_usec = f * 100\<rparr> }
     else if dec = 5 \<or> dec = 6 then do {
       f \<leftarrow> mi_sint3korr buf (off + 4);
       Some \<lparr>tv_sec = s32 sec, tv_usec = f\<rparr> }
     else Some \<lparr>tv_sec = s32 sec, tv_usec = 0\<rparr> }"

section \<open>Text\<close>

text \<open>The string written at \<open>to\<close>; the returned length is its length. The table of powers is read
  at \<open>6 - dec\<close>, which is outside of it for \<open>dec > 6\<close>.\<close>

definition my_useconds_to_str :: "int \<Rightarrow> nat \<Rightarrow> string option" where
  "my_useconds_to_str useconds dec =
     (if dec \<le> 6 then Some (CHR ''.'' # fmt_u dec (u32 useconds div (log_10_int ! (6 - dec)))) else None)"

definition with_useconds :: "string \<Rightarrow> int \<Rightarrow> nat \<Rightarrow> string option" where
  "with_useconds s useconds dec =
     (if dec \<noteq> 0 then map_option (\<lambda>u. s @ u) (my_useconds_to_str useconds dec) else Some s)"

definition my_time_to_str :: "mysql_time \<Rightarrow> nat \<Rightarrow> string option" where
  "my_time_to_str t dec =
     with_useconds ((if neg t then ''-'' else []) @ fmt_u 2 (hour t) @ '':'' @ fmt_u 2 (minute t)
        @ '':'' @ fmt_u 2 (second t)) (second_part t) dec"

definition my_date_to_str :: "mysql_time \<Rightarrow> string" where
  "my_date_to_str t = fmt_u 4 (year t) @ ''-'' @ fmt_u 2 (month t) @ ''-'' @ fmt_u 2 (day t)"

definition two_digits :: "int \<Rightarrow> string" where
  "two_digits v = (let temp2 = v div 10 in [ascii_digit temp2, ascii_digit (v - temp2 * 10)])"

definition TIME_to_datetime_str :: "mysql_time \<Rightarrow> string" where
  "TIME_to_datetime_str t =
     [ascii_digit (year t div 100 div 10), ascii_digit (year t div 100 mod 10),
      ascii_digit (year t mod 100 div 10), ascii_digit (year t mod 100 mod 10)] @ ''-''
     @ two_digits (month t) @ ''-'' @ two_digits (day t) @ '' '' @ two_digits (hour t) @ '':''
     @ two_digits (minute t) @ '':'' @ two_digits (second t)"

definition my_datetime_to_str :: "mysql_time \<Rightarrow> nat \<Rightarrow> string option" where
  "my_datetime_to_str t dec = with_useconds (TIME_to_datetime_str t) (second_part t) dec"

definition my_TIME_to_str :: "mysql_time \<Rightarrow> nat \<Rightarrow> string option" where
  "my_TIME_to_str t dec =
     (case time_type t of
        MYSQL_TIMESTAMP_DATETIME \<Rightarrow> my_datetime_to_str t dec
      | MYSQL_TIMESTAMP_DATE \<Rightarrow> Some (my_date_to_str t)
      | MYSQL_TIMESTAMP_TIME \<Rightarrow> my_time_to_str t dec
      | MYSQL_TIMESTAMP_NONE \<Rightarrow> Some []
      | MYSQL_TIMESTAMP_ERROR \<Rightarrow> Some [])"

definition my_timeval_to_str :: "timeval \<Rightarrow> nat \<Rightarrow> string option" where
  "my_timeval_to_str tm dec = with_useconds (fmt_d (tv_sec tm)) (tv_usec tm) dec"

section \<open>Packed values\<close>

text \<open>A TIME value as the library builds it: no date part, a time of day within the range of the
  type, and no negative zero.\<close>

lemma pack_hms:
  fixes h m s :: int
  assumes "0 \<le> m" "m < 64" "0 \<le> s" "s < 64"
  shows "or (or (h * 4096) (m * 64)) s = h * 4096 + m * 64 + s"
proof -
  have "or (h * 4096) (m * 64) = h * 4096 + m * 64"
    using assms by (intro or_dvd_add [of 12]) simp_all
  moreover have "64 dvd h * 4096 + m * 64" by presburger
  ultimately show ?thesis using assms by (simp add: or_dvd_add [of 6])
qed

definition time_wf :: "mysql_time \<Rightarrow> bool" where
  "time_wf t \<longleftrightarrow> year t = 0 \<and> month t = 0 \<and> day t = 0 \<and> 0 \<le> hour t \<and> 0 \<le> minute t \<and> 0 \<le> second t
     \<and> 0 \<le> second_part t \<and> hour t \<le> TIME_MAX_HOUR \<and> \<not> check_time_mmssff_range t
     \<and> time_type t = MYSQL_TIMESTAMP_TIME
     \<and> (neg t \<longrightarrow> hour t \<noteq> 0 \<or> minute t \<noteq> 0 \<or> second t \<noteq> 0 \<or> second_part t \<noteq> 0)"

lemma time_wf_bounds:
  assumes "time_wf t"
  shows "0 \<le> hour t" "hour t \<le> 838" "0 \<le> minute t" "minute t < 60" "0 \<le> second t" "second t < 60"
    "0 \<le> second_part t" "second_part t < 1000000" "day t = 0" "month t = 0" "year t = 0"
  using assms by (auto simp: time_wf_def check_time_mmssff_range_def time_consts)

lemma time_packed_value:
  assumes "time_wf t"
  shows "TIME_to_longlong_time_packed t = (if neg t then -1 else 1) *
     ((hour t * 4096 + minute t * 64 + second t) * 16777216 + second_part t)"
  using time_wf_bounds [OF assms]
  by (simp add: TIME_to_longlong_time_packed_def MY_PACKED_TIME_MAKE_def shl_mult u32_id pack_hms
     s32_id s64_id)

lemma unpack_hms:
  fixes h m s :: int
  assumes "0 \<le> m" "m < 64" "0 \<le> s" "s < 64"
  shows "(h * 4096 + m * 64 + s) div 4096 = h" "(h * 4096 + m * 64 + s) div 64 mod 64 = m"
    "(h * 4096 + m * 64 + s) mod 64 = s"
proof -
  have "(h * 4096 + (m * 64 + s)) div 4096 = h" using assms by (intro radix_div) simp_all
  then show "(h * 4096 + m * 64 + s) div 4096 = h" by (simp only: add.assoc)
  have eq: "h * 4096 + m * 64 + s = (h * 64 + m) * 64 + s" by simp
  show "(h * 4096 + m * 64 + s) mod 64 = s" using assms unfolding eq by (intro radix_mod) simp_all
  have "(h * 4096 + m * 64 + s) div 64 = h * 64 + m"
    using assms unfolding eq by (intro radix_div) simp_all
  then show "(h * 4096 + m * 64 + s) div 64 mod 64 = m" using assms by (simp only: radix_mod)
qed

lemma packed_parts:
  assumes "0 \<le> i" "0 \<le> f" "f < 16777216"
  shows "MY_PACKED_TIME_GET_INT_PART (i * 16777216 + f) = i"
    "MY_PACKED_TIME_GET_FRAC_PART (i * 16777216 + f) = f"
  using assms radix_div [of f 16777216 i] radix_mod [of f 16777216 i]
  by (simp_all add: MY_PACKED_TIME_GET_INT_PART_def MY_PACKED_TIME_GET_FRAC_PART_def shr_div smod_nonneg)

lemma time_unpack_pack:
  assumes "time_wf t"
  shows "TIME_from_longlong_time_packed (TIME_to_longlong_time_packed t) = t"
proof -
  define i where "i = hour t * 4096 + minute t * 64 + second t"
  define v where "v = i * 16777216 + second_part t"
  note b = time_wf_bounds [OF assms]
  have i: "0 \<le> i" "i < 4294967296" using b by (simp_all add: i_def)
  have val: "TIME_to_longlong_time_packed t = (if neg t then - v else v)"
    by (simp add: time_packed_value [OF assms] v_def i_def)
  have v0: "0 \<le> v" "v < 9223372036854775808" using b i by (simp_all add: v_def)
  have "v \<noteq> 0" if "neg t"
  proof -
    have "0 < hour t \<or> 0 < minute t \<or> 0 < second t \<or> 0 < second_part t"
      using that assms by (auto simp: time_wf_def order_less_le)
    then have "0 < v" using b by (elim disjE) (simp_all add: v_def i_def)
    then show ?thesis by simp
  qed
  then have sgn: "TIME_to_longlong_time_packed t < 0 \<longleftrightarrow> neg t" using v0 by (auto simp: val)
  have abs: "(if neg t then s64 (- TIME_to_longlong_time_packed t)
       else TIME_to_longlong_time_packed t) = v"
    using v0 by (simp add: val s64_id)
  have parts: "MY_PACKED_TIME_GET_INT_PART v = i" "MY_PACKED_TIME_GET_FRAC_PART v = second_part t"
    unfolding v_def using i b by (simp_all add: packed_parts)
  have fields: "i div 4096 = hour t" "i div 64 mod 64 = minute t" "i mod 64 = second t"
    unfolding i_def using b by (simp_all add: unpack_hms)
  have "0 \<le> i div 64" "i div 64 < 4294967296" using i by simp_all
  then show ?thesis using b assms
    by (simp add: TIME_from_longlong_time_packed_def Let_def sgn abs parts shr_div u32_id i fields
        time_wf_def mysql_time.equality)
qed

text \<open>Packing a TIME value into one 64-bit number and unpacking it again gives the value back,
  for both signs.\<close>

theorem time_packed_roundtrip:
  assumes "time_wf t"
  shows "TIME_from_longlong_time_packed (TIME_to_longlong_time_packed t) = t"
  using assms by (rule time_unpack_pack)

theorem time_packed_roundtrip_witness:
  "TIME_from_longlong_time_packed (TIME_to_longlong_time_packed
     \<lparr>year = 0, month = 0, day = 0, hour = 12, minute = 34, second = 56, second_part = 789000,
      neg = True, time_type = MYSQL_TIMESTAMP_TIME\<rparr>)
   = \<lparr>year = 0, month = 0, day = 0, hour = 12, minute = 34, second = 56, second_part = 789000,
      neg = True, time_type = MYSQL_TIMESTAMP_TIME\<rparr>"
  by (rule time_packed_roundtrip) (simp add: time_wf_def check_time_mmssff_range_def time_consts)


text \<open>A DATETIME value as \<open>check_datetime_range\<close> accepts it.\<close>

definition datetime_wf :: "mysql_time \<Rightarrow> bool" where
  "datetime_wf t \<longleftrightarrow> 0 \<le> year t \<and> 0 \<le> month t \<and> 0 \<le> day t \<and> 0 \<le> hour t \<and> 0 \<le> minute t
     \<and> 0 \<le> second t \<and> 0 \<le> second_part t \<and> \<not> check_datetime_range t \<and> \<not> neg t
     \<and> time_type t = MYSQL_TIMESTAMP_DATETIME"

lemma datetime_wf_bounds:
  assumes "datetime_wf t"
  shows "0 \<le> year t" "year t \<le> 9999" "0 \<le> month t" "month t \<le> 12" "0 \<le> day t" "day t \<le> 31"
    "0 \<le> hour t" "hour t \<le> 23" "0 \<le> minute t" "minute t \<le> 59" "0 \<le> second t" "second t \<le> 59"
    "0 \<le> second_part t" "second_part t \<le> 999999" "\<not> neg t" "time_type t = MYSQL_TIMESTAMP_DATETIME"
  using assms by (auto simp: datetime_wf_def check_datetime_range_def)

definition dt_ymd :: "mysql_time \<Rightarrow> int" where "dt_ymd t = (year t * 13 + month t) * 32 + day t"
definition dt_hms :: "mysql_time \<Rightarrow> int" where
  "dt_hms t = hour t * 4096 + minute t * 64 + second t"

lemma dt_ranges:
  assumes "datetime_wf t"
  shows "0 \<le> dt_ymd t" "dt_ymd t < 4160000" "0 \<le> dt_hms t" "dt_hms t < 131072"
  using datetime_wf_bounds [OF assms] by (simp_all add: dt_ymd_def dt_hms_def)

lemma datetime_packed_value:
  assumes "datetime_wf t"
  shows "TIME_to_longlong_datetime_packed t
    = (dt_ymd t * 131072 + dt_hms t) * 16777216 + second_part t"
proof -
  note b = datetime_wf_bounds [OF assms] and r = dt_ranges [OF assms]
  have ymd: "or (u32 (shl (u32 (year t * 13 + month t)) 5)) (day t) = dt_ymd t"
    using b by (simp add: dt_ymd_def shl_mult u32_id or_dvd_add [of 5])
  have hms: "or (or (u32 (shl (hour t) 12)) (u32 (shl (minute t) 6))) (second t) = dt_hms t"
    using b by (simp add: dt_hms_def shl_mult u32_id pack_hms)
  have all: "or (s64 (shl (dt_ymd t) 17)) (dt_hms t) = dt_ymd t * 131072 + dt_hms t"
    using r by (simp add: shl_mult s64_id or_dvd_add [of 17])
  show ?thesis
    unfolding TIME_to_longlong_datetime_packed_def Let_def ymd hms all MY_PACKED_TIME_MAKE_def
    using b r by (simp add: shl_mult s64_id)
qed

lemma datetime_unpack_pack:
  assumes "datetime_wf t"
  shows "TIME_from_longlong_datetime_packed (TIME_to_longlong_datetime_packed t) = t"
proof -
  note b = datetime_wf_bounds [OF assms] and r = dt_ranges [OF assms]
  define i where "i = dt_ymd t * 131072 + dt_hms t"
  have i: "0 \<le> i" using r by (simp add: i_def)
  have parts: "MY_PACKED_TIME_GET_INT_PART (i * 16777216 + second_part t) = i"
    "MY_PACKED_TIME_GET_FRAC_PART (i * 16777216 + second_part t) = second_part t"
    using i b by (simp_all add: packed_parts)
  have i_split: "i div 131072 = dt_ymd t" "i smod 131072 = dt_hms t"
    using r i by (simp_all add: i_def radix_div radix_mod smod_nonneg)
  have ym: "dt_ymd t div 32 = year t * 13 + month t" "dt_ymd t smod 32 = day t"
    using b r unfolding dt_ymd_def by (simp_all only: radix_div radix_mod smod_nonneg)
  have ym1: "i div 4194304 = year t * 13 + month t"
    using zdiv_zmult2_eq [of 32 i 131072] by (simp add: i_split ym)
  have ym2: "(year t * 13 + month t) sdiv 13 = year t" "(year t * 13 + month t) smod 13 = month t"
    using b by (simp_all add: sdiv_nonneg smod_nonneg radix_div radix_mod)
  have hms: "dt_hms t div 4096 = hour t" "(dt_hms t div 64) smod 64 = minute t" "dt_hms t smod 64 = second t"
    using b r unpack_hms [of "minute t" "second t" "hour t"]
    by (simp_all add: dt_hms_def smod_nonneg)
  show ?thesis using b i
    by (simp add: TIME_from_longlong_datetime_packed_def datetime_packed_value [OF assms]
        flip: i_def)
      (simp add: Let_def parts shr_div i_split ym ym1 ym2 hms u32_id mysql_time.equality)
qed

text \<open>Packing a DATETIME value that passes \<open>check_datetime_range\<close> into one 64-bit number and
  unpacking it again gives the value back.\<close>

theorem datetime_packed_roundtrip:
  assumes "datetime_wf t"
  shows "TIME_from_longlong_datetime_packed (TIME_to_longlong_datetime_packed t) = t"
  using assms by (rule datetime_unpack_pack)

theorem datetime_packed_roundtrip_witness:
  "TIME_from_longlong_datetime_packed (TIME_to_longlong_datetime_packed
     \<lparr>year = 2016, month = 2, day = 29, hour = 23, minute = 59, second = 58, second_part = 123456,
      neg = False, time_type = MYSQL_TIMESTAMP_DATETIME\<rparr>)
   = \<lparr>year = 2016, month = 2, day = 29, hour = 23, minute = 59, second = 58, second_part = 123456,
      neg = False, time_type = MYSQL_TIMESTAMP_DATETIME\<rparr>"
  by (rule datetime_packed_roundtrip) (simp add: datetime_wf_def check_datetime_range_def)

section \<open>Binary values\<close>

lemma packed_split:
  fixes nr :: int
  defines "ip \<equiv> MY_PACKED_TIME_GET_INT_PART nr" and "fp \<equiv> MY_PACKED_TIME_GET_FRAC_PART nr"
  shows "nr = (ip + (if fp < 0 then 1 else 0)) * 16777216 + fp"
    and "fp < 0 \<Longrightarrow> ip < 0" and "0 < fp \<Longrightarrow> 0 \<le> ip"
proof -
  have ip: "ip = nr div 16777216" by (simp add: ip_def MY_PACKED_TIME_GET_INT_PART_def shr_div)
  have nr: "nr = nr div 16777216 * 16777216 + nr mod 16777216" by simp
  have fp: "fp = (if 0 \<le> nr then nr mod 16777216
       else if nr mod 16777216 = 0 then 0 else nr mod 16777216 - 16777216)"
    by (cases "nr = 0"; cases "0 < nr") (auto simp: fp_def MY_PACKED_TIME_GET_FRAC_PART_def smod_nonneg
        signed_modulo_int_eq_modulo_int dvd_eq_mod_eq_0)
  have m: "0 \<le> nr mod 16777216" "nr mod 16777216 < 16777216" by simp_all
  show "nr = (ip + (if fp < 0 then 1 else 0)) * 16777216 + fp"
    using m unfolding ip fp by (auto simp: algebra_simps)
  show "fp < 0 \<Longrightarrow> ip < 0" "0 < fp \<Longrightarrow> 0 \<le> ip"
    using m unfolding ip fp by (auto split: if_splits simp: pos_imp_zdiv_neg_iff pos_imp_zdiv_nonneg_iff)
qed

text \<open>What a stored value must satisfy: its fraction is rounded to \<open>dec\<close> digits.\<close>

definition frac_rounded :: "int \<Rightarrow> nat \<Rightarrow> bool" where
  "frac_rounded f dec \<longleftrightarrow> 10 ^ (6 - dec) dvd f \<and> \<bar>f\<bar> < 1000000"

lemma frac_rounded_unit:
  assumes "frac_rounded f dec" "dec \<le> 6"
  shows "dec = 1 \<or> dec = 2 \<Longrightarrow> \<exists>k. f = k * 10000 \<and> \<bar>k\<bar> < 100"
    "dec = 3 \<or> dec = 4 \<Longrightarrow> \<exists>k. f = k * 100 \<and> \<bar>k\<bar> < 10000" "dec = 0 \<Longrightarrow> f = 0"
proof -
  have d: "10 ^ (6 - dec) dvd f" and a: "\<bar>f\<bar> < 1000000" using assms by (auto simp: frac_rounded_def)
  show "\<exists>k. f = k * 10000 \<and> \<bar>k\<bar> < 100" if "dec = 1 \<or> dec = 2"
  proof -
    have "10000 dvd f" using d that by (auto intro: dvd_trans [of 10000 100000])
    then obtain k where "f = k * 10000" by (metis dvdE mult.commute)
    then show ?thesis using a by auto
  qed
  show "\<exists>k. f = k * 100 \<and> \<bar>k\<bar> < 10000" if "dec = 3 \<or> dec = 4"
  proof -
    have "100 dvd f" using d that by (auto intro: dvd_trans [of 100 1000])
    then obtain k where "f = k * 100" by (metis dvdE mult.commute)
    then show ?thesis using a by auto
  qed
  show "f = 0" if "dec = 0"
  proof (rule ccontr)
    assume "f \<noteq> 0"
    then have "1000000 \<le> \<bar>f\<bar>" using d that zdvd_imp_le [of 1000000 "\<bar>f\<bar>"] by simp
    then show False using a by simp
  qed
qed

lemma dec_cases:
  assumes "dec \<le> (6::nat)"
  obtains "dec = 0" | "dec = 1 \<or> dec = 2" | "dec = 3 \<or> dec = 4" | "dec = 5 \<or> dec = 6"
  using assms by force

text \<open>The decoder's correction of the fraction of a negative value.\<close>

lemma time_frac_decode:
  fixes ip k M c :: int
  assumes "0 < c" "0 < M" "\<bar>k\<bar> < M" "k < 0 \<Longrightarrow> ip < 0" "0 < k \<Longrightarrow> 0 \<le> ip"
    and make: "MY_PACKED_TIME_MAKE (ip + (if k < 0 then 1 else 0)) (k * c) = nr"
  shows "(if ip < 0 \<and> k mod M \<noteq> 0 then MY_PACKED_TIME_MAKE (ip + 1) ((k mod M - M) * c)
     else MY_PACKED_TIME_MAKE ip (k mod M * c)) = nr"
proof (cases "k < 0")
  case True
  have "k mod M = (k + M) mod M" by simp
  also have "\<dots> = k + M" using assms True by (intro mod_pos_pos_trivial) linarith+
  finally show ?thesis using assms True by simp
next
  case False
  then have "k mod M = k" "ip < 0 \<Longrightarrow> k = 0" using assms by force+
  then show ?thesis using False make by (cases "ip < 0") auto
qed

lemma time_read_back:
  assumes dec: "dec \<le> 6" and range: "- (2 ^ 47) \<le> nr" "nr < 2 ^ 47"
    and frac: "frac_rounded (MY_PACKED_TIME_GET_FRAC_PART nr) dec"
  shows "my_time_packed_from_binary (pre @ my_time_packed_to_binary nr dec @ post) (length pre) dec
    = Some nr"
proof -
  define ip where "ip = MY_PACKED_TIME_GET_INT_PART nr"
  define fp where "fp = MY_PACKED_TIME_GET_FRAC_PART nr"
  note defs = my_time_packed_from_binary_def my_time_packed_to_binary_def ip_def [symmetric]
    fp_def [symmetric] store_read_simps byte_at_def nth_append Let_def
  have nr: "nr = (ip + (if fp < 0 then 1 else 0)) * 16777216 + fp"
    and sg: "fp < 0 \<Longrightarrow> ip < 0" "0 < fp \<Longrightarrow> 0 \<le> ip"
    using packed_split [of nr] by (simp_all add: ip_def fp_def)
  have ip: "-8388608 \<le> ip" "ip < 8388608"
    using range by (simp_all add: ip_def MY_PACKED_TIME_GET_INT_PART_def shr_div) 
  have abs: "\<bar>fp\<bar> < 1000000" using frac by (simp add: frac_rounded_def fp_def)
  have make: "MY_PACKED_TIME_MAKE (ip + (if fp < 0 then 1 else 0)) fp = nr"
    using nr ip abs range by (simp add: MY_PACKED_TIME_MAKE_def shl_mult s64_id)
  have ofs: "(TIMEF_INT_OFS + ip) mod 16777216 - TIMEF_INT_OFS = ip"
    using ip by (simp add: TIMEF_INT_OFS_def)
  note unit = frac_rounded_unit [OF frac dec, folded fp_def]
  have decode: "(if ip < 0 \<and> k mod M \<noteq> 0 then MY_PACKED_TIME_MAKE (ip + 1) ((k mod M - M) * c)
      else MY_PACKED_TIME_MAKE ip (k mod M * c)) = nr"
    if "fp = k * c" "0 < c" "0 < M" "\<bar>k\<bar> < M" for k c M
    using that sg make
    by (intro time_frac_decode) (simp_all add: mult_less_0_iff zero_less_mult_iff)
  from dec show ?thesis
  proof (cases rule: dec_cases)
    case 1
    then show ?thesis using unit(3) make ofs
      by (simp add: defs MY_PACKED_TIME_MAKE_def MY_PACKED_TIME_MAKE_INT_def)
  next
    case 2
    then obtain k where k: "fp = k * 10000" "\<bar>k\<bar> < 100" using unit(1) by blast
    have "(if ip < 0 \<and> k mod 256 \<noteq> 0 then MY_PACKED_TIME_MAKE (ip + 1) ((k mod 256 - 256) * 10000)
      else MY_PACKED_TIME_MAKE ip (k mod 256 * 10000)) = nr" using k by (intro decode) simp_all
    then show ?thesis using 2 ofs by (auto simp: defs k algebra_simps)
  next
    case 3
    then obtain k where k: "fp = k * 100" "\<bar>k\<bar> < 10000" using unit(2) by blast
    have "(if ip < 0 \<and> k mod 65536 \<noteq> 0 then MY_PACKED_TIME_MAKE (ip + 1) ((k mod 65536 - 65536) * 100)
      else MY_PACKED_TIME_MAKE ip (k mod 65536 * 100)) = nr" using k by (intro decode) simp_all
    then show ?thesis using 3 ofs by (auto simp: defs k algebra_simps)
  next
    case 4
    then show ?thesis using range by (auto simp: defs TIMEF_OFS_def)
  qed
qed

text \<open>The TIME2 column format: what is stored with \<open>dec\<close> fractional digits is read back from
  anywhere in a buffer, for negative values too, when the fraction is rounded to that precision.\<close>

lemma time_binary_roundtrip:
  assumes dec: "dec \<le> 6" and range: "- (2 ^ 47) \<le> nr" "nr < 2 ^ 47"
    and frac: "frac_rounded (MY_PACKED_TIME_GET_FRAC_PART nr) dec"
  shows "my_time_packed_from_binary (pre @ my_time_packed_to_binary nr dec @ post) (length pre) dec
    = Some nr"
  using assms by (rule time_read_back)

lemma time_binary_roundtrip_witness:
  "my_time_packed_from_binary ([1] @ my_time_packed_to_binary (-16787216) 2 @ [2]) (length [1 :: uchar]) 2
   = Some (-16787216)"
  by (rule time_binary_roundtrip)
    (simp_all add: frac_rounded_def MY_PACKED_TIME_GET_FRAC_PART_def signed_modulo_int_def signed_divide_int_def)

lemma datetime_read_back:
  assumes dec: "dec \<le> 6" and range: "0 \<le> nr" "nr < 2 ^ 63"
    and frac: "frac_rounded (MY_PACKED_TIME_GET_FRAC_PART nr) dec"
  shows "my_datetime_packed_from_binary (pre @ my_datetime_packed_to_binary nr dec @ post) (length pre) dec
    = Some nr"
proof -
  define ip where "ip = MY_PACKED_TIME_GET_INT_PART nr"
  define fp where "fp = MY_PACKED_TIME_GET_FRAC_PART nr"
  note defs = my_datetime_packed_from_binary_def my_datetime_packed_to_binary_def ip_def [symmetric]
    fp_def [symmetric] store_read_simps byte_at_def nth_append Let_def
  have fp0: "0 \<le> fp" using range by (simp add: fp_def MY_PACKED_TIME_GET_FRAC_PART_def smod_nonneg)
  have nr: "nr = ip * 16777216 + fp"
    using packed_split (1) [of nr] fp0 by (simp add: ip_def fp_def)
  have ip: "0 \<le> ip" "ip < 549755813888"
    using range by (simp_all add: ip_def MY_PACKED_TIME_GET_INT_PART_def shr_div)
  have abs: "fp < 1000000" using frac by (simp add: frac_rounded_def fp_def abs_less_iff)
  have make: "MY_PACKED_TIME_MAKE ip fp = nr"
    using nr ip abs range by (simp add: MY_PACKED_TIME_MAKE_def shl_mult s64_id)
  have ofs: "(ip + DATETIMEF_INT_OFS) mod 1099511627776 - DATETIMEF_INT_OFS = ip"
    using ip by (simp add: DATETIMEF_INT_OFS_def)
  note unit = frac_rounded_unit [OF frac dec, folded fp_def]
  from dec show ?thesis
  proof (cases rule: dec_cases)
    case 1
    then show ?thesis using unit(3) make ofs
      by (simp add: defs MY_PACKED_TIME_MAKE_def MY_PACKED_TIME_MAKE_INT_def)
  next
    case 2
    then obtain k where k: "fp = k * 10000" "\<bar>k\<bar> < 100" using unit(1) by blast
    then have "s8 (k mod 256) = k" using fp0 by (simp add: s8_id)
    then show ?thesis using 2 ofs make k by (simp add: defs)
  next
    case 3
    then obtain k where k: "fp = k * 100" "\<bar>k\<bar> < 10000" using unit(2) by blast
    then show ?thesis using 3 ofs make by (auto simp: defs sext_id)
  next
    case 4
    then show ?thesis using ofs make fp0 abs sext_id(3) [of fp] by (auto simp: defs)
  qed
qed

text \<open>The DATETIME2 column format reads back what it stores at every precision.\<close>

theorem datetime_binary_roundtrip:
  assumes dec: "dec \<le> 6" and range: "0 \<le> nr" "nr < 2 ^ 63"
    and frac: "frac_rounded (MY_PACKED_TIME_GET_FRAC_PART nr) dec"
  shows "my_datetime_packed_from_binary (pre @ my_datetime_packed_to_binary nr dec @ post) (length pre) dec
    = Some nr"
  using assms by (rule datetime_read_back)

theorem datetime_binary_roundtrip_witness:
  "my_datetime_packed_from_binary ([1] @ my_datetime_packed_to_binary (16777216 * 50000 + 987600) 4 @ [2])
     (length [1 :: uchar]) 4 = Some (16777216 * 50000 + 987600)"
  by (rule datetime_binary_roundtrip)
    (simp_all add: frac_rounded_def MY_PACKED_TIME_GET_FRAC_PART_def signed_modulo_int_def signed_divide_int_def)

lemma timestamp_read_back:
  assumes dec: "dec \<le> 6" and sec: "- (2 ^ 31) \<le> tv_sec tm" "tv_sec tm < 2 ^ 31"
    and frac: "0 \<le> tv_usec tm" "frac_rounded (tv_usec tm) dec"
  shows "my_timestamp_from_binary (pre @ my_timestamp_to_binary tm dec @ post) (length pre) dec = Some tm"
proof -
  note defs = my_timestamp_from_binary_def my_timestamp_to_binary_def store_read_simps byte_at_def nth_append Let_def
  have s: "s32 (tv_sec tm mod 4294967296) = tv_sec tm"
    using sec s_sext(3) [of "tv_sec tm mod 4294967296"] by (simp add: sext_id)
  have abs: "tv_usec tm < 1000000" using frac by (simp add: frac_rounded_def abs_less_iff)
  note unit = frac_rounded_unit [OF frac(2) dec]
  from dec show ?thesis
  proof (cases rule: dec_cases)
    case 1
    then show ?thesis using unit(3) s by (simp add: defs)
  next
    case 2
    then obtain k where k: "tv_usec tm = k * 10000" "\<bar>k\<bar> < 100" using unit(1) by blast
    then have "tm = \<lparr>tv_sec = tv_sec tm, tv_usec = k * 10000\<rparr>" by simp
    then show ?thesis using 2 s k frac(1) by (simp add: defs)
  next
    case 3
    then obtain k where k: "tv_usec tm = k * 100" "\<bar>k\<bar> < 10000" using unit(2) by blast
    then have "tm = \<lparr>tv_sec = tv_sec tm, tv_usec = k * 100\<rparr>" by simp
    then show ?thesis using 3 s k by (auto simp: defs sext_id)
  next
    case 4
    then show ?thesis using s frac(1) abs sext_id(3) [of "tv_usec tm"] by (auto simp: defs)
  qed
qed

text \<open>The TIMESTAMP2 column format reads back the seconds (as a 32-bit \<open>long\<close>) and the
  microseconds it stores at every precision.\<close>

theorem timestamp_binary_roundtrip:
  assumes dec: "dec \<le> 6" and sec: "- (2 ^ 31) \<le> tv_sec tm" "tv_sec tm < 2 ^ 31"
    and frac: "0 \<le> tv_usec tm" "frac_rounded (tv_usec tm) dec"
  shows "my_timestamp_from_binary (pre @ my_timestamp_to_binary tm dec @ post) (length pre) dec = Some tm"
  using assms by (rule timestamp_read_back)

theorem timestamp_binary_roundtrip_witness:
  "my_timestamp_from_binary ([1] @ my_timestamp_to_binary \<lparr>tv_sec = 1456000000, tv_usec = 120000\<rparr> 2 @ [2])
     (length [1 :: uchar]) 2 = Some \<lparr>tv_sec = 1456000000, tv_usec = 120000\<rparr>"
  by (rule timestamp_binary_roundtrip) (simp_all add: frac_rounded_def)

section \<open>The calendar\<close>

text \<open>Reference calendar: the days before a year and before a month, by summation.\<close>

definition days_before_year :: "nat \<Rightarrow> int" where
  "days_before_year y = (\<Sum>i<y. calc_days_in_year (int i))"

definition month_days :: "int \<Rightarrow> nat \<Rightarrow> int" where
  "month_days y m = (if m = 1 \<and> calc_days_in_year y = 366 then 29 else days_in_month ! m)"

definition days_before_month :: "int \<Rightarrow> nat \<Rightarrow> int" where
  "days_before_month y m = (\<Sum>i<m - 1. month_days y i)"

text \<open>The leap days up to the end of a year after year 0, and the days a month of 31 days lacks.\<close>

definition leap_days :: "int \<Rightarrow> int" where
  "leap_days y = y div 4 - (y div 100 + 1) * 3 div 4"

definition short_days :: "int \<Rightarrow> int" where
  "short_days m = (m * 4 + 23) div 10"

lemma and_3: "and (y::int) 3 = y mod 4"
proof -
  have "and y (mask 2) = take_bit 2 y" by (simp add: take_bit_eq_mask)
  then show ?thesis by (simp add: mask_eq_exp_minus_1 take_bit_eq_mod)
qed

lemma century_step: "(c + 1) * 3 div 4 = (c::int) * 3 div 4 + (if c mod 4 = 0 then 0 else 1)"
  by presburger

lemma quarter_step: "(y::int) div 4 = (y - 1) div 4 + (if y mod 4 = 0 then 1 else 0)"
  by presburger

lemma leap_days_step:
  fixes y :: int
  shows "leap_days y = leap_days (y - 1)
    + (if y mod 4 = 0 \<and> (y mod 100 \<noteq> 0 \<or> y mod 400 = 0) then 1 else 0)"
proof -
  define c r where "c = y div 100" and "r = y mod 100"
  have y: "y = c * 100 + r" "0 \<le> r" "r < 100" by (simp_all add: c_def r_def)
  show ?thesis
  proof (cases "r = 0")
    case True
    then have "y - 1 = (c - 1) * 100 + 99" using y by simp
    then have d: "(y - 1) div 100 = c - 1" by (simp only: radix_div)
    have "y mod 400 = 0 \<longleftrightarrow> c mod 4 = 0" "y mod 4 = 0" using y True by presburger+
    then show ?thesis unfolding leap_days_def d c_def [symmetric] r_def [symmetric]
      using True by (simp only: quarter_step [of y] century_step [of c]) simp
  next
    case False
    then have "y - 1 = c * 100 + (r - 1)" using y by simp
    then have d: "(y - 1) div 100 = c" using y False by (simp add: radix_div)
    show ?thesis unfolding leap_days_def d c_def [symmetric] r_def [symmetric]
      using False by (simp only: quarter_step [of y]) simp
  qed
qed

lemma days_in_year_leap:
  "0 < y \<Longrightarrow> calc_days_in_year y = 365 + (leap_days y - leap_days (y - 1))"
  by (simp add: leap_days_step [of y] calc_days_in_year_def and_3)

lemma days_before_year_closed: "days_before_year (Suc n) = 365 * int (Suc n) + leap_days (int n)"
proof (induction n)
  case 0
  then show ?case by (simp add: days_before_year_def calc_days_in_year_def leap_days_def)
next
  case (Suc n)
  have "days_before_year (Suc (Suc n)) = days_before_year (Suc n) + calc_days_in_year (int (Suc n))"
    by (simp add: days_before_year_def)
  also have "calc_days_in_year (int (Suc n)) = 365 + (leap_days (int (Suc n)) - leap_days (int n))"
    using days_in_year_leap [of "int (Suc n)"] by simp
  finally show ?case using Suc by simp
qed

lemma days_before_month_closed:
  assumes "1 \<le> m" "m \<le> 12"
  shows "days_before_month y m = 31 * (int m - 1)
    - (if m \<le> 2 then 0 else short_days (int m) - (if calc_days_in_year y = 366 then 1 else 0))"
proof -
  have "m \<in> set [1..<13]" using assms by simp
  then show ?thesis
    unfolding upt_rec_numeral set_simps
    by (auto simp: days_before_month_def month_days_def days_in_month_def eval_nat_numeral short_days_def)
qed

lemma daynr_bounds:
  fixes y :: int
  assumes "0 \<le> y" "y \<le> 9999"
  shows "0 \<le> y div 4" "y div 4 \<le> 2499" "0 \<le> y div 100" "y div 100 \<le> 99"
    "0 \<le> (y div 100 + 1) * 3 div 4" "(y div 100 + 1) * 3 div 4 \<le> 75"
    "-75 \<le> leap_days y" "leap_days y \<le> 2499"
proof -
  show a: "0 \<le> y div 4" "y div 4 \<le> 2499" "0 \<le> y div 100" "y div 100 \<le> 99"
    using assms by simp_all
  then have b: "0 \<le> (y div 100 + 1) * 3" "(y div 100 + 1) * 3 \<le> 300" by simp_all
  then show c: "0 \<le> (y div 100 + 1) * 3 div 4" "(y div 100 + 1) * 3 div 4 \<le> 75" by simp_all
  show "-75 \<le> leap_days y" "leap_days y \<le> 2499" unfolding leap_days_def using a c by linarith+
qed

lemma short_days_bounds: "1 \<le> m \<Longrightarrow> m \<le> 12 \<Longrightarrow> 0 \<le> short_days m \<and> short_days m \<le> 7"
  unfolding short_days_def by presburger

lemma leap_days_sdiv:
  assumes "0 \<le> y" "y \<le> 9999"
  shows "a + y sdiv 4 - (y sdiv 100 * 3 + 3) sdiv 4 = a + leap_days y"
  using daynr_bounds [OF assms] assms by (simp add: sdiv_nonneg leap_days_def)

lemma calc_daynr_value:
  assumes y: "1 \<le> y" "y \<le> 9999" and m: "1 \<le> m" "m \<le> 12" and d: "0 \<le> d" "d \<le> 31"
  shows "calc_daynr y m d = 365 * y + 31 * (m - 1) + d
    + (if m \<le> 2 then leap_days (y - 1) else leap_days y - short_days m)"
proof -
  have sh: "(m * 4 + 23) sdiv 10 = short_days m" using m by (simp add: sdiv_nonneg short_days_def)
  show ?thesis
  proof (cases "m \<le> 2")
    case True
    then show ?thesis using y m d daynr_bounds [of "y - 1"]
      by (simp add: calc_daynr_def Let_def s32_id leap_days_sdiv)
  next
    case False
    then show ?thesis using y m d short_days_bounds [of m] daynr_bounds [of y]
      by (simp add: calc_daynr_def Let_def s32_id leap_days_sdiv sh)
  qed
qed

lemma days_in_year_cases: "calc_days_in_year y = 366 \<or> calc_days_in_year y = 365"
  by (simp add: calc_days_in_year_def)

text \<open>The closed formula of \<open>calc_daynr\<close> is the number of days of all earlier years (as
  \<open>calc_days_in_year\<close> counts them), of the earlier months of the year, and the day, for every date of
  the years 0 to 9999.\<close>

lemma calc_daynr_counts_days:
  assumes "y \<le> 9999" "1 \<le> m" "m \<le> 12" "0 \<le> d" "d \<le> 31"
  shows "calc_daynr (int y) (int m) d = days_before_year y + days_before_month (int y) m + d"
proof (cases y)
  case 0
  have sh: "(int m * 4 + 23) sdiv 10 = short_days (int m)"
    by (simp add: sdiv_nonneg short_days_def)
  have z: "1 sdiv (100::int) = 0" "1 sdiv (4::int) = 0" "3 sdiv (4::int) = 0"
    by (simp_all add: signed_divide_int_def)
  show ?thesis using assms short_days_bounds [of "int m"]
    by (simp add: 0 calc_daynr_def Let_def s32_id sh z days_before_month_closed
        days_before_year_def calc_days_in_year_def)
next
  case (Suc n)
  then have "calc_days_in_year (int y) = 365 + (leap_days (int y) - leap_days (int n))"
    using days_in_year_leap [of "int y"] by simp
  then show ?thesis using assms Suc days_in_year_cases [of "int y"]
    by (auto simp: calc_daynr_value days_before_month_closed days_before_year_closed)
qed

lemma calc_daynr_counts_days_witness:
  "calc_daynr (int 4) (int 3) 1 = days_before_year 4 + days_before_month (int 4) 3 + 1"
  by (rule calc_daynr_counts_days) simp_all

section \<open>Order of packed values\<close>

text \<open>The fields of a DATETIME from the year down.\<close>

definition dt_key :: "mysql_time \<Rightarrow> int list" where
  "dt_key t = [year t, month t, day t, hour t, minute t, second t, second_part t]"

text \<open>Comparing the packed numbers of two DATETIME values is comparing their fields
  lexicographically, from the year down to the microsecond.\<close>

theorem datetime_packed_order:
  assumes "datetime_wf s" "datetime_wf t"
  shows "TIME_to_longlong_datetime_packed s < TIME_to_longlong_datetime_packed t
    \<longleftrightarrow> (dt_key s, dt_key t) \<in> lexord {(a, b). a < b}"
proof -
  note b = datetime_wf_bounds [OF assms(1)] datetime_wf_bounds [OF assms(2)]
  note r = dt_ranges [OF assms(1)] dt_ranges [OF assms(2)]
  have hms: "dt_hms u = (hour u * 64 + minute u) * 64 + second u" for u
    by (simp add: dt_hms_def)
  have bb: "second_part s < 16777216" "second_part t < 16777216" "second s < 64" "second t < 64"
    "minute s < 64" "minute t < 64" "day s < 32" "day t < 32" "month s < 13" "month t < 13"
    using b by simp_all
  show ?thesis
    unfolding datetime_packed_value [OF assms(1)] datetime_packed_value [OF assms(2)]
    by (simp only: lex_packed radix_eq b r bb) (simp only: lex_packed radix_eq hms dt_ymd_def b bb, auto simp: dt_key_def)
qed

theorem datetime_packed_order_witness:
  "TIME_to_longlong_datetime_packed ((set_zero_time MYSQL_TIMESTAMP_DATETIME)\<lparr>year := 2016, month := 2, day := 28\<rparr>)
   < TIME_to_longlong_datetime_packed ((set_zero_time MYSQL_TIMESTAMP_DATETIME)\<lparr>year := 2016, month := 3\<rparr>)"
  by (subst datetime_packed_order)
    (simp_all add: set_zero_time_def datetime_wf_def check_datetime_range_def dt_key_def)

section \<open>Numbers as dates\<close>

lemma ndt_parts:
  fixes p q :: int
  assumes "0 \<le> p" "p < 100000000" "0 \<le> q" "q < 1000000"
  shows "(p * 1000000 + q) sdiv 1000000 = p" "(p * 1000000 + q) - p * 1000000 = q"
  using assms by (simp_all add: sdiv_nonneg radix_div)

lemma dec_fields:
  fixes a b c :: int
  assumes "0 \<le> a" "0 \<le> b" "b < 100" "0 \<le> c" "c < 100"
  shows "(a * 10000 + b * 100 + c) sdiv 10000 = a"
   "((a * 10000 + b * 100 + c) smod 10000) sdiv 100 = b" "((a * 10000 + b * 100 + c) smod 10000) smod 100 = c"
proof -
  have m: "(a * 10000 + b * 100 + c) smod 10000 = b * 100 + c"
    using assms radix_mod [of "b * 100 + c" 10000 a] by (simp add: smod_nonneg add.assoc)
  show "(a * 10000 + b * 100 + c) sdiv 10000 = a"
    using assms radix_div [of "b * 100 + c" 10000 a] by (simp add: sdiv_nonneg add.assoc)
  show "((a * 10000 + b * 100 + c) smod 10000) sdiv 100 = b" "((a * 10000 + b * 100 + c) smod 10000) smod 100 = c"
    unfolding m using assms by (simp_all add: sdiv_nonneg smod_nonneg radix_div radix_mod)
qed

text \<open>A day that exists in the calendar.\<close>

definition valid_date :: "mysql_time \<Rightarrow> bool" where
  "valid_date t \<longleftrightarrow> 1 \<le> month t \<and> month t \<le> 12 \<and> 1 \<le> day t \<and> day t \<le> month_days (year t) (nat (month t - 1))"

text \<open>The number YYYYMMDDhhmmss of a valid DATETIME from the year 1000 on is accepted by
  \<open>number_to_datetime\<close> under every mode and gives the same DATETIME, without a warning.\<close>

theorem number_to_datetime_roundtrip:
  assumes wf: "datetime_wf t" and "valid_date t" "1000 \<le> year t" "second_part t = 0"
  shows "number_to_datetime (TIME_to_ulonglong_datetime t) flags
    = Some (TIME_to_ulonglong_datetime t, t, 0)"
proof -
  note b = datetime_wf_bounds [OF wf]
  define p where "p = year t * 10000 + month t * 100 + day t"
  define q where "q = hour t * 10000 + minute t * 100 + second t"
  have pq: "10000101 \<le> p" "p < 100000000" "0 \<le> q" "q < 1000000"
    using b assms by (simp_all add: p_def q_def valid_date_def)
  have val: "TIME_to_ulonglong_datetime t = p * 1000000 + q"
    using pq by (simp add: TIME_to_ulonglong_datetime_def u32_id u64_id flip: p_def q_def)
  have cl: "ndt_classify (p * 1000000 + q) flags = Ndt_ok (p * 1000000 + q) MYSQL_TIMESTAMP_DATETIME"
    using pq by (simp add: ndt_classify_def)
  have "ndt_fields (p * 1000000 + q) MYSQL_TIMESTAMP_DATETIME = t"
    using pq b assms(4) unfolding ndt_fields_def Let_def
    apply (simp add: ndt_parts s32_id)
    unfolding p_def q_def
    by (simp add: dec_fields u32_id set_zero_time_def)
  moreover have "\<not> check_datetime_range t" using wf by (simp add: datetime_wf_def)
  moreover have feb: "days_in_month ! Suc 0 = 28" by (simp add: days_in_month_def)
  have "check_date t True flags 0 = Some (False, 0)"
    using assms b feb by (auto simp: check_date_def valid_date_def month_days_def time_consts split: if_splits)
  ultimately show ?thesis using pq by (simp add: number_to_datetime_def val cl)
qed

theorem number_to_datetime_roundtrip_witness:
  "let t = (set_zero_time MYSQL_TIMESTAMP_DATETIME)\<lparr>year := 2016, month := 2, day := 29, hour := 8\<rparr> in
   number_to_datetime (TIME_to_ulonglong_datetime t) 0 = Some (TIME_to_ulonglong_datetime t, t, 0)"
  unfolding Let_def
  by (rule number_to_datetime_roundtrip)
    (simp_all add: set_zero_time_def datetime_wf_def check_datetime_range_def valid_date_def
      month_days_def days_in_month_def calc_days_in_year_def and_3)

lemma ndt_classify_range:
  "ndt_classify nr flags = Ndt_ok n tt \<Longrightarrow> 0 \<le> n \<and> n \<le> 99999999999999"
  by (auto simp: ndt_classify_def time_consts split: if_splits)

lemma dec_recompose:
  fixes p :: int
  shows "p div 10000 * 10000 + p mod 10000 div 100 * 100 + p mod 10000 mod 100 = p"
  by (simp only: add.assoc div_mult_mod_eq)

lemma ndt_fields_value:
  assumes "0 \<le> n" "n \<le> 99999999999999"
  shows "TIME_to_ulonglong_datetime (ndt_fields n tt) = n"
proof -
  define p q where "p = n div 1000000" and "q = n mod 1000000"
  have n: "n = p * 1000000 + q" by (simp add: p_def q_def)
  have b: "0 \<le> p" "p < 100000000" "0 \<le> q" "q < 1000000"
    using assms by (simp_all add: p_def q_def)
  have c: "0 \<le> x div 10000 \<and> 0 \<le> x mod 10000 \<and> 0 \<le> x mod 10000 div 100 \<and> 0 \<le> x mod 10000 mod 100
    \<and> x div 10000 < 10000 \<and> x mod 10000 div 100 < 100 \<and> x mod 10000 mod 100 < 100"
    if "0 \<le> x" "x < 100000000" for x :: int
    using that by (intro conjI) simp_all
  have "ndt_fields n tt = (set_zero_time tt)\<lparr>year := p div 10000, month := p mod 10000 div 100,
      day := p mod 10000 mod 100, hour := q div 10000, minute := q mod 10000 div 100,
      second := q mod 10000 mod 100\<rparr>"
    unfolding n ndt_fields_def Let_def using b c [of p] c [of q]
    by (simp add: ndt_parts s32_id u32_id sdiv_nonneg smod_nonneg)
  then show ?thesis unfolding TIME_to_ulonglong_datetime_def n
    using b by (simp add: dec_recompose u32_id u64_id)
qed

text \<open>Whatever number \<open>number_to_datetime\<close> accepts, the DATETIME it builds denotes the number
  it returns and is within the ranges of the type; unless the mode allows invalid dates, its day exists in
  its month.\<close>

theorem number_to_datetime_sound:
  assumes "number_to_datetime nr flags = Some (r, t, wc)" "r \<noteq> -1"
  shows "TIME_to_ulonglong_datetime t = r \<and> \<not> check_datetime_range t \<and> 
    (and flags TIME_INVALID_DATES = 0 \<and> month t \<noteq> 0 \<and> r \<noteq> 0 \<longrightarrow> day t \<le> month_days (year t) (nat (month t - 1)))"
proof -
  from assms obtain tt where cl: "ndt_classify nr flags = Ndt_ok r tt"
    and t: "t = ndt_fields r tt" and rg: "\<not> check_datetime_range t"
    and cd: "check_date t (r \<noteq> 0) flags 0 = Some (False, wc)"
    by (auto simp: number_to_datetime_def Let_def split: ndt_exit.splits if_splits option.splits)
  have "TIME_to_ulonglong_datetime t = r"
    using ndt_classify_range [OF cl] by (simp add: t ndt_fields_value)
  moreover have "days_in_month ! Suc 0 = 28" by (simp add: days_in_month_def)
  ultimately show ?thesis using rg cd
    by (auto simp: check_date_def month_days_def split: if_splits)
qed

theorem number_to_datetime_sound_witness:
  "\<exists>t. number_to_datetime 160229 0 = Some (20160229000000, t, 0) \<and> TIME_to_ulonglong_datetime t = 20160229000000"
proof -
  define t where "t = ndt_fields 20160229000000 MYSQL_TIMESTAMP_DATE"
  have "number_to_datetime 160229 0 = Some (20160229000000, t, 0)"
    unfolding t_def by code_simp
  then show ?thesis using number_to_datetime_sound [of 160229 0 20160229000000 t 0] by simp
qed

end
