(* ===== verification/Bitmap.thy ===== *)
theory Bitmap
  imports Byteorder
begin

text \<open>
  The column bitmaps of row events: \<open>binlog/src/my_bitmap.cpp\<close>, \<open>my_bitmap.h\<close> and the bit
  counting of \<open>my_bit.h\<close>.

  The memory a map points to is a list of bytes (\<open>None\<close> for a null pointer); a 32-bit word of it is
  read low byte first, and \<open>last_word_ptr\<close> is the number of words before the last one. An access
  outside of the memory is \<open>None\<close>.
\<close>

section \<open>Counting bits\<close>

definition my_bits_nbits :: "int list" where
  "my_bits_nbits = [
    0, 1, 1, 2, 1, 2, 2, 3, 1, 2, 2, 3, 2, 3, 3, 4, 1, 2, 2, 3, 2, 3, 3, 4, 2, 3, 3, 4, 3, 4, 4, 5,
    1, 2, 2, 3, 2, 3, 3, 4, 2, 3, 3, 4, 3, 4, 4, 5, 2, 3, 3, 4, 3, 4, 4, 5, 3, 4, 4, 5, 4, 5, 5, 6,
    1, 2, 2, 3, 2, 3, 3, 4, 2, 3, 3, 4, 3, 4, 4, 5, 2, 3, 3, 4, 3, 4, 4, 5, 3, 4, 4, 5, 4, 5, 5, 6,
    2, 3, 3, 4, 3, 4, 4, 5, 3, 4, 4, 5, 4, 5, 5, 6, 3, 4, 4, 5, 4, 5, 5, 6, 4, 5, 5, 6, 5, 6, 6, 7,
    1, 2, 2, 3, 2, 3, 3, 4, 2, 3, 3, 4, 3, 4, 4, 5, 2, 3, 3, 4, 3, 4, 4, 5, 3, 4, 4, 5, 4, 5, 5, 6,
    2, 3, 3, 4, 3, 4, 4, 5, 3, 4, 4, 5, 4, 5, 5, 6, 3, 4, 4, 5, 4, 5, 5, 6, 4, 5, 5, 6, 5, 6, 6, 7,
    2, 3, 3, 4, 3, 4, 4, 5, 3, 4, 4, 5, 4, 5, 5, 6, 3, 4, 4, 5, 4, 5, 5, 6, 4, 5, 5, 6, 5, 6, 6, 7,
    3, 4, 4, 5, 4, 5, 5, 6, 4, 5, 5, 6, 5, 6, 6, 7, 4, 5, 5, 6, 5, 6, 6, 7, 5, 6, 6, 7, 6, 7, 7, 8]"

definition my_count_bits_uint32 :: "int \<Rightarrow> int" where
  "my_count_bits_uint32 v =
     u8 (my_bits_nbits ! nat (u8 v) + my_bits_nbits ! nat (u8 (shr v 8))
         + my_bits_nbits ! nat (u8 (shr v 16)) + my_bits_nbits ! nat (u8 (shr v 24)))"

function my_bit_log2 :: "int \<Rightarrow> int \<Rightarrow> int" where
  "my_bit_log2 v b = (if v > 1 then my_bit_log2 (shr v 1) (b + 1) else b)"
  by auto
termination
  by (relation "measure (\<lambda>(v, b). nat v)") (auto simp: shr_div)

declare my_bit_log2.simps [simp del]

definition my_round_up_to_next_power :: "int \<Rightarrow> int" where
  "my_round_up_to_next_power v =
     (let v = u32 (v - 1);
          v = or v (shr v 1);
          v = or v (shr v 2);
          v = or v (shr v 4);
          v = or v (shr v 8);
          v = or v (shr v 16)
      in u32 (v + 1))"

definition my_clear_highest_bit :: "int \<Rightarrow> int" where
  "my_clear_highest_bit v =
     (let w = shr v 1;
          w = or w (shr w 1);
          w = or w (shr w 2);
          w = or w (shr w 4);
          w = or w (shr w 8);
          w = or w (shr w 16)
      in and v w)"

section \<open>The map\<close>

record my_bitmap =
  bitmap :: "buffer option"
  n_bits :: int
  last_word_mask :: int
  last_word_ptr :: nat

definition bitmap_buffer_size :: "int \<Rightarrow> nat" where
  "bitmap_buffer_size bits = nat (u32 (bits + 31) div 32 * 4)"

definition no_bytes_in_map :: "my_bitmap \<Rightarrow> int" where
  "no_bytes_in_map m = u32 (n_bits m + 7) div 8"

definition no_words_in_map :: "my_bitmap \<Rightarrow> int" where
  "no_words_in_map m = u32 (n_bits m + 31) div 32"

text \<open>The four bytes of the mask are written one by one.\<close>

definition last_mask_bytes :: "int \<Rightarrow> uchar \<Rightarrow> buffer" where
  "last_mask_bytes r msk =
     (if r = 1 then (replicate 4 0xFF)[0 := msk]
      else if r = 2 then (replicate 4 0xFF)[0 := 0, 1 := msk]
      else if r = 3 then (replicate 4 0)[2 := msk, 3 := 0xFF]
      else (replicate 4 0)[3 := msk])"

definition create_last_word_mask :: "my_bitmap \<Rightarrow> my_bitmap" where
  "create_last_word_mask m =
     (let used = nat (1 + and (u32 (n_bits m - 1)) 7);
          msk = uchar_of (and (not (shl 1 used - 1)) 255);
          m' = m\<lparr>last_word_ptr := (if n_bits m = 0 then 0 else nat (no_words_in_map m - 1))\<rparr>
      in m'\<lparr>last_word_mask := le_val (last_mask_bytes (and (no_bytes_in_map m) 3) msk)\<rparr>)"

definition bitmap_clear_all :: "my_bitmap \<Rightarrow> my_bitmap option" where
  "bitmap_clear_all m = do {
     mem \<leftarrow> bitmap m;
     let n = nat (4 * no_words_in_map m) in
     if n \<le> length mem then Some (m\<lparr>bitmap := Some (replicate n 0 @ drop n mem)\<rparr>) else None }"

definition bitmap_set_all :: "my_bitmap \<Rightarrow> my_bitmap option" where
  "bitmap_set_all m = do {
     mem \<leftarrow> bitmap m;
     let n = nat (4 * no_words_in_map m) in
     if n \<le> length mem then Some (m\<lparr>bitmap := Some (replicate n 0xFF @ drop n mem)\<rparr>) else None }"

text \<open>\<open>bitmap_init\<close>: the buffer passed is not used; \<open>malloc\<close> returns memory with unspecified
  contents, the argument \<open>mem\<close>, of the size asked for.\<close>

definition bitmap_init :: "my_bitmap \<Rightarrow> int \<Rightarrow> buffer \<Rightarrow> my_bitmap option" where
  "bitmap_init m bits mem =
     bitmap_clear_all (create_last_word_mask
       (m\<lparr>bitmap := Some (take (bitmap_buffer_size bits) mem), n_bits := bits\<rparr>))"

definition bitmap_free :: "my_bitmap \<Rightarrow> my_bitmap" where
  "bitmap_free m = m\<lparr>bitmap := None\<rparr>"

text \<open>\<open>memcpy(map->bitmap, src, n)\<close>, as the row event does.\<close>

definition bitmap_load :: "my_bitmap \<Rightarrow> buffer \<Rightarrow> my_bitmap option" where
  "bitmap_load m src = do {
     mem \<leftarrow> bitmap m;
     if length src \<le> length mem
     then Some (m\<lparr>bitmap := Some (src @ drop (length src) mem)\<rparr>) else None }"

fun count_words :: "nat \<Rightarrow> buffer \<Rightarrow> nat \<Rightarrow> int \<Rightarrow> int option" where
  "count_words 0 mem ptr res = Some res"
| "count_words (Suc n) mem ptr res = do {
     w \<leftarrow> uint4korr mem (4 * ptr);
     count_words n mem (Suc ptr) (u32 (res + my_count_bits_uint32 w)) }"

definition bitmap_bits_set :: "my_bitmap \<Rightarrow> int option" where
  "bitmap_bits_set m = do {
     mem \<leftarrow> bitmap m;
     res \<leftarrow> count_words (last_word_ptr m) mem 0 0;
     w \<leftarrow> uint4korr mem (4 * last_word_ptr m);
     Some (u32 (res + my_count_bits_uint32 (and w (u32 (not (last_word_mask m)))))) }"

text \<open>Access to one bit.\<close>

definition bit_mask :: "nat \<Rightarrow> uchar" where
  "bit_mask b = push_bit (b mod 8) 1"

definition bitmap_byte_upd :: "(uchar \<Rightarrow> uchar) \<Rightarrow> my_bitmap \<Rightarrow> nat \<Rightarrow> my_bitmap option" where
  "bitmap_byte_upd f m b = do {
     mem \<leftarrow> bitmap m;
     x \<leftarrow> byte_at mem (b div 8);
     Some (m\<lparr>bitmap := Some (mem[b div 8 := f x])\<rparr>) }"

definition bitmap_set_bit :: "my_bitmap \<Rightarrow> nat \<Rightarrow> my_bitmap option" where
  "bitmap_set_bit m b = bitmap_byte_upd (\<lambda>x. or x (bit_mask b)) m b"

definition bitmap_flip_bit :: "my_bitmap \<Rightarrow> nat \<Rightarrow> my_bitmap option" where
  "bitmap_flip_bit m b = bitmap_byte_upd (\<lambda>x. xor x (bit_mask b)) m b"

definition bitmap_clear_bit :: "my_bitmap \<Rightarrow> nat \<Rightarrow> my_bitmap option" where
  "bitmap_clear_bit m b = bitmap_byte_upd (\<lambda>x. and x (not (bit_mask b))) m b"

definition bitmap_is_set :: "my_bitmap \<Rightarrow> nat \<Rightarrow> bool option" where
  "bitmap_is_set m b = do {
     mem \<leftarrow> bitmap m;
     x \<leftarrow> byte_at mem (b div 8);
     Some (and x (bit_mask b) \<noteq> 0) }"

definition bitmap_cmp :: "my_bitmap \<Rightarrow> my_bitmap \<Rightarrow> bool option" where
  "bitmap_cmp m1 m2 = do {
     mem1 \<leftarrow> bitmap m1;
     mem2 \<leftarrow> bitmap m2;
     let n = nat (u32 (4 * (no_words_in_map m1 - 1)));
     a \<leftarrow> bytes_at mem1 0 n;
     b \<leftarrow> bytes_at mem2 0 n;
     if a \<noteq> b then Some False
     else do {
       w1 \<leftarrow> uint4korr mem1 (4 * last_word_ptr m1);
       w2 \<leftarrow> uint4korr mem2 (4 * last_word_ptr m2);
       Some (or w1 (last_word_mask m1) = or w2 (last_word_mask m2)) } }"

section \<open>Bits of bytes and of words\<close>

definition popc :: "nat \<Rightarrow> int \<Rightarrow> int" where
  "popc n v = (\<Sum>i<n. of_bool (bit v i))"

definition popc8 :: "int \<Rightarrow> int" where
  "popc8 v = v mod 2 + v div 2 mod 2 + v div 4 mod 2 + v div 8 mod 2 + v div 16 mod 2 + v div 32 mod 2
     + v div 64 mod 2 + v div 128 mod 2"

lemma popc8: "popc 8 v = popc8 v"
proof -
  have "of_bool (bit v i) = v div 2 ^ i mod 2" for i
    by (simp add: bit_iff_odd mod_2_eq_odd)
  then show ?thesis by (simp add: popc_def popc8_def eval_nat_numeral)
qed

lemma nbits_table: "map (\<lambda>k. popc8 (int k)) [0..<256] = my_bits_nbits"
  by code_simp

lemma nbits_popc:
  assumes "0 \<le> b" "b < 256"
  shows "my_bits_nbits ! nat b = popc 8 b"
proof -
  have "map (\<lambda>k. popc8 (int k)) [0..<256] ! nat b = popc8 b" using assms by (simp add: nat_less_iff)
  then show ?thesis by (simp only: nbits_table popc8)
qed

lemma popc_bounds: "0 \<le> popc n v \<and> popc n v \<le> int n"
proof -
  have "popc n v \<le> (\<Sum>i<n. 1)" unfolding popc_def by (rule sum_mono) simp
  then show ?thesis by (simp add: popc_def sum_nonneg)
qed

lemma sum_shift:
  fixes f :: "nat \<Rightarrow> int"
  shows "sum f {k..<k + n} = (\<Sum>i<n. f (k + i))"
  using sum.shift_bounds_nat_ivl [of f 0 k n] by (simp add: lessThan_atLeast0 add.commute)

lemma popc_u8_shr: "popc 8 (u8 (shr v k)) = (\<Sum>i\<in>{k..<k + 8}. of_bool (bit v i))"
  unfolding sum_shift popc_def u8_def
  by (rule sum.cong) (simp_all add: bit_take_bit_iff bit_drop_bit_eq)

lemma count_bits_popc: "my_count_bits_uint32 v = popc 32 v"
proof -
  have u: "my_bits_nbits ! nat (u8 x) = popc 8 (u8 x)" for x
    by (rule nbits_popc) (simp_all add: u8_mod)
  have split: "popc 32 v = popc 8 (u8 v) + popc 8 (u8 (shr v 8)) + popc 8 (u8 (shr v 16)) + popc 8 (u8 (shr v 24))"
    unfolding popc_u8_shr [of 0 v, unfolded drop_bit_0 id_apply] popc_u8_shr
    by (simp add: popc_def lessThan_atLeast0 sum.atLeastLessThan_concat del: sum_of_bool_eq)
  then show ?thesis using popc_bounds [of 32 v]
    unfolding my_count_bits_uint32_def u by (simp add: u8_id)
qed

lemma bit_le_val: "i < 8 \<Longrightarrow> j < length bs \<Longrightarrow> bit (le_val bs) (8 * j + i) = bit (bs ! j) i"
proof (induction bs arbitrary: j)
  case (Cons b bs)
  have "uint b = take_bit 8 (uint b)" by (simp add: take_bit_int_eq_self)
  then have c: "le_val (b # bs) = concat_bit 8 (uint b) (le_val bs)"
    by (simp add: concat_bit_eq push_bit_eq_mult)
  show ?case
  proof (cases j)
    case 0
    then show ?thesis using Cons by (simp add: c bit_concat_bit_iff bit_uint_iff del: le_val.simps)
  next
    case (Suc k)
    then show ?thesis using Cons unfolding c by (simp add: bit_concat_bit_iff algebra_simps)
  qed
qed simp

definition membit :: "buffer \<Rightarrow> nat \<Rightarrow> bool" where
  "membit mem i = bit (mem ! (i div 8)) (i mod 8)"

lemma word_bits:
  assumes "uint4korr mem (4 * p) = Some w" "j < 32"
  shows "bit w j = membit mem (32 * p + j)"
proof -
  from assms have w: "w = le_val (take 4 (drop (4 * p) mem))" and l: "4 * p + 4 \<le> length mem"
    by (auto simp: ukorr_le_val korr_def bytes_at_def split: if_splits)
  have j: "8 * (j div 8) + j mod 8 = j" "j div 8 < 4" "(32 * p + j) mod 8 = j mod 8"
    using assms(2) by (simp_all, presburger)
  have "bit w (8 * (j div 8) + j mod 8) = bit (take 4 (drop (4 * p) mem) ! (j div 8)) (j mod 8)"
    unfolding w using l j by (intro bit_le_val) simp_all
  also have "take 4 (drop (4 * p) mem) ! (j div 8) = mem ! (4 * p + j div 8)"
    using l j by (simp add: add.commute)
  also have "4 * p + j div 8 = (32 * p + j) div 8" by simp
  finally show ?thesis
    using j by (simp add: membit_def)
qed

lemma uint4korr_in: "4 * p + 4 \<le> length mem \<Longrightarrow> \<exists>w. uint4korr mem (4 * p) = Some w"
  by (simp add: ukorr_le_val korr_def bytes_at_def)

lemma count_words_popc:
  assumes "4 * (p + n) \<le> length mem" "0 \<le> res" "res + 32 * int n < 2 ^ 32"
  shows "count_words n mem p res = Some (res + (\<Sum>i\<in>{32 * p..<32 * (p + n)}. of_bool (membit mem i)))"
  using assms
proof (induction n arbitrary: p res)
  case (Suc n)
  obtain w where w: "uint4korr mem (4 * p) = Some w" using uint4korr_in [of p mem] Suc.prems by auto
  have pw: "popc 32 w = (\<Sum>i\<in>{32 * p..<32 * p + 32}. of_bool (membit mem i))"
    unfolding popc_def sum_shift by (rule sum.cong) (simp_all add: word_bits [OF w])
  have "count_words n mem (Suc p) (res + popc 32 w) = Some ((res + popc 32 w)
      + (\<Sum>i\<in>{32 * Suc p..<32 * (Suc p + n)}. of_bool (membit mem i)))"
    using Suc.prems popc_bounds [of 32 w] by (intro Suc.IH) simp_all
  moreover have "(\<Sum>i\<in>{32 * p..<32 * p + 32}. of_bool (membit mem i)) + (\<Sum>i\<in>{32 * Suc p..<32 * (Suc p + n)}. of_bool (membit mem i))
     = (\<Sum>i\<in>{32 * p..<32 * (p + Suc n)}. of_bool (membit mem i) :: int)"
    using sum.atLeastLessThan_concat [of "32 * p" "32 * p + 32" "32 * (p + Suc n)" "\<lambda>i. of_bool (membit mem i) :: int"]
    by (simp add: add.commute del: sum_of_bool_eq)
  ultimately show ?case using Suc.prems popc_bounds [of 32 w]
    by (simp add: w count_bits_popc u32_id pw del: sum_of_bool_eq)
qed simp

section \<open>The mask of the last word\<close>

text \<open>A map as \<open>bitmap_init\<close> leaves it: memory for whole words and the mask of its number of bits.\<close>

definition map_wf :: "my_bitmap \<Rightarrow> bool" where
  "map_wf m \<longleftrightarrow> 0 < n_bits m \<and> n_bits m < 2 ^ 32 - 31
     \<and> (\<exists>mem. bitmap m = Some mem \<and> length mem = bitmap_buffer_size (n_bits m))
     \<and> create_last_word_mask m = m"

lemma and_low:
  "and (x::int) 7 = x mod 8" "and (x::int) 3 = x mod 4" "and (x::int) 255 = x mod 256"
proof -
  have "and x (2 ^ n - 1) = x mod 2 ^ n" for n
    by (simp add: take_bit_eq_mod flip: take_bit_eq_mask mask_eq_exp_minus_1)
  from this [of 3] this [of 2] this [of 8]
  show "and (x::int) 7 = x mod 8" "and (x::int) 3 = x mod 4" "and (x::int) 255 = x mod 256" by simp_all
qed

lemma cut_byte:
  assumes "i < 8"
  shows "bit (uchar_of (and (not (shl 1 used - 1)) 255)) i \<longleftrightarrow> used \<le> i"
proof -
  have "(shl 1 used :: int) - 1 = mask used" by (simp add: mask_eq_exp_minus_1)
  moreover have "bit (255::int) i" using assms bit_mask_iff [of 8 i, where ?'a = int]
    by (simp add: mask_eq_exp_minus_1)
  ultimately show ?thesis
    using assms by (simp add: uchar_of_def bit_word_of_int_iff bit_and_iff bit_not_iff bit_mask_iff not_less)
qed

lemma full_byte: "i < 8 \<Longrightarrow> bit (0xFF :: uchar) i"
proof -
  assume "i < 8"
  moreover have "(0xFF :: uchar) = mask 8" by (simp add: mask_eq_exp_minus_1)
  ultimately show ?thesis by (simp only: bit_mask_iff) simp
qed

lemma last_mask_bytes_nth:
  assumes "0 \<le> a" "a < 4" "q < 4"
  shows "last_mask_bytes ((a + 1) mod 4) msk ! q = (if int q < a then 0 else if int q = a then msk else 0xFF)"
proof -
  have "a = 0 \<or> a = 1 \<or> a = 2 \<or> a = 3" "q = 0 \<or> q = 1 \<or> q = 2 \<or> q = 3" using assms by presburger+
  then show ?thesis by (elim disjE) (simp_all add: last_mask_bytes_def nth_list_update)
qed

lemma length_last_mask_bytes [simp]: "length (last_mask_bytes r msk) = 4"
  by (simp add: last_mask_bytes_def)

lemma last_word_mask_bits:
  fixes n :: int
  assumes n: "0 < n" "n < 2 ^ 32 - 31" and j: "j < 32"
    and m: "n_bits m = n" "m' = create_last_word_mask m"
  shows "last_word_ptr m' = nat ((n + 31) div 32 - 1)"
    and "bit (last_word_mask m') j \<longleftrightarrow> n \<le> int (32 * last_word_ptr m' + j)"
proof -
  define lw where "lw = (n - 1) div 32"
  define c where "c = (n - 1) mod 32"
  have nc: "n = 32 * lw + c + 1" "0 \<le> c" "c < 32" "0 \<le> lw" using n by (simp_all add: lw_def c_def)
  have w: "(n + 31) div 32 - 1 = lw" using nc by simp
  have lwp: "last_word_ptr m' = nat lw"
    using n w by (simp add: m create_last_word_mask_def Let_def no_words_in_map_def u32_id)
  then show "last_word_ptr m' = nat ((n + 31) div 32 - 1)" by (simp add: w)
  define a r where "a = c div 8" and "r = c mod 8"
  define msk where "msk = uchar_of (and (not (shl 1 (nat (1 + r)) - 1)) 255)"
  have c: "c = a * 8 + r" "0 \<le> r" "r < 8" by (simp_all add: a_def r_def)
  have a: "0 \<le> a" "a < 4" using nc c by presburger+
  have "(n - 1) mod 8 = r" using nc c by presburger
  then have u: "1 + and (u32 (n - 1)) 7 = 1 + r" using n by (simp add: and_low u32_id)
  have b: "and (no_bytes_in_map m) 3 = (a + 1) mod 4"
  proof -
    have "(n + 7) div 8 = 4 * lw + (a + 1)" using nc c by presburger
    then show ?thesis using n by (simp add: no_bytes_in_map_def m and_low u32_id)
  qed
  define q i where "q = j div 8" and "i = j mod 8"
  have ji: "j = 8 * q + i" "i < 8" "q < 4" using j by (simp_all add: q_def i_def)
  have "n \<le> int (32 * last_word_ptr m' + j) \<longleftrightarrow> c < int j" using nc lwp by auto
  also have "\<dots> \<longleftrightarrow> a < int q \<or> (a = int q \<and> r < int i)"
    using lex_packed [of r 8 "int i" a "int q"] c ji by (simp add: mult.commute)
  also have "\<dots> \<longleftrightarrow> bit (last_word_mask m') j"
  proof -
    have mb: "bit msk i \<longleftrightarrow> r < int i"
      unfolding msk_def by (subst cut_byte [OF ji(2)]) (use c in auto)
    have "last_word_mask m' = le_val (last_mask_bytes ((a + 1) mod 4) msk)"
      unfolding m(2) create_last_word_mask_def m(1) Let_def u b msk_def by simp
    then have "bit (last_word_mask m') j = bit (last_mask_bytes ((a + 1) mod 4) msk ! q) i"
      using bit_le_val [of i q "last_mask_bytes ((a + 1) mod 4) msk"] ji by simp
    then show ?thesis
      unfolding last_mask_bytes_nth [OF a ji(3)] using full_byte [OF ji(2)] mb by auto
  qed
  finally show "bit (last_word_mask m') j \<longleftrightarrow> n \<le> int (32 * last_word_ptr m' + j)" by simp
qed

lemma bitmap_is_set_membit:
  "bitmap m = Some mem \<Longrightarrow> b div 8 < length mem \<Longrightarrow> bitmap_is_set m b = Some (membit mem b)"
proof -
  have "and x (bit_mask b) \<noteq> 0 \<longleftrightarrow> bit x (b mod 8)" for x :: uchar
    using and_exp_eq_0_iff_not_bit [of x "b mod 8"] by (simp add: bit_mask_def push_bit_eq_mult)
  then show "bitmap m = Some mem \<Longrightarrow> b div 8 < length mem \<Longrightarrow> ?thesis"
    by (simp add: bitmap_is_set_def byte_at_def membit_def)
qed

lemma map_wf_memory:
  assumes "map_wf m"
  obtains mem where "bitmap m = Some mem" "length mem = 4 * Suc (last_word_ptr m)"
    "nat (n_bits m) \<le> 32 * Suc (last_word_ptr m)" "32 * last_word_ptr m \<le> nat (n_bits m)"
    "int (last_word_ptr m) + 1 < 2 ^ 27"
proof -
  from assms obtain mem where n: "0 < n_bits m" "n_bits m < 2 ^ 32 - 31" and mem: "bitmap m = Some mem"
    "length mem = bitmap_buffer_size (n_bits m)" and c: "m = create_last_word_mask m"
    by (auto simp: map_wf_def)
  have p: "last_word_ptr m = nat ((n_bits m + 31) div 32 - 1)"
    using last_word_mask_bits(1) [OF n _ _ c, of 0] by simp
  define k where "k = (n_bits m + 31) div 32"
  have k: "1 \<le> k" "k < 134217728" "n_bits m \<le> 32 * k" "32 * k \<le> n_bits m + 31" using n by (simp_all add: k_def)
  show ?thesis
  proof
    show "length mem = 4 * Suc (last_word_ptr m)"
      using mem(2) n k unfolding p bitmap_buffer_size_def k_def [symmetric] by (simp add: u32_id flip: k_def)
  qed (use mem p k in \<open>simp_all flip: k_def\<close>)
qed

lemma bits_set_card:
  assumes "map_wf m"
  shows "bitmap_bits_set m = Some (int (card {i. int i < n_bits m \<and> bitmap_is_set m i = Some True}))"
proof -
  obtain mem where mem: "bitmap m = Some mem" "length mem = 4 * Suc (last_word_ptr m)"
    and n: "nat (n_bits m) \<le> 32 * Suc (last_word_ptr m)" "32 * last_word_ptr m \<le> nat (n_bits m)"
      "int (last_word_ptr m) + 1 < 2 ^ 27"
    using assms by (rule map_wf_memory)
  define p where "p = last_word_ptr m"
  obtain w where w: "uint4korr mem (4 * p) = Some w" using uint4korr_in [of p mem] mem by (auto simp: p_def)
  define g where "g = (\<lambda>i. of_bool (membit mem i \<and> int i < n_bits m) :: int)"
  have mask: "bit (last_word_mask m) j \<longleftrightarrow> n_bits m \<le> int (32 * p + j)" if "j < 32" for j
    using assms that last_word_mask_bits(2) [of "n_bits m" j m m] by (simp add: map_wf_def p_def)
  have "popc 32 (and w (u32 (not (last_word_mask m)))) = (\<Sum>i\<in>{32 * p..<32 * p + 32}. g i)"
    unfolding popc_def sum_shift g_def
    by (rule sum.cong) (auto simp: bit_and_iff u32_def bit_take_bit_iff bit_not_iff mask word_bits [OF w] not_le)
  moreover have "count_words p mem 0 0 = Some (\<Sum>i\<in>{0..<32 * p}. g i)"
  proof -
    have "(\<Sum>i\<in>{0..<32 * p}. of_bool (membit mem i)) = (\<Sum>i\<in>{0..<32 * p}. g i)"
      unfolding g_def by (rule sum.cong) (use n in \<open>auto simp: p_def\<close>)
    then show ?thesis using count_words_popc [of 0 p mem 0] mem n by (simp add: p_def del: sum_of_bool_eq)
  qed
  moreover have "(\<Sum>i\<in>{0..<32 * p}. g i) + (\<Sum>i\<in>{32 * p..<32 * p + 32}. g i) = sum g {0..<32 * p + 32}"
    by (rule sum.atLeastLessThan_concat) simp_all
  moreover have "sum g {0..<32 * p + 32} = int (card {i. int i < n_bits m \<and> bitmap_is_set m i = Some True})"
  proof -
    have "bitmap_is_set m i = Some (membit mem i)" if "int i < n_bits m" for i
      using that n mem by (intro bitmap_is_set_membit) auto
    then have "{i. int i < n_bits m \<and> bitmap_is_set m i = Some True}
      = {0..<32 * p + 32} \<inter> {i. membit mem i \<and> int i < n_bits m}"
      using n by (auto simp: p_def)
    then show ?thesis by (simp add: g_def)
  qed
  moreover have "sum g {0..<32 * p + 32} \<le> int (32 * p + 32)" "0 \<le> sum g {0..<32 * p + 32}"
    using sum_bounded_above [of "{0..<32 * p + 32}" g 1] by (simp_all add: g_def sum_nonneg del: sum_of_bool_eq)
  ultimately show ?thesis using n
    by (simp add: bitmap_bits_set_def mem w p_def [symmetric] count_bits_popc u32_id)
qed

section \<open>Operations on single bits\<close>

text \<open>What an operation on one bit of a bit vector promises: inside of the vector it succeeds, keeps the
  vector well formed and of the same size, and changes the addressed bit by \<open>f\<close> and no other.\<close>

fun run_bits :: "('s \<Rightarrow> nat \<Rightarrow> 's option) \<Rightarrow> 's \<Rightarrow> nat list \<Rightarrow> 's option" where
  "run_bits op s [] = Some s"
| "run_bits op s (i # is) = Option.bind (op s i) (\<lambda>s'. run_bits op s' is)"

locale bit_op =
  fixes inv :: "'s \<Rightarrow> bool" and size :: "'s \<Rightarrow> nat" and get :: "'s \<Rightarrow> nat \<Rightarrow> bool option"
    and op :: "'s \<Rightarrow> nat \<Rightarrow> 's option" and f :: "bool \<Rightarrow> bool"
  assumes op_ok: "inv s \<Longrightarrow> i < size s \<Longrightarrow> \<exists>s'. op s i = Some s' \<and> inv s' \<and> size s' = size s
      \<and> (\<forall>j < size s. get s' j = (if j = i then map_option f (get s j) else get s j))"
begin

lemma run_distinct:
  assumes "inv s" "distinct is" "\<forall>i\<in>set is. i < size s"
  shows "\<exists>s'. run_bits op s is = Some s' \<and> inv s' \<and> size s' = size s
    \<and> (\<forall>j < size s. get s' j = (if j \<in> set is then map_option f (get s j) else get s j))"
  using assms
proof (induction "is" arbitrary: s)
  case (Cons i "is")
  then obtain s1 where s1: "op s i = Some s1" "inv s1" "size s1 = size s"
    "\<forall>j < size s. get s1 j = (if j = i then map_option f (get s j) else get s j)"
    using op_ok [of s i] by auto
  with Cons obtain s' where "run_bits op s1 is = Some s'" "inv s'" "size s' = size s1"
    "\<forall>j < size s1. get s' j = (if j \<in> set is then map_option f (get s1 j) else get s1 j)"
    by (metis distinct.simps(2) list.set_intros(2))
  then show ?case using s1 Cons.prems by (intro exI [of _ s']) auto
qed simp

end

lemma bit_mask_bit: "k < 8 \<Longrightarrow> bit (bit_mask b) k \<longleftrightarrow> k = b mod 8"
  by (auto simp: bit_mask_def push_bit_eq_mult bit_exp_iff)

lemma create_last_word_mask_bitmap:
  "create_last_word_mask (m\<lparr>bitmap := x\<rparr>) = (create_last_word_mask m)\<lparr>bitmap := x\<rparr>"
  by (simp add: create_last_word_mask_def Let_def no_words_in_map_def no_bytes_in_map_def)

lemma bitmap_byte_upd_ok:
  assumes wf: "map_wf m" and b: "b < nat (n_bits m)"
    and f: "\<And>x k. k < 8 \<Longrightarrow> bit (F x) k = (if k = b mod 8 then f (bit x k) else bit x k)"
  shows "\<exists>m'. bitmap_byte_upd F m b = Some m' \<and> map_wf m' \<and> nat (n_bits m') = nat (n_bits m)
      \<and> (\<forall>j < nat (n_bits m). bitmap_is_set m' j
            = (if j = b then map_option f (bitmap_is_set m j) else bitmap_is_set m j))"
proof -
  obtain mem where mem: "bitmap m = Some mem" "length mem = 4 * Suc (last_word_ptr m)"
    and n: "nat (n_bits m) \<le> 32 * Suc (last_word_ptr m)"
    using map_wf_memory [OF wf] by metis
  have in_mem: "j div 8 < length mem" if "j < nat (n_bits m)" for j
    using that n mem(2) by auto
  define m' where "m' = m\<lparr>bitmap := Some (mem[b div 8 := F (mem ! (b div 8))])\<rparr>"
  have u: "bitmap_byte_upd F m b = Some m'"
    using in_mem [OF b] by (simp add: bitmap_byte_upd_def mem byte_at_def m'_def)
  have "map_wf m'" using wf mem(1)
    by (auto simp: map_wf_def m'_def create_last_word_mask_bitmap)
  moreover have "membit (mem[b div 8 := F (mem ! (b div 8))]) j = (if j = b then f (membit mem j) else membit mem j)"
    if "j < nat (n_bits m)" for j
  proof (cases "j div 8 = b div 8")
    case True
    then have "j = b \<longleftrightarrow> j mod 8 = b mod 8" by (metis div_mult_mod_eq)
    then show ?thesis using in_mem [OF b] True f [of "j mod 8" "mem ! (b div 8)"] by (simp add: membit_def)
  next
    case False
    then show ?thesis by (auto simp: membit_def)
  qed
  ultimately show ?thesis using u mem in_mem
    by (intro exI [of _ m']) (auto simp: bitmap_is_set_membit m'_def)
qed

interpretation bset: bit_op map_wf "\<lambda>m. nat (n_bits m)" bitmap_is_set bitmap_set_bit "\<lambda>_. True"
  by unfold_locales (unfold bitmap_set_bit_def, rule bitmap_byte_upd_ok, auto simp: bit_or_iff bit_mask_bit)

interpretation bflip: bit_op map_wf "\<lambda>m. nat (n_bits m)" bitmap_is_set bitmap_flip_bit Not
  by unfold_locales (unfold bitmap_flip_bit_def, rule bitmap_byte_upd_ok, auto simp: bit_xor_iff bit_mask_bit)

interpretation bclear: bit_op map_wf "\<lambda>m. nat (n_bits m)" bitmap_is_set bitmap_clear_bit "\<lambda>_. False"
  by unfold_locales (unfold bitmap_clear_bit_def, rule bitmap_byte_upd_ok, auto simp: bit_and_iff bit_not_iff bit_mask_bit)

lemma bitmap_init_wf:
  assumes "0 < n" "n < 2 ^ 32 - 31" "bitmap_buffer_size n \<le> length mem"
  shows "\<exists>m'. bitmap_init m n mem = Some m' \<and> map_wf m' \<and> n_bits m' = n
     \<and> (\<forall>j < nat n. bitmap_is_set m' j = Some False)"
proof -
  define k where "k = bitmap_buffer_size n"
  have k: "k = nat (4 * (u32 (n + 31) div 32))" by (simp add: k_def bitmap_buffer_size_def)
  define m1 where "m1 = create_last_word_mask (m\<lparr>bitmap := Some (take k mem), n_bits := n\<rparr>)"
  have m1: "bitmap m1 = Some (take k mem)" "n_bits m1 = n" by (simp_all add: m1_def create_last_word_mask_def Let_def)
  define m' where "m' = m1\<lparr>bitmap := Some (replicate k 0)\<rparr>"
  have i: "bitmap_init m n mem = Some m'"
    using assms(3) m1
    by (simp add: bitmap_init_def bitmap_clear_all_def no_words_in_map_def m1_def [symmetric] m'_def
        k [symmetric] k_def [symmetric])
  have "create_last_word_mask m' = m'"
    by (simp add: m'_def m1_def create_last_word_mask_def Let_def no_words_in_map_def no_bytes_in_map_def)
  then have "map_wf m'" using assms m1 by (simp add: map_wf_def m'_def k_def)
  moreover have "bitmap_is_set m' j = Some False" if "j < nat n" for j
  proof -
    have "j div 8 < k" using that assms unfolding k by (simp add: u32_id) 
    then show ?thesis by (simp add: bitmap_is_set_membit m'_def membit_def)
  qed
  ultimately show ?thesis using i m1 by (intro exI [of _ m']) (simp add: m'_def)
qed

section \<open>Properties\<close>

text \<open>\<open>bitmap_bits_set\<close>, which sums the bits of whole words and masks the last one, is the number
  of columns whose bit \<open>bitmap_is_set\<close> reports.\<close>

theorem bitmap_bits_set_counts:
  assumes "map_wf m"
  shows "bitmap_bits_set m = Some (int (card {i. int i < n_bits m \<and> bitmap_is_set m i = Some True}))"
  using assms by (rule bits_set_card)

theorem bitmap_bits_set_counts_witness:
  "let m = create_last_word_mask \<lparr>bitmap = Some [5, 0, 0, 0], n_bits = 3, last_word_mask = 0, last_word_ptr = 0\<rparr>
   in bitmap_bits_set m = Some (int (card {i. int i < n_bits m \<and> bitmap_is_set m i = Some True}))"
  unfolding Let_def
  by (rule bitmap_bits_set_counts)
    (simp add: map_wf_def create_last_word_mask_def Let_def no_words_in_map_def no_bytes_in_map_def
      bitmap_buffer_size_def u32_id)

text \<open>On a fresh map, setting the bits of any list of distinct columns stays in bounds, makes exactly
  these columns present, and \<open>bitmap_bits_set\<close> counts them, whatever the memory held before.\<close>

theorem bitmap_set_bits_counted:
  assumes "0 < n" "n < 2 ^ 32 - 31" "bitmap_buffer_size n \<le> length mem"
    and "distinct cols" "\<forall>i\<in>set cols. int i < n"
  shows "\<exists>m0 m'. bitmap_init m n mem = Some m0 \<and> run_bits bitmap_set_bit m0 cols = Some m'
    \<and> bitmap_bits_set m' = Some (int (length cols))
    \<and> (\<forall>i < nat n. bitmap_is_set m' i = Some (i \<in> set cols))"
proof -
  obtain m0 where m0: "bitmap_init m n mem = Some m0" "map_wf m0" "n_bits m0 = n"
    "\<forall>j < nat n. bitmap_is_set m0 j = Some False"
    using bitmap_init_wf [OF assms(1-3), of m] by auto
  then obtain m' where m': "run_bits bitmap_set_bit m0 cols = Some m'" "map_wf m'" "nat (n_bits m') = nat n"
    "\<forall>j < nat n. bitmap_is_set m' j = Some (j \<in> set cols)"
    using bset.run_distinct [of m0 cols] assms(4,5) by fastforce
  have "{i. int i < n_bits m' \<and> bitmap_is_set m' i = Some True} = set cols"
    using m'(3,4) assms(5) by auto
  then have "bitmap_bits_set m' = Some (int (length cols))"
    using bits_set_card [OF m'(2)] assms(4) by (simp add: distinct_card)
  then show ?thesis using m0 m' by blast
qed

theorem bitmap_set_bits_counted_witness:
  "\<exists>m0 m'. bitmap_init (create_last_word_mask \<lparr>bitmap = None, n_bits = 0, last_word_mask = 0, last_word_ptr = 0\<rparr>)
       40 (replicate 8 0xAB) = Some m0
     \<and> run_bits bitmap_set_bit m0 [0, 33, 7] = Some m' \<and> bitmap_bits_set m' = Some 3"
proof -
  have "bitmap_buffer_size 40 \<le> length (replicate 8 (0xAB :: uchar))"
    by (simp add: bitmap_buffer_size_def u32_id)
  from bitmap_set_bits_counted [OF _ _ this, of "[0, 33, 7]"] show ?thesis by fastforce
qed

end
