(* ===== verification/Logevent.thy ===== *)
theory Logevent
  imports Rowvalue Mytime Bitmap
begin

text \<open>
  The events of the binary log: \<open>binlog/src/LogEvent.cpp\<close>, \<open>LogEvent.h\<close>, \<open>log_event.h\<close> and
  \<open>binlog_event.h\<close>.

  Every class is a record that extends \<open>log_event\<close>; \<open>loadEvent\<close> and \<open>parseEvent\<close> return the
  state and the updated record. The stream is the block of bytes of the event and a pointer into it an
  offset; a read outside of the block is \<open>None\<close>. The global format description event
  (\<open>global_description_event\<close>) is the argument \<open>g\<close> of the functions that read it.

  The decoder of one column reads a TINYINT from the pointer itself instead of from the byte it points
  to; the function \<open>addr\<close> gives the machine address of an offset and stands for that pointer.
\<close>

section \<open>Data\<close>

datatype load_event_state =
    EVENT_SUCCESS | EVENT_STREAM_UNABLED | EVENT_HEADER_FAILED | EVENT_EVENT_LENGTH_TOO_SMALL
  | EVENT_MAP_HEADER_LEN_ERROR | EVENT_FIELD_META_SIZE_TOO_BIG | EVENT_EXTRA_HEADER_LEN_TOO_SMALL
  | EVENT_FIND_TABLEMAP_FAILED | EVENT_END

definition LOG_EVENT_HEADER_LEN :: nat where "LOG_EVENT_HEADER_LEN = 19"
definition ST_SERVER_VER_LEN :: nat where "ST_SERVER_VER_LEN = 50"
definition QUERY_HEADER_MINIMAL_LEN :: int where "QUERY_HEADER_MINIMAL_LEN = 11"
definition TABLE_MAP_HEADER_LEN :: int where "TABLE_MAP_HEADER_LEN = 8"
definition ROWS_HEADER_LEN_V2 :: int where "ROWS_HEADER_LEN_V2 = 10"
definition MAX_SIZE_LOG_EVENT_STATUS :: int where
  "MAX_SIZE_LOG_EVENT_STATUS = (1 + 4) + (1 + 8) + (1 + 1 + 255) + (1 + 4) + (1 + 6) + (1 + 1 + 255)
     + (1 + 2) + (1 + 2) + (1 + 8) + (1 + 4) + (1 + 16 * (1 + 64 * 3)) + 3 + (1 + 32 * 3 + 1 + 60)"

definition QUERY_EVENT :: int where "QUERY_EVENT = 2"
definition STOP_EVENT :: int where "STOP_EVENT = 3"
definition ROTATE_EVENT :: int where "ROTATE_EVENT = 4"
definition START_EVENT_V3 :: int where "START_EVENT_V3 = 1"
definition FORMAT_DESCRIPTION_EVENT :: int where "FORMAT_DESCRIPTION_EVENT = 15"
definition TABLE_MAP_EVENT :: int where "TABLE_MAP_EVENT = 19"
definition WRITE_ROWS_EVENT_V1 :: int where "WRITE_ROWS_EVENT_V1 = 23"
definition UPDATE_ROWS_EVENT_V1 :: int where "UPDATE_ROWS_EVENT_V1 = 24"
definition DELETE_ROWS_EVENT_V1 :: int where "DELETE_ROWS_EVENT_V1 = 25"
definition WRITE_ROWS_EVENT :: int where "WRITE_ROWS_EVENT = 30"
definition UPDATE_ROWS_EVENT :: int where "UPDATE_ROWS_EVENT = 31"
definition DELETE_ROWS_EVENT :: int where "DELETE_ROWS_EVENT = 32"
definition PREVIOUS_GTIDS_LOG_EVENT :: int where "PREVIOUS_GTIDS_LOG_EVENT = 35"
definition ENUM_END_EVENT :: int where "ENUM_END_EVENT = 39"

lemmas event_consts = LOG_EVENT_HEADER_LEN_def ST_SERVER_VER_LEN_def QUERY_HEADER_MINIMAL_LEN_def
  TABLE_MAP_HEADER_LEN_def ROWS_HEADER_LEN_V2_def MAX_SIZE_LOG_EVENT_STATUS_def
lemmas event_types = QUERY_EVENT_def STOP_EVENT_def ROTATE_EVENT_def START_EVENT_V3_def
  FORMAT_DESCRIPTION_EVENT_def TABLE_MAP_EVENT_def WRITE_ROWS_EVENT_V1_def UPDATE_ROWS_EVENT_V1_def
  DELETE_ROWS_EVENT_V1_def WRITE_ROWS_EVENT_def UPDATE_ROWS_EVENT_def DELETE_ROWS_EVENT_def
  PREVIOUS_GTIDS_LOG_EVENT_def ENUM_END_EVENT_def

record log_event =
  ev_timestamp :: int
  ev_type :: int
  ev_server_id :: int
  ev_size :: int
  ev_next_pos :: int
  ev_pos :: int
  ev_flags :: int
  ev_header_len :: int

record header_event = log_event +
  he_post_header_len :: buffer
  he_create_timestamp :: int
  he_binlog_version :: int
  he_szversion :: buffer

record query_event = log_event +
  qe_thread_id :: int
  qe_exec_time :: int
  qe_schema_length :: int
  qe_error_code :: int
  qe_statusvars_length :: int
  qe_schema_name :: buffer

record table_map_event = log_event +
  tm_table_id :: int
  tm_table_flags :: int
  tm_db_length :: int
  tm_table_length :: int
  tm_column_count :: int
  tm_field_metadata_size :: int
  tm_column_type :: buffer
  tm_field_metadata :: buffer
  tm_null_bits :: buffer
  tm_db_name :: buffer
  tm_table_name :: buffer

record rows_event = log_event +
  re_type_code :: int
  re_table_id :: int
  re_table_flags :: int
  re_column_count :: int
  re_extra_row_data :: buffer
  re_column_before_image :: buffer
  re_column_after_image :: buffer
  re_cols :: my_bitmap
  re_cols_ai :: my_bitmap
  re_rows_data :: nat
  re_rows_data_len :: int
  re_crc32 :: buffer
  re_row_before_values :: "row_value list list"
  re_row_after_values :: "row_value list list"

section \<open>Length-encoded integers and the common header\<close>

text \<open>The value and the new position of \<open>*packet\<close>.\<close>

definition get_field_length :: "buffer \<Rightarrow> nat \<Rightarrow> (int \<times> nat) option" where
  "get_field_length s pos = do {
     b \<leftarrow> byte_at s pos;
     if b < 251 then Some (uint b, pos + 1)
     else if b = 251 then Some (4294967295, pos + 1)
     else if b = 252 then map_option (\<lambda>t. (t, pos + 3)) (le_prefix s (pos + 1) 2)
     else if b = 253 then map_option (\<lambda>t. (t, pos + 4)) (le_prefix s (pos + 1) 3)
     else map_option (\<lambda>t. (t, pos + 9)) (le_prefix s (pos + 1) 4) }"

definition parseHeader :: "buffer option \<Rightarrow> 'a log_event_scheme \<Rightarrow> (load_event_state \<times> 'a log_event_scheme) option" where
  "parseHeader stream ev =
     (case stream of None \<Rightarrow> Some (EVENT_STREAM_UNABLED, ev)
      | Some s \<Rightarrow> do {
          ts \<leftarrow> uint4korr s 0;
          ty \<leftarrow> byte_at s 4;
          sid \<leftarrow> uint4korr s 5;
          sz \<leftarrow> uint4korr s 9;
          nx \<leftarrow> uint4korr s 13;
          fl \<leftarrow> uint2korr s 17;
          Some (EVENT_SUCCESS, ev\<lparr>ev_timestamp := ts, ev_type := uint ty, ev_server_id := sid,
            ev_size := sz, ev_next_pos := nx, ev_flags := fl\<rparr>) })"

section \<open>Format description\<close>

text \<open>The description is loaded into the global event; loading it again appends the table of header
  lengths once more.\<close>

definition header_loadEvent :: "buffer option \<Rightarrow> header_event \<Rightarrow> (load_event_state \<times> header_event) option" where
  "header_loadEvent stream ev = do {
     (st, ev1) \<leftarrow> parseHeader stream ev;
     (case stream of None \<Rightarrow> Some (st, ev1)
      | Some s \<Rightarrow>
        (let off = LOG_EVENT_HEADER_LEN in do {
          ver \<leftarrow> uint2korr s off;
          szver \<leftarrow> bytes_at s (off + 2) ST_SERVER_VER_LEN;
          cts \<leftarrow> uint4korr s (off + 2 + ST_SERVER_VER_LEN);
          hl \<leftarrow> byte_at s (off + 2 + ST_SERVER_VER_LEN + 4);
          let off2 = off + (2 + ST_SERVER_VER_LEN + 4 + 1);
          let n = min (u32 (ev_size ev1 - int off2)) (ENUM_END_EVENT - 1);
          tbl \<leftarrow> bytes_at s off2 (nat n);
          Some (EVENT_SUCCESS, ev1\<lparr>he_binlog_version := ver, he_szversion := szver,
            he_create_timestamp := cts, ev_header_len := uint hl,
            he_post_header_len := he_post_header_len ev1 @ tbl\<rparr>) })) }"

definition post_header_len :: "header_event \<Rightarrow> int \<Rightarrow> int option" where
  "post_header_len g type =
     (if 1 \<le> type then map_option uint (byte_at (he_post_header_len g) (nat (type - 1))) else None)"

section \<open>Query events\<close>

text \<open>The names of updated databases: the position after at most \<open>n\<close> strings.\<close>

fun skip_db_names :: "nat \<Rightarrow> buffer \<Rightarrow> nat \<Rightarrow> nat \<Rightarrow> nat option" where
  "skip_db_names 0 s pos stop = Some pos"
| "skip_db_names (Suc n) s pos stop =
     (if pos < stop then do { l \<leftarrow> c_strlen s pos; skip_db_names n s (pos + (1 + l)) stop }
      else Some pos)"

text \<open>One status variable with its code already read: the number of bytes it takes after the code.\<close>

definition status_var_len :: "int \<Rightarrow> buffer \<Rightarrow> nat \<Rightarrow> nat \<Rightarrow> nat option" where
  "status_var_len code s pos stop =
     (if code = 0 then Some 4
      else if code = 1 then map_option (\<lambda>_. 8) (uint8korr s pos)
      else if code = 6 then map_option (\<lambda>l. nat (uint l) + 1) (byte_at s pos)
      else if code = 3 then do { _ \<leftarrow> uint2korr s pos; _ \<leftarrow> uint2korr s (pos + 2); Some 4 }
      else if code = 4 then map_option (\<lambda>_. 6) (bytes_at s pos 6)
      else if code = 5 then map_option (\<lambda>l. nat (uint l) + 1) (byte_at s pos)
      else if code = 2 then map_option (\<lambda>l. nat (uint l) + 2) (byte_at s pos)
      else if code = 7 then map_option (\<lambda>_. 2) (uint2korr s pos)
      else if code = 8 then map_option (\<lambda>_. 2) (uint2korr s pos)
      else if code = 9 then map_option (\<lambda>_. 8) (uint8korr s pos)
      else if code = 10 then map_option (\<lambda>_. 4) (uint4korr s pos)
      else if code = 13 then map_option (\<lambda>_. 3) (bytes_at s pos 3)
      else if code = 11 then do {
        ul \<leftarrow> byte_at s pos;
        hl \<leftarrow> byte_at s (pos + 1 + nat (uint ul));
        Some (1 + nat (uint ul) + 1 + nat (uint hl)) }
      else if code = 12 then do {
        n \<leftarrow> byte_at s pos;
        if uint n > 16 then Some 1
        else map_option (\<lambda>p. p - pos) (skip_db_names (nat (uint n)) s (pos + 1) stop) }
      else if code = 16 then Some 1
      else Some 0)"

function status_vars :: "buffer \<Rightarrow> nat \<Rightarrow> nat \<Rightarrow> nat option" where
  "status_vars s pos stop =
     (if pos < stop then
        (case byte_at s pos of None \<Rightarrow> None
         | Some code \<Rightarrow>
            (case status_var_len (uint code) s (Suc pos) stop of None \<Rightarrow> None
             | Some l \<Rightarrow> status_vars s (Suc pos + l) stop))
      else Some pos)"
  by auto
termination
  by (relation "measure (\<lambda>(s, pos, stop). stop - pos)") auto

declare status_vars.simps [simp del]

definition query_loadEvent ::
  "header_event \<Rightarrow> buffer option \<Rightarrow> query_event \<Rightarrow> (load_event_state \<times> query_event) option" where
  "query_loadEvent g stream ev = do {
     (st, ev1) \<leftarrow> parseHeader stream ev;
     (case stream of None \<Rightarrow> Some (st, ev1)
      | Some s \<Rightarrow> do {
          phl \<leftarrow> post_header_len g (ev_type ev1);
          if ev_size ev1 < ev_header_len ev1 + phl then Some (EVENT_EVENT_LENGTH_TOO_SMALL, ev1)
          else do {
            let dataLen = u32 (ev_size ev1 - ev_header_len ev1 - phl);
            let buf = LOG_EVENT_HEADER_LEN;
            tid \<leftarrow> uint4korr s buf;
            ext \<leftarrow> uint4korr s (buf + 4);
            dbl \<leftarrow> byte_at s (buf + 8);
            err \<leftarrow> uint2korr s (buf + 9);
            svl \<leftarrow> (if phl - QUERY_HEADER_MINIMAL_LEN \<noteq> 0 then le_prefix s (buf + 11) 2 else Some 0);
            let ev2 = ev1\<lparr>qe_thread_id := tid, qe_exec_time := ext, qe_schema_length := uint dbl,
              qe_error_code := s16 err, qe_statusvars_length := svl\<rparr>;
            if svl > min dataLen MAX_SIZE_LOG_EVENT_STATUS then Some (EVENT_EVENT_LENGTH_TOO_SMALL, ev2)
            else do {
              let payloadBuf = buf + nat phl;
              let payloadEnd = payloadBuf + nat svl;
              _ \<leftarrow> status_vars s payloadBuf payloadEnd;
              n \<leftarrow> c_strlen s payloadEnd;
              name \<leftarrow> bytes_at s payloadEnd n;
              Some (EVENT_SUCCESS, ev2\<lparr>qe_schema_name := name\<rparr>) } } }) }"

section \<open>Table map events\<close>

text \<open>The table id is copied with six bytes into a 32-bit member; the surplus two bytes land in the
  member behind it, the flags, which are read next.\<close>

definition table_map_loadEvent ::
  "header_event \<Rightarrow> buffer option \<Rightarrow> table_map_event \<Rightarrow> (load_event_state \<times> table_map_event) option" where
  "table_map_loadEvent g stream ev = do {
     (st, ev1) \<leftarrow> parseHeader stream ev;
     (case stream of None \<Rightarrow> Some (st, ev1)
      | Some s \<Rightarrow> do {
          phl \<leftarrow> post_header_len g (ev_type ev1);
          if ev_size ev1 < ev_header_len ev1 + phl then Some (EVENT_EVENT_LENGTH_TOO_SMALL, ev1)
          else if phl \<noteq> 6 \<and> phl \<noteq> TABLE_MAP_HEADER_LEN then Some (EVENT_MAP_HEADER_LEN_ERROR, ev1)
          else do {
            let ph = LOG_EVENT_HEADER_LEN;
            let idlen = (if phl = 6 then 4 else 6);
            idb \<leftarrow> bytes_at s ph idlen;
            fl \<leftarrow> le_prefix s (ph + idlen) 2;
            let payload = nat (ev_header_len ev1) + nat phl;
            dbl \<leftarrow> byte_at s payload;
            tbl \<leftarrow> byte_at s (payload + nat (uint dbl) + 2);
            dbn \<leftarrow> bytes_at s (payload + 1) (nat (uint dbl));
            tbn \<leftarrow> bytes_at s (payload + nat (uint dbl) + 3) (nat (uint tbl));
            (cc, p1) \<leftarrow> get_field_length s (payload + nat (uint dbl) + nat (uint tbl) + 4);
            ct \<leftarrow> bytes_at s p1 (nat cc);
            let p2 = p1 + nat cc;
            let ev2 = ev1\<lparr>tm_table_id := le_val (take 4 idb), tm_table_flags := fl,
              tm_db_length := uint dbl, tm_table_length := uint tbl, tm_db_name := dbn,
              tm_table_name := tbn, tm_column_count := cc, tm_column_type := ct\<rparr>;
            if int p2 < ev_size ev1 then do {
              (ms, p3) \<leftarrow> get_field_length s p2;
              if ms > u32 (cc * 2)
              then Some (EVENT_FIELD_META_SIZE_TOO_BIG, ev2\<lparr>tm_field_metadata_size := ms\<rparr>)
              else do {
                fm \<leftarrow> bytes_at s p3 (nat ms);
                nb \<leftarrow> bytes_at s (p3 + nat ms) (nat (u32 (cc + 7) div 8));
                Some (EVENT_SUCCESS, ev2\<lparr>tm_field_metadata_size := ms, tm_field_metadata := fm,
                  tm_null_bits := nb\<rparr>) } }
            else Some (EVENT_SUCCESS, ev2) } }) }"

definition createTableDef :: "table_map_event \<Rightarrow> table_def option" where
  "createTableDef ev = CTableDef (tm_column_type ev) (tm_column_count ev) (tm_field_metadata ev)
     (tm_field_metadata_size ev) (tm_null_bits ev) (tm_table_flags ev)"

section \<open>One column of a row\<close>

text \<open>The text after its length prefix, cut at the first zero byte; the bytes read.\<close>

definition parseRowDataToString :: "buffer \<Rightarrow> nat \<Rightarrow> int \<Rightarrow> (buffer \<times> int) option" where
  "parseRowDataToString s p slen = do {
     (rlen, ofs) \<leftarrow> (if slen < 256 then map_option (\<lambda>b. (uint b, 1)) (byte_at s p)
                      else map_option (\<lambda>r. (r, 2)) (uint2korr s p));
     bs \<leftarrow> bytes_at s (p + nat ofs) (nat rlen);
     Some (c_str bs, rlen + ofs) }"

text \<open>The real type and the length of a column declared as STRING.\<close>

definition real_type :: "int \<Rightarrow> int \<Rightarrow> int \<times> int" where
  "real_type type meta =
     (if type = MYSQL_TYPE_STRING then
        if meta \<ge> 256 then
          let byte0 = shr meta 8; byte1 = and meta 0xFF in
          if and byte0 0x30 \<noteq> 0x30
          then (or byte0 0x30, or byte1 (u32 (shl (xor (and byte0 0x30) 0x30) 4)))
          else (type, and meta 0xFF)
        else (type, meta)
      else (type, 0))"

definition decimal_text :: "buffer \<Rightarrow> nat \<Rightarrow> int \<Rightarrow> int \<Rightarrow> (buffer \<times> int) option" where
  "decimal_text s p precision decimals = do {
     bin_size \<leftarrow> my_decimal_get_binary_size precision decimals;
     (_, dec) \<leftarrow> binary2my_decimal s p (my_decimal_init (replicate 9 0)) precision decimals;
     (_, len, buff) \<leftarrow> decimal2string dec (replicate 84 (CHR 0x00)) DECIMAL_MAX_STR_LENGTH 0 0 (CHR 0x00);
     Some (bytes_of (take (nat len) buff), u32 bin_size) }"

text \<open>The value of a column that is not null, if the decoder sets one, and the bytes it takes: the switch of
  \<open>parseOneRowData\<close>, cut into the columns of variable length, the temporal and the numeric ones.\<close>

definition parse_variable ::
  "buffer \<Rightarrow> nat \<Rightarrow> int \<Rightarrow> int \<Rightarrow> int \<Rightarrow> row_value \<Rightarrow> (row_value \<times> int) option" where
  "parse_variable s p type meta slen rv =
     (if type = MYSQL_TYPE_ENUM then
        (if and meta 0xFF = 1 then do { b \<leftarrow> byte_at s p; Some (row_set_value_long rv (uint b), 1) }
         else if and meta 0xFF = 2 then do { i \<leftarrow> uint2korr s p; Some (row_set_value_long rv i, 2) }
         else Some (rv, 0))
      else if type = MYSQL_TYPE_SET then Some (rv, and meta 0xFF)
      else if type = MYSQL_TYPE_BLOB then
        (if meta = 1 then do { b \<leftarrow> byte_at s p; Some (rv, uint b + 1) }
         else if meta = 2 then do { l \<leftarrow> uint2korr s p; Some (rv, l + 2) }
         else if meta = 3 then do { l \<leftarrow> uint3korr s p; Some (rv, l + 3) }
         else if meta = 4 then do { l \<leftarrow> uint4korr s p; Some (rv, u32 (l + 4)) }
         else Some (rv, 0))
      else if type = MYSQL_TYPE_VARCHAR \<or> type = MYSQL_TYPE_VAR_STRING then do {
        (str, n) \<leftarrow> parseRowDataToString s p meta;
        Some (fst (row_set_value_char rv (Some str)), n) }
      else if type = MYSQL_TYPE_STRING then do {
        (str, n) \<leftarrow> parseRowDataToString s p slen;
        Some (rv, n) }
      else if type = MYSQL_TYPE_JSON then do {
        l \<leftarrow> uint2korr s p;
        bs \<leftarrow> bytes_at s (p + nat meta) (nat l);
        Some (fst (row_set_value_char rv (Some bs)), u32 (l + meta)) }
      else Some (rv, 0))"

definition parse_temporal ::
  "buffer \<Rightarrow> nat \<Rightarrow> int \<Rightarrow> int \<Rightarrow> int \<Rightarrow> row_value \<Rightarrow> (row_value \<times> int) option" where
  "parse_temporal s p type meta slen rv =
     (if type = MYSQL_TYPE_TIMESTAMP then do { _ \<leftarrow> uint4korr s p; Some (rv, 4) }
      else if type = MYSQL_TYPE_TIMESTAMP2 then do {
        tm \<leftarrow> my_timestamp_from_binary s p (nat meta);
        _ \<leftarrow> my_timeval_to_str tm (nat meta);
        Some (rv, my_timestamp_binary_length meta) }
      else if type = MYSQL_TYPE_DATETIME then do {
        i64 \<leftarrow> uint8korr s p;
        let d = u32 (i64 div 1000000); t = i64 mod 1000000 in
        Some (row_set_value_time rv (time_init (d div 10000) (d mod 10000 div 100) (d mod 100)
          (t div 10000) (t mod 10000 div 100) (t mod 100) 0), 8) }
      else if type = MYSQL_TYPE_DATETIME2 then do {
        packed \<leftarrow> my_datetime_packed_from_binary s p (nat meta);
        let lt = TIME_from_longlong_datetime_packed packed in
        Some (row_set_value_time rv (time_init (year lt) (month lt) (day lt) (hour lt) (minute lt) (second lt) 0),
              my_datetime_binary_length meta) }
      else if type = MYSQL_TYPE_TIME then do {
        i32 \<leftarrow> uint3korr s p;
        Some (row_set_value_time rv (time_init 0 0 0 (i32 div 10000) (i32 mod 10000 div 100) (i32 mod 100) 0), 3) }
      else if type = MYSQL_TYPE_TIME2 then do {
        packed \<leftarrow> my_time_packed_from_binary s p (nat meta);
        let lt = TIME_from_longlong_time_packed packed;
        _ \<leftarrow> my_time_to_str lt (nat meta);
        Some (row_set_value_time rv (time_init 0 0 0 (hour lt) (minute lt) (second lt) 0),
              my_time_binary_length meta) }
      else if type = MYSQL_TYPE_NEWDATE then do { _ \<leftarrow> uint3korr s p; Some (rv, 3) }
      else if type = MYSQL_TYPE_YEAR then do {
        b \<leftarrow> byte_at s p; Some (row_set_value_long rv (uint b), 1) }
      else parse_variable s p type meta slen rv)"

definition parse_column ::
  "(nat \<Rightarrow> int) \<Rightarrow> buffer \<Rightarrow> nat \<Rightarrow> int \<Rightarrow> int \<Rightarrow> int \<Rightarrow> row_value \<Rightarrow> (row_value \<times> int) option" where
  "parse_column addr s p type meta slen rv =
     (if type = MYSQL_TYPE_LONG then do {
        si \<leftarrow> sint4korr s p; Some (row_set_value_long rv si, 4) }
      else if type = MYSQL_TYPE_TINY then Some (row_set_value_long rv (s32 (addr p)), 1)
      else if type = MYSQL_TYPE_SHORT then do {
        si \<leftarrow> sint2korr s p; Some (row_set_value_long rv si, 2) }
      else if type = MYSQL_TYPE_INT24 then do {
        si \<leftarrow> sint3korr s p; Some (row_set_value_long rv si, 3) }
      else if type = MYSQL_TYPE_LONGLONG then do {
        si \<leftarrow> sint8korr s p; Some (row_set_value_long rv si, 8) }
      else if type = MYSQL_TYPE_NEWDECIMAL then do {
        (txt, n) \<leftarrow> decimal_text s p (shr meta 8) (and meta 0xFF);
        Some (fst (row_set_value_char rv (Some txt)), n) }
      else if type = MYSQL_TYPE_FLOAT then do {
        b \<leftarrow> uint4korr s p; Some (row_set_value_double rv (Single_bits b), 4) }
      else if type = MYSQL_TYPE_DOUBLE then do {
        b \<leftarrow> uint8korr s p; Some (row_set_value_double rv (Double_bits b), 8) }
      else if type = MYSQL_TYPE_BIT then
        (let nbits = u32 (shr meta 8 * 8 + and meta 0xFF) in Some (rv, u32 (nbits + 7) div 8))
      else parse_temporal s p type meta slen rv)"

lemmas parse_column_defs = parse_column_def parse_temporal_def parse_variable_def

definition parseOneRowData ::
  "(nat \<Rightarrow> int) \<Rightarrow> buffer \<Rightarrow> row_value list \<Rightarrow> nat option \<Rightarrow> int \<Rightarrow> int \<Rightarrow> (row_value list \<times> int) option" where
  "parseOneRowData addr s row_values ptr type meta =
     (let (type', slen) = real_type type meta; rv0 = row_value_init type' in do {
        (rv, rLen) \<leftarrow> (case ptr of None \<Rightarrow> Some (row_set_value_null rv0, 0)
                        | Some p \<Rightarrow> parse_column addr s p type' meta slen rv0);
        if rv_type rv \<noteq> VALUE_TYPE_UNSET
        then map_option (\<lambda>rv'. (row_values @ [rv'], rLen)) (row_value_copy rv)
        else Some (row_values, rLen) })"

section \<open>Rows events\<close>

fun print_columns ::
  "nat \<Rightarrow> nat \<Rightarrow> (nat \<Rightarrow> int) \<Rightarrow> buffer \<Rightarrow> table_def \<Rightarrow> my_bitmap \<Rightarrow> nat \<Rightarrow> row_value list \<Rightarrow> nat \<Rightarrow> nat
    \<Rightarrow> (row_value list \<times> nat) option" where
  "print_columns 0 i addr s td cols nulls row_values value nbi = Some (row_values, value)"
| "print_columns (Suc n) i addr s td cols nulls row_values value nbi = do {
     b \<leftarrow> byte_at s (nulls + nbi div 8);
     present \<leftarrow> bitmap_is_set cols i;
     if \<not> present then print_columns n (Suc i) addr s td cols nulls row_values value nbi
     else do {
       t \<leftarrow> td_type td i;
       m \<leftarrow> field_metadata td i;
       (row_values', sz) \<leftarrow>
         parseOneRowData addr s row_values (if bit b (nbi mod 8) then None else Some value) t m;
       print_columns n (Suc i) addr s td cols nulls row_values' (value + nat sz) (Suc nbi) } }"

text \<open>The values read and the length of the row.\<close>

definition printOneRow ::
  "(nat \<Rightarrow> int) \<Rightarrow> buffer \<Rightarrow> int \<Rightarrow> row_value list \<Rightarrow> table_def \<Rightarrow> my_bitmap \<Rightarrow> nat \<Rightarrow> (row_value list \<times> nat) option" where
  "printOneRow addr s column_count row_values td cols value = do {
     k \<leftarrow> bitmap_bits_set cols;
     (row_values', value') \<leftarrow> print_columns (nat column_count) 0 addr s td cols value row_values
        (value + nat ((k + 7) div 8)) 0;
     Some (row_values', value' - value) }"

text \<open>The loop over the tagged extra data of version 2 events: the error it returns with, if any, and the
  bytes of the last tag 0.\<close>

function extra_info :: "buffer \<Rightarrow> nat \<Rightarrow> nat \<Rightarrow> buffer \<Rightarrow> (load_event_state option \<times> buffer) option" where
  "extra_info s pos stop ext =
     (if pos < stop then
        (case byte_at s pos of None \<Rightarrow> None
         | Some tag \<Rightarrow>
            if tag = 0 then
              (if stop - Suc pos < 2 then Some (Some EVENT_EXTRA_HEADER_LEN_TOO_SMALL, ext)
               else case byte_at s (Suc pos) of None \<Rightarrow> None
                | Some l \<Rightarrow>
                   if stop - Suc pos < nat (uint l) then Some (Some EVENT_EXTRA_HEADER_LEN_TOO_SMALL, ext)
                   else case bytes_at s (Suc pos) (nat (uint l)) of None \<Rightarrow> None
                    | Some bs \<Rightarrow> extra_info s (Suc pos + nat (uint l)) stop bs)
            else Some (None, ext))
      else Some (None, ext))"
  by auto
termination
  by (relation "measure (\<lambda>(s, pos, stop, ext). stop - pos)") auto

declare extra_info.simps [simp del]

text \<open>\<open>bitmap_init\<close> followed by the copy of the image; the memory is cleared before it is read.\<close>

definition load_image :: "my_bitmap \<Rightarrow> int \<Rightarrow> buffer \<Rightarrow> my_bitmap option" where
  "load_image m n img = do {
     m1 \<leftarrow> bitmap_init m n (replicate (bitmap_buffer_size n) 0);
     if img \<noteq> [] then bitmap_load m1 img else Some (m1\<lparr>bitmap := None\<rparr>) }"

definition rows_loadEvent ::
  "header_event \<Rightarrow> buffer option \<Rightarrow> rows_event \<Rightarrow> (load_event_state \<times> rows_event) option" where
  "rows_loadEvent g stream ev = do {
     (st, ev1) \<leftarrow> parseHeader stream ev;
     (case stream of None \<Rightarrow> Some (st, ev1)
      | Some s \<Rightarrow> do {
          phl \<leftarrow> post_header_len g (ev_type ev1);
          if ev_size ev1 < ev_header_len ev1 + phl then Some (EVENT_EVENT_LENGTH_TOO_SMALL, ev1)
          else do {
            let ph = nat (ev_header_len ev1);
            let idlen = (if phl = 6 then 4 else 6);
            idb \<leftarrow> bytes_at s ph idlen;
            fl \<leftarrow> le_prefix s (ph + idlen) 2;
            let ev2 = ev1\<lparr>re_table_id := le_val (take 4 idb), re_table_flags := fl\<rparr>;
            let ph2 = ph + idlen + 2;
            (err, xs, el) \<leftarrow> (if phl = ROWS_HEADER_LEN_V2 then do {
                el \<leftarrow> le_prefix s ph2 2;
                if el < 2 then Some (Some EVENT_EXTRA_HEADER_LEN_TOO_SMALL, re_extra_row_data ev2, el)
                else map_option (\<lambda>(e, bs). (e, bs, el - 2))
                       (extra_info s (ph2 + 2) (ph2 + 2 + nat (el - 2)) (re_extra_row_data ev2)) }
              else Some (None, re_extra_row_data ev2, 0));
            (case err of Some e \<Rightarrow> Some (e, ev2\<lparr>re_extra_row_data := xs\<rparr>)
             | None \<Rightarrow> do {
                 (cc, p1) \<leftarrow> get_field_length s (nat (ev_header_len ev1) + nat phl + nat el);
                 let bitsLen = nat (u32 (cc + 7) div 8);
                 img \<leftarrow> bytes_at s p1 bitsLen;
                 cols0 \<leftarrow> load_image (re_cols ev2) cc img;
                 let cols = (if img \<noteq> [] then create_last_word_mask cols0 else cols0);
                 let ev3 = ev2\<lparr>re_extra_row_data := xs, re_column_count := cc,
                   re_column_before_image := img, re_column_after_image := []\<rparr>;
                 let p2 = p1 + bitsLen;
                 if re_type_code ev = UPDATE_ROWS_EVENT then do {
                   img2 \<leftarrow> bytes_at s p2 bitsLen;
                   ai \<leftarrow> load_image (re_cols_ai ev2) cc img2;
                   let p3 = p2 + bitsLen;
                   Some (EVENT_SUCCESS, ev3\<lparr>re_column_after_image := img2,
                     re_cols := (if img2 \<noteq> [] then create_last_word_mask cols else cols), re_cols_ai := ai,
                     re_rows_data := p3, re_rows_data_len := u32 (ev_size ev1 - int p3)\<rparr>) }
                 else Some (EVENT_SUCCESS, ev3\<lparr>re_cols := cols, re_rows_data := p2,
                     re_rows_data_len := u32 (ev_size ev1 - int p2)\<rparr>) }) } }) }"

text \<open>The loop of \<open>parseEvent\<close>. A row of length zero leaves the position where it is, so the loop
  ends if and only if it ends within one round per byte of row data: \<open>parseEvent\<close> runs it with that
  much fuel.\<close>

fun rows_loop ::
  "nat \<Rightarrow> (nat \<Rightarrow> int) \<Rightarrow> buffer \<Rightarrow> table_def \<Rightarrow> rows_event \<Rightarrow> nat \<Rightarrow> int \<Rightarrow> (rows_event \<times> nat) option" where
  "rows_loop 0 addr s td ev ptr dlen = None"
| "rows_loop (Suc fuel) addr s td ev ptr dlen =
     (if dlen < u32 (re_rows_data_len ev - 4) then do {
        (vs, l) \<leftarrow> printOneRow addr s (re_column_count ev) [] td (re_cols ev) ptr;
        let ev1 = ev\<lparr>re_row_before_values := re_row_before_values ev @ [vs]\<rparr>;
        let ptr1 = ptr + l;
        let dlen1 = u32 (dlen + int l);
        if re_type_code ev = UPDATE_ROWS_EVENT then do {
          (vs2, l2) \<leftarrow> printOneRow addr s (re_column_count ev) vs td (re_cols ev) ptr1;
          rows_loop fuel addr s td (ev1\<lparr>re_row_after_values := re_row_after_values ev1 @ [vs2]\<rparr>)
            (ptr1 + l2) (u32 (dlen1 + int l2)) }
        else rows_loop fuel addr s td ev1 ptr1 dlen1 }
      else Some (ev, ptr))"

definition rows_parseEvent ::
  "(nat \<Rightarrow> int) \<Rightarrow> buffer \<Rightarrow> table_map_event option \<Rightarrow> rows_event \<Rightarrow> (load_event_state \<times> rows_event) option" where
  "rows_parseEvent addr s tme ev =
     (case tme of None \<Rightarrow> Some (EVENT_FIND_TABLEMAP_FAILED, ev)
      | Some tm \<Rightarrow> do {
          td \<leftarrow> createTableDef tm;
          (ev1, ptr) \<leftarrow> rows_loop (Suc (nat (re_rows_data_len ev))) addr s td ev (re_rows_data ev) 0;
          crc \<leftarrow> bytes_at s ptr 4;
          Some (EVENT_SUCCESS, ev1\<lparr>re_crc32 := crc, re_cols := bitmap_free (re_cols ev1),
            re_cols_ai := bitmap_free (re_cols_ai ev1)\<rparr>) })"

section \<open>The row data handed on\<close>

record row_data =
  rd_column_count :: int
  rd_thread_id :: int
  rd_event_type :: int
  rd_timestamp :: int
  rd_event_type_str :: string
  rd_table_name :: buffer
  rd_db_name :: buffer
  rd_row_before_values :: "row_value list list"
  rd_row_after_values :: "row_value list list"

definition createRowData :: "rows_event \<Rightarrow> int \<Rightarrow> buffer \<Rightarrow> buffer \<Rightarrow> row_data" where
  "createRowData ev threadid dbname tablename =
     (let (et, str) = (if ev_type ev = WRITE_ROWS_EVENT then (1, ''WRITE_ROWS_EVENT'')
                       else if ev_type ev = DELETE_ROWS_EVENT then (2, ''DELETE_ROWS_EVENT'')
                       else if ev_type ev = UPDATE_ROWS_EVENT then (3, ''UPDATE_ROWS_EVENT'')
                       else (0, ''UNKNOWN_EVENT''))
      in \<lparr>rd_column_count = re_column_count ev, rd_thread_id = threadid, rd_event_type = et,
          rd_timestamp = ev_timestamp ev, rd_event_type_str = str, rd_table_name = c_str tablename,
          rd_db_name = c_str dbname, rd_row_before_values = re_row_before_values ev,
          rd_row_after_values = re_row_after_values ev\<rparr>)"

section \<open>Lengths and headers\<close>

text \<open>How a server writes a length.\<close>

definition put_length :: "int \<Rightarrow> buffer" where
  "put_length n =
     (if n < 251 then [uchar_of n]
      else if n < 65536 then 252 # le_bytes 2 n
      else if n < 16777216 then 253 # le_bytes 3 n
      else 254 # le_bytes 8 n)"

lemma bytes_at_app: "length bs = n \<Longrightarrow> off = length pre \<Longrightarrow> bytes_at (pre @ bs @ post) off n = Some bs"
  by (simp add: bytes_at_def)

lemma bytes_at_at: "length xs = n \<Longrightarrow> bytes_at (pre @ x # xs @ post) (Suc (length pre)) n = Some xs"
  by (simp add: bytes_at_def)

lemma le_bytes_add: "le_bytes (m + n) x = le_bytes m x @ le_bytes n (x div 256 ^ m)"
  by (induction m arbitrary: x) (simp_all add: zdiv_zmult2_eq)

lemma korr_Cons_pos: "0 < k \<Longrightarrow> korr f n (x # ys) k = korr f n ys (k - 1)"
  by (cases k) (simp_all add: korr_Cons)

lemma get_field_length_put:
  assumes "0 \<le> n" "n < 2 ^ 32"
  shows "get_field_length (pre @ put_length n @ post) (length pre) = Some (n, length pre + length (put_length n))"
proof -
  consider "n < 251" | "251 \<le> n" "n < 65536" | "65536 \<le> n" "n < 16777216" | "16777216 \<le> n" by linarith
  then show ?thesis
  proof cases
    case 1
    then have "uchar_of n < 251" using assms by (simp add: word_less_def)
    then show ?thesis using 1 assms by (simp add: put_length_def get_field_length_def byte_at_in)
  next
    case 2
    then show ?thesis using assms
      by (simp add: put_length_def get_field_length_def byte_at_in le_prefix_def bytes_at_at le_val_le_bytes)
  next
    case 3
    then show ?thesis using assms
      by (simp add: put_length_def get_field_length_def byte_at_in le_prefix_def bytes_at_at le_val_le_bytes)
  next
    case 4
    have "bytes_at (pre @ 254 # le_bytes 8 n @ post) (Suc (length pre)) 4 = Some (le_bytes 4 n)"
      using le_bytes_add [of 4 4 n] by (simp add: bytes_at_at)
    then show ?thesis using 4 assms
      by (simp add: put_length_def get_field_length_def byte_at_in le_prefix_def le_val_le_bytes)
  qed
qed

text \<open>The common header as a server writes it.\<close>

definition put_header :: "int \<Rightarrow> int \<Rightarrow> int \<Rightarrow> int \<Rightarrow> int \<Rightarrow> int \<Rightarrow> buffer" where
  "put_header ts ty sid sz nx fl =
     le_bytes 4 ts @ [uchar_of ty] @ le_bytes 4 sid @ le_bytes 4 sz @ le_bytes 4 nx @ le_bytes 2 fl"

lemma length_put_header [simp]: "length (put_header ts ty sid sz nx fl) = 19"
  by (simp add: put_header_def)

lemma parseHeader_put:
  "parseHeader (Some (put_header ts ty sid sz nx fl @ rest)) ev = Some (EVENT_SUCCESS,
     ev\<lparr>ev_timestamp := ts mod 2 ^ 32, ev_type := ty mod 256, ev_server_id := sid mod 2 ^ 32,
        ev_size := sz mod 2 ^ 32, ev_next_pos := nx mod 2 ^ 32, ev_flags := fl mod 2 ^ 16\<rparr>)"
  by (simp add: parseHeader_def put_header_def store_read_simps korr_Cons_pos byte_at_def nth_append)

lemma parseHeader_short:
  assumes "length s < 19"
  shows "parseHeader (Some s) ev = None"
  using assms by (auto simp: parseHeader_def ukorr_le_val korr_def bytes_at_def byte_at_def Option.bind_eq_None_conv)

section \<open>Rows\<close>

text \<open>\<open>column_encodes addr t m bs rv\<close>: wherever the bytes \<open>bs\<close> stand in an event, decoding a column of
  type \<open>t\<close> with metadata \<open>m\<close> there yields \<open>rv\<close> and takes exactly these bytes.\<close>

definition column_encodes :: "(nat \<Rightarrow> int) \<Rightarrow> int \<Rightarrow> int \<Rightarrow> buffer \<Rightarrow> row_value \<Rightarrow> bool" where
  "column_encodes addr t m bs rv \<longleftrightarrow> (\<forall>pre post vs.
     parseOneRowData addr (pre @ bs @ post) vs (Some (length pre)) t m = Some (vs @ [rv], int (length bs)))"

definition null_value :: "int \<Rightarrow> int \<Rightarrow> row_value" where
  "null_value t m = row_set_value_null (row_value_init (fst (real_type t m)))"

lemma parse_null: "parseOneRowData addr s vs None t m = Some (vs @ [null_value t m], 0)"
  by (simp add: parseOneRowData_def null_value_def Let_def row_set_value_null_def row_value_copy_def
      split: prod.splits)

text \<open>A row: for every column, nothing when the image leaves it out, or whether it is null, its bytes and
  its value.\<close>

type_synonym cell = "(bool \<times> buffer \<times> row_value) option"

definition cell_ok :: "(nat \<Rightarrow> int) \<Rightarrow> table_def \<Rightarrow> nat \<Rightarrow> cell \<Rightarrow> bool" where
  "cell_ok addr td i c \<longleftrightarrow> (case c of None \<Rightarrow> True
     | Some (null, bs, rv) \<Rightarrow> (\<exists>t m. td_type td i = Some t \<and> field_metadata td i = Some m
         \<and> (if null then bs = [] \<and> rv = null_value t m else column_encodes addr t m bs rv)))"

definition row_ok :: "(nat \<Rightarrow> int) \<Rightarrow> table_def \<Rightarrow> nat \<Rightarrow> cell list \<Rightarrow> bool" where
  "row_ok addr td i cs \<longleftrightarrow> (\<forall>j < length cs. cell_ok addr td (i + j) (cs ! j))"

definition cells :: "cell list \<Rightarrow> (bool \<times> buffer \<times> row_value) list" where
  "cells cs = map the (filter (\<lambda>c. c \<noteq> None) cs)"

definition row_values :: "cell list \<Rightarrow> row_value list" where
  "row_values cs = map (\<lambda>(null, bs, rv). rv) (cells cs)"

definition row_bytes :: "cell list \<Rightarrow> buffer" where
  "row_bytes cs = concat (map (\<lambda>(null, bs, rv). bs) (cells cs))"

lemma cells_simps [simp]: "cells [] = []" "cells (None # cs) = cells cs" "cells (Some c # cs) = c # cells cs"
  by (cases c; simp_all add: cells_def)+

lemma row_ok_Cons: "row_ok addr td i (c # cs) \<longleftrightarrow> cell_ok addr td i c \<and> row_ok addr td (Suc i) cs"
  unfolding row_ok_def by (auto simp: nth_Cons split: nat.splits)

text \<open>The null bits of a row, read from the byte at \<open>nulls\<close>, starting with bit number \<open>nbi\<close>; a bit is
  looked at once more after the last cell when columns are left out at the end.\<close>

definition null_bits_ok :: "buffer \<Rightarrow> nat \<Rightarrow> nat \<Rightarrow> (bool \<times> buffer \<times> row_value) list \<Rightarrow> bool" where
  "null_bits_ok s nulls nbi cs \<longleftrightarrow> (nulls + (nbi + length cs) div 8 < length s)
     \<and> (\<forall>j < length cs. bit (s ! (nulls + (nbi + j) div 8)) ((nbi + j) mod 8) = fst (cs ! j))"

lemma null_bits_ok_here:
  assumes "null_bits_ok s nulls nbi cs"
  shows "byte_at s (nulls + nbi div 8) = Some (s ! (nulls + nbi div 8))"
proof -
  have "nbi div 8 \<le> (nbi + length cs) div 8" by (rule div_le_mono) simp
  then show ?thesis using assms by (simp add: byte_at_def null_bits_ok_def)
qed

lemma null_bits_ok_Cons:
  assumes "null_bits_ok s nulls nbi (c # cs)"
  shows "bit (s ! (nulls + nbi div 8)) (nbi mod 8) = fst c" "null_bits_ok s nulls (Suc nbi) cs"
  using assms unfolding null_bits_ok_def by (auto dest: spec [of _ 0] spec [of _ "Suc _"])

lemma print_columns_decodes:
  assumes "row_ok addr td i cs" "\<forall>j < length cs. bitmap_is_set cols (i + j) = Some (cs ! j \<noteq> None)"
    "s = pre @ row_bytes cs @ post" "null_bits_ok s nulls nbi (cells cs)"
  shows "print_columns (length cs) i addr s td cols nulls vs (length pre) nbi
    = Some (vs @ row_values cs, length pre + length (row_bytes cs))"
  using assms
proof (induction cs arbitrary: i pre vs nbi)
  case Nil
  then show ?case by (simp add: row_values_def row_bytes_def)
next
  case (Cons c cs)
  note b = null_bits_ok_here [OF Cons.prems(4)]
  have ok: "cell_ok addr td i c" "row_ok addr td (Suc i) cs" using Cons.prems(1) by (simp_all add: row_ok_Cons)
  have set: "bitmap_is_set cols i = Some (c \<noteq> None)" "\<forall>j < length cs. bitmap_is_set cols (Suc i + j) = Some (cs ! j \<noteq> None)"
    using Cons.prems(2) by (auto dest: spec [of _ 0] spec [of _ "Suc _"])
  show ?case
  proof (cases c)
    case None
    have "print_columns (length cs) (Suc i) addr s td cols nulls vs (length pre) nbi
      = Some (vs @ row_values cs, length pre + length (row_bytes cs))"
      using Cons.prems None ok set by (intro Cons.IH) (simp_all add: row_bytes_def)
    then show ?thesis using None b set by (simp add: row_values_def row_bytes_def)
  next
    case (Some x)
    obtain null bs rv where x: "x = (null, bs, rv)" by (cases x)
    from ok(1) obtain t m where tm: "td_type td i = Some t" "field_metadata td i = Some m"
      and enc: "if null then bs = [] \<and> rv = null_value t m else column_encodes addr t m bs rv"
      by (auto simp: cell_ok_def Some x)
    have nb: "bit (s ! (nulls + nbi div 8)) (nbi mod 8) = null" "null_bits_ok s nulls (Suc nbi) (cells cs)"
      using null_bits_ok_Cons [of s nulls nbi x "cells cs"] Cons.prems(4) by (simp_all add: Some x)
    have s: "s = pre @ bs @ (row_bytes cs @ post)" using Cons.prems(3) by (simp add: Some x row_bytes_def)
    have p: "parseOneRowData addr s vs (if null then None else Some (length pre)) t m = Some (vs @ [rv], int (length bs))"
      using enc unfolding s by (auto simp: parse_null column_encodes_def)
    have "print_columns (length cs) (Suc i) addr s td cols nulls (vs @ [rv]) (length (pre @ bs)) (Suc nbi)
      = Some ((vs @ [rv]) @ row_values cs, length (pre @ bs) + length (row_bytes cs))"
      using ok set nb s by (intro Cons.IH) simp_all
    then show ?thesis using Some b set tm nb p
      by (simp add: x row_values_def row_bytes_def)
  qed
qed

lemma length_cells: "length (cells cs) = card {i. i < length cs \<and> cs ! i \<noteq> None}"
  by (simp add: cells_def length_filter_conv_card)

text \<open>A row with its null bits in front.\<close>

definition encodes_row :: "buffer \<Rightarrow> cell list \<Rightarrow> bool" where
  "encodes_row rb cs \<longleftrightarrow> (\<exists>nb. rb = nb @ row_bytes cs \<and> length nb = (length (cells cs) + 7) div 8
     \<and> (\<forall>j < length (cells cs). bit (nb ! (j div 8)) (j mod 8) = fst (cells cs ! j)))"

lemma printOneRow_decodes:
  assumes wf: "map_wf cols" "n_bits cols = int (length cs)"
    and set: "\<forall>j < length cs. bitmap_is_set cols j = Some (cs ! j \<noteq> None)"
    and row: "row_ok addr td 0 cs" "encodes_row rb cs" and post: "post \<noteq> []"
  shows "printOneRow addr (pre @ rb @ post) (int (length cs)) vs td cols (length pre)
    = Some (vs @ row_values cs, length rb)"
proof -
  obtain nb where rb: "rb = nb @ row_bytes cs" and nb: "length nb = (length (cells cs) + 7) div 8"
    "\<forall>j < length (cells cs). bit (nb ! (j div 8)) (j mod 8) = fst (cells cs ! j)"
    using row(2) by (auto simp: encodes_row_def)
  have "{i. int i < n_bits cols \<and> bitmap_is_set cols i = Some True} = {i. i < length cs \<and> cs ! i \<noteq> None}"
    using set wf(2) by auto
  then have k: "bitmap_bits_set cols = Some (int (length (cells cs)))"
    using bits_set_card [OF wf(1)] by (simp add: length_cells)
  define s where "s = (pre @ nb) @ row_bytes cs @ post"
  have "null_bits_ok s (length pre) 0 (cells cs)"
  proof -
    have lt: "j div 8 < length nb" if "j < length (cells cs)" for j using that nb(1) by linarith
    have "length (cells cs) div 8 \<le> length nb" using nb(1) by simp
    moreover have "0 < length post" using post by simp
    ultimately have "length (cells cs) div 8 < length nb + length (row_bytes cs) + length post" by linarith
    then show ?thesis using nb(2) lt by (simp add: null_bits_ok_def s_def nth_append)
  qed
  then have "print_columns (length cs) 0 addr s td cols (length pre) vs (length (pre @ nb)) 0
    = Some (vs @ row_values cs, length (pre @ nb) + length (row_bytes cs))"
    using row set by (intro print_columns_decodes) (simp_all add: s_def)
  moreover have "nat ((int (length (cells cs)) + 7) div 8) = length nb" using nb(1) by simp
  ultimately show ?thesis by (simp add: printOneRow_def k rb s_def)
qed

text \<open>Rows that a rows event may hold: decodable, and of at least one byte.\<close>

definition rows_encode :: "(nat \<Rightarrow> int) \<Rightarrow> table_def \<Rightarrow> my_bitmap \<Rightarrow> nat \<Rightarrow> (buffer \<times> cell list) list \<Rightarrow> bool" where
  "rows_encode addr td cols n rows \<longleftrightarrow> map_wf cols \<and> n_bits cols = int n \<and> (\<forall>(rb, cs)\<in>set rows.
     rb \<noteq> [] \<and> length cs = n \<and> (\<forall>j < n. bitmap_is_set cols j = Some (cs ! j \<noteq> None))
     \<and> row_ok addr td 0 cs \<and> encodes_row rb cs)"

lemma rows_encode_Cons:
  assumes "rows_encode addr td cols n ((rb, cs) # rows)"
  shows "rows_encode addr td cols n rows" "rb \<noteq> []"
    and "post \<noteq> [] \<Longrightarrow> printOneRow addr (pre @ rb @ post) (int n) vs td cols (length pre)
      = Some (vs @ row_values cs, length rb)"
proof -
  show "rows_encode addr td cols n rows"
    using assms unfolding rows_encode_def by (meson list.set_intros(2))
  show "rb \<noteq> []" using assms by (simp add: rows_encode_def)
  show "post \<noteq> [] \<Longrightarrow> printOneRow addr (pre @ rb @ post) (int n) vs td cols (length pre)
      = Some (vs @ row_values cs, length rb)"
    using assms printOneRow_decodes [of cols cs addr td rb post pre vs] by (simp add: rows_encode_def)
qed

lemma rows_loop_decodes:
  assumes "rows_encode addr td (re_cols ev) n rows" "re_column_count ev = int n"
    "re_type_code ev \<noteq> UPDATE_ROWS_EVENT"
    "s = pre @ concat (map fst rows) @ post" "post \<noteq> []"
    "re_rows_data_len ev - 4 = dlen + int (length (concat (map fst rows)))" "0 \<le> dlen"
    "re_rows_data_len ev < 2 ^ 32" "length rows < fuel"
  shows "rows_loop fuel addr s td ev (length pre) dlen
    = Some (ev\<lparr>re_row_before_values := re_row_before_values ev @ map (row_values \<circ> snd) rows\<rparr>,
            length pre + length (concat (map fst rows)))"
  using assms
proof (induction rows arbitrary: ev pre dlen fuel)
  case Nil
  then show ?case by (cases fuel) (simp_all add: u32_id)
next
  case (Cons r rows)
  obtain rb cs where r: "r = (rb, cs)" by (cases r)
  note rc = rows_encode_Cons [OF Cons.prems(1) [unfolded r]]
  obtain f where f: "fuel = Suc f" using Cons.prems(9) by (cases fuel) auto
  define ev1 where "ev1 = ev\<lparr>re_row_before_values := re_row_before_values ev @ [row_values cs]\<rparr>"
  have s: "s = pre @ rb @ (concat (map fst rows) @ post)" "s = (pre @ rb) @ concat (map fst rows) @ post"
    using Cons.prems(4) by (simp_all add: r)
  have p: "printOneRow addr s (int n) [] td (re_cols ev) (length pre) = Some (row_values cs, length rb)"
    unfolding s(1) using rc(3) Cons.prems(5) by simp
  have "rows_loop f addr s td ev1 (length (pre @ rb)) (dlen + int (length rb))
    = Some (ev1\<lparr>re_row_before_values := re_row_before_values ev1 @ map (row_values \<circ> snd) rows\<rparr>,
            length (pre @ rb) + length (concat (map fst rows)))"
    using Cons.prems rc(1) s(2) by (intro Cons.IH) (simp_all add: ev1_def r f)
  moreover have "dlen < re_rows_data_len ev - 4" using rc(2) Cons.prems(6) by (cases rb) (simp_all add: r)
  ultimately show ?case using Cons.prems(2,3,6,7,8)
    by (simp add: f p ev1_def r u32_id)
qed

definition update_rows_encode where
  "update_rows_encode addr td cols n rows \<longleftrightarrow> rows_encode addr td cols n (map fst rows)
     \<and> rows_encode addr td cols n (map snd rows)"

definition update_bytes :: "((buffer \<times> cell list) \<times> (buffer \<times> cell list)) list \<Rightarrow> buffer" where
  "update_bytes rows = concat (map (\<lambda>((rb, cs), (rb', cs')). rb @ rb') rows)"

lemma update_rows_loop_decodes:
  assumes "update_rows_encode addr td (re_cols ev) n rows" "re_column_count ev = int n"
    "re_type_code ev = UPDATE_ROWS_EVENT"
    "s = pre @ update_bytes rows @ post" "post \<noteq> []"
    "re_rows_data_len ev - 4 = dlen + int (length (update_bytes rows))" "0 \<le> dlen"
    "re_rows_data_len ev < 2 ^ 32" "length rows < fuel"
  shows "rows_loop fuel addr s td ev (length pre) dlen
    = Some (ev\<lparr>re_row_before_values := re_row_before_values ev @ map (\<lambda>(b, a). row_values (snd b)) rows,
               re_row_after_values := re_row_after_values ev
                 @ map (\<lambda>(b, a). row_values (snd b) @ row_values (snd a)) rows\<rparr>,
            length pre + length (update_bytes rows))"
  using assms
proof (induction rows arbitrary: ev pre dlen fuel)
  case Nil
  then show ?case by (cases fuel) (simp_all add: u32_id update_bytes_def)
next
  case (Cons r rows)
  obtain rb cs rb' cs' where r: "r = ((rb, cs), (rb', cs'))" by (metis surj_pair)
  have enc: "rows_encode addr td (re_cols ev) n ((rb, cs) # map fst rows)"
    "rows_encode addr td (re_cols ev) n ((rb', cs') # map snd rows)"
    using Cons.prems(1) by (simp_all add: update_rows_encode_def r)
  note b = rows_encode_Cons [OF enc(1)] and a = rows_encode_Cons [OF enc(2)]
  obtain f where f: "fuel = Suc f" using Cons.prems(9) by (cases fuel) auto
  define ev1 where "ev1 = ev\<lparr>re_row_before_values := re_row_before_values ev @ [row_values cs],
    re_row_after_values := re_row_after_values ev @ [row_values cs @ row_values cs']\<rparr>"
  have s: "s = pre @ rb @ (rb' @ update_bytes rows @ post)" "s = (pre @ rb) @ rb' @ (update_bytes rows @ post)"
    "s = (pre @ rb @ rb') @ update_bytes rows @ post"
    using Cons.prems(4) by (simp_all add: r update_bytes_def)
  have p: "printOneRow addr s (int n) [] td (re_cols ev) (length pre) = Some (row_values cs, length rb)"
    unfolding s(1) using b(3) Cons.prems(5) by simp
  have q: "printOneRow addr s (int n) (row_values cs) td (re_cols ev) (length pre + length rb)
      = Some (row_values cs @ row_values cs', length rb')"
    using a(3) [of "update_bytes rows @ post" "pre @ rb" "row_values cs"] Cons.prems(5) by (simp add: s(2))
  have "rows_loop f addr s td ev1 (length (pre @ rb @ rb')) (dlen + int (length rb) + int (length rb'))
    = Some (ev1\<lparr>re_row_before_values := re_row_before_values ev1 @ map (\<lambda>(b, a). row_values (snd b)) rows,
               re_row_after_values := re_row_after_values ev1
                 @ map (\<lambda>(b, a). row_values (snd b) @ row_values (snd a)) rows\<rparr>,
            length (pre @ rb @ rb') + length (update_bytes rows))"
    using Cons.prems a(1) b(1) s(3)
    by (intro Cons.IH) (simp_all add: ev1_def r f update_rows_encode_def update_bytes_def)
  moreover have "dlen < re_rows_data_len ev - 4" using b(2) Cons.prems(6) by (cases rb) (simp_all add: r update_bytes_def)
  ultimately show ?case using Cons.prems(2,3,6,7,8)
    by (simp add: f p q ev1_def r u32_id update_bytes_def add.assoc)
qed

lemma length_rows_le: "rows_encode addr td cols n rows \<Longrightarrow> length rows \<le> length (concat (map fst rows))"
proof (induction rows)
  case (Cons r rows)
  obtain rb cs where "r = (rb, cs)" by (cases r)
  then show ?case using Cons rows_encode_Cons (1,2) [of addr td cols n rb cs rows] by (cases rb) simp_all
qed simp

lemma write_rows_decode:
  assumes "createTableDef tm = Some td" "rows_encode addr td (re_cols ev) n rows" "re_column_count ev = int n"
    "re_type_code ev \<noteq> UPDATE_ROWS_EVENT"
    "re_rows_data ev = length pre" "re_rows_data_len ev = int (length (concat (map fst rows))) + 4"
    "re_rows_data_len ev < 2 ^ 32" "length crc = 4"
  shows "rows_parseEvent addr (pre @ concat (map fst rows) @ crc) (Some tm) ev = Some (EVENT_SUCCESS,
     ev\<lparr>re_row_before_values := re_row_before_values ev @ map (row_values \<circ> snd) rows, re_crc32 := crc,
        re_cols := bitmap_free (re_cols ev), re_cols_ai := bitmap_free (re_cols_ai ev)\<rparr>)"
proof -
  have "rows_loop (Suc (nat (re_rows_data_len ev))) addr (pre @ concat (map fst rows) @ crc) td ev (length pre) 0
    = Some (ev\<lparr>re_row_before_values := re_row_before_values ev @ map (row_values \<circ> snd) rows\<rparr>,
            length pre + length (concat (map fst rows)))"
    using assms length_rows_le [OF assms(2)] by (intro rows_loop_decodes) auto
  moreover have "bytes_at (pre @ concat (map fst rows) @ crc) (length pre + length (concat (map fst rows))) 4 = Some crc"
    using assms(8) by (simp add: bytes_at_def)
  ultimately show ?thesis using assms(1,5) by (simp add: rows_parseEvent_def)
qed

lemma update_rows_decode:
  assumes "createTableDef tm = Some td" "update_rows_encode addr td (re_cols ev) n rows" "re_column_count ev = int n"
    "re_type_code ev = UPDATE_ROWS_EVENT"
    "re_rows_data ev = length pre" "re_rows_data_len ev = int (length (update_bytes rows)) + 4"
    "re_rows_data_len ev < 2 ^ 32" "length crc = 4"
  shows "\<exists>ev'. rows_parseEvent addr (pre @ update_bytes rows @ crc) (Some tm) ev = Some (EVENT_SUCCESS, ev')
     \<and> re_row_before_values ev' = re_row_before_values ev @ map (\<lambda>(b, a). row_values (snd b)) rows
     \<and> re_row_after_values ev' = re_row_after_values ev
          @ map (\<lambda>(b, a). row_values (snd b) @ row_values (snd a)) rows"
proof -
  have "length rows \<le> length (update_bytes rows)"
  proof -
    have "length (concat (map fst (map fst rows))) \<le> length (update_bytes rows)"
      by (induction rows) (auto simp: update_bytes_def)
    then show ?thesis using length_rows_le [of addr td "re_cols ev" n "map fst rows"] assms(2) by (simp add: update_rows_encode_def)
  qed
  then have "rows_loop (Suc (nat (re_rows_data_len ev))) addr (pre @ update_bytes rows @ crc) td ev (length pre) 0
    = Some (ev\<lparr>re_row_before_values := re_row_before_values ev @ map (\<lambda>(b, a). row_values (snd b)) rows,
               re_row_after_values := re_row_after_values ev
                 @ map (\<lambda>(b, a). row_values (snd b) @ row_values (snd a)) rows\<rparr>,
            length pre + length (update_bytes rows))"
    using assms by (intro update_rows_loop_decodes) auto
  moreover have "bytes_at (pre @ update_bytes rows @ crc) (length pre + length (update_bytes rows)) 4 = Some crc"
    using assms(8) by (simp add: bytes_at_def)
  ultimately show ?thesis using assms(1,5) by (simp add: rows_parseEvent_def)
qed

section \<open>Columns\<close>

lemma parse_set:
  assumes "t \<noteq> MYSQL_TYPE_STRING"
    and "\<And>pre post. parse_column addr (pre @ bs @ post) (length pre) t m 0 (row_value_init t) = Some (rv, int (length bs))"
    and "rv_type rv \<noteq> VALUE_TYPE_UNSET" "row_value_copy rv = Some rv"
  shows "column_encodes addr t m bs rv"
  using assms by (simp add: column_encodes_def parseOneRowData_def real_type_def)

definition long_value :: "int \<Rightarrow> int \<Rightarrow> row_value" where
  "long_value t x = row_set_value_long (row_value_init t) x"

definition char_value :: "int \<Rightarrow> buffer \<Rightarrow> row_value" where
  "char_value t bs = fst (row_set_value_char (row_value_init t) (Some bs))"

definition time_value :: "int \<Rightarrow> row_value_time \<Rightarrow> row_value" where
  "time_value t tv = row_set_value_time (row_value_init t) tv"

lemma long_value_ok [simp]: "rv_type (long_value t x) \<noteq> VALUE_TYPE_UNSET" "row_value_copy (long_value t x) = Some (long_value t x)"
  by (simp_all add: long_value_def row_set_value_long_def row_value_copy_def)

lemma time_value_ok [simp]: "rv_type (time_value t x) \<noteq> VALUE_TYPE_UNSET" "row_value_copy (time_value t x) = Some (time_value t x)"
  by (simp_all add: time_value_def row_set_value_time_def row_value_copy_def)

lemma char_value_ok [simp]: "rv_type (char_value t bs) \<noteq> VALUE_TYPE_UNSET"
  "0 \<notin> set bs \<Longrightarrow> row_value_copy (char_value t bs) = Some (char_value t bs)"
  by (simp_all add: char_value_def row_set_value_char_def row_value_copy_def)

lemma column_int:
  "- (2 ^ 15) \<le> x \<Longrightarrow> x < 2 ^ 15 \<Longrightarrow>
     column_encodes addr MYSQL_TYPE_SHORT m (int2store x) (long_value MYSQL_TYPE_SHORT x)"
  "- (2 ^ 23) \<le> x \<Longrightarrow> x < 2 ^ 23 \<Longrightarrow>
     column_encodes addr MYSQL_TYPE_INT24 m (int3store x) (long_value MYSQL_TYPE_INT24 x)"
  "- (2 ^ 31) \<le> x \<Longrightarrow> x < 2 ^ 31 \<Longrightarrow>
     column_encodes addr MYSQL_TYPE_LONG m (int4store x) (long_value MYSQL_TYPE_LONG x)"
  "- (2 ^ 63) \<le> x \<Longrightarrow> x < 2 ^ 63 \<Longrightarrow>
     column_encodes addr MYSQL_TYPE_LONGLONG m (int8store x) (long_value MYSQL_TYPE_LONGLONG x)"
  by (intro parse_set; simp add: mysql_types parse_column_defs store_read_simps sext_id long_value_def [symmetric])+

lemma column_varchar:
  assumes "0 \<notin> set bs" "int (length bs) < (if m < 256 then 256 else 65536)"
  shows "column_encodes addr MYSQL_TYPE_VARCHAR m
     ((if m < 256 then [uchar_of (int (length bs))] else le_bytes 2 (int (length bs))) @ bs)
     (char_value MYSQL_TYPE_VARCHAR bs)"
proof (rule parse_set)
  fix pre post :: buffer
  show "parse_column addr (pre @ ((if m < 256 then [uchar_of (int (length bs))] else le_bytes 2 (int (length bs))) @ bs) @ post)
      (length pre) MYSQL_TYPE_VARCHAR m 0 (row_value_init MYSQL_TYPE_VARCHAR)
    = Some (char_value MYSQL_TYPE_VARCHAR bs,
        int (length ((if m < 256 then [uchar_of (int (length bs))] else le_bytes 2 (int (length bs))) @ bs)))"
  proof (cases "m < 256")
    case True
    have "bytes_at (uchar_of (int (length bs)) # bs @ post) (Suc 0) (length bs) = Some bs"
      by (simp add: bytes_at_def)
    then show ?thesis using assms True
      by (simp add: parse_column_defs mysql_types parseRowDataToString_def byte_at_in char_value_def)
  next
    case False
    have "bytes_at (le_bytes 2 (int (length bs)) @ bs @ post) 2 (length bs) = Some bs"
      by (simp add: bytes_at_def)
    then show ?thesis using assms False
      by (simp add: parse_column_defs mysql_types parseRowDataToString_def char_value_def ukorr_le_val le.korr_store)
  qed
qed (use assms in \<open>simp_all add: mysql_types\<close>)

lemma length_datetime_binary: "dec \<le> 6 \<Longrightarrow> int (length (my_datetime_packed_to_binary nr dec)) = my_datetime_binary_length (int dec)"
  by (cases dec rule: dec_cases) (auto simp: my_datetime_packed_to_binary_def my_datetime_binary_length_def mi_store_be_bytes Let_def)

lemma length_time_binary: "dec \<le> 6 \<Longrightarrow> int (length (my_time_packed_to_binary nr dec)) = my_time_binary_length (int dec)"
  by (cases dec rule: dec_cases) (auto simp: my_time_packed_to_binary_def my_time_binary_length_def mi_store_be_bytes Let_def)

text \<open>A DATETIME(dec) column holds the packed value; the row value keeps its fields down to the second.\<close>

definition time_of :: "mysql_time \<Rightarrow> row_value_time" where
  "time_of t = time_init (year t) (month t) (day t) (hour t) (minute t) (second t) 0"

lemma packed_frac:
  assumes "datetime_wf t"
  shows "MY_PACKED_TIME_GET_FRAC_PART (TIME_to_longlong_datetime_packed t) = second_part t"
    "0 \<le> TIME_to_longlong_datetime_packed t" "TIME_to_longlong_datetime_packed t < 2 ^ 63"
proof -
  note b = datetime_wf_bounds [OF assms] and r = dt_ranges [OF assms]
  define i where "i = dt_ymd t * 131072 + dt_hms t"
  have i: "0 \<le> i" "i < 549755813888" using r by (simp_all add: i_def)
  have v: "TIME_to_longlong_datetime_packed t = i * 16777216 + second_part t"
    by (simp add: datetime_packed_value [OF assms] i_def)
  show "MY_PACKED_TIME_GET_FRAC_PART (TIME_to_longlong_datetime_packed t) = second_part t"
    unfolding v using i b by (simp add: packed_parts)
  show "0 \<le> TIME_to_longlong_datetime_packed t" "TIME_to_longlong_datetime_packed t < 2 ^ 63"
    unfolding v using i b by simp_all
qed

lemma column_datetime2:
  assumes "datetime_wf t" "dec \<le> 6" "10 ^ (6 - dec) dvd second_part t"
  shows "column_encodes addr MYSQL_TYPE_DATETIME2 (int dec)
     (my_datetime_packed_to_binary (TIME_to_longlong_datetime_packed t) dec)
     (time_value MYSQL_TYPE_DATETIME2 (time_of t))"
proof (rule parse_set)
  fix pre post :: buffer
  have "frac_rounded (MY_PACKED_TIME_GET_FRAC_PART (TIME_to_longlong_datetime_packed t)) dec"
    using assms datetime_wf_bounds [OF assms(1)] by (simp add: packed_frac frac_rounded_def)
  then have "my_datetime_packed_from_binary (pre @ my_datetime_packed_to_binary (TIME_to_longlong_datetime_packed t) dec @ post)
      (length pre) dec = Some (TIME_to_longlong_datetime_packed t)"
    using assms packed_frac by (intro datetime_read_back) simp_all
  then show "parse_column addr (pre @ my_datetime_packed_to_binary (TIME_to_longlong_datetime_packed t) dec @ post)
      (length pre) MYSQL_TYPE_DATETIME2 (int dec) 0 (row_value_init MYSQL_TYPE_DATETIME2)
    = Some (time_value MYSQL_TYPE_DATETIME2 (time_of t),
        int (length (my_datetime_packed_to_binary (TIME_to_longlong_datetime_packed t) dec)))"
    using assms length_datetime_binary
    by (simp add: parse_column_defs mysql_types datetime_unpack_pack time_value_def time_of_def)
qed (simp_all add: mysql_types)

text \<open>The size table and the decoder. The types whose values the decoder walks over as the table says.\<close>

definition sized_types :: "int set" where
  "sized_types = {MYSQL_TYPE_TINY, MYSQL_TYPE_SHORT, MYSQL_TYPE_INT24, MYSQL_TYPE_LONG, MYSQL_TYPE_LONGLONG,
     MYSQL_TYPE_NEWDECIMAL, MYSQL_TYPE_BIT, MYSQL_TYPE_TIMESTAMP, MYSQL_TYPE_TIMESTAMP2, MYSQL_TYPE_DATETIME,
     MYSQL_TYPE_DATETIME2, MYSQL_TYPE_TIME, MYSQL_TYPE_TIME2, MYSQL_TYPE_NEWDATE, MYSQL_TYPE_YEAR,
     MYSQL_TYPE_BLOB, MYSQL_TYPE_VARCHAR}"

lemma le_prefix_korr:
  "le_prefix s p 1 = map_option uint (byte_at s p)"
  "le_prefix s p 2 = uint2korr s p" "le_prefix s p 3 = uint3korr s p" "le_prefix s p 4 = uint4korr s p"
proof -
  have "take 1 (drop p s) = [s ! p]" if "p < length s" using that by (simp add: take_Suc_conv_app_nth Cons_nth_drop_Suc [symmetric])
  then show "le_prefix s p 1 = map_option uint (byte_at s p)"
    by (auto simp: le_prefix_def bytes_at_def byte_at_def)
qed (simp_all add: le_prefix_def ukorr_le_val korr_def)

lemma ukorr_bounds:
  "uint2korr s p = Some x \<Longrightarrow> 0 \<le> x \<and> x < 65536" "uint3korr s p = Some x \<Longrightarrow> 0 \<le> x \<and> x < 16777216"
  "uint4korr s p = Some x \<Longrightarrow> 0 \<le> x \<and> x < 4294967296"
proof -
  have *: "korr le_val n s p = Some x \<Longrightarrow> 0 \<le> x \<and> x < 256 ^ n" for n
  proof -
    assume "korr le_val n s p = Some x"
    then obtain bs where "bytes_at s p n = Some bs" "x = le_val bs" by (auto simp: korr_def)
    then show ?thesis using le_val_bounds [of bs] bytes_at_length by metis
  qed
  show "uint2korr s p = Some x \<Longrightarrow> 0 \<le> x \<and> x < 65536" "uint3korr s p = Some x \<Longrightarrow> 0 \<le> x \<and> x < 16777216"
    "uint4korr s p = Some x \<Longrightarrow> 0 \<le> x \<and> x < 4294967296"
    using * [of 2] * [of 3] * [of 4] by (simp_all add: ukorr_le_val)
qed

lemma u32_byte_succ [simp]: "u32 (uint (b :: uchar) + 1) = uint b + 1"
  using uint_uchar_bounds [of b] by (intro u32_id) linarith+

lemma u32_succ_byte [simp]: "u32 (1 + uint (b :: uchar)) = uint b + 1"
  using u32_byte_succ [of b] by (simp add: add.commute)

lemma u32_uint2korr [simp]: "uint2korr s p = Some a \<Longrightarrow> u32 (2 + a) = a + 2"
  using ukorr_bounds(1) [of s p a] by (simp add: u32_id)

lemma and_ff: "and (m::int) 0xFF = m mod 256"
  using and_low(3) [of m] by simp

lemma decimal_size_agrees:
  assumes "decimal_text s p (shr m 8) (and m 0xFF) = Some (txt, n)" "0 \<le> m" "m < 65536"
  shows "calc_field_size MYSQL_TYPE_NEWDECIMAL s p m = Some n"
proof -
  have "0 \<le> m div 256" "m div 256 < 256" using assms(2,3) by simp_all
  then have "s32 (shr m 8) = shr m 8" "s32 (and m 0xFF) = and m 0xFF" by (simp_all add: s32_id shr_div and_ff)
  moreover have "decimal_binary_size = decimal_bin_size"
    by (intro ext) (simp add: decimal_binary_size_def decimal_bin_size_def DIG_PER_DEC1_def dig2bytes_def Let_def)
  ultimately show ?thesis using assms(1)
    by (auto simp: decimal_text_def my_decimal_get_binary_size_def calc_field_size_def split: bind_splits)
qed

lemma bit_size:
  fixes m :: int
  assumes "0 \<le> m" "m < 65536" "m mod 256 \<le> 7"
  shows "u32 (u32 (m div 256 * 8 + m mod 256) + 7) div 8 = m div 256 mod 256 + (if m mod 256 > 0 then 1 else 0)"
proof -
  define a b where "a = m div 256" and "b = m mod 256"
  have ab: "0 \<le> a" "a < 256" "0 \<le> b" "b \<le> 7" using assms by (simp_all add: a_def b_def)
  have "(a * 8 + (b + 7)) div 8 = a + (b + 7) div 8" by simp
  also have "(b + 7) div 8 = (if b > 0 then 1 else 0)" using ab by auto
  finally show ?thesis using ab unfolding a_def [symmetric] b_def [symmetric]
    by (simp add: u32_id add.assoc)
qed

lemma decoder_size:
  assumes "parse_column addr s p t m slen rv = Some (rv', n)" "t \<in> sized_types" "0 \<le> m" "m < 65536"
    "t = MYSQL_TYPE_BIT \<Longrightarrow> m mod 256 \<le> 7" "t = MYSQL_TYPE_BLOB \<Longrightarrow> 1 \<le> m \<and> m \<le> 4"
  shows "calc_field_size t s p m = Some n"
proof -
  consider "t = MYSQL_TYPE_NEWDECIMAL" | "t = MYSQL_TYPE_BIT" | "t = MYSQL_TYPE_BLOB" | "t = MYSQL_TYPE_VARCHAR"
    | "t \<in> sized_types - {MYSQL_TYPE_NEWDECIMAL, MYSQL_TYPE_BIT, MYSQL_TYPE_BLOB, MYSQL_TYPE_VARCHAR}"
    using assms(2) by blast
  then show ?thesis
  proof cases
    case 1
    then show ?thesis using assms(1,3,4) decimal_size_agrees
      by (auto simp: parse_column_defs mysql_types split: bind_splits)
  next
    case 2
    then show ?thesis using assms bit_size [of m]
      by (auto simp: parse_column_defs calc_field_size_def mysql_types Let_def shr_div and_ff)
  next
    case 3
    then have "m = 1 \<or> m = 2 \<or> m = 3 \<or> m = 4" using assms(6) by auto
    then show ?thesis using assms(1) 3
      by (elim disjE)
        (auto simp: parse_column_defs calc_field_size_def mysql_types le_prefix_korr le_prefix_korr(1) [unfolded One_nat_def] u32_id dest: ukorr_bounds split: bind_splits)
  next
    case 4
    then show ?thesis using assms(1)
      by (auto simp: parse_column_defs calc_field_size_def mysql_types le_prefix_korr le_prefix_korr(1) [unfolded One_nat_def] parseRowDataToString_def
          u32_id dest: ukorr_bounds split: bind_splits if_splits)
  next
    case 5
    then consider "t = MYSQL_TYPE_TINY" | "t = MYSQL_TYPE_SHORT" | "t = MYSQL_TYPE_INT24" | "t = MYSQL_TYPE_LONG"
      | "t = MYSQL_TYPE_LONGLONG" | "t = MYSQL_TYPE_TIMESTAMP" | "t = MYSQL_TYPE_TIMESTAMP2"
      | "t = MYSQL_TYPE_DATETIME" | "t = MYSQL_TYPE_DATETIME2" | "t = MYSQL_TYPE_TIME" | "t = MYSQL_TYPE_TIME2"
      | "t = MYSQL_TYPE_NEWDATE" | "t = MYSQL_TYPE_YEAR"
      unfolding sized_types_def by blast
    then show ?thesis using assms(1)
      by cases (simp_all add: parse_column_defs calc_field_size_def mysql_types Let_def split: bind_splits)
  qed
qed

section \<open>Table map events\<close>

text \<open>A table map event as a server writes it, and the description that announces its header length.\<close>

definition put_table_map ::
  "int \<Rightarrow> int \<Rightarrow> int \<Rightarrow> int \<Rightarrow> int \<Rightarrow> buffer \<Rightarrow> buffer \<Rightarrow> buffer \<Rightarrow> buffer \<Rightarrow> buffer \<Rightarrow> buffer \<Rightarrow> buffer" where
  "put_table_map ts sid nx tid fl db tbl types meta nulls crc =
     (let body = le_bytes 6 tid @ le_bytes 2 fl @ [uchar_of (int (length db))] @ db @ [0]
            @ [uchar_of (int (length tbl))] @ tbl @ [0] @ put_length (int (length types)) @ types
            @ put_length (int (length meta)) @ meta @ nulls @ crc
      in put_header ts TABLE_MAP_EVENT sid (19 + int (length body)) nx 0 @ body)"

lemma bytes_at_pre:
  "bytes_at (bs @ post) 0 (length bs) = Some bs" "length pre \<le> k \<Longrightarrow> bytes_at (pre @ rest) k n = bytes_at rest (k - length pre) n"
  by (auto simp: bytes_at_def)

lemma byte_at_pre:
  "byte_at (b # post) 0 = Some b" "length pre \<le> k \<Longrightarrow> byte_at (pre @ rest) k = byte_at rest (k - length pre)"
  "0 < k \<Longrightarrow> byte_at (b # post) k = byte_at post (k - 1)"
  by (auto simp: byte_at_def nth_append)

lemma bytes_at_Cons: "0 < k \<Longrightarrow> bytes_at (b # post) k n = bytes_at post (k - 1) n"
  by (cases k) (auto simp: bytes_at_def)

lemma get_field_length_pre:
  "length pre \<le> k \<Longrightarrow> get_field_length (pre @ rest) k = map_option (\<lambda>r. (fst r, length pre + snd r)) (get_field_length rest (k - length pre))"
proof -
  assume "length pre \<le> k"
  then obtain j where k: "k = length pre + j" by (metis le_Suc_ex)
  show ?thesis unfolding k get_field_length_def
    by (cases "byte_at rest j") (auto simp: byte_at_pre le_prefix_def bytes_at_pre option.map_comp o_def add.assoc)
qed

lemma get_field_length_first:
  "0 \<le> n \<Longrightarrow> n < 2 ^ 32 \<Longrightarrow> get_field_length (put_length n @ post) 0 = Some (n, length (put_length n))"
  using get_field_length_put [of n "[]" post] by simp

lemma table_map_decodes:
  assumes g: "post_header_len g TABLE_MAP_EVENT = Some 8" "ev_header_len ev = 19"
    and len: "length db < 256" "length tbl < 256" "length types < 2 ^ 24" "length meta \<le> 2 * length types"
      "length nulls = (length types + 7) div 8" "length crc = 4"
  shows "\<exists>ev'. table_map_loadEvent g (Some (put_table_map ts sid nx tid fl db tbl types meta nulls crc)) ev
       = Some (EVENT_SUCCESS, ev')
    \<and> tm_table_id ev' = tid mod 2 ^ 32 \<and> tm_table_flags ev' = fl mod 2 ^ 16
    \<and> tm_db_name ev' = db \<and> tm_table_name ev' = tbl \<and> tm_column_count ev' = int (length types)
    \<and> tm_column_type ev' = types \<and> tm_field_metadata_size ev' = int (length meta)
    \<and> tm_field_metadata ev' = meta \<and> tm_null_bits ev' = nulls"
proof -
  let ?n = "int (length types)" and ?m = "int (length meta)"
  define tail where "tail = put_length ?n @ types @ put_length ?m @ meta @ nulls @ crc"
  define names where "names = uchar_of (int (length db)) # db @ 0 # uchar_of (int (length tbl)) # tbl @ 0 # tail"
  define s where "s = put_table_map ts sid nx tid fl db tbl types meta nulls crc"
  define sz where "sz = int (length s)"
  have s: "s = put_header ts TABLE_MAP_EVENT sid sz nx 0 @ le_bytes 6 tid @ le_bytes 2 fl @ names"
    by (simp add: s_def sz_def put_table_map_def Let_def names_def tail_def)
  have pl: "length (put_length x) \<le> 9" for x by (simp add: put_length_def)
  have sz: "0 \<le> sz" "sz < 2 ^ 32" using len pl [of ?n] pl [of ?m]
    by (simp_all add: sz_def s_def put_table_map_def Let_def)
  have hdr: "parseHeader (Some s) ev = Some (EVENT_SUCCESS, ev\<lparr>ev_timestamp := ts mod 2 ^ 32, ev_type := TABLE_MAP_EVENT,
      ev_server_id := sid mod 2 ^ 32, ev_size := sz, ev_next_pos := nx mod 2 ^ 32, ev_flags := 0\<rparr>)"
    unfolding s parseHeader_put using sz by (simp add: TABLE_MAP_EVENT_def)
  have id: "bytes_at s 19 6 = Some (le_bytes 6 tid)" "le_prefix s 25 2 = Some (fl mod 65536)"
    unfolding s by (simp_all add: bytes_at_pre le_prefix_def le_val_le_bytes bytes_at_pre(1) [of "le_bytes 6 tid", simplified]
        bytes_at_pre(1) [of "le_bytes 2 fl", simplified])
  have skip: "byte_at s (27 + k) = byte_at names k" "bytes_at s (27 + k) j = bytes_at names k j"
    "get_field_length s (27 + k) = map_option (\<lambda>r. (fst r, 27 + snd r)) (get_field_length names k)" for k j
    unfolding s by (simp_all add: byte_at_pre bytes_at_pre get_field_length_pre option.map_comp o_def)
  have tid: "le_val (take 4 (le_bytes 6 tid)) = tid mod 2 ^ 32"
    using le_bytes_add [of 4 2 tid] by (simp add: le_val_le_bytes)
  have nm: "byte_at names 0 = Some (uchar_of (int (length db)))" "bytes_at names 1 (length db) = Some db"
    "byte_at names (length db + 2) = Some (uchar_of (int (length tbl)))"
    "bytes_at names (length db + 3) (length tbl) = Some tbl"
    by (simp_all add: names_def byte_at_pre bytes_at_Cons bytes_at_pre)
  have tl: "get_field_length tail 0 = Some (?n, length (put_length ?n))"
    "bytes_at tail (length (put_length ?n)) (length types) = Some types"
    "get_field_length tail (length (put_length ?n) + length types)
       = Some (?m, length (put_length ?n) + length types + length (put_length ?m))"
    "bytes_at tail (length (put_length ?n) + length types + length (put_length ?m)) (length meta) = Some meta"
    "bytes_at tail (length (put_length ?n) + length types + length (put_length ?m) + length meta) (length nulls) = Some nulls"
    using len by (simp_all add: tail_def bytes_at_pre get_field_length_pre get_field_length_first)
  have to_tail: "bytes_at names (length db + length tbl + 4 + k) j = bytes_at tail k j"
    "get_field_length names (length db + length tbl + 4 + k)
      = map_option (\<lambda>r. (fst r, length db + length tbl + 4 + snd r)) (get_field_length tail k)" for k j
  proof -
    have n: "names = (uchar_of (int (length db)) # db @ 0 # uchar_of (int (length tbl)) # tbl @ [0]) @ tail"
      by (simp add: names_def)
    show "bytes_at names (length db + length tbl + 4 + k) j = bytes_at tail k j"
      unfolding n by (subst bytes_at_pre) simp_all
    show "get_field_length names (length db + length tbl + 4 + k)
      = map_option (\<lambda>r. (fst r, length db + length tbl + 4 + snd r)) (get_field_length tail k)"
      unfolding n by (subst get_field_length_pre) (simp_all, cases "get_field_length tail k", simp_all)
  qed
  define q where "q = 27 + length db + length tbl + 4"
  have in_tail: "bytes_at s (q + k) j = bytes_at tail k j"
    "get_field_length s (q + k) = map_option (\<lambda>r. (fst r, q + snd r)) (get_field_length tail k)" for k j
    using skip(2,3) [of "length db + length tbl + 4 + k"] to_tail [of k]
    by (simp_all add: q_def add.assoc option.map_comp o_def)
  have f: "byte_at s 27 = Some (uchar_of (int (length db)))" "bytes_at s 28 (length db) = Some db"
    "byte_at s (27 + length db + 2) = Some (uchar_of (int (length tbl)))"
    "bytes_at s (27 + length db + 3) (length tbl) = Some tbl"
    using skip [of 0] skip [of 1] skip [of "length db + 2"] skip [of "length db + 3"] nm by (simp_all add: add.assoc)
  define q1 where "q1 = q + length (put_length ?n)"
  define q2 where "q2 = q1 + length types + length (put_length ?m)"
  have h: "get_field_length s q = Some (?n, q1)" "bytes_at s q1 (length types) = Some types"
    "get_field_length s (q1 + length types) = Some (?m, q2)" "bytes_at s q2 (length meta) = Some meta"
    "bytes_at s (q2 + length meta) (length nulls) = Some nulls"
    using in_tail(2) [of 0] in_tail(1) [of "length (put_length ?n)"]
      in_tail(2) [of "length (put_length ?n) + length types"]
      in_tail(1) [of "length (put_length ?n) + length types + length (put_length ?m)"]
      in_tail(1) [of "length (put_length ?n) + length types + length (put_length ?m) + length meta"] tl
    by (simp_all add: q1_def q2_def add.assoc)
  have room: "int (q1 + length types) < sz" using pl
    by (simp add: q1_def q_def sz_def s_def put_table_map_def Let_def put_length_def)
  have b: "unat (uchar_of (int (length db))) = length db" "unat (uchar_of (int (length tbl))) = length tbl"
    "31 + (length db + length tbl) = q" "\<not> sz < 27"
    using len room by (simp_all add: q_def q1_def flip: nat_uint_eq)
  have w: "nat (u32 (?n + 7) div 8) = length nulls" "\<not> ?m > u32 (?n * 2)"
    using len by (simp_all add: u32_id nat_div_distrib nat_add_distrib)
  show ?thesis
    using g f h room hdr id tid
    unfolding s_def [symmetric]
    by (simp add: table_map_loadEvent_def TABLE_MAP_HEADER_LEN_def LOG_EVENT_HEADER_LEN_def b w)
qed

section \<open>Properties\<close>

text \<open>A length-encoded integer is read back with exactly the bytes it was written in, at any place of
  an event.\<close>

theorem field_length_roundtrip:
  assumes "0 \<le> n" "n < 2 ^ 32"
  shows "get_field_length (pre @ put_length n @ post) (length pre) = Some (n, length pre + length (put_length n))"
  using assms by (rule get_field_length_put)

theorem field_length_roundtrip_witness:
  "get_field_length ([9] @ put_length 70000 @ [8]) (length [9 :: uchar])
    = Some (70000, length [9 :: uchar] + length (put_length 70000))"
  by (rule field_length_roundtrip) simp_all

text \<open>C19: a table map event written by a server is loaded successfully, without a read outside of it,
  and gives back the table id, the flags, both names, the column types, the metadata and the null bits.\<close>

theorem table_map_roundtrip:
  assumes "post_header_len g TABLE_MAP_EVENT = Some 8" "ev_header_len ev = 19"
    and "length db < 256" "length tbl < 256" "length types < 2 ^ 24" "length meta \<le> 2 * length types"
      "length nulls = (length types + 7) div 8" "length crc = 4"
  shows "\<exists>ev'. table_map_loadEvent g (Some (put_table_map ts sid nx tid fl db tbl types meta nulls crc)) ev
       = Some (EVENT_SUCCESS, ev')
    \<and> tm_table_id ev' = tid mod 2 ^ 32 \<and> tm_table_flags ev' = fl mod 2 ^ 16
    \<and> tm_db_name ev' = db \<and> tm_table_name ev' = tbl \<and> tm_column_count ev' = int (length types)
    \<and> tm_column_type ev' = types \<and> tm_field_metadata_size ev' = int (length meta)
    \<and> tm_field_metadata ev' = meta \<and> tm_null_bits ev' = nulls"
  using assms by (rule table_map_decodes)

text \<open>Fresh events and a description event, for the examples.\<close>

definition sample_description :: header_event where
  "sample_description = \<lparr>ev_timestamp = 0, ev_type = 15, ev_server_id = 1, ev_size = 0, ev_next_pos = 0,
     ev_pos = 4, ev_flags = 0, ev_header_len = 19, he_post_header_len = replicate 18 0 @ [8] @ replicate 19 10,
     he_create_timestamp = 0, he_binlog_version = 4, he_szversion = []\<rparr>"

definition sample_table_map :: table_map_event where
  "sample_table_map = \<lparr>ev_timestamp = 0, ev_type = 19, ev_server_id = 1, ev_size = 0, ev_next_pos = 0,
     ev_pos = 4, ev_flags = 0, ev_header_len = 19, tm_table_id = 70, tm_table_flags = 1, tm_db_length = 1,
     tm_table_length = 1, tm_column_count = 2, tm_field_metadata_size = 2, tm_column_type = [3, 15],
     tm_field_metadata = [50, 0], tm_null_bits = [2], tm_db_name = [100], tm_table_name = [116]\<rparr>"

theorem table_map_roundtrip_witness:
  "\<exists>ev'. table_map_loadEvent sample_description
     (Some (put_table_map 1 2 3 70 1 [100, 98] [116] [3, 15] [50, 0] [2] [0, 0, 0, 0])) sample_table_map
       = Some (EVENT_SUCCESS, ev') \<and> tm_table_id ev' = 70 \<and> tm_column_type ev' = [3, 15]"
proof -
  have "post_header_len sample_description TABLE_MAP_EVENT = Some 8"
    by (simp add: post_header_len_def sample_description_def TABLE_MAP_EVENT_def byte_at_def nth_append)
  moreover have "ev_header_len sample_table_map = 19" by (simp add: sample_table_map_def)
  ultimately show ?thesis
    using table_map_roundtrip [of sample_description sample_table_map "[100, 98]" "[116]" "[3, 15]" "[50, 0]" "[2]"
        "[0, 0, 0, 0]" 1 2 3 70 1] by fastforce
qed

definition sample_cols :: my_bitmap where
  "sample_cols = create_last_word_mask
     \<lparr>bitmap = Some [3, 0, 0, 0], n_bits = 2, last_word_mask = 0, last_word_ptr = 0\<rparr>"

definition sample_rows_event :: "int \<Rightarrow> int \<Rightarrow> rows_event" where
  "sample_rows_event code dlen = \<lparr>ev_timestamp = 0, ev_type = code, ev_server_id = 1, ev_size = 0, ev_next_pos = 0,
     ev_pos = 4, ev_flags = 0, ev_header_len = 19, re_type_code = code, re_table_id = 70, re_table_flags = 1,
     re_column_count = 2, re_extra_row_data = [], re_column_before_image = [3], re_column_after_image = [],
     re_cols = sample_cols, re_cols_ai = sample_cols, re_rows_data = 0, re_rows_data_len = dlen, re_crc32 = [],
     re_row_before_values = [], re_row_after_values = []\<rparr>"

definition sample_row :: "int \<Rightarrow> buffer \<times> cell list" where
  "sample_row x = ([2] @ int4store x,
     [Some (False, int4store x, long_value MYSQL_TYPE_LONG x), Some (True, [], null_value MYSQL_TYPE_VARCHAR 50)])"

definition sample_def :: table_def where
  "sample_def = \<lparr>td_column_size = 2, td_field_metadata_size = 2, td_flags = 1, td_column_type = [3, 15],
     td_null_bits = [2], td_field_metadata = [0, 50]\<rparr>"

lemma sample_createTableDef: "createTableDef sample_table_map = Some sample_def"
  by code_simp

lemma sample_map_wf: "map_wf sample_cols" "n_bits sample_cols = int 2"
  "bitmap_is_set sample_cols 0 = Some True" "bitmap_is_set sample_cols (Suc 0) = Some True"
  by (simp_all add: sample_cols_def map_wf_def create_last_word_mask_def Let_def no_words_in_map_def
      no_bytes_in_map_def bitmap_buffer_size_def u32_id bitmap_is_set_membit membit_def bit_iff_odd_drop_bit)

lemma sample_rows_encode:
  assumes "\<forall>x\<in>set xs. - (2 ^ 31) \<le> x \<and> x < 2 ^ 31"
  shows "rows_encode addr sample_def sample_cols 2 (map sample_row xs)"
proof -
  have t: "td_type sample_def 0 = Some MYSQL_TYPE_LONG" "field_metadata sample_def 0 = Some 0"
    "td_type sample_def (Suc 0) = Some MYSQL_TYPE_VARCHAR" "field_metadata sample_def (Suc 0) = Some 50"
    by (simp_all add: td_type_def field_metadata_def sample_def_def binlog_type_def byte_at_def mysql_types)
  have r: "row_ok addr sample_def 0 (snd (sample_row x))" "encodes_row (fst (sample_row x)) (snd (sample_row x))"
    if "- (2 ^ 31) \<le> x" "x < 2 ^ 31" for x
  proof -
    show "row_ok addr sample_def 0 (snd (sample_row x))"
      using column_int(3) [OF that] t by (simp add: sample_row_def row_ok_Cons cell_ok_def row_ok_def [of _ _ _ "[]"])
    have "bit (2 :: uchar) (Suc 0)" "\<not> bit (2 :: uchar) 0" by (simp_all add: bit_iff_odd_drop_bit)
    then show "encodes_row (fst (sample_row x)) (snd (sample_row x))"
      unfolding encodes_row_def
      by (intro exI [of _ "[2]"]) (auto simp: sample_row_def row_bytes_def less_Suc_eq)
  qed
  then show ?thesis using assms sample_map_wf
    unfolding rows_encode_def by (auto simp: sample_row_def less_2_cases_iff)
qed

text \<open>C6: rows of WRITE and DELETE events. When the row data of an event is the concatenation of
  encoded rows (null bits, then the bytes of the columns that are present and not null) followed by the
  checksum, the loop ends, and the event holds one list of values per row, each with the value of every
  present column, nulls included, in column order.\<close>

theorem write_rows_decoded:
  assumes "createTableDef tm = Some td" "rows_encode addr td (re_cols ev) n rows" "re_column_count ev = int n"
    "re_type_code ev \<noteq> UPDATE_ROWS_EVENT"
    "re_rows_data ev = length pre" "re_rows_data_len ev = int (length (concat (map fst rows))) + 4"
    "re_rows_data_len ev < 2 ^ 32" "length crc = 4"
  shows "rows_parseEvent addr (pre @ concat (map fst rows) @ crc) (Some tm) ev = Some (EVENT_SUCCESS,
     ev\<lparr>re_row_before_values := re_row_before_values ev @ map (row_values \<circ> snd) rows, re_crc32 := crc,
        re_cols := bitmap_free (re_cols ev), re_cols_ai := bitmap_free (re_cols_ai ev)\<rparr>)"
  using assms by (rule write_rows_decode)

theorem write_rows_decoded_witness:
  "\<exists>ev'. rows_parseEvent (\<lambda>_. 0) (fst (sample_row 7) @ fst (sample_row (-8)) @ [1, 2, 3, 4]) (Some sample_table_map)
     (sample_rows_event WRITE_ROWS_EVENT 14) = Some (EVENT_SUCCESS, ev')
   \<and> re_row_before_values ev' = [[long_value MYSQL_TYPE_LONG 7, null_value MYSQL_TYPE_VARCHAR 50],
       [long_value MYSQL_TYPE_LONG (-8), null_value MYSQL_TYPE_VARCHAR 50]]"
  using write_rows_decoded [OF sample_createTableDef, of "\<lambda>_. 0" "sample_rows_event WRITE_ROWS_EVENT 14" 2
      "map sample_row [7, -8]" "[]" "[1, 2, 3, 4]"] sample_rows_encode [of "[7, -8]" "\<lambda>_. 0"]
  by (simp add: sample_rows_event_def event_types sample_row_def row_values_def store_le_bytes)

text \<open>C18: rows of UPDATE events. The loop ends as well, but the list of values that is meant to hold the
  row after the update holds the values of the row before it followed by those after it.\<close>

theorem update_rows_decoded:
  assumes "createTableDef tm = Some td" "update_rows_encode addr td (re_cols ev) n rows" "re_column_count ev = int n"
    "re_type_code ev = UPDATE_ROWS_EVENT"
    "re_rows_data ev = length pre" "re_rows_data_len ev = int (length (update_bytes rows)) + 4"
    "re_rows_data_len ev < 2 ^ 32" "length crc = 4"
  shows "\<exists>ev'. rows_parseEvent addr (pre @ update_bytes rows @ crc) (Some tm) ev = Some (EVENT_SUCCESS, ev')
     \<and> re_row_before_values ev' = re_row_before_values ev @ map (\<lambda>(b, a). row_values (snd b)) rows
     \<and> re_row_after_values ev' = re_row_after_values ev
          @ map (\<lambda>(b, a). row_values (snd b) @ row_values (snd a)) rows"
  using assms by (rule update_rows_decode)

theorem update_rows_decoded_witness:
  "\<exists>ev'. rows_parseEvent (\<lambda>_. 0) (fst (sample_row 7) @ fst (sample_row (-8)) @ [1, 2, 3, 4]) (Some sample_table_map)
     (sample_rows_event UPDATE_ROWS_EVENT 14) = Some (EVENT_SUCCESS, ev')
   \<and> re_row_after_values ev' = [[long_value MYSQL_TYPE_LONG 7, null_value MYSQL_TYPE_VARCHAR 50,
       long_value MYSQL_TYPE_LONG (-8), null_value MYSQL_TYPE_VARCHAR 50]]"
proof -
  have "update_rows_encode (\<lambda>_. 0) sample_def sample_cols 2 [(sample_row 7, sample_row (-8))]"
    using sample_rows_encode [of "[7]" "\<lambda>_. 0"] sample_rows_encode [of "[-8]" "\<lambda>_. 0"] by (simp add: update_rows_encode_def)
  then show ?thesis
    using update_rows_decoded [OF sample_createTableDef, of "\<lambda>_. 0" "sample_rows_event UPDATE_ROWS_EVENT 14" 2
      "[(sample_row 7, sample_row (-8))]" "[]" "[1, 2, 3, 4]"]
    by (simp add: sample_rows_event_def event_types sample_row_def row_values_def update_bytes_def store_le_bytes)
      fastforce
qed



text \<open>A TINYINT column is decoded from the address of its byte and not from the byte: two events with
  different contents give the same value.\<close>

theorem tinyint_ignores_data:
  "parseOneRowData addr s vs (Some p) MYSQL_TYPE_TINY m
     = Some (vs @ [long_value MYSQL_TYPE_TINY (s32 (addr p))], 1)"
  by (simp add: parseOneRowData_def real_type_def parse_column_defs mysql_types row_set_value_long_def
      row_value_copy_def long_value_def)

text \<open>Columns of type BIT, TIMESTAMP, DATE, SET, BLOB and CHAR are walked over, but no value is added
  to the row for them, so the values behind them are no longer at the index of their column.\<close>

theorem unsupported_columns_dropped:
  assumes "parseOneRowData addr s vs (Some p) t m = Some (vs', n)"
    "fst (real_type t m) \<in> {MYSQL_TYPE_BIT, MYSQL_TYPE_TIMESTAMP, MYSQL_TYPE_TIMESTAMP2, MYSQL_TYPE_NEWDATE,
       MYSQL_TYPE_SET, MYSQL_TYPE_BLOB, MYSQL_TYPE_STRING}"
  shows "vs' = vs"
proof -
  obtain t' l where r: "real_type t m = (t', l)" by (cases "real_type t m")
  have keep: "rv = row_value_init t'" if "parse_column addr s p t' m l (row_value_init t') = Some (rv, k)" for rv k
  proof -
    consider "t' = MYSQL_TYPE_BIT" | "t' = MYSQL_TYPE_TIMESTAMP" | "t' = MYSQL_TYPE_TIMESTAMP2" | "t' = MYSQL_TYPE_NEWDATE"
      | "t' = MYSQL_TYPE_SET" | "t' = MYSQL_TYPE_BLOB" | "t' = MYSQL_TYPE_STRING"
      using assms(2) r by auto
    then show ?thesis using that
      by cases (auto simp: parse_column_defs mysql_types Let_def split: bind_splits if_splits)
  qed
  obtain rv k where "parse_column addr s p t' m l (row_value_init t') = Some (rv, k)"
    using assms(1) r by (auto simp: parseOneRowData_def split: bind_splits)
  with keep [OF this] show ?thesis using assms(1) r
    by (simp add: parseOneRowData_def row_value_init_def)
qed

theorem unsupported_columns_dropped_witness:
  "\<exists>vs. parseOneRowData (\<lambda>_. 0) [2, 104, 105] [] (Some 0) MYSQL_TYPE_STRING 65034 = Some (vs, 3) \<and> vs = []"
proof -
  have rt: "real_type MYSQL_TYPE_STRING 65034 = (MYSQL_TYPE_STRING, 10)"
    by (simp add: real_type_def mysql_types)
  have "parse_column (\<lambda>_. 0) [2, 104, 105] 0 MYSQL_TYPE_STRING 65034 10 rv = Some (rv, 3)" for rv
    by (simp add: parse_column_defs parseRowDataToString_def mysql_types byte_at_def bytes_at_def)
  then obtain vs where p: "parseOneRowData (\<lambda>_. 0) [2, 104, 105] [] (Some 0) MYSQL_TYPE_STRING 65034 = Some (vs, 3)"
    by (simp add: parseOneRowData_def rt row_value_init_def)
  from unsupported_columns_dropped [OF p] show ?thesis using p by (simp add: rt)
qed

end
