(* ===== verification/Filecache.thy ===== *)
theory Filecache
  imports DS_Prelude "HOL-Library.Monad_Syntax"
begin

text \<open>
  The buffered file of the binlog parser, \<open>binlog/src/FileCache.cpp\<close>, over the part of C's stdio it
  calls. A stream is the content of the file when it was opened, a position and the end-of-file flag;
  \<open>long\<close> has 32 bits, as on the platform the repository builds for, and allocation succeeds.

  \<open>fread\<close> of one object of \<open>n\<close> bytes gives one object or none: none when the file is too short,
  and none when \<open>n\<close> is zero, as the C standard says. Seeking past the end is allowed, before the
  beginning it fails; a successful seek clears the end-of-file flag.
\<close>

section \<open>Streams\<close>

record stream =
  st_data :: buffer
  st_pos :: nat
  st_eof :: bool

definition SEEK_SET :: int where "SEEK_SET = 0"
definition SEEK_CUR :: int where "SEEK_CUR = 1"
definition SEEK_END :: int where "SEEK_END = 2"

lemmas seek_defs = SEEK_SET_def SEEK_CUR_def SEEK_END_def

definition c_fopen :: "buffer \<Rightarrow> stream" where
  "c_fopen d = \<lparr>st_data = d, st_pos = 0, st_eof = False\<rparr>"

definition c_fseek :: "stream \<Rightarrow> int \<Rightarrow> int \<Rightarrow> int \<times> stream" where
  "c_fseek f offset whence =
     (let base = (if whence = SEEK_SET then 0 else if whence = SEEK_CUR then int (st_pos f) else int (length (st_data f)));
          target = base + offset
      in if target < 0 then (-1, f) else (0, f\<lparr>st_pos := nat target, st_eof := False\<rparr>))"

definition c_ftell :: "stream \<Rightarrow> int" where
  "c_ftell f = s32 (int (st_pos f))"

text \<open>\<open>fread(buf, n, 1, f)\<close>: the bytes stored, the number of objects read and the stream after it.\<close>

definition c_fread :: "stream \<Rightarrow> nat \<Rightarrow> buffer \<times> int \<times> stream" where
  "c_fread f n =
     (if n = 0 then ([], 0, f)
      else if st_pos f + n \<le> length (st_data f)
      then (take n (drop (st_pos f) (st_data f)), 1, f\<lparr>st_pos := st_pos f + n\<rparr>)
      else (drop (st_pos f) (st_data f), 0, f\<lparr>st_pos := max (st_pos f) (length (st_data f)), st_eof := True\<rparr>))"

section \<open>The cache\<close>

record file_cache =
  fc_fp :: "stream option"
  fc_offset :: int
  fc_where :: int
  fc_cache :: "buffer option"
  fc_file_size :: int

definition enableFp :: "file_cache \<Rightarrow> bool" where
  "enableFp c = (case fc_fp c of None \<Rightarrow> False | Some _ \<Rightarrow> True)"

text \<open>\<open>fs\<close> is the file system: the content of the file at a path, if it can be opened.\<close>

definition fc_init :: "(string \<Rightarrow> buffer option) \<Rightarrow> string option \<Rightarrow> file_cache \<Rightarrow> bool \<times> file_cache" where
  "fc_init fs filePath c =
     (case filePath of None \<Rightarrow> (False, c)
      | Some path \<Rightarrow>
          (case fs path of None \<Rightarrow> (False, c\<lparr>fc_fp := None\<rparr>)
           | Some d \<Rightarrow>
               (let f = snd (c_fseek (c_fopen d) 0 SEEK_END);
                    size = u64 (c_ftell f)
                in (True, c\<lparr>fc_fp := Some (snd (c_fseek f 0 SEEK_SET)), fc_file_size := size\<rparr>))))"

definition myFree :: "file_cache \<Rightarrow> file_cache" where
  "myFree c = (case fc_cache c of None \<Rightarrow> c | Some _ \<Rightarrow> c\<lparr>fc_cache := None\<rparr>)"

definition fileTell :: "file_cache \<Rightarrow> int option" where
  "fileTell c = map_option c_ftell (fc_fp c)"

definition fileEof :: "file_cache \<Rightarrow> bool option" where
  "fileEof c = do {
     f \<leftarrow> fc_fp c;
     Some (u64 (c_ftell f) \<ge> fc_file_size c \<or> st_eof f) }"

definition fileSeek :: "file_cache \<Rightarrow> int \<Rightarrow> int \<Rightarrow> (int \<times> file_cache) option" where
  "fileSeek c loffset iwhere = do {
     f \<leftarrow> fc_fp c;
     let (r, f') = c_fseek f loffset iwhere in Some (r, c\<lparr>fc_fp := Some f'\<rparr>) }"

definition getFileSize :: "file_cache \<Rightarrow> int" where
  "getFileSize c = u32 (fc_file_size c)"

text \<open>The optional seek both readers begin with: the cache, and the stream to read from.\<close>

definition cache_seek :: "file_cache \<Rightarrow> int \<Rightarrow> int \<Rightarrow> bool \<Rightarrow> file_cache \<times> stream option" where
  "cache_seek c loffset iwhere bfseek =
     (case fc_fp c of None \<Rightarrow> (c, None)
      | Some f \<Rightarrow>
          (let c1 = c\<lparr>fc_offset := loffset, fc_where := iwhere\<rparr> in
           if bfseek then
             (let (r, f') = c_fseek f loffset iwhere in (c1\<lparr>fc_fp := Some f'\<rparr>, if r \<noteq> 0 then None else Some f'))
           else (c1, Some f)))"

text \<open>The reader into the object's own buffer: the buffer, or \<open>None\<close> for the null pointer.\<close>

definition readCache :: "file_cache \<Rightarrow> nat \<Rightarrow> int \<Rightarrow> int \<Rightarrow> bool \<Rightarrow> buffer option \<times> file_cache" where
  "readCache c readsize loffset iwhere bfseek =
     (case cache_seek c loffset iwhere bfseek of
        (c1, None) \<Rightarrow> (None, c1)
      | (c1, Some f) \<Rightarrow>
          (let c2 = myFree c1; (bs, n, f') = c_fread f readsize in
           if n \<noteq> 1 then (None, (myFree c2)\<lparr>fc_fp := Some f'\<rparr>)
           else (Some bs, c2\<lparr>fc_fp := Some f', fc_cache := Some bs\<rparr>)))"

text \<open>The reader into a buffer of the caller: the bytes stored there and whether all were read.\<close>

definition readCache_buf :: "file_cache \<Rightarrow> nat \<Rightarrow> int \<Rightarrow> int \<Rightarrow> bool \<Rightarrow> bool \<times> buffer \<times> file_cache" where
  "readCache_buf c readsize loffset iwhere bfseek =
     (case cache_seek c loffset iwhere bfseek of
        (c1, None) \<Rightarrow> (False, [], c1)
      | (c1, Some f) \<Rightarrow>
          (let (bs, n, f') = c_fread f readsize in (n = 1, bs, c1\<lparr>fc_fp := Some f'\<rparr>)))"

section \<open>Reading a file front to back\<close>

text \<open>The cache is open, \<open>pre\<close> has been read and \<open>rest\<close> is to come.\<close>

definition at_file :: "file_cache \<Rightarrow> buffer \<Rightarrow> buffer \<Rightarrow> bool" where
  "at_file c pre rest \<longleftrightarrow>
     fc_fp c = Some \<lparr>st_data = pre @ rest, st_pos = length pre, st_eof = False\<rparr>
     \<and> fc_file_size c = int (length pre + length rest) \<and> length pre + length rest < 2 ^ 31"

lemma tell_id: "p < 2 ^ 31 \<Longrightarrow> s32 (int p) = int p" "p < 2 ^ 31 \<Longrightarrow> u64 (int p) = int p" "p < 2 ^ 31 \<Longrightarrow> u32 (int p) = int p"
  by (auto simp: s32_def u64_def u32_def take_bit_int_eq_self_iff intro!: signed_take_bit_int_eq_self)

lemma at_file_tell: "at_file c pre rest \<Longrightarrow> fileTell c = Some (int (length pre))"
  by (simp add: at_file_def fileTell_def c_ftell_def tell_id)

lemma at_file_eof: "at_file c pre rest \<Longrightarrow> fileEof c = Some (rest = [])"
  by (simp add: at_file_def fileEof_def c_ftell_def tell_id)

lemma at_file_size: "at_file c pre rest \<Longrightarrow> getFileSize c = int (length pre + length rest)"
  by (simp add: at_file_def getFileSize_def tell_id del: of_nat_add)

lemma at_file_read:
  assumes "at_file c pre (bs @ rest)" "bs \<noteq> []"
  obtains c' where "readCache c (length bs) 0 0 False = (Some bs, c')" "at_file c' (pre @ bs) rest"
  using assms that
  by (auto simp: at_file_def readCache_def cache_seek_def c_fread_def myFree_def split: option.split)

lemma at_file_read_buf:
  assumes "at_file c pre (bs @ rest)" "bs \<noteq> []"
  obtains c' where "readCache_buf c (length bs) 0 0 False = (True, bs, c')" "at_file c' (pre @ bs) rest"
  using assms that
  by (auto simp: at_file_def readCache_buf_def cache_seek_def c_fread_def myFree_def split: option.split)

lemma at_file_seek_back:
  assumes "at_file c (pre @ bs) rest"
  obtains c' where "fileSeek c (- int (length bs)) SEEK_CUR = Some (0, c')" "at_file c' pre (bs @ rest)"
  using assms that
  by (auto simp: at_file_def fileSeek_def c_fseek_def seek_defs)

lemma at_file_seek_set:
  assumes "at_file c pre' rest'" "pre' @ rest' = pre @ rest"
  obtains c' where "fileSeek c (int (length pre)) SEEK_SET = Some (0, c')" "at_file c' pre rest"
  using assms that
  by (auto simp: at_file_def fileSeek_def c_fseek_def seek_defs simp flip: length_append)

lemma at_file_reread:
  assumes "at_file c (pre @ bs) rest" "bs @ rest = es @ rest'" "es \<noteq> []"
  obtains c' where "readCache c (length es) (- int (length bs)) SEEK_CUR True = (Some es, c')" "at_file c' (pre @ es) rest'"
proof -
  have l: "length bs + length rest = length es + length rest'" using assms(2) by (metis length_append)
  show ?thesis
    using assms that l
    by (auto simp: at_file_def readCache_def cache_seek_def c_fread_def c_fseek_def seek_defs myFree_def split: option.split)
qed

text \<open>A file that ends inside the bytes asked for.\<close>

lemma at_file_short:
  assumes "at_file c pre rest" "length rest < n"
  obtains c' where "readCache c n 0 0 False = (None, c')" "fc_file_size c' = fc_file_size c" "(fc_fp c' \<noteq> None) = (fc_fp c \<noteq> None)"
  using assms that
  by (cases "fc_cache c") (auto simp: at_file_def readCache_def cache_seek_def c_fread_def myFree_def Let_def)

lemma at_file_short_buf:
  assumes "at_file c pre rest" "length rest < n"
  obtains bs c' where "readCache_buf c n 0 0 False = (False, bs, c')" "fc_file_size c' = fc_file_size c" "(fc_fp c' \<noteq> None) = (fc_fp c \<noteq> None)"
  using assms that
  by (auto simp: at_file_def readCache_buf_def cache_seek_def c_fread_def myFree_def split: option.split)

lemma at_file_init:
  assumes "fs path = Some d" "length d < 2 ^ 31"
  obtains c' where "fc_init fs (Some path) c = (True, c')" "at_file c' [] d"
  using assms that
  by (auto simp: fc_init_def at_file_def c_fseek_def c_fopen_def seek_defs c_ftell_def tell_id Let_def)

end
