(* ===== verification/Parselogentry.thy ===== *)
theory Parselogentry
  imports Logevent Filecache
begin

text \<open>
  The parser that follows a binlog file, \<open>binlog/src/ParseLogEntry.cpp\<close>: the check of the file
  header, the loop over the events, the dispatch on the event type, the table maps, and \<open>parseBegin\<close>,
  which resumes where the previous call stopped. A step returns \<open>None\<close> where the code reads out of
  bounds, dereferences a null pointer or never returns. The row data handed to \<open>productRowData\<close> is
  returned as a list, in the order of the calls.

  The events are allocated and not initialised: \<open>fr\<close> is what the memory of a new event holds. The
  event buffer is the event followed by the zero byte the parser appends.
\<close>

definition BIN_LOG_HEADER_SIZE :: nat where "BIN_LOG_HEADER_SIZE = 4"
definition BINLOG_MAGIC :: buffer where "BINLOG_MAGIC = [0xfe, 0x62, 0x69, 0x6e]"
definition LOG_EVENT_MINIMAL_HEADER_LEN :: int where "LOG_EVENT_MINIMAL_HEADER_LEN = 19"
definition EVENT_TYPE_OFFSET :: nat where "EVENT_TYPE_OFFSET = 4"
definition EVENT_LEN_OFFSET :: nat where "EVENT_LEN_OFFSET = 9"

lemmas entry_consts = BIN_LOG_HEADER_SIZE_def LOG_EVENT_MINIMAL_HEADER_LEN_def EVENT_TYPE_OFFSET_def
  EVENT_LEN_OFFSET_def

record fresh_events =
  fr_query :: query_event
  fr_map :: table_map_event
  fr_rows :: rows_event

record parse_log =
  pl_file :: file_cache
  pl_tablemaps :: "int \<Rightarrow> table_map_event option"
  pl_query :: "query_event option"
  pl_map :: "table_map_event option"
  pl_cur :: int
  pl_global :: header_event

section \<open>Table maps\<close>

definition getTableMapEvent :: "parse_log \<Rightarrow> int \<Rightarrow> table_map_event option" where
  "getTableMapEvent pl tableId = pl_tablemaps pl tableId"

definition updateTableMap :: "table_map_event \<Rightarrow> parse_log \<Rightarrow> parse_log" where
  "updateTableMap m pl = pl\<lparr>pl_tablemaps := (pl_tablemaps pl)(tm_table_id m \<mapsto> m)\<rparr>"

section \<open>The file header\<close>

text \<open>A round of the loop depends on the file only through the position, and a round that reads starts
  inside the file: after more rounds than the file has bytes a position has been met twice, and the
  loop does not end.\<close>

fun header_loop :: "nat \<Rightarrow> parse_log \<Rightarrow> (bool \<times> parse_log) option" where
  "header_loop 0 pl = None"
| "header_loop (Suc fuel) pl =
     (case readCache (pl_file pl) LOG_EVENT_HEADER_LEN 0 0 False of
        (None, c) \<Rightarrow> Some (False, pl\<lparr>pl_file := c\<rparr>)
      | (Some h, c) \<Rightarrow> do {
          eventSize \<leftarrow> uint4korr h EVENT_LEN_OFFSET;
          t \<leftarrow> map_option uint (byte_at h EVENT_TYPE_OFFSET);
          if t = START_EVENT_V3 \<or> t = PREVIOUS_GTIDS_LOG_EVENT \<or> t = ROTATE_EVENT then do {
            (_, c2) \<leftarrow> fileSeek c (s32 (eventSize - int LOG_EVENT_HEADER_LEN)) SEEK_CUR;
            header_loop fuel (pl\<lparr>pl_file := c2\<rparr>) }
          else if t = FORMAT_DESCRIPTION_EVENT then
            (case readCache c (nat eventSize) (- int LOG_EVENT_HEADER_LEN) SEEK_CUR True of
               (None, c2) \<Rightarrow> Some (False, pl\<lparr>pl_file := c2\<rparr>)
             | (Some s, c2) \<Rightarrow> do {
                 (st, g) \<leftarrow> header_loadEvent (Some s) (pl_global pl);
                 let pl2 = pl\<lparr>pl_file := c2, pl_global := g\<rparr>;
                 if st \<noteq> EVENT_SUCCESS then Some (False, pl2) else header_loop fuel pl2 })
          else do {
            (_, c2) \<leftarrow> fileSeek c (- int LOG_EVENT_HEADER_LEN) SEEK_CUR;
            Some (True, pl\<lparr>pl_file := c2\<rparr>) } })"

definition file_bytes :: "parse_log \<Rightarrow> nat" where
  "file_bytes pl = (case fc_fp (pl_file pl) of None \<Rightarrow> 0 | Some f \<Rightarrow> length (st_data f))"

definition checkHeader :: "parse_log \<Rightarrow> (bool \<times> parse_log) option" where
  "checkHeader pl =
     (case readCache (pl_file pl) BIN_LOG_HEADER_SIZE 0 0 False of
        (None, c) \<Rightarrow> Some (False, pl\<lparr>pl_file := c\<rparr>)
      | (Some h, c) \<Rightarrow>
          if h \<noteq> BINLOG_MAGIC then Some (False, pl\<lparr>pl_file := c\<rparr>)
          else header_loop (Suc (file_bytes pl)) (pl\<lparr>pl_file := c\<rparr>))"

section \<open>One event\<close>

text \<open>The constructors: position and header length of the base class, the cleared bitmaps and the empty
  vectors of the classes.\<close>

definition new_query :: "fresh_events \<Rightarrow> int \<Rightarrow> header_event \<Rightarrow> query_event" where
  "new_query fr pos g = (fr_query fr)\<lparr>ev_pos := pos, ev_header_len := ev_header_len g,
     qe_statusvars_length := 0, qe_schema_name := []\<rparr>"

definition new_map :: "fresh_events \<Rightarrow> int \<Rightarrow> header_event \<Rightarrow> table_map_event" where
  "new_map fr pos g = (fr_map fr)\<lparr>ev_pos := pos, ev_header_len := ev_header_len g, tm_column_type := [],
     tm_field_metadata := [], tm_null_bits := [], tm_db_name := [], tm_table_name := []\<rparr>"

definition zero_bitmap :: my_bitmap where
  "zero_bitmap = \<lparr>bitmap = None, n_bits = 0, last_word_mask = 0, last_word_ptr = 0\<rparr>"

definition new_rows :: "fresh_events \<Rightarrow> int \<Rightarrow> int \<Rightarrow> header_event \<Rightarrow> rows_event" where
  "new_rows fr code pos g = (fr_rows fr)\<lparr>ev_pos := pos, ev_header_len := ev_header_len g, re_type_code := code,
     re_extra_row_data := [], re_column_before_image := [], re_column_after_image := [],
     re_cols := zero_bitmap, re_cols_ai := zero_bitmap,
     re_row_before_values := [], re_row_after_values := []\<rparr>"

text \<open>A rows event: load it, decode it with the table map of its table id, and make the row data with the
  thread of the last query event and the names of the last table map event. An event that failed to
  load has no row pointer to decode from.\<close>

definition rows_step ::
  "(nat \<Rightarrow> int) \<Rightarrow> fresh_events \<Rightarrow> int \<Rightarrow> int \<Rightarrow> buffer \<Rightarrow> parse_log \<Rightarrow> (bool \<times> parse_log \<times> row_data option) option" where
  "rows_step addr fr code pos s pl = do {
     (st, ev) \<leftarrow> rows_loadEvent (pl_global pl) (Some s) (new_rows fr code pos (pl_global pl));
     let tm = getTableMapEvent pl (re_table_id ev);
     (_, ev2) \<leftarrow> (if tm \<noteq> None \<and> st \<noteq> EVENT_SUCCESS then None else rows_parseEvent addr s tm ev);
     q \<leftarrow> pl_query pl;
     m \<leftarrow> pl_map pl;
     Some (True, pl, Some (createRowData ev2 (qe_thread_id q) (tm_db_name m) (tm_table_name m))) }"

definition dispatch ::
  "(nat \<Rightarrow> int) \<Rightarrow> fresh_events \<Rightarrow> int \<Rightarrow> int \<Rightarrow> buffer \<Rightarrow> parse_log \<Rightarrow> (bool \<times> parse_log \<times> row_data option) option" where
  "dispatch addr fr t pos s pl =
     (if t = QUERY_EVENT then do {
        (_, q) \<leftarrow> query_loadEvent (pl_global pl) (Some s) (new_query fr pos (pl_global pl));
        Some (True, pl\<lparr>pl_query := Some q\<rparr>, None) }
      else if t = TABLE_MAP_EVENT then do {
        (_, m) \<leftarrow> table_map_loadEvent (pl_global pl) (Some s) (new_map fr pos (pl_global pl));
        Some (True, updateTableMap m (pl\<lparr>pl_map := Some m\<rparr>), None) }
      else if t = WRITE_ROWS_EVENT_V1 \<or> t = WRITE_ROWS_EVENT then rows_step addr fr WRITE_ROWS_EVENT pos s pl
      else if t = UPDATE_ROWS_EVENT \<or> t = UPDATE_ROWS_EVENT_V1 then rows_step addr fr UPDATE_ROWS_EVENT pos s pl
      else if t = DELETE_ROWS_EVENT_V1 \<or> t = DELETE_ROWS_EVENT then rows_step addr fr DELETE_ROWS_EVENT pos s pl
      else if t = STOP_EVENT then Some (True, pl\<lparr>pl_cur := 0\<rparr>, None)
      else Some (True, pl, None))"

text \<open>An event of \<open>2 ^ 32 - 1\<close> bytes makes the size passed to \<open>malloc\<close> wrap to zero.\<close>

definition parseOneEvent ::
  "(nat \<Rightarrow> int) \<Rightarrow> fresh_events \<Rightarrow> parse_log \<Rightarrow> (bool \<times> parse_log \<times> row_data option) option" where
  "parseOneEvent addr fr pl = do {
     let headSize = min (ev_header_len (pl_global pl)) LOG_EVENT_MINIMAL_HEADER_LEN;
     eventPos \<leftarrow> fileTell (pl_file pl);
     (case readCache (pl_file pl) (nat headSize) 0 0 False of
        (None, c) \<Rightarrow> Some (False, pl\<lparr>pl_file := c\<rparr>, None)
      | (Some h, c) \<Rightarrow> do {
          eventSize \<leftarrow> uint4korr h EVENT_LEN_OFFSET;
          if eventSize < headSize then Some (False, pl\<lparr>pl_file := c\<rparr>, None)
          else if eventSize = 4294967295 then None
          else
            (case readCache_buf c (nat (eventSize - headSize)) 0 0 False of
               (ok, body, c2) \<Rightarrow>
                 if \<not> ok then Some (False, pl\<lparr>pl_file := c2\<rparr>, None)
                 else do {
                   let s = h @ body @ [0];
                   sz \<leftarrow> uint4korr s EVENT_LEN_OFFSET;
                   if eventSize < int EVENT_LEN_OFFSET \<or> eventSize \<noteq> sz then Some (False, pl\<lparr>pl_file := c2\<rparr>, None)
                   else do {
                     t \<leftarrow> map_option uint (byte_at s EVENT_TYPE_OFFSET);
                     if t > ENUM_END_EVENT \<or> t = 0 then Some (False, pl\<lparr>pl_file := c2\<rparr>, None)
                     else dispatch addr fr t (u32 eventPos) s (pl\<lparr>pl_file := c2\<rparr>) } }) }) }"

section \<open>The loop over the events and the entry point\<close>

text \<open>An event that is parsed moves the position forward inside the file, so one round per byte is enough
  (\<open>events_loop_fuel\<close>).\<close>

fun events_loop ::
  "nat \<Rightarrow> (nat \<Rightarrow> int) \<Rightarrow> fresh_events \<Rightarrow> parse_log \<Rightarrow> row_data list \<Rightarrow> (parse_log \<times> row_data list) option" where
  "events_loop 0 addr fr pl outs = None"
| "events_loop (Suc fuel) addr fr pl outs = do {
     (ok, pl1, out) \<leftarrow> parseOneEvent addr fr pl;
     let outs1 = (case out of None \<Rightarrow> outs | Some r \<Rightarrow> outs @ [r]);
     if \<not> ok then Some (pl1, outs1)
     else do {
       eof \<leftarrow> fileEof (pl_file pl1);
       if eof then Some (pl1, outs1) else events_loop fuel addr fr pl1 outs1 } }"

definition parseEvents ::
  "(nat \<Rightarrow> int) \<Rightarrow> fresh_events \<Rightarrow> parse_log \<Rightarrow> (parse_log \<times> row_data list) option" where
  "parseEvents addr fr pl = events_loop (Suc (file_bytes pl)) addr fr pl []"

definition parseBegin ::
  "(nat \<Rightarrow> int) \<Rightarrow> fresh_events \<Rightarrow> parse_log \<Rightarrow> (bool \<times> parse_log \<times> row_data list) option" where
  "parseBegin addr fr pl = do {
     (ok, go, pl1) \<leftarrow>
       (if pl_cur pl = 0 then map_option (\<lambda>(ok, p). (ok, ok, p)) (checkHeader pl)
        else if getFileSize (pl_file pl) \<le> pl_cur pl then Some (True, False, pl)
        else map_option (\<lambda>(_, c). (True, True, pl\<lparr>pl_file := c\<rparr>)) (fileSeek (pl_file pl) (s32 (pl_cur pl)) SEEK_SET));
     if \<not> go then Some (ok, pl1, [])
     else do {
       (pl2, outs) \<leftarrow> parseEvents addr fr pl1;
       Some (True, pl2\<lparr>pl_cur := getFileSize (pl_file pl2)\<rparr>, outs) } }"

definition refreshFileCache :: "(string \<Rightarrow> buffer option) \<Rightarrow> string \<Rightarrow> parse_log \<Rightarrow> bool \<times> parse_log" where
  "refreshFileCache fs path pl =
     (let (ok, c) = fc_init fs (Some path) (pl_file pl) in (ok, pl\<lparr>pl_file := c\<rparr>))"

definition new_parse_log :: "file_cache \<Rightarrow> header_event \<Rightarrow> parse_log" where
  "new_parse_log c g = \<lparr>pl_file = c, pl_tablemaps = (\<lambda>_. None), pl_query = None, pl_map = None, pl_cur = 0,
     pl_global = g\<rparr>"

section \<open>Whole events\<close>

text \<open>A whole event: the length field of the header is its length, the type is one the parser knows, and
  something follows the header.\<close>

definition framed :: "buffer \<Rightarrow> bool" where
  "framed e \<longleftrightarrow> 19 < length e \<and> uint4korr e 9 = Some (int (length e)) \<and> e ! 4 \<noteq> 0 \<and> uint (e ! 4) \<le> ENUM_END_EVENT"

definition event_code :: "buffer \<Rightarrow> int" where
  "event_code e = uint (e ! 4)"

lemma korr_prefix: "uint4korr (xs @ ys) p = uint4korr xs p" if "p + 4 \<le> length xs"
  using that by (simp add: ukorr_le_val korr_def bytes_at_def)

lemma framed_head:
  assumes "framed e"
  shows "uint4korr (take 19 e) 9 = Some (int (length e))" "uint4korr (e @ xs) 9 = Some (int (length e))"
  "byte_at (e @ xs) 4 = Some (e ! 4)"
proof -
  have l: "19 < length e" and k: "uint4korr e 9 = Some (int (length e))" using assms by (auto simp: framed_def)
  show "uint4korr (take 19 e) 9 = Some (int (length e))"
    using korr_prefix [of 9 "take 19 e" "drop 19 e"] l k by simp
  show "uint4korr (e @ xs) 9 = Some (int (length e))" using korr_prefix [of 9 e xs] l k by simp
  show "byte_at (e @ xs) 4 = Some (e ! 4)" using l by (simp add: byte_at_def nth_append)
qed

lemma parseOneEvent_framed:
  assumes at: "at_file (pl_file pl) pre (e @ rest)" and e: "framed e" and g: "19 \<le> ev_header_len (pl_global pl)"
  obtains c where "parseOneEvent addr fr pl
      = dispatch addr fr (event_code e) (int (length pre)) (e @ [0]) (pl\<lparr>pl_file := c\<rparr>)"
    "at_file c (pre @ e) rest"
proof -
  have l: "19 < length e" "e ! 4 \<noteq> 0" "uint (e ! 4) \<le> ENUM_END_EVENT" using e by (auto simp: framed_def)
  have big: "length e < 2 ^ 31" "length pre < 2 ^ 31" using at by (auto simp: at_file_def)
  have l1: "length (take 19 e) = 19" "take 19 e \<noteq> []" "drop 19 e \<noteq> []" using l by auto
  have at0: "at_file (pl_file pl) pre (take 19 e @ (drop 19 e @ rest))"
    using at by (metis append_assoc append_take_drop_id)
  obtain c1 where c1: "readCache (pl_file pl) (length (take 19 e)) 0 0 False = (Some (take 19 e), c1)"
    and at1: "at_file c1 (pre @ take 19 e) (drop 19 e @ rest)"
    by (rule at_file_read [OF at0 l1(2)])
  obtain c2 where c2: "readCache_buf c1 (length (drop 19 e)) 0 0 False = (True, drop 19 e, c2)"
    and at2: "at_file c2 ((pre @ take 19 e) @ drop 19 e) rest"
    by (rule at_file_read_buf [OF at1 l1(3)])
  have n: "nat (int (length e) - 19) = length (drop 19 e)" by simp
  have c1': "readCache (pl_file pl) 19 0 0 False = (Some (take 19 e), c1)" using c1 l1(1) by simp
  have u: "0 < uint (e ! 4)" using l(2) by (simp add: uint_0_iff order_less_le)
  have split: "take 19 e @ drop 19 e @ [0] = e @ [0]" by (metis append_assoc append_take_drop_id)
  have "parseOneEvent addr fr pl = dispatch addr fr (event_code e) (int (length pre)) (e @ [0]) (pl\<lparr>pl_file := c2\<rparr>)"
    using l big framed_head(1) [OF e] framed_head(2,3) [OF e, of "[0]"] g u c2
    unfolding parseOneEvent_def entry_consts at_file_tell [OF at]
    by (simp add: min_absorb2 c1' n split event_code_def tell_id)
  with at2 show ?thesis using that by simp
qed

section \<open>The events of a file, in order\<close>

text \<open>What the parser does with a list of whole events, apart from the file: the events are handled one
  after the other, each with the state the previous ones left.\<close>

fun run_events ::
  "(nat \<Rightarrow> int) \<Rightarrow> fresh_events \<Rightarrow> nat \<Rightarrow> buffer list \<Rightarrow> parse_log \<Rightarrow> (parse_log \<times> row_data list) option" where
  "run_events addr fr pos [] pl = Some (pl, [])"
| "run_events addr fr pos (e # es) pl = do {
     (_, pl1, out) \<leftarrow> dispatch addr fr (event_code e) (int pos) (e @ [0]) pl;
     (pl2, outs) \<leftarrow> run_events addr fr (pos + length e) es pl1;
     Some (pl2, (case out of None \<Rightarrow> outs | Some r \<Rightarrow> r # outs)) }"

lemma run_events_append:
  "run_events addr fr pos (es1 @ es2) pl = do {
     (pl1, outs1) \<leftarrow> run_events addr fr pos es1 pl;
     (pl2, outs2) \<leftarrow> run_events addr fr (pos + length (concat es1)) es2 pl1;
     Some (pl2, outs1 @ outs2) }"
  by (induction es1 arbitrary: pos pl)
     (auto simp: add.assoc split: option.split bind_splits)

lemmas dispatch_defs = dispatch_def rows_step_def getTableMapEvent_def updateTableMap_def

lemma dispatch_ok: "dispatch addr fr t pos s pl = Some (ok, pl', out) \<Longrightarrow> ok"
  by (auto simp: dispatch_defs Let_def split: bind_splits if_splits)

lemma map_option_do: "map_option f (Option.bind x g) = Option.bind x (\<lambda>y. map_option f (g y))"
  by (cases x) simp_all

lemma rows_step_file:
  "rows_step addr fr code pos s (pl\<lparr>pl_file := c\<rparr>)
    = map_option (\<lambda>(ok, p, out). (ok, p\<lparr>pl_file := c\<rparr>, out)) (rows_step addr fr code pos s pl)"
  unfolding rows_step_def getTableMapEvent_def Let_def
  by (cases pl) (simp add: map_option_do prod.case_distrib [of "map_option _"] cong: if_cong)

lemma dispatch_file:
  "dispatch addr fr t pos s (pl\<lparr>pl_file := c\<rparr>)
    = map_option (\<lambda>(ok, p, out). (ok, p\<lparr>pl_file := c\<rparr>, out)) (dispatch addr fr t pos s pl)"
  unfolding dispatch_def if_distrib [of "map_option _"] rows_step_file
  by (cases pl) (simp add: map_option_do prod.case_distrib [of "map_option _"] updateTableMap_def)

lemma dispatch_keeps:
  assumes "dispatch addr fr t pos s pl = Some (ok, pl', out)"
  shows "pl_file pl' = pl_file pl" "pl_global pl' = pl_global pl" "pl_cur pl' = pl_cur pl \<or> pl_cur pl' = 0"
  using assms by (auto simp: dispatch_defs Let_def split: bind_splits if_splits)

lemma run_events_file:
  "run_events addr fr pos es (pl\<lparr>pl_file := c\<rparr>)
    = map_option (\<lambda>(p, outs). (p\<lparr>pl_file := c\<rparr>, outs)) (run_events addr fr pos es pl)"
  by (induction es arbitrary: pos pl)
     (auto simp: dispatch_file option.map_comp split: option.splits prod.splits bind_splits)

lemma run_events_global:
  "run_events addr fr pos es pl = Some (pl', outs) \<Longrightarrow> pl_global pl' = pl_global pl"
  by (induction es arbitrary: pos pl outs) (auto simp: dispatch_keeps(2) split: bind_splits)

lemma run_events_Cons_Some:
  assumes "run_events addr fr pos (e # es) pl = Some (pl', outs)"
  obtains pl1 out outs1 where "dispatch addr fr (event_code e) (int pos) (e @ [0]) pl = Some (True, pl1, out)"
    "run_events addr fr (pos + length e) es pl1 = Some (pl', outs1)"
    "outs = (case out of None \<Rightarrow> outs1 | Some r \<Rightarrow> r # outs1)"
proof -
  obtain ok pl1 out outs1 where d: "dispatch addr fr (event_code e) (int pos) (e @ [0]) pl = Some (ok, pl1, out)"
    "run_events addr fr (pos + length e) es pl1 = Some (pl', outs1)"
    "outs = (case out of None \<Rightarrow> outs1 | Some r \<Rightarrow> r # outs1)"
    using assms by (auto split: bind_splits)
  with dispatch_ok [OF d(1)] that show ?thesis by simp
qed

lemma one_event:
  assumes at: "at_file (pl_file pl) pre (e @ rest)" and e: "framed e" and g: "19 \<le> ev_header_len (pl_global pl)"
    and d: "dispatch addr fr (event_code e) (int (length pre)) (e @ [0]) pl = Some (True, pl1, out)"
  obtains c where "parseOneEvent addr fr pl = Some (True, pl1\<lparr>pl_file := c\<rparr>, out)" "at_file c (pre @ e) rest"
  using parseOneEvent_framed [OF at e g, of addr fr] d that by (metis dispatch_file option.map(2) case_prod_conv)

lemma events_loop_run:
  assumes "at_file (pl_file pl) pre (concat es @ rest)" "rest \<noteq> []" "\<forall>e\<in>set es. framed e"
    "19 \<le> ev_header_len (pl_global pl)" "run_events addr fr (length pre) es pl = Some (pl', outs')"
  obtains c where "events_loop (length es + fuel) addr fr pl outs = events_loop fuel addr fr (pl'\<lparr>pl_file := c\<rparr>) (outs @ outs')"
    "at_file c (pre @ concat es) rest"
  using assms
proof (induction es arbitrary: pl pl' pre outs outs' thesis)
  case Nil
  have "pl\<lparr>pl_file := pl_file pl\<rparr> = pl" by simp
  with Nil show ?case by (metis append.right_neutral concat.simps(1) option.inject prod.inject run_events.simps(1) add_0 list.size(3) self_append_conv2)
next
  case (Cons e es)
  obtain pl1 out outs1 where d: "dispatch addr fr (event_code e) (int (length pre)) (e @ [0]) pl = Some (True, pl1, out)"
    and r: "run_events addr fr (length (pre @ e)) es pl1 = Some (pl', outs1)"
    and o: "outs' = (case out of None \<Rightarrow> outs1 | Some r \<Rightarrow> r # outs1)"
    using run_events_Cons_Some [OF Cons.prems(6)] by (metis length_append)
  have at: "at_file (pl_file pl) pre (e @ (concat es @ rest))" using Cons.prems(2) by simp
  have fe: "framed e" using Cons.prems(4) by simp
  obtain c where c: "parseOneEvent addr fr pl = Some (True, pl1\<lparr>pl_file := c\<rparr>, out)"
    and at': "at_file c (pre @ e) (concat es @ rest)"
    by (rule one_event [OF at fe Cons.prems(5) d])
  have g: "19 \<le> ev_header_len (pl_global (pl1\<lparr>pl_file := c\<rparr>))"
    using Cons.prems(5) dispatch_keeps(2) [OF d] by simp
  have r': "run_events addr fr (length (pre @ e)) es (pl1\<lparr>pl_file := c\<rparr>) = Some (pl'\<lparr>pl_file := c\<rparr>, outs1)"
    using r by (simp add: run_events_file del: length_append)
  define outs2 where "outs2 = (case out of None \<Rightarrow> outs | Some r \<Rightarrow> outs @ [r])"
  have at2: "at_file (pl_file (pl1\<lparr>pl_file := c\<rparr>)) (pre @ e) (concat es @ rest)" using at' by simp
  obtain c' where c': "events_loop (length es + fuel) addr fr (pl1\<lparr>pl_file := c\<rparr>) outs2
      = events_loop fuel addr fr (pl'\<lparr>pl_file := c, pl_file := c'\<rparr>) (outs2 @ outs1)" "at_file c' ((pre @ e) @ concat es) rest"
    using Cons.IH [OF _ at2 Cons.prems(3) _ g r', of outs2] Cons.prems(4) by auto
  have "fileEof c = Some False" using at_file_eof [OF at'] Cons.prems(3) by simp
  then have "events_loop (length (e # es) + fuel) addr fr pl outs = events_loop fuel addr fr (pl'\<lparr>pl_file := c'\<rparr>) (outs @ outs')"
    using c c'(1) by (cases out) (auto simp: outs2_def o)
  with c'(2) show ?case using Cons.prems(1) by simp
qed

lemma framed_nonempty: "framed e \<Longrightarrow> e \<noteq> []" "framed e \<Longrightarrow> 19 < length e"
  by (auto simp: framed_def)

text \<open>A file of whole events is parsed to its end.\<close>

lemma length_concat_framed: "\<forall>e\<in>set es. framed e \<Longrightarrow> length es \<le> length (concat es)"
proof (induction es)
  case (Cons e es)
  then show ?case using framed_nonempty(2) [of e] by auto
qed simp

lemma parseEvents_run:
  assumes at: "at_file (pl_file pl) pre (concat es)" and ne: "es \<noteq> []" and fr: "\<forall>e\<in>set es. framed e"
    and g: "19 \<le> ev_header_len (pl_global pl)" and run: "run_events addr fr (length pre) es pl = Some (pl', outs)"
  obtains c where "parseEvents addr fr pl = Some (pl'\<lparr>pl_file := c\<rparr>, outs)" "at_file c (pre @ concat es) []"
proof -
  define es0 e where "es0 = butlast es" and "e = last es"
  have es: "es = es0 @ [e]" using ne by (simp add: es0_def e_def)
  obtain pl1 outs1 pl2 outs2 where r1: "run_events addr fr (length pre) es0 pl = Some (pl1, outs1)"
    and r2: "run_events addr fr (length (pre @ concat es0)) [e] pl1 = Some (pl', outs2)" and o: "outs = outs1 @ outs2"
    using run unfolding es run_events_append by (auto split: bind_splits)
  obtain out where d: "dispatch addr fr (event_code e) (int (length (pre @ concat es0))) (e @ [0]) pl1 = Some (True, pl', out)"
    and o2: "outs2 = (case out of None \<Rightarrow> [] | Some r \<Rightarrow> [r])"
    using run_events_Cons_Some [OF r2] by (metis Pair_inject option.inject run_events.simps(1))
  have fe: "framed e" "\<forall>e\<in>set es0. framed e" using fr es by auto
  have at0: "at_file (pl_file pl) pre (concat es0 @ e)" using at es by simp
  define n where "n = Suc (file_bytes pl) - length es0"
  have n: "length es0 + Suc (n - 1) = Suc (file_bytes pl)"
    using length_concat_framed [OF fe(2)] at by (simp add: n_def file_bytes_def at_file_def es)
  obtain c where c: "events_loop (length es0 + Suc (n - 1)) addr fr pl [] = events_loop (Suc (n - 1)) addr fr (pl1\<lparr>pl_file := c\<rparr>) ([] @ outs1)"
    and at1: "at_file c (pre @ concat es0) e"
    by (rule events_loop_run [OF at0 framed_nonempty(1) [OF fe(1)] fe(2) g r1])
  have d': "dispatch addr fr (event_code e) (int (length (pre @ concat es0))) (e @ [0]) (pl1\<lparr>pl_file := c\<rparr>)
      = Some (True, pl'\<lparr>pl_file := c\<rparr>, out)" using d by (simp add: dispatch_file del: length_append)
  have at1': "at_file (pl_file (pl1\<lparr>pl_file := c\<rparr>)) (pre @ concat es0) (e @ [])" using at1 by simp
  have g1: "19 \<le> ev_header_len (pl_global (pl1\<lparr>pl_file := c\<rparr>))" using g run_events_global [OF r1] by simp
  obtain c' where c': "parseOneEvent addr fr (pl1\<lparr>pl_file := c\<rparr>) = Some (True, pl'\<lparr>pl_file := c, pl_file := c'\<rparr>, out)"
    and at2: "at_file c' ((pre @ concat es0) @ e) []"
    by (rule one_event [OF at1' fe(1) g1 d'])
  have "parseEvents addr fr pl = Some (pl'\<lparr>pl_file := c'\<rparr>, outs)"
    using c c' at_file_eof [OF at2] by (cases out) (auto simp: parseEvents_def n [symmetric] o o2 simp del: add_Suc_right)
  with at2 show ?thesis using that by (simp add: es)
qed

section \<open>The head of the file\<close>

definition skipped_code :: "int \<Rightarrow> bool" where
  "skipped_code t \<longleftrightarrow> t = START_EVENT_V3 \<or> t = PREVIOUS_GTIDS_LOG_EVENT \<or> t = ROTATE_EVENT"

lemma at_file_seek_on:
  assumes "at_file c pre (bs @ rest)"
  obtains c' where "fileSeek c (int (length bs)) SEEK_CUR = Some (0, c')" "at_file c' (pre @ bs) rest"
  using assms that by (auto simp: at_file_def fileSeek_def c_fseek_def seek_defs nat_add_distrib)

lemma read_head:
  assumes at: "at_file c pre (e @ rest)" and e: "framed e"
  obtains c' where "readCache c LOG_EVENT_HEADER_LEN 0 0 False = (Some (take 19 e), c')"
    "at_file c' (pre @ take 19 e) (drop 19 e @ rest)"
proof -
  have at0: "at_file c pre (take 19 e @ (drop 19 e @ rest))"
    using at by (metis append_assoc append_take_drop_id)
  have "take 19 e \<noteq> []" "length (take 19 e) = 19" using framed_nonempty [OF e] by auto
  with at_file_read [OF at0] that show ?thesis by (metis LOG_EVENT_HEADER_LEN_def)
qed

lemma framed_head_code:
  assumes "framed e"
  shows "map_option uint (byte_at (take 19 e) EVENT_TYPE_OFFSET) = Some (event_code e)"
    "uint4korr (take 19 e) EVENT_LEN_OFFSET = Some (int (length e))"
  using framed_head(1) [OF assms] framed_nonempty(2) [OF assms]
  by (simp_all add: byte_at_def event_code_def entry_consts)

lemma header_loop_skip:
  assumes at: "at_file (pl_file pl) pre (e @ rest)" and e: "framed e" "skipped_code (event_code e)"
  obtains c where "header_loop (Suc n) pl = header_loop n (pl\<lparr>pl_file := c\<rparr>)" "at_file c (pre @ e) rest"
proof -
  obtain c1 where c1: "readCache (pl_file pl) LOG_EVENT_HEADER_LEN 0 0 False = (Some (take 19 e), c1)"
    and at1: "at_file c1 (pre @ take 19 e) (drop 19 e @ rest)" by (rule read_head [OF at e(1)])
  obtain c2 where c2: "fileSeek c1 (int (length (drop 19 e))) SEEK_CUR = Some (0, c2)"
    and at2: "at_file c2 ((pre @ take 19 e) @ drop 19 e) rest" by (rule at_file_seek_on [OF at1])
  have l: "19 < length e" "length e < 2 ^ 31" using framed_nonempty [OF e(1)] at by (auto simp: at_file_def)
  then have s: "s32 (int (length e) - int LOG_EVENT_HEADER_LEN) = int (length (drop 19 e))"
    using tell_id(1) [of "length e - 19"] by (simp add: LOG_EVENT_HEADER_LEN_def of_nat_diff)
  have "header_loop (Suc n) pl = header_loop n (pl\<lparr>pl_file := c2\<rparr>)"
    using e(2) by (simp add: c1 framed_head_code [OF e(1)] s c2 skipped_code_def del: length_drop)
  with at2 that show ?thesis by simp
qed

lemma header_loop_skips:
  assumes "at_file (pl_file pl) pre (concat hs @ rest)" "\<forall>h\<in>set hs. framed h \<and> skipped_code (event_code h)"
  obtains c where "header_loop (length hs + n) pl = header_loop n (pl\<lparr>pl_file := c\<rparr>)" "at_file c (pre @ concat hs) rest"
  using assms
proof (induction hs arbitrary: pl pre thesis)
  case Nil
  have "pl\<lparr>pl_file := pl_file pl\<rparr> = pl" by simp
  with Nil show ?case by (metis add_0 append.right_neutral concat.simps(1) list.size(3) append_Nil)
next
  case (Cons h hs)
  have at: "at_file (pl_file pl) pre (h @ (concat hs @ rest))" using Cons.prems(2) by simp
  obtain c where c: "header_loop (Suc (length hs + n)) pl = header_loop (length hs + n) (pl\<lparr>pl_file := c\<rparr>)"
    and at1: "at_file c (pre @ h) (concat hs @ rest)" using header_loop_skip [OF at] Cons.prems(3) by auto
  have at2: "at_file (pl_file (pl\<lparr>pl_file := c\<rparr>)) (pre @ h) (concat hs @ rest)" using at1 by simp
  obtain c' where "header_loop (length hs + n) (pl\<lparr>pl_file := c\<rparr>) = header_loop n (pl\<lparr>pl_file := c, pl_file := c'\<rparr>)"
    "at_file c' ((pre @ h) @ concat hs) rest" using Cons.IH [OF _ at2] Cons.prems(3) by auto
  with c Cons.prems(1) show ?case by simp
qed

lemma header_loop_description:
  assumes at: "at_file (pl_file pl) pre (e @ rest)" and e: "framed e" "event_code e = FORMAT_DESCRIPTION_EVENT"
    and g: "header_loadEvent (Some e) (pl_global pl) = Some (EVENT_SUCCESS, g)"
  obtains c where "header_loop (Suc n) pl = header_loop n (pl\<lparr>pl_file := c, pl_global := g\<rparr>)" "at_file c (pre @ e) rest"
proof -
  obtain c1 where c1: "readCache (pl_file pl) LOG_EVENT_HEADER_LEN 0 0 False = (Some (take 19 e), c1)"
    and at1: "at_file c1 (pre @ take 19 e) (drop 19 e @ rest)" by (rule read_head [OF at e(1)])
  have l: "length (take 19 e) = LOG_EVENT_HEADER_LEN"
    using framed_nonempty [OF e(1)] by (simp add: LOG_EVENT_HEADER_LEN_def)
  have sp: "take 19 e @ (drop 19 e @ rest) = e @ rest" by (metis append_assoc append_take_drop_id)
  obtain c2 where c2: "readCache c1 (length e) (- int (length (take 19 e))) SEEK_CUR True = (Some e, c2)"
    and at2: "at_file c2 (pre @ e) rest"
    by (rule at_file_reread [OF at1 sp framed_nonempty(1) [OF e(1)]])
  have "header_loop (Suc n) pl = header_loop n (pl\<lparr>pl_file := c2, pl_global := g\<rparr>)"
    by (simp add: c1 framed_head_code [OF e(1)] e(2) c2 [unfolded l] g event_types)
  with at2 that show ?thesis by simp
qed

lemma header_loop_stop:
  assumes at: "at_file (pl_file pl) pre (e @ rest)"
    and e: "framed e" "\<not> skipped_code (event_code e)" "event_code e \<noteq> FORMAT_DESCRIPTION_EVENT"
  obtains c where "header_loop (Suc n) pl = Some (True, pl\<lparr>pl_file := c\<rparr>)" "at_file c pre (e @ rest)"
proof -
  obtain c1 where c1: "readCache (pl_file pl) LOG_EVENT_HEADER_LEN 0 0 False = (Some (take 19 e), c1)"
    and at1: "at_file c1 (pre @ take 19 e) (drop 19 e @ rest)" by (rule read_head [OF at e(1)])
  have l: "length (take 19 e) = LOG_EVENT_HEADER_LEN"
    using framed_nonempty [OF e(1)] by (simp add: LOG_EVENT_HEADER_LEN_def)
  have sp: "take 19 e @ (drop 19 e @ rest) = e @ rest" by (metis append_assoc append_take_drop_id)
  obtain c2 where c2: "fileSeek c1 (- int (length (take 19 e))) SEEK_CUR = Some (0, c2)"
    and at2: "at_file c2 pre (take 19 e @ (drop 19 e @ rest))" by (rule at_file_seek_back [OF at1])
  have "header_loop (Suc n) pl = Some (True, pl\<lparr>pl_file := c2\<rparr>)"
    using e(2,3) by (simp add: c1 framed_head_code [OF e(1)] c2 [unfolded l] skipped_code_def)
  with at2 sp that show ?thesis by simp
qed

text \<open>The head of a file: the magic bytes, the format description, events the header check skips, and then
  an event of the body.\<close>

lemma checkHeader_head:
  assumes at: "at_file (pl_file pl) [] (BINLOG_MAGIC @ fde @ concat hs @ e @ rest)"
    and fde: "framed fde" "event_code fde = FORMAT_DESCRIPTION_EVENT" "header_loadEvent (Some fde) (pl_global pl) = Some (EVENT_SUCCESS, g)"
    and hs: "\<forall>h\<in>set hs. framed h \<and> skipped_code (event_code h)"
    and e: "framed e" "\<not> skipped_code (event_code e)" "event_code e \<noteq> FORMAT_DESCRIPTION_EVENT"
  obtains c where "checkHeader pl = Some (True, pl\<lparr>pl_file := c, pl_global := g\<rparr>)"
    "at_file c (BINLOG_MAGIC @ fde @ concat hs) (e @ rest)"
proof -
  have m: "BINLOG_MAGIC \<noteq> []" "length BINLOG_MAGIC = BIN_LOG_HEADER_SIZE" by (simp_all add: BINLOG_MAGIC_def entry_consts)
  obtain c1 where c1: "readCache (pl_file pl) (length BINLOG_MAGIC) 0 0 False = (Some BINLOG_MAGIC, c1)"
    and at1: "at_file c1 ([] @ BINLOG_MAGIC) (fde @ concat hs @ e @ rest)" by (rule at_file_read [OF at m(1)])
  have fuel: "Suc (file_bytes pl) = Suc (length hs + Suc (file_bytes pl - Suc (length hs)))"
    using at length_concat_framed [of hs] hs framed_nonempty(2) [OF fde(1)] by (auto simp: file_bytes_def at_file_def)
  let ?n = "file_bytes pl - Suc (length hs)"
  have at1': "at_file (pl_file (pl\<lparr>pl_file := c1\<rparr>)) BINLOG_MAGIC (fde @ (concat hs @ e @ rest))" using at1 by simp
  have g0: "header_loadEvent (Some fde) (pl_global (pl\<lparr>pl_file := c1\<rparr>)) = Some (EVENT_SUCCESS, g)" using fde(3) by simp
  obtain c2 where c2: "header_loop (Suc (length hs + Suc ?n)) (pl\<lparr>pl_file := c1\<rparr>)
      = header_loop (length hs + Suc ?n) (pl\<lparr>pl_file := c1, pl_file := c2, pl_global := g\<rparr>)"
    and at2: "at_file c2 (BINLOG_MAGIC @ fde) (concat hs @ e @ rest)"
    by (rule header_loop_description [OF at1' fde(1,2) g0])
  have at2': "at_file (pl_file (pl\<lparr>pl_file := c2, pl_global := g\<rparr>)) (BINLOG_MAGIC @ fde) (concat hs @ (e @ rest))" using at2 by simp
  obtain c3 where c3: "header_loop (length hs + Suc ?n) (pl\<lparr>pl_file := c2, pl_global := g\<rparr>)
      = header_loop (Suc ?n) (pl\<lparr>pl_file := c2, pl_global := g, pl_file := c3\<rparr>)"
    and at3: "at_file c3 ((BINLOG_MAGIC @ fde) @ concat hs) (e @ rest)"
    by (rule header_loop_skips [OF at2' hs])
  have at3': "at_file (pl_file (pl\<lparr>pl_file := c2, pl_global := g, pl_file := c3\<rparr>)) ((BINLOG_MAGIC @ fde) @ concat hs) (e @ rest)"
    using at3 by simp
  obtain c4 where c4: "header_loop (Suc ?n) (pl\<lparr>pl_file := c2, pl_global := g, pl_file := c3\<rparr>)
      = Some (True, pl\<lparr>pl_file := c2, pl_global := g, pl_file := c3, pl_file := c4\<rparr>)"
    and at4: "at_file c4 ((BINLOG_MAGIC @ fde) @ concat hs) (e @ rest)"
    by (rule header_loop_stop [OF at3' e])
  have "header_loop (Suc (file_bytes pl)) (pl\<lparr>pl_file := c1\<rparr>) = Some (True, pl\<lparr>pl_file := c2, pl_global := g, pl_file := c4\<rparr>)"
    unfolding fuel using c2 c3 c4 by simp
  moreover have "pl\<lparr>pl_file := c2, pl_global := g, pl_file := c4\<rparr> = pl\<lparr>pl_file := c4, pl_global := g\<rparr>" by (cases pl) simp
  ultimately have "checkHeader pl = Some (True, pl\<lparr>pl_file := c4, pl_global := g\<rparr>)"
    using c1 m(2) by (simp add: checkHeader_def)
  with at4 that show ?thesis by simp
qed

section \<open>Following a growing file\<close>

text \<open>What the parser knows apart from the file and the place in it.\<close>

definition no_file :: file_cache where
  "no_file = \<lparr>fc_fp = None, fc_offset = 0, fc_where = 0, fc_cache = None, fc_file_size = 0\<rparr>"

definition log_state :: "parse_log \<Rightarrow> parse_log" where
  "log_state pl = pl\<lparr>pl_file := no_file, pl_cur := 0\<rparr>"

lemma log_state_simps [simp]:
  "log_state (pl\<lparr>pl_file := c\<rparr>) = log_state pl" "log_state (pl\<lparr>pl_cur := k\<rparr>) = log_state pl"
  "log_state (log_state pl) = log_state pl" "pl_tablemaps (log_state pl) = pl_tablemaps pl"
  "pl_global (log_state pl) = pl_global pl" "log_state (pl\<lparr>pl_global := g\<rparr>) = (log_state pl)\<lparr>pl_global := g\<rparr>"
  by (cases pl; simp add: log_state_def)+

lemma rows_step_state:
  "map_option (\<lambda>(ok, p, out). (ok, log_state p, out)) (rows_step addr fr code pos s (log_state pl))
    = map_option (\<lambda>(ok, p, out). (ok, log_state p, out)) (rows_step addr fr code pos s pl)"
  unfolding rows_step_def getTableMapEvent_def Let_def log_state_def
  by (cases pl) (simp add: map_option_do prod.case_distrib [of "map_option _"] cong: if_cong)

lemma dispatch_state:
  "map_option (\<lambda>(ok, p, out). (ok, log_state p, out)) (dispatch addr fr t pos s (log_state pl))
    = map_option (\<lambda>(ok, p, out). (ok, log_state p, out)) (dispatch addr fr t pos s pl)"
  unfolding dispatch_def if_distrib [of "map_option _"] rows_step_state
  by (cases pl) (simp add: map_option_do prod.case_distrib [of "map_option _"] updateTableMap_def log_state_def cong: if_cong)

lemma dispatch_state_Some:
  assumes "dispatch addr fr t pos s pl = Some (ok, pl1, out)" "log_state pl = log_state ql"
  obtains ql1 where "dispatch addr fr t pos s ql = Some (ok, ql1, out)" "log_state pl1 = log_state ql1"
  using dispatch_state [of addr fr t pos s pl] dispatch_state [of addr fr t pos s ql] assms that by auto

lemma run_events_state:
  assumes "run_events addr fr pos es pl = Some (pl', outs)" "log_state pl = log_state ql"
  obtains ql' where "run_events addr fr pos es ql = Some (ql', outs)" "log_state pl' = log_state ql'"
  using assms
proof (induction es arbitrary: pos pl ql outs thesis)
  case Nil
  then show ?case by auto
next
  case (Cons e es)
  obtain pl1 out outs1 where d: "dispatch addr fr (event_code e) (int pos) (e @ [0]) pl = Some (True, pl1, out)"
    "run_events addr fr (pos + length e) es pl1 = Some (pl', outs1)"
    "outs = (case out of None \<Rightarrow> outs1 | Some r \<Rightarrow> r # outs1)" by (rule run_events_Cons_Some [OF Cons.prems(2)])
  obtain ql1 where q: "dispatch addr fr (event_code e) (int pos) (e @ [0]) ql = Some (True, ql1, out)" "log_state pl1 = log_state ql1"
    by (rule dispatch_state_Some [OF d(1) Cons.prems(3)])
  obtain ql' where "run_events addr fr (pos + length e) es ql1 = Some (ql', outs1)" "log_state pl' = log_state ql'"
    by (rule Cons.IH [OF _ d(2) q(2)])
  with q d(3) Cons.prems(1) show ?case by simp
qed

text \<open>The head and the body of a log file.\<close>

definition head_ok :: "header_event \<Rightarrow> buffer \<Rightarrow> buffer list \<Rightarrow> header_event \<Rightarrow> bool" where
  "head_ok g0 fde hs g \<longleftrightarrow> framed fde \<and> event_code fde = FORMAT_DESCRIPTION_EVENT
     \<and> header_loadEvent (Some fde) g0 = Some (EVENT_SUCCESS, g) \<and> 19 \<le> ev_header_len g
     \<and> (\<forall>h\<in>set hs. framed h \<and> skipped_code (event_code h))"

definition body_ok :: "buffer list \<Rightarrow> bool" where
  "body_ok es \<longleftrightarrow> es \<noteq> [] \<and> (\<forall>e\<in>set es. framed e) \<and> \<not> skipped_code (event_code (hd es))
     \<and> event_code (hd es) \<noteq> FORMAT_DESCRIPTION_EVENT"

definition log_head :: "buffer \<Rightarrow> buffer list \<Rightarrow> buffer" where
  "log_head fde hs = BINLOG_MAGIC @ fde @ concat hs"

lemma parseBegin_first:
  assumes at: "at_file (pl_file pl) [] (log_head fde hs @ concat es)" and hd: "head_ok (pl_global pl) fde hs g"
    and body: "body_ok es" and cur: "pl_cur pl = 0"
    and run: "run_events addr fr (length (log_head fde hs)) es (pl\<lparr>pl_global := g\<rparr>) = Some (pl', outs)"
  obtains c where "parseBegin addr fr pl = Some (True, pl'\<lparr>pl_file := c, pl_cur := int (length (log_head fde hs @ concat es))\<rparr>, outs)"
proof -
  obtain e es' where es: "es = e # es'" using body by (cases es) (auto simp: body_ok_def)
  have b: "es \<noteq> []" "\<forall>e\<in>set es. framed e" "framed e" "\<not> skipped_code (event_code e)" "event_code e \<noteq> FORMAT_DESCRIPTION_EVENT"
    using body by (auto simp: body_ok_def es)
  have h: "framed fde" "event_code fde = FORMAT_DESCRIPTION_EVENT" "header_loadEvent (Some fde) (pl_global pl) = Some (EVENT_SUCCESS, g)"
    "\<forall>h\<in>set hs. framed h \<and> skipped_code (event_code h)" "19 \<le> ev_header_len g"
    using hd by (auto simp: head_ok_def)
  have at': "at_file (pl_file pl) [] (BINLOG_MAGIC @ fde @ concat hs @ e @ concat es')" using at by (simp add: es log_head_def)
  obtain c where c: "checkHeader pl = Some (True, pl\<lparr>pl_file := c, pl_global := g\<rparr>)"
    and at1: "at_file c (BINLOG_MAGIC @ fde @ concat hs) (e @ concat es')" by (rule checkHeader_head [OF at' h(1-4) b(3-5)])
  define pl1 where "pl1 = pl\<lparr>pl_file := c, pl_global := g\<rparr>"
  have eq: "pl1 = pl\<lparr>pl_global := g, pl_file := c\<rparr>" by (cases pl) (simp add: pl1_def)
  have at2: "at_file (pl_file pl1) (log_head fde hs) (concat es)" using at1 by (simp add: pl1_def es log_head_def)
  have g1: "19 \<le> ev_header_len (pl_global pl1)" using h(5) by (simp add: pl1_def)
  have run1: "run_events addr fr (length (log_head fde hs)) es pl1 = Some (pl'\<lparr>pl_file := c\<rparr>, outs)"
    using run unfolding eq by (simp add: run_events_file)
  obtain c' where p: "parseEvents addr fr pl1 = Some (pl'\<lparr>pl_file := c, pl_file := c'\<rparr>, outs)"
    and at3: "at_file c' (log_head fde hs @ concat es) []" by (rule parseEvents_run [OF at2 b(1,2) g1 run1])
  show ?thesis using that c p at_file_size [OF at3] cur by (simp add: parseBegin_def pl1_def)
qed

lemma parseBegin_resume:
  assumes at: "at_file (pl_file pl) [] (pre @ concat es)" and es: "es \<noteq> []" "\<forall>e\<in>set es. framed e"
    and g: "19 \<le> ev_header_len (pl_global pl)" and cur: "pl_cur pl = int (length pre)" "pre \<noteq> []"
    and run: "run_events addr fr (length pre) es pl = Some (pl', outs)"
  obtains c where "parseBegin addr fr pl = Some (True, pl'\<lparr>pl_file := c, pl_cur := int (length (pre @ concat es))\<rparr>, outs)"
proof -
  have ne: "concat es \<noteq> []" using es framed_nonempty(1) by (cases es) auto
  have sz: "getFileSize (pl_file pl) = int (length pre + length (concat es))" using at_file_size [OF at] by simp
  have len: "length pre < 2 ^ 31" using at by (simp add: at_file_def)
  obtain c where c: "fileSeek (pl_file pl) (int (length pre)) SEEK_SET = Some (0, c)"
    and at1: "at_file c pre (concat es)" by (rule at_file_seek_set [OF at, of pre "concat es"]) simp
  have at2: "at_file (pl_file (pl\<lparr>pl_file := c\<rparr>)) pre (concat es)" using at1 by simp
  have run1: "run_events addr fr (length pre) es (pl\<lparr>pl_file := c\<rparr>) = Some (pl'\<lparr>pl_file := c\<rparr>, outs)"
    using run by (simp add: run_events_file)
  have g1: "19 \<le> ev_header_len (pl_global (pl\<lparr>pl_file := c\<rparr>))" using g by simp
  obtain c' where p: "parseEvents addr fr (pl\<lparr>pl_file := c\<rparr>) = Some (pl'\<lparr>pl_file := c, pl_file := c'\<rparr>, outs)"
    and at3: "at_file c' (pre @ concat es) []" by (rule parseEvents_run [OF at2 es g1 run1])
  have "\<not> getFileSize (pl_file pl) \<le> pl_cur pl" using sz ne cur by (cases "concat es") auto
  then show ?thesis using that c p at_file_size [OF at3] cur len
    by (simp add: parseBegin_def tell_id)
qed

lemma followed_log:
  assumes hd: "head_ok (pl_global pl) fde hs g" and body: "body_ok es1" "es2 \<noteq> []" "\<forall>e\<in>set es2. framed e"
    and cur: "pl_cur pl = 0"
    and fs: "fs path = Some (log_head fde hs @ concat es1)" "fs' path' = Some (log_head fde hs @ concat (es1 @ es2))"
    and len: "length (log_head fde hs @ concat (es1 @ es2)) < 2 ^ 31"
    and run: "run_events addr fr (length (log_head fde hs)) (es1 @ es2) (pl\<lparr>pl_global := g\<rparr>) = Some (pl', outs)"
  shows "\<exists>pl1 outs1 pl2 outs2. parseBegin addr fr (snd (refreshFileCache fs path pl)) = Some (True, pl1, outs1)
     \<and> parseBegin addr fr (snd (refreshFileCache fs' path' pl1)) = Some (True, pl2, outs2)
     \<and> outs1 @ outs2 = outs \<and> log_state pl2 = log_state pl'"
proof -
  let ?h = "log_head fde hs"
  obtain ql outs1 outs2 where r1: "run_events addr fr (length ?h) es1 (pl\<lparr>pl_global := g\<rparr>) = Some (ql, outs1)"
    and r2: "run_events addr fr (length (?h @ concat es1)) es2 ql = Some (pl', outs2)" and o: "outs = outs1 @ outs2"
    using run unfolding run_events_append by (auto split: bind_splits)
  obtain c1 where c1: "fc_init fs (Some path) (pl_file pl) = (True, c1)" "at_file c1 [] (?h @ concat es1)"
    using at_file_init [of fs path "?h @ concat es1" "pl_file pl"] fs(1) len by auto
  define pa where "pa = pl\<lparr>pl_file := c1\<rparr>"
  have pa: "snd (refreshFileCache fs path pl) = pa" using c1 by (simp add: refreshFileCache_def pa_def)
  have ga: "pa\<lparr>pl_global := g\<rparr> = pl\<lparr>pl_global := g, pl_file := c1\<rparr>" by (cases pl) (simp add: pa_def)
  have ra: "run_events addr fr (length ?h) es1 (pa\<lparr>pl_global := g\<rparr>) = Some (ql\<lparr>pl_file := c1\<rparr>, outs1)"
    unfolding ga using r1 by (simp add: run_events_file)
  obtain c2 where p1: "parseBegin addr fr pa
      = Some (True, ql\<lparr>pl_file := c1, pl_file := c2, pl_cur := int (length (?h @ concat es1))\<rparr>, outs1)"
    using parseBegin_first [OF _ _ body(1) _ ra] c1(2) hd cur by (auto simp: pa_def)
  define pl1 where "pl1 = ql\<lparr>pl_file := c2, pl_cur := int (length (?h @ concat es1))\<rparr>"
  obtain c3 where c3: "fc_init fs' (Some path') (pl_file pl1) = (True, c3)" "at_file c3 [] ((?h @ concat es1) @ concat es2)"
    using at_file_init [of fs' path' "?h @ concat (es1 @ es2)" "pl_file pl1"] fs(2) len by auto
  define pb where "pb = pl1\<lparr>pl_file := c3\<rparr>"
  have pb: "snd (refreshFileCache fs' path' pl1) = pb" using c3 by (simp add: refreshFileCache_def pb_def)
  have "log_state ql = log_state pb" by (simp add: pb_def pl1_def)
  then obtain qb where rb: "run_events addr fr (length (?h @ concat es1)) es2 pb = Some (qb, outs2)" "log_state pl' = log_state qb"
    by (rule run_events_state [OF r2])
  have gb: "19 \<le> ev_header_len (pl_global pb)"
    using run_events_global [OF r1] hd by (simp add: pb_def pl1_def head_ok_def)
  have "?h @ concat es1 \<noteq> []" by (simp add: log_head_def BINLOG_MAGIC_def)
  then obtain c4 where "parseBegin addr fr pb
      = Some (True, qb\<lparr>pl_file := c4, pl_cur := int (length ((?h @ concat es1) @ concat es2))\<rparr>, outs2)"
    using parseBegin_resume [OF _ body(2,3) gb _ _ rb(1)] c3(2) by (auto simp: pb_def pl1_def)
  moreover have "parseBegin addr fr pa = Some (True, pl1, outs1)" using p1 by (simp add: pl1_def)
  ultimately show ?thesis unfolding pa using pb rb(2) o by auto
qed

section \<open>Progress\<close>

definition fc_left :: "file_cache \<Rightarrow> nat" where
  "fc_left c = (case fc_fp c of None \<Rightarrow> 0 | Some f \<Rightarrow> length (st_data f) - st_pos f)"

lemma myFree_simps [simp]: "fc_fp (myFree c) = fc_fp c" "fc_file_size (myFree c) = fc_file_size c"
  by (auto simp: myFree_def split: option.split)

lemma readCache_facts:
  "readCache c n off wh bf = (r, c') \<Longrightarrow> fc_file_size c' = fc_file_size c"
  "readCache_buf c n off wh bf = (ok, bs, c') \<Longrightarrow> fc_file_size c' = fc_file_size c"
  "readCache c n 0 0 False = (Some h, c') \<Longrightarrow> fc_left c' < fc_left c"
  "readCache_buf c n 0 0 False = (True, bs, c') \<Longrightarrow> fc_left c' < fc_left c"
  by (auto simp: readCache_def readCache_buf_def cache_seek_def c_fread_def fc_left_def Let_def split: option.splits prod.splits if_splits)

lemma fileSeek_size: "fileSeek c off wh = Some (r, c') \<Longrightarrow> fc_file_size c' = fc_file_size c"
  by (auto simp: fileSeek_def split: bind_splits prod.splits)

lemma parseOneEvent_size:
  "parseOneEvent addr fr pl = Some (ok, pl1, out) \<Longrightarrow> fc_file_size (pl_file pl1) = fc_file_size (pl_file pl)"
  unfolding parseOneEvent_def Let_def
  by (auto dest!: readCache_facts(1,2) dispatch_keeps(1) split: bind_splits option.splits prod.splits if_splits)

lemma parseOneEvent_progress:
  "parseOneEvent addr fr pl = Some (True, pl1, out) \<Longrightarrow> fc_left (pl_file pl1) < fc_left (pl_file pl)"
  unfolding parseOneEvent_def Let_def
  by (auto dest!: readCache_facts(3,4) dispatch_keeps(1) split: bind_splits option.splits prod.splits if_splits)

lemma events_loop_more:
  assumes "fc_left (pl_file pl) < n" "n \<le> m"
  shows "events_loop m addr fr pl outs = events_loop n addr fr pl outs"
  using assms
proof (induction n arbitrary: m pl outs)
  case (Suc n)
  obtain k where m: "m = Suc k" "n \<le> k" using Suc.prems(2) by (cases m) auto
  have "events_loop k addr fr pl1 o1 = events_loop n addr fr pl1 o1"
    if "parseOneEvent addr fr pl = Some (True, pl1, out)" for pl1 out o1
    using parseOneEvent_progress [OF that] Suc.prems(1) m by (intro Suc.IH) simp_all
  then show ?case unfolding m by (auto split: bind_split simp: Let_def)
qed simp

lemma events_loop_enough: "Suc (file_bytes pl) \<le> n \<Longrightarrow> events_loop n addr fr pl [] = parseEvents addr fr pl"
  unfolding parseEvents_def
  by (rule events_loop_more) (auto simp: file_bytes_def fc_left_def split: option.split)

lemma events_loop_size:
  "events_loop n addr fr pl outs = Some (pl', outs') \<Longrightarrow> fc_file_size (pl_file pl') = fc_file_size (pl_file pl)"
  by (induction n arbitrary: pl outs) (auto simp: Let_def parseOneEvent_size split: bind_splits if_splits)

lemma header_loop_size:
  "header_loop n pl = Some (ok, pl') \<Longrightarrow> fc_file_size (pl_file pl') = fc_file_size (pl_file pl)"
proof (induction n arbitrary: pl)
  case (Suc n)
  from Suc.prems show ?case
    by (auto simp: Let_def dest!: readCache_facts(1) fileSeek_size Suc.IH split: bind_splits option.splits prod.splits if_splits)
qed simp

lemma checkHeader_size:
  "checkHeader pl = Some (ok, pl') \<Longrightarrow> fc_file_size (pl_file pl') = fc_file_size (pl_file pl)"
  unfolding checkHeader_def
  by (auto simp del: header_loop.simps dest!: readCache_facts(1) header_loop_size split: option.splits prod.splits if_splits)

lemma parseEvents_size:
  "parseEvents addr fr pl = Some (pl', outs) \<Longrightarrow> fc_file_size (pl_file pl') = fc_file_size (pl_file pl)"
  unfolding parseEvents_def by (rule events_loop_size)

lemma parseBegin_cur:
  assumes "parseBegin addr fr pl = Some (True, pl', outs)"
  shows "getFileSize (pl_file pl) \<le> pl_cur pl'"
  using assms unfolding parseBegin_def
  by (auto simp: getFileSize_def dest!: parseEvents_size checkHeader_size fileSeek_size split: bind_splits if_splits prod.splits)

lemma refreshFileCache_open:
  assumes "fs path = Some d" "length d < 2 ^ 31"
  obtains c where "refreshFileCache fs path pl = (True, pl\<lparr>pl_file := c\<rparr>)" "at_file c [] d"
proof -
  obtain c where "fc_init fs (Some path) (pl_file pl) = (True, c)" "at_file c [] d"
    by (rule at_file_init [where fs = fs and path = path and d = d and c = "pl_file pl"]) (use assms in auto)
  then show ?thesis using that [of c] by (simp add: refreshFileCache_def)
qed

text \<open>A file that ends inside an event.\<close>

lemma parseOneEvent_part:
  assumes at: "at_file (pl_file pl) pre (take k e)" and e: "framed e" "k < length e" "length e < 2 ^ 31"
    and g: "19 \<le> ev_header_len (pl_global pl)"
  obtains c where "parseOneEvent addr fr pl = Some (False, pl\<lparr>pl_file := c\<rparr>, None)"
proof (cases "k < 19")
  case True
  then have "length (take k e) < 19" by simp
  then obtain c where "readCache (pl_file pl) 19 0 0 False = (None, c)" by (rule at_file_short [OF at])
  then show ?thesis using that g at_file_tell [OF at]
    by (simp add: parseOneEvent_def entry_consts min_absorb2)
next
  case False
  have sp: "take k e = take 19 e @ drop 19 (take k e)" using False e(2) by (metis append_take_drop_id linorder_not_le min.absorb1 nle_le take_take)
  have l: "take 19 e \<noteq> []" "length (take 19 e) = 19" using framed_nonempty [OF e(1)] by auto
  obtain c where c: "readCache (pl_file pl) (length (take 19 e)) 0 0 False = (Some (take 19 e), c)"
    and at1: "at_file c (pre @ take 19 e) (drop 19 (take k e))"
    using at_file_read [of "pl_file pl" pre "take 19 e" "drop 19 (take k e)"] at l(1) sp by metis
  have "length (drop 19 (take k e)) < length e - 19" using e(2) False by simp
  then obtain bs c' where "readCache_buf c (length e - 19) 0 0 False = (False, bs, c')" by (rule at_file_short_buf [OF at1])
  then show ?thesis using that g at_file_tell [OF at] c framed_head(1) [OF e(1)] e(3) framed_nonempty(2) [OF e(1)] l(2)
    by (simp add: parseOneEvent_def entry_consts min_absorb2 nat_diff_distrib' del: length_take)
qed

lemma parseBegin_part:
  assumes at: "at_file (pl_file pl) [] (pre @ concat es @ take k e)" and es: "\<forall>e\<in>set es. framed e"
    and e: "framed e" "0 < k" "k < length e" "length e < 2 ^ 31"
    and g: "19 \<le> ev_header_len (pl_global pl)" and cur: "pl_cur pl = int (length pre)" "pre \<noteq> []"
    and run: "run_events addr fr (length pre) es pl = Some (pl', outs)"
  obtains c where "parseBegin addr fr pl = Some (True, pl'\<lparr>pl_file := c, pl_cur := int (length (pre @ concat es @ take k e))\<rparr>, outs)"
proof -
  let ?part = "take k e"
  have ne: "?part \<noteq> []" using e by auto
  have sz: "getFileSize (pl_file pl) = int (length (pre @ concat es @ ?part))" using at_file_size [OF at] by simp
  have len: "length pre < 2 ^ 31" using at by (simp add: at_file_def)
  obtain c where c: "fileSeek (pl_file pl) (int (length pre)) SEEK_SET = Some (0, c)"
    and at1: "at_file c pre (concat es @ ?part)" by (rule at_file_seek_set [OF at, of pre "concat es @ ?part"]) simp
  define pl0 where "pl0 = pl\<lparr>pl_file := c\<rparr>"
  have at2: "at_file (pl_file pl0) pre (concat es @ ?part)" using at1 by (simp add: pl0_def)
  have run1: "run_events addr fr (length pre) es pl0 = Some (pl'\<lparr>pl_file := c\<rparr>, outs)"
    using run by (simp add: run_events_file pl0_def)
  have g1: "19 \<le> ev_header_len (pl_global pl0)" using g by (simp add: pl0_def)
  have fuel: "Suc (file_bytes pl0) = length es + Suc (file_bytes pl0 - length es)"
    using length_concat_framed [OF es] at1 by (simp add: file_bytes_def at_file_def pl0_def)
  obtain c1 where c1: "events_loop (length es + Suc (file_bytes pl0 - length es)) addr fr pl0 []
      = events_loop (Suc (file_bytes pl0 - length es)) addr fr (pl'\<lparr>pl_file := c, pl_file := c1\<rparr>) ([] @ outs)"
    and at3: "at_file c1 (pre @ concat es) ?part"
    by (rule events_loop_run [OF at2 ne es g1 run1])
  have at4: "at_file (pl_file (pl'\<lparr>pl_file := c1\<rparr>)) (pre @ concat es) ?part" using at3 by simp
  have g2: "19 \<le> ev_header_len (pl_global (pl'\<lparr>pl_file := c1\<rparr>))" using g run_events_global [OF run] by simp
  obtain c2 where c2: "parseOneEvent addr fr (pl'\<lparr>pl_file := c1\<rparr>) = Some (False, pl'\<lparr>pl_file := c1, pl_file := c2\<rparr>, None)"
    by (rule parseOneEvent_part [OF at4 e(1,3,4) g2])
  have p: "parseEvents addr fr pl0 = Some (pl'\<lparr>pl_file := c2\<rparr>, outs)"
    using c1 c2 by (simp add: parseEvents_def fuel del: add_Suc_right)
  have "getFileSize c2 = getFileSize (pl_file pl)"
    using parseEvents_size [OF p] fileSeek_size [OF c] by (simp add: pl0_def getFileSize_def)
  moreover have "\<not> getFileSize (pl_file pl) \<le> pl_cur pl" using sz ne cur by (cases "take k e") auto
  ultimately show ?thesis using that c p sz cur len by (simp add: parseBegin_def tell_id pl0_def)
qed

lemma parseBegin_inside:
  assumes at: "at_file (pl_file pl) [] (pre @ rest)" and cur: "pl_cur pl = int (length pre)" "pre \<noteq> []" "rest \<noteq> []"
  obtains c where "at_file c pre rest"
    "parseBegin addr fr pl = map_option (\<lambda>(p, outs). (True, p\<lparr>pl_cur := getFileSize (pl_file p)\<rparr>, outs)) (parseEvents addr fr (pl\<lparr>pl_file := c\<rparr>))"
proof -
  obtain c where c: "fileSeek (pl_file pl) (int (length pre)) SEEK_SET = Some (0, c)" "at_file c pre rest"
    by (rule at_file_seek_set [OF at, of pre rest]) simp
  have "\<not> getFileSize (pl_file pl) \<le> pl_cur pl" "length pre < 2 ^ 31"
    using at_file_size [OF at] cur at by (auto simp: at_file_def)
  with c cur that show ?thesis
    by (simp add: parseBegin_def tell_id map_option_case split: option.split)
qed


text \<open>C14: a half-written event. When a call finds the file ending inside an event, it succeeds and takes the
  end of the file as the place to go on from: the next call, on the completed file, starts in the middle
  of that event and takes the bytes there for an event header.\<close>

theorem half_written_event_skipped:
  assumes "at_file (pl_file pl) [] (pre @ concat es @ take k e)" "\<forall>e\<in>set es. framed e"
    "framed e" "0 < k" "k < length e" "length e < 2 ^ 31" "19 \<le> ev_header_len (pl_global pl)"
    "pl_cur pl = int (length pre)" "pre \<noteq> []" "run_events addr fr (length pre) es pl = Some (pl', outs)"
    "fs path = Some (pre @ concat es @ e @ rest)" "length (pre @ concat es @ e @ rest) < 2 ^ 31"
  shows "\<exists>pl1 c. parseBegin addr fr pl = Some (True, pl1, outs)
     \<and> at_file c (pre @ concat es @ take k e) (drop k e @ rest)
     \<and> parseBegin addr fr (snd (refreshFileCache fs path pl1))
        = map_option (\<lambda>(p, outs). (True, p\<lparr>pl_cur := getFileSize (pl_file p)\<rparr>, outs)) (parseEvents addr fr (pl1\<lparr>pl_file := c\<rparr>))"
proof -
  let ?p = "pre @ concat es @ take k e"
  obtain c where c: "parseBegin addr fr pl = Some (True, pl'\<lparr>pl_file := c, pl_cur := int (length ?p)\<rparr>, outs)"
    using parseBegin_part [OF assms(1-10)] by blast
  define pl1 where "pl1 = pl'\<lparr>pl_file := c, pl_cur := int (length ?p)\<rparr>"
  obtain c1 where c1: "refreshFileCache fs path pl1 = (True, pl1\<lparr>pl_file := c1\<rparr>)" "at_file c1 [] (pre @ concat es @ e @ rest)"
    by (rule refreshFileCache_open [of fs path "pre @ concat es @ e @ rest"]) (use assms(11,12) in auto)
  have at: "at_file (pl_file (pl1\<lparr>pl_file := c1\<rparr>)) [] (?p @ (drop k e @ rest))"
    using c1(2) by simp (metis append_assoc append_take_drop_id)
  have ne: "?p \<noteq> []" "drop k e @ rest \<noteq> []" using assms(5,9) by auto
  have cur: "pl_cur (pl1\<lparr>pl_file := c1\<rparr>) = int (length ?p)" by (simp add: pl1_def)
  obtain c2 where "at_file c2 ?p (drop k e @ rest)"
    "parseBegin addr fr (pl1\<lparr>pl_file := c1\<rparr>) = map_option (\<lambda>(p, outs). (True, p\<lparr>pl_cur := getFileSize (pl_file p)\<rparr>, outs))
       (parseEvents addr fr (pl1\<lparr>pl_file := c1, pl_file := c2\<rparr>))"
    by (rule parseBegin_inside [OF at cur ne])
  then show ?thesis using c c1(1) by (auto simp: pl1_def)
qed

text \<open>A rotated log. After a call that returned true, a new file that is not longer than the one
  just read is taken for the old one: the next call returns true and produces nothing, although the
  parser resets its place at a stop event, because the call that met the stop event stores the size of
  the file over it.\<close>

lemma rotated_log_missed:
  assumes "parseBegin addr fr pl = Some (True, pl1, outs)" "fs path = Some d" "d \<noteq> []"
    "length d < 2 ^ 31" "int (length d) \<le> getFileSize (pl_file pl)"
  shows "parseBegin addr fr (snd (refreshFileCache fs path pl1)) = Some (True, snd (refreshFileCache fs path pl1), [])"
proof -
  obtain c where c: "refreshFileCache fs path pl1 = (True, pl1\<lparr>pl_file := c\<rparr>)" "at_file c [] d"
    by (rule refreshFileCache_open [where fs = fs and path = path and d = d]) (use assms in auto)
  have "int (length d) \<le> pl_cur pl1" "getFileSize c = int (length d)"
    using parseBegin_cur [OF assms(1)] assms(5) at_file_size [OF c(2)] by auto
  moreover have "0 < int (length d)" using assms(3) by simp
  ultimately have "pl_cur pl1 \<noteq> 0" "getFileSize c \<le> pl_cur pl1" by linarith+
  then show ?thesis using c(1) by (simp add: parseBegin_def)
qed

text \<open>C15: the loop over the events ends. Every event that is parsed leaves less of the file to read, so
  the loop needs at most one round per byte: any larger bound gives the same result.\<close>

theorem events_loop_ends:
  "(parseOneEvent addr fr pl = Some (True, pl1, out) \<longrightarrow> fc_left (pl_file pl1) < fc_left (pl_file pl))
   \<and> (\<forall>n\<ge>Suc (file_bytes pl). events_loop n addr fr pl [] = parseEvents addr fr pl)"
  using parseOneEvent_progress events_loop_enough by blast

definition sample_fde :: buffer where
  "sample_fde = put_header 0 15 1 114 114 0 @ [4, 0] @ replicate 50 0 @ [0, 0, 0, 0, 19] @ replicate 18 0 @ [8] @ replicate 19 10"

definition sample_note :: "int \<Rightarrow> buffer" where
  "sample_note t = put_header 0 t 1 20 0 0 @ [7]"

definition sample_global :: header_event where
  "sample_global = \<lparr>ev_timestamp = 0, ev_type = 0, ev_server_id = 0, ev_size = 0, ev_next_pos = 0, ev_pos = 0,
     ev_flags = 0, ev_header_len = 0, he_post_header_len = [], he_create_timestamp = 0, he_binlog_version = 0,
     he_szversion = []\<rparr>"

definition sample_loaded :: header_event where
  "sample_loaded = \<lparr>ev_timestamp = 0, ev_type = 15, ev_server_id = 1, ev_size = 114, ev_next_pos = 114, ev_pos = 0,
     ev_flags = 0, ev_header_len = 19, he_post_header_len = replicate 18 0 @ [8] @ replicate 19 10, he_create_timestamp = 0,
     he_binlog_version = 4, he_szversion = replicate 50 0\<rparr>"

lemma sample_head_ok: "head_ok sample_global sample_fde [sample_note 35] sample_loaded"
  by code_simp

lemma sample_note_ok: "framed (sample_note 16)" "framed (sample_note 3)" "body_ok [sample_note 16]"
  "event_code (sample_note 16) = 16" "event_code (sample_note 3) = 3" "length (sample_note t) = 20"
  "length (log_head sample_fde [sample_note 35]) = 138"
  by code_simp+

definition sample_fresh :: fresh_events where
  "sample_fresh = \<lparr>fr_query = \<lparr>ev_timestamp = 0, ev_type = 2, ev_server_id = 1, ev_size = 0, ev_next_pos = 0,
     ev_pos = 4, ev_flags = 0, ev_header_len = 19, qe_thread_id = 5, qe_exec_time = 0, qe_schema_length = 0,
     qe_error_code = 0, qe_statusvars_length = 0, qe_schema_name = []\<rparr>,
     fr_map = sample_table_map, fr_rows = sample_rows_event WRITE_ROWS_EVENT 0\<rparr>"

definition sample_cache :: "buffer \<Rightarrow> file_cache" where
  "sample_cache d = \<lparr>fc_fp = Some \<lparr>st_data = d, st_pos = 0, st_eof = False\<rparr>, fc_offset = 0, fc_where = 0,
     fc_cache = None, fc_file_size = int (length d)\<rparr>"

definition sample_head :: buffer where
  "sample_head = log_head sample_fde [sample_note 35]"

lemma sample_head_length: "length sample_head = 138" "sample_head \<noteq> []"
  by (simp_all add: sample_head_def sample_note_ok) (simp add: log_head_def BINLOG_MAGIC_def)

lemma sample_cache_at: "length d < 2 ^ 31 \<Longrightarrow> at_file (sample_cache d) [] d"
  by (simp add: sample_cache_def at_file_def)

lemma sample_run: "run_events addr fr p [sample_note 16] pl = Some (pl, [])"
  "run_events addr fr p ([sample_note 16] @ [sample_note 3]) pl = Some (pl\<lparr>pl_cur := 0\<rparr>, [])"
  by (simp_all add: dispatch_def sample_note_ok event_types)


theorem half_written_event_skipped_witness:
  "\<exists>pl1 c. parseBegin (\<lambda>_. 0) sample_fresh ((new_parse_log (sample_cache (sample_head @ take 5 (sample_note 16))) sample_loaded)\<lparr>pl_cur := 138\<rparr>)
       = Some (True, pl1, [])
     \<and> at_file c (sample_head @ take 5 (sample_note 16)) (drop 5 (sample_note 16))"
proof -
  let ?pl = "(new_parse_log (sample_cache (sample_head @ take 5 (sample_note 16))) sample_loaded)\<lparr>pl_cur := 138\<rparr>"
  have "\<exists>pl1 c. parseBegin (\<lambda>_. 0) sample_fresh ?pl = Some (True, pl1, [])
     \<and> at_file c (sample_head @ concat [] @ take 5 (sample_note 16)) (drop 5 (sample_note 16) @ [])
     \<and> parseBegin (\<lambda>_. 0) sample_fresh (snd (refreshFileCache (\<lambda>_. Some (sample_head @ sample_note 16)) ''log'' pl1))
        = map_option (\<lambda>(p, outs). (True, p\<lparr>pl_cur := getFileSize (pl_file p)\<rparr>, outs))
            (parseEvents (\<lambda>_. 0) sample_fresh (pl1\<lparr>pl_file := c\<rparr>))"
    by (rule half_written_event_skipped [of ?pl sample_head "[]" 5 "sample_note 16" "\<lambda>_. 0" sample_fresh ?pl])
       (use sample_cache_at [of "sample_head @ take 5 (sample_note 16)"] sample_head_length in
         \<open>auto simp: new_parse_log_def sample_note_ok sample_head_length sample_loaded_def\<close>)
  then show ?thesis by auto
qed

lemma rotated_log_missed_witness:
  "parseBegin (\<lambda>_. 0) sample_fresh (snd (refreshFileCache (\<lambda>_. Some (sample_note 16)) ''log.2''
      ((new_parse_log (sample_cache sample_head) sample_loaded)\<lparr>pl_cur := 138\<rparr>)))
    = Some (True, snd (refreshFileCache (\<lambda>_. Some (sample_note 16)) ''log.2''
      ((new_parse_log (sample_cache sample_head) sample_loaded)\<lparr>pl_cur := 138\<rparr>)), [])"
proof (rule rotated_log_missed)
  have s: "getFileSize (sample_cache sample_head) = 138"
    by (simp add: getFileSize_def sample_cache_def sample_head_length u32_id)
  show "parseBegin (\<lambda>_. 0) sample_fresh ((new_parse_log (sample_cache sample_head) sample_loaded)\<lparr>pl_cur := 138\<rparr>)
      = Some (True, (new_parse_log (sample_cache sample_head) sample_loaded)\<lparr>pl_cur := 138\<rparr>, [])"
    by (simp add: parseBegin_def new_parse_log_def s)
  show "int (length (sample_note 16)) \<le> getFileSize (pl_file ((new_parse_log (sample_cache sample_head) sample_loaded)\<lparr>pl_cur := 138\<rparr>))"
    by (simp add: new_parse_log_def s sample_note_ok)
qed (use sample_note_ok(1) framed_nonempty in \<open>auto simp: sample_note_ok\<close>)

theorem events_loop_ends_witness:
  "events_loop 500 (\<lambda>_. 0) sample_fresh (new_parse_log (sample_cache (sample_note 16)) sample_loaded) []
    = parseEvents (\<lambda>_. 0) sample_fresh (new_parse_log (sample_cache (sample_note 16)) sample_loaded)"
  using events_loop_ends [of "\<lambda>_. 0" sample_fresh "new_parse_log (sample_cache (sample_note 16)) sample_loaded"]
  by (simp add: file_bytes_def new_parse_log_def sample_cache_def sample_note_ok)

end
