(* ===== verification/Configfile.thy ===== *)
theory Configfile
  imports DS_Prelude
begin

text \<open>
  The reader of configuration files, \<open>syncshare/Config.cpp\<close>: sections in brackets, one \<open>key=value\<close>
  per line, comments behind \<open>#\<close> and \<open>//\<close>. The file is read with \<open>fgets\<close> into a buffer of 150
  characters; the C string in it, without its terminating zero, is what the scanning loops work on.

  \<open>GetConfigStringValue\<close> returns the result code and, on success, the value it stores.
\<close>

definition SUCCESS :: int where "SUCCESS = 0"
definition FILENAME_NOTEXIST :: int where "FILENAME_NOTEXIST = 2"
definition SECTIONNAME_NOTEXIST :: int where "SECTIONNAME_NOTEXIST = 3"
definition KEYNAME_NOTEXIST :: int where "KEYNAME_NOTEXIST = 4"
definition STRING_LENNOTEQUAL :: int where "STRING_LENNOTEQUAL = 5"
definition STRING_NOTEQUAL :: int where "STRING_NOTEQUAL = 6"
definition STRING_EQUAL :: int where "STRING_EQUAL = 0"

named_theorems config_codes
declare SUCCESS_def [config_codes] FILENAME_NOTEXIST_def [config_codes] SECTIONNAME_NOTEXIST_def [config_codes]
  KEYNAME_NOTEXIST_def [config_codes] STRING_LENNOTEQUAL_def [config_codes] STRING_NOTEQUAL_def [config_codes]
  STRING_EQUAL_def [config_codes]

section \<open>Lines\<close>

text \<open>What \<open>fgets\<close> with a buffer of \<open>n\<close> characters takes from the rest of a file, and what it leaves.\<close>

definition fgets_line :: "nat \<Rightarrow> buffer \<Rightarrow> buffer" where
  "fgets_line n fd = (let l = takeWhile (\<lambda>b. b \<noteq> 10) fd in
     if length l < length fd \<and> length l + 1 \<le> n - 1 then l @ [10] else take (n - 1) l)"

definition fgets_rest :: "nat \<Rightarrow> buffer \<Rightarrow> buffer" where
  "fgets_rest n fd = drop (length (fgets_line n fd)) fd"

abbreviation blank :: "uchar \<Rightarrow> bool" where "blank b \<equiv> b = 32 \<or> b = 9"
abbreviation skip_blanks :: "buffer \<Rightarrow> buffer" where "skip_blanks \<equiv> dropWhile (\<lambda>b. b = 32 \<or> b = 9)"

text \<open>Removing characters at the end.\<close>

definition strip_end :: "(uchar \<Rightarrow> bool) \<Rightarrow> buffer \<Rightarrow> buffer" where
  "strip_end P s = rev (dropWhile P (rev s))"

fun cmp_loop :: "buffer \<Rightarrow> buffer \<Rightarrow> int" where
  "cmp_loop (a # s) (b # t) = (if a = b then cmp_loop s t else STRING_NOTEQUAL)"
| "cmp_loop [] t = STRING_EQUAL"
| "cmp_loop (a # s) [] = STRING_NOTEQUAL"

definition CompareString :: "buffer \<Rightarrow> buffer \<Rightarrow> int" where
  "CompareString s t = (if length s \<noteq> length t then STRING_LENNOTEQUAL else cmp_loop s t)"

section \<open>Keys\<close>

text \<open>A value ends at the end of the line or at a comment.\<close>

fun value_of :: "buffer \<Rightarrow> buffer" where
  "value_of [] = []"
| "value_of (b # s) =
     (if b = 13 \<or> b = 10 then []
      else if b = 47 \<and> s \<noteq> [] \<and> hd s = 47 then []
      else b # value_of s)"

datatype line_kind = Skipped | Section_start | Key_value buffer buffer

text \<open>One round of the loop of \<open>GetKeyValue\<close> up to the comparison of the key.\<close>

definition key_line :: "buffer \<Rightarrow> line_kind" where
  "key_line szBuffer = (let s = skip_blanks (c_str szBuffer) in
     if s = [] then Skipped
     else if hd s = 35 then Skipped
     else if hd s = 47 \<and> take 1 (tl s) = [47] then Skipped
     else if hd s = 13 \<or> hd s = 10 then Skipped
     else if hd s = 91 \<and> 93 \<in> set s then Section_start
     else (let k = takeWhile (\<lambda>b. b \<noteq> 61) s in
           if length k = length s then Skipped
           else if k = [] then Skipped
           else Key_value (strip_end (\<lambda>b. b = 32 \<or> b = 9) k) (drop (length k + 1) s)))"

lemma fgets_rest_less: "fd \<noteq> [] \<Longrightarrow> 1 < n \<Longrightarrow> length (fgets_rest n fd) < length fd"
  by (cases fd) (auto simp: fgets_rest_def fgets_line_def Let_def take_Cons' split: if_splits)

function GetKeyValue :: "buffer \<Rightarrow> buffer \<Rightarrow> int \<times> buffer option" where
  "GetKeyValue fd pInKeyName =
     (if fd = [] then (KEYNAME_NOTEXIST, None)
      else (case key_line (fgets_line 150 fd) of
          Skipped \<Rightarrow> GetKeyValue (fgets_rest 150 fd) pInKeyName
        | Section_start \<Rightarrow> (KEYNAME_NOTEXIST, None)
        | Key_value k v \<Rightarrow>
            if CompareString k pInKeyName = 0 then (SUCCESS, Some (value_of (skip_blanks v)))
            else GetKeyValue (fgets_rest 150 fd) pInKeyName))"
  by pat_completeness auto
termination
  by (relation "measure (\<lambda>(fd, k). length fd)") (simp_all add: fgets_rest_less)

declare GetKeyValue.simps [simp del]

section \<open>Sections\<close>

text \<open>The name in brackets, if the line has one. The blanks behind the opening bracket are skipped; from the
  closing bracket the code steps back over spaces. When there is nothing else between the brackets this goes
  behind the start of the name, and the name is then what follows from the closing bracket on.\<close>

definition section_line :: "buffer \<Rightarrow> buffer option" where
  "section_line szBuffer = (let s = skip_blanks (c_str szBuffer) in
     if s = [] \<or> hd s \<noteq> 91 then None
     else (let t = skip_blanks (tl s); k = takeWhile (\<lambda>b. b \<noteq> 93) t in
           if length k = length t then None
           else if k \<noteq> [] then Some (strip_end (\<lambda>b. b = 32) k)
           else if last (takeWhile (\<lambda>b. b \<noteq> 93) s) = 32 then Some t
           else Some []))"

function sections_loop :: "buffer \<Rightarrow> buffer \<Rightarrow> buffer \<Rightarrow> int \<times> buffer option" where
  "sections_loop fd pInSectionName pInKeyName =
     (if fd = [] then (SECTIONNAME_NOTEXIST, None)
      else (case section_line (fgets_line 150 fd) of
          None \<Rightarrow> sections_loop (fgets_rest 150 fd) pInSectionName pInKeyName
        | Some name \<Rightarrow>
            if CompareString name pInSectionName = 0 then GetKeyValue (fgets_rest 150 fd) pInKeyName
            else sections_loop (fgets_rest 150 fd) pInSectionName pInKeyName))"
  by pat_completeness auto
termination
  by (relation "measure (\<lambda>(fd, s, k). length fd)") (simp_all add: fgets_rest_less)

declare sections_loop.simps [simp del]

definition GetConfigStringValue :: "buffer option \<Rightarrow> buffer \<Rightarrow> buffer \<Rightarrow> int \<times> buffer option" where
  "GetConfigStringValue file pInSectionName pInKeyName =
     (case file of None \<Rightarrow> (FILENAME_NOTEXIST, None) | Some fd \<Rightarrow> sections_loop fd pInSectionName pInKeyName)"

section \<open>Numbers\<close>

text \<open>The conversions \<open>%d\<close> and \<open>%x\<close> of \<open>sscanf\<close>: the value, or nothing when there is no digit.\<close>

abbreviation c_isspace :: "uchar \<Rightarrow> bool" where "c_isspace b \<equiv> b = 32 \<or> 9 \<le> b \<and> b \<le> 13"
abbreviation c_isdigit :: "uchar \<Rightarrow> bool" where "c_isdigit b \<equiv> 48 \<le> b \<and> b \<le> 57"

definition hex_digit :: "uchar \<Rightarrow> int option" where
  "hex_digit b = (if c_isdigit b then Some (uint b - 48) else if 65 \<le> b \<and> b \<le> 70 then Some (uint b - 55)
     else if 97 \<le> b \<and> b \<le> 102 then Some (uint b - 87) else None)"

definition dec_value :: "buffer \<Rightarrow> int" where "dec_value ds = foldl (\<lambda>a d. a * 10 + (uint d - 48)) 0 ds"
definition hex_value :: "buffer \<Rightarrow> int" where "hex_value ds = foldl (\<lambda>a d. a * 16 + the (hex_digit d)) 0 ds"

definition scan_sign :: "buffer \<Rightarrow> int \<times> buffer" where
  "scan_sign s = (case s of [] \<Rightarrow> (1, []) | b # t \<Rightarrow> if b = 45 then (-1, t) else if b = 43 then (1, t) else (1, s))"

definition scan_d :: "buffer \<Rightarrow> int option" where
  "scan_d str = (let (sg, s) = scan_sign (dropWhile (\<lambda>b. c_isspace b) str); ds = takeWhile (\<lambda>b. c_isdigit b) s in
     if ds = [] then None else Some (s32 (sg * dec_value ds)))"

definition scan_x :: "buffer \<Rightarrow> int option" where
  "scan_x str = (let (sg, s) = scan_sign (dropWhile (\<lambda>b. c_isspace b) str);
       s' = (if take 1 s = [48] \<and> (take 1 (tl s) = [120] \<or> take 1 (tl s) = [88]) \<and>
               (case drop 2 s of [] \<Rightarrow> False | d # _ \<Rightarrow> hex_digit d \<noteq> None) then drop 2 s else s);
       ds = takeWhile (\<lambda>b. hex_digit b \<noteq> None) s' in
     if ds = [] then None else Some (s32 (sg * hex_value ds)))"

text \<open>The value is copied into a buffer of 16 characters: a longer one is written behind it, \<open>None\<close>. A text
  without a number leaves the variable of the caller as it was.\<close>

definition GetConfigIntValue :: "buffer option \<Rightarrow> buffer \<Rightarrow> buffer \<Rightarrow> (int \<times> int option) option" where
  "GetConfigIntValue file pInSectionName pInKeyName =
     (case GetConfigStringValue file pInSectionName pInKeyName of
        (rc, None) \<Rightarrow> Some (rc, None)
      | (rc, Some szKeyValue) \<Rightarrow>
          if length szKeyValue \<ge> 16 then None
          else (let p = skip_blanks szKeyValue in
                if take 1 p = [48] \<and> (take 1 (tl p) = [120] \<or> take 1 (tl p) = [88]) then Some (SUCCESS, scan_x (drop 2 p))
                else Some (SUCCESS, scan_d p)))"

section \<open>Configuration files as finite maps\<close>

text \<open>A well-formed file: sections with a name and a list of keys and values.\<close>

type_synonym config = "(buffer \<times> (buffer \<times> buffer) list) list"

definition key_text :: "buffer \<times> buffer \<Rightarrow> buffer" where
  "key_text kv = fst kv @ 61 # snd kv @ [10]"

definition section_text :: "buffer \<times> (buffer \<times> buffer) list \<Rightarrow> buffer" where
  "section_text s = 91 # fst s @ 93 # 10 # concat (map key_text (snd s))"

definition config_text :: "config \<Rightarrow> buffer" where
  "config_text cfg = concat (map section_text cfg)"

definition name_ok :: "buffer \<Rightarrow> bool" where
  "name_ok n \<longleftrightarrow> n \<noteq> [] \<and> hd n \<noteq> 32 \<and> hd n \<noteq> 9 \<and> last n \<noteq> 32 \<and> set n \<inter> {0, 10, 93} = {} \<and> length n \<le> 146"

definition key_ok :: "buffer \<Rightarrow> bool" where
  "key_ok k \<longleftrightarrow> k \<noteq> [] \<and> hd k \<notin> {9, 13, 32, 35, 91} \<and> take 2 k \<noteq> [47, 47] \<and> last k \<noteq> 32 \<and> last k \<noteq> 9 \<and>
     set k \<inter> {0, 10, 61} = {}"

definition value_ok :: "buffer \<Rightarrow> bool" where
  "value_ok v \<longleftrightarrow> (v \<noteq> [] \<longrightarrow> hd v \<noteq> 32 \<and> hd v \<noteq> 9) \<and> set v \<inter> {0, 10, 13} = {} \<and>
     successively (\<lambda>a b. \<not> (a = 47 \<and> b = 47)) v"

definition config_ok :: "config \<Rightarrow> bool" where
  "config_ok cfg \<longleftrightarrow> list_all (\<lambda>(n, kvs). name_ok n \<and>
     list_all (\<lambda>(k, v). key_ok k \<and> value_ok v \<and> length k + length v \<le> 147) kvs) cfg"

lemma fgets_text:
  assumes "10 \<notin> set l" "length l \<le> 148"
  shows "fgets_line 150 (l @ 10 # r) = l @ [10]" "fgets_rest 150 (l @ 10 # r) = r"
proof -
  have "takeWhile (\<lambda>b. b \<noteq> 10) (l @ 10 # r) = l" using assms by (subst takeWhile_append2) auto
  then show "fgets_line 150 (l @ 10 # r) = l @ [10]" using assms by (simp add: fgets_line_def)
  then show "fgets_rest 150 (l @ 10 # r) = r" by (simp add: fgets_rest_def)
qed

lemma strip_end_id: "s = [] \<or> \<not> P (last s) \<Longrightarrow> strip_end P s = s"
  by (cases s rule: rev_cases) (auto simp: strip_end_def)

lemma CompareString_eq: "CompareString s t = 0 \<longleftrightarrow> s = t"
proof -
  have "length s = length t \<Longrightarrow> cmp_loop s t = 0 \<longleftrightarrow> s = t"
    by (induction s t rule: list_induct2) (auto simp: config_codes)
  then show ?thesis by (auto simp: CompareString_def config_codes)
qed

lemma value_of_text: "set v \<inter> {0, 10, 13} = {} \<Longrightarrow> successively (\<lambda>a b. \<not> (a = 47 \<and> b = 47)) v \<Longrightarrow> value_of (v @ [10]) = v"
  by (induction v rule: value_of.induct) (auto simp: successively_Cons hd_append)

lemma value_text: "value_ok v \<Longrightarrow> value_of (skip_blanks (v @ [10])) = v"
  using value_of_text [of v] by (cases v) (auto simp: value_ok_def)

lemma key_text_line:
  assumes "key_ok k" "value_ok v" "length k + length v \<le> 147"
  shows "fgets_line 150 (key_text (k, v) @ r) = key_text (k, v)" "fgets_rest 150 (key_text (k, v) @ r) = r"
    "key_line (key_text (k, v)) = Key_value k (v @ [10])" "section_line (key_text (k, v)) = None"
proof -
  from assms(1) obtain a k' where k: "k = a # k'" by (cases k) (auto simp: key_ok_def)
  have E: "key_text (k, v) @ r = (k @ 61 # v) @ 10 # r" for r by (simp add: key_text_def)
  have N: "10 \<notin> set (k @ 61 # v)" using assms by (auto simp: key_ok_def value_ok_def)
  have L: "length (k @ 61 # v) \<le> 148" using assms(3) by simp
  show "fgets_line 150 (key_text (k, v) @ r) = key_text (k, v)" "fgets_rest 150 (key_text (k, v) @ r) = r"
    unfolding E by (simp_all only: fgets_text [OF N L]) (simp add: key_text_def)
  have C: "c_str (key_text (k, v)) = key_text (k, v)" using assms by (auto simp: key_text_def key_ok_def value_ok_def)
  have S: "skip_blanks (key_text (k, v)) = key_text (k, v)" using assms(1) by (auto simp: key_text_def key_ok_def k)
  show "section_line (key_text (k, v)) = None"
    using assms(1) unfolding section_line_def C S by (auto simp: key_text_def key_ok_def k)
  have T: "takeWhile (\<lambda>b. b \<noteq> 61) (key_text (k, v)) = k"
    unfolding key_text_def using assms(1) by (subst takeWhile_append2) (auto simp: key_ok_def)
  have "strip_end (\<lambda>b. b = 32 \<or> b = 9) k = k" using assms(1) by (intro strip_end_id) (simp add: key_ok_def)
  with T show "key_line (key_text (k, v)) = Key_value k (v @ [10])"
    using assms(1) unfolding key_line_def C S Let_def T by (cases k') (auto simp: key_text_def key_ok_def k)
qed

lemma section_text_line:
  assumes "name_ok n"
  shows "fgets_line 150 (91 # n @ 93 # 10 # r) = 91 # n @ [93, 10]" "fgets_rest 150 (91 # n @ 93 # 10 # r) = r"
    "key_line (91 # n @ [93, 10]) = Section_start" "section_line (91 # n @ [93, 10]) = Some n"
proof -
  have N: "10 \<notin> set (91 # n @ [93])" using assms by (auto simp: name_ok_def)
  have L: "length (91 # n @ [93 :: uchar]) \<le> 148" using assms by (simp add: name_ok_def)
  show "fgets_line 150 (91 # n @ 93 # 10 # r) = 91 # n @ [93, 10]" "fgets_rest 150 (91 # n @ 93 # 10 # r) = r"
    using fgets_text [OF N L, of r] by simp_all
  have C: "c_str (91 # n @ [93, 10]) = 91 # n @ [93, 10]" using assms by (auto simp: name_ok_def)
  show "key_line (91 # n @ [93, 10]) = Section_start" by (simp add: key_line_def C Let_def)
  have S: "skip_blanks (n @ [93, 10]) = n @ [93, 10]" using assms by (cases n) (auto simp: name_ok_def)
  have T: "takeWhile (\<lambda>b. b \<noteq> 93) (n @ [93, 10]) = n" using assms by (subst takeWhile_append2) (auto simp: name_ok_def)
  have "strip_end (\<lambda>b. b = 32) n = n" using assms by (intro strip_end_id) (simp add: name_ok_def)
  then show "section_line (91 # n @ [93, 10]) = Some n"
    using assms by (simp add: section_line_def C S T Let_def name_ok_def)
qed

lemma GetKeyValue_section:
  assumes "list_all (\<lambda>(k, v). key_ok k \<and> value_ok v \<and> length k + length v \<le> 147) kvs"
    "rest = [] \<or> (\<exists>n r. name_ok n \<and> rest = 91 # n @ 93 # 10 # r)"
  shows "GetKeyValue (concat (map key_text kvs) @ rest) key =
    (case map_of kvs key of None \<Rightarrow> (KEYNAME_NOTEXIST, None) | Some v \<Rightarrow> (SUCCESS, Some v))"
  using assms(1)
proof (induction kvs)
  case Nil
  then show ?case using assms(2) by (auto simp: GetKeyValue.simps section_text_line)
next
  case (Cons kv kvs)
  obtain k v where kv: "kv = (k, v)" by (cases kv)
  note line = key_text_line(1,2) [of k v "concat (map key_text kvs) @ rest"] key_text_line(3,4) [of k v]
  have "key_text kv \<noteq> []" by (simp add: key_text_def)
  then show ?case using Cons line
    by (simp add: GetKeyValue.simps [of "key_text (k, v) @ concat (map key_text kvs) @ rest"] kv CompareString_eq value_text)
qed

lemma sections_loop_keys:
  assumes "list_all (\<lambda>(k, v). key_ok k \<and> value_ok v \<and> length k + length v \<le> 147) kvs"
  shows "sections_loop (concat (map key_text kvs) @ rest) sec key = sections_loop rest sec key"
  using assms
proof (induction kvs)
  case (Cons kv kvs)
  obtain k v where kv: "kv = (k, v)" by (cases kv)
  note line = key_text_line(1,2) [of k v "concat (map key_text kvs) @ rest"] key_text_line(3,4) [of k v]
  have "key_text kv \<noteq> []" by (simp add: key_text_def)
  then show ?case using Cons line
    by (simp add: sections_loop.simps [of "key_text (k, v) @ concat (map key_text kvs) @ rest"] kv)
qed simp

lemma config_text_cases:
  "config_ok cfg \<Longrightarrow> config_text cfg = [] \<or> (\<exists>n r. name_ok n \<and> config_text cfg = 91 # n @ 93 # 10 # r)"
  by (cases cfg) (auto simp: config_ok_def config_text_def section_text_def)

lemma sections_loop_config:
  "config_ok cfg \<Longrightarrow> sections_loop (config_text cfg) sec key =
    (case map_of cfg sec of
       None \<Rightarrow> (SECTIONNAME_NOTEXIST, None)
     | Some kvs \<Rightarrow> (case map_of kvs key of None \<Rightarrow> (KEYNAME_NOTEXIST, None) | Some v \<Rightarrow> (SUCCESS, Some v)))"
proof (induction cfg)
  case Nil
  then show ?case by (simp add: config_text_def sections_loop.simps)
next
  case (Cons s cfg)
  obtain n kvs where s: "s = (n, kvs)" by (cases s)
  have ok: "name_ok n" "list_all (\<lambda>(k, v). key_ok k \<and> value_ok v \<and> length k + length v \<le> 147) kvs" "config_ok cfg"
    using Cons.prems by (simp_all add: config_ok_def s)
  let ?r = "concat (map key_text kvs) @ config_text cfg"
  have T: "config_text (s # cfg) = 91 # n @ 93 # 10 # ?r" by (simp add: config_text_def section_text_def s)
  have U: "sections_loop (config_text (s # cfg)) sec key = (if n = sec then GetKeyValue ?r key else sections_loop ?r sec key)"
    by (simp only: T sections_loop.simps [of "91 # n @ 93 # 10 # ?r"] section_text_line [OF ok(1)] CompareString_eq) simp
  show ?case
    using Cons.IH [OF ok(3)] GetKeyValue_section [OF ok(2) config_text_cases [OF ok(3)]] sections_loop_keys [OF ok(2)]
    unfolding U by (simp add: s)
qed

section \<open>Properties\<close>

text \<open>C40: a configuration file is a finite map. Looking up a key of a section in the text of a well-formed
  file gives the value the file has there, the first one when a section or a key is repeated; a missing
  section, a missing key and a missing file give their own error codes and no value.\<close>

theorem config_lookup:
  assumes "config_ok cfg"
  shows "GetConfigStringValue (Some (config_text cfg)) sec key =
     (case map_of cfg sec of
        None \<Rightarrow> (SECTIONNAME_NOTEXIST, None)
      | Some kvs \<Rightarrow> (case map_of kvs key of None \<Rightarrow> (KEYNAME_NOTEXIST, None) | Some v \<Rightarrow> (SUCCESS, Some v)))
   \<and> GetConfigStringValue None sec key = (FILENAME_NOTEXIST, None)"
  using sections_loop_config [OF assms] by (simp add: GetConfigStringValue_def)

theorem config_lookup_witness:
  "GetConfigStringValue (Some (config_text [(bytes_of ''A'', []), (bytes_of ''MQ'', [(bytes_of ''name'', bytes_of ''T_1 /x'')])]))
     (bytes_of ''MQ'') (bytes_of ''name'') = (SUCCESS, Some (bytes_of ''T_1 /x''))"
proof -
  have "config_ok [(bytes_of ''A'', []), (bytes_of ''MQ'', [(bytes_of ''name'', bytes_of ''T_1 /x'')])]" by code_simp
  from config_lookup [OF this, of "bytes_of ''MQ''" "bytes_of ''name''"] show ?thesis by (simp add: bytes_of_def)
qed

end
