(* ===== verification/Monitor.thy ===== *)
theory Monitor
  imports Parselogentry Configfile
begin

text \<open>
  The monitor of the binary log (\<open>binlog/src/BinlogMonitor.cpp\<close>) and the entry point of the library
  (\<open>include/binlog/export.cpp\<close>). The monitor reads the name of the current log from the last line of
  the index file of the database, and on every change of the directory it opens that log in the parser
  of \<open>Parselogentry.thy\<close> and parses what is new.

  A file system is a map from paths to contents; a round of the thread sees one state of it, and the
  next round may see another. \<open>getBinlogIndex\<close> compares the result of a call with a member the call
  assigns: which of the two operands is evaluated first is left open by the language and is the
  parameter \<open>call_first\<close> of the model.
\<close>

type_synonym files = "string \<Rightarrow> buffer option"

definition BINLOG_INDEX_FILE_NAME :: string where
  "BINLOG_INDEX_FILE_NAME = ''logbin.index''"

record monitor =
  m_dirPath :: string
  m_binlogIndexFileLen :: int
  m_binlogIndexFileName :: string
  m_monitorThread :: "nat option"

definition new_monitor :: "string \<Rightarrow> monitor" where
  "new_monitor szDirPath =
     \<lparr>m_dirPath = szDirPath, m_binlogIndexFileLen = 0, m_binlogIndexFileName = '''', m_monitorThread = None\<rparr>"

definition binlogIndexFile :: "monitor \<Rightarrow> string" where
  "binlogIndexFile m = m_dirPath m @ ''//'' @ BINLOG_INDEX_FILE_NAME"

definition string_of :: "buffer \<Rightarrow> string" where
  "string_of bs = map (\<lambda>b. char_of (unat b)) bs"

section \<open>The index file\<close>

text \<open>What a stream opened in text mode delivers: on Windows a carriage return before a line feed is
  dropped and the character 26 ends the file, elsewhere the bytes are delivered as they are.\<close>

fun crlf_text :: "buffer \<Rightarrow> buffer" where
  "crlf_text [] = []"
| "crlf_text (b # r) =
     (if b = 26 then [] else if b = 13 \<and> take 1 r = [10] then crlf_text r else b # crlf_text r)"

definition text_stream :: "bool \<Rightarrow> buffer \<Rightarrow> buffer" where
  "text_stream win32 d = (if win32 then crlf_text d else d)"

text \<open>The content of \<open>szBuf\<close> after the loop over \<open>fgets\<close>; it is not initialised before.\<close>

function last_line :: "buffer \<Rightarrow> buffer option \<Rightarrow> buffer option" where
  "last_line fp szBuf =
     (if fp = [] then szBuf else last_line (fgets_rest 256 fp) (Some (fgets_line 256 fp)))"
  by pat_completeness auto

termination
  by (relation "measure (\<lambda>(fp, szBuf). length fp)") (simp_all add: fgets_rest_less)

declare last_line.simps [simp del]

definition getBinlogIndexSize :: "files \<Rightarrow> monitor \<Rightarrow> int \<times> monitor" where
  "getBinlogIndexSize fs m =
     (case fs (binlogIndexFile m) of None \<Rightarrow> (0, m)
      | Some d \<Rightarrow> (let m1 = m\<lparr>m_binlogIndexFileLen := u32 (int (length d))\<rparr> in (m_binlogIndexFileLen m1, m1)))"

definition getBinlogIndexFileName :: "bool \<Rightarrow> files \<Rightarrow> monitor \<Rightarrow> (string \<times> monitor) option" where
  "getBinlogIndexFileName win32 fs m =
     (case fs (binlogIndexFile m) of None \<Rightarrow> Some ('''', m)
      | Some d \<Rightarrow> do {
          buf \<leftarrow> last_line (text_stream win32 d) None;
          let szBuf = c_str buf;
          if szBuf = [] then None
          else (let name = string_of (if last szBuf = 10 then butlast szBuf else szBuf);
                    m1 = m\<lparr>m_binlogIndexFileLen := u32 (int (length d)), m_binlogIndexFileName := name\<rparr>
                in Some (name, m1)) })"

definition getBinlogIndex :: "bool \<Rightarrow> bool \<Rightarrow> files \<Rightarrow> monitor \<Rightarrow> (string \<times> monitor) option" where
  "getBinlogIndex call_first win32 fs m =
     (let (size, m1) = getBinlogIndexSize fs m;
          len = m_binlogIndexFileLen (if call_first then m1 else m)
      in if size = len then Some (m_binlogIndexFileName m1, m1) else getBinlogIndexFileName win32 fs m1)"

definition initBinlogInfo :: "bool \<Rightarrow> files \<Rightarrow> monitor \<Rightarrow> (bool \<times> monitor) option" where
  "initBinlogInfo win32 fs m = map_option (\<lambda>(name, m1). (name \<noteq> '''', m1)) (getBinlogIndexFileName win32 fs m)"

text \<open>\<open>thread\<close> is what \<open>CreateThread\<close> returns.\<close>

definition startMonitor :: "bool \<Rightarrow> nat option \<Rightarrow> files \<Rightarrow> monitor \<Rightarrow> (bool \<times> monitor) option" where
  "startMonitor win32 thread fs m = do {
     (ok, m1) \<leftarrow> initBinlogInfo win32 fs m;
     if \<not> ok then Some (False, m1)
     else (let m2 = (if win32 then m1\<lparr>m_monitorThread := thread\<rparr> else m1)
           in Some (m_monitorThread m2 \<noteq> None, m2)) }"

section \<open>The thread\<close>

text \<open>One notification: the name asked for, and the row data published.\<close>

definition monitorThread_round ::
  "bool \<Rightarrow> (nat \<Rightarrow> int) \<Rightarrow> fresh_events \<Rightarrow> files \<Rightarrow> monitor \<times> parse_log \<Rightarrow> ((monitor \<times> parse_log) \<times> string \<times> row_data list) option" where
  "monitorThread_round call_first addr fr fs = (\<lambda>(m, pl). do {
     (name, m1) \<leftarrow> getBinlogIndex call_first True fs m;
     let (ok, pl1) = refreshFileCache fs name pl;
     if ok then do {
       (_, pl2, outs) \<leftarrow> parseBegin addr fr pl1;
       Some ((m1, pl2), name, outs) }
     else Some ((m1, pl1), name, []) })"

text \<open>The loop, over the states of the file system at the notifications.\<close>

fun monitorThread ::
  "bool \<Rightarrow> (nat \<Rightarrow> int) \<Rightarrow> fresh_events \<Rightarrow> files list \<Rightarrow> monitor \<times> parse_log
     \<Rightarrow> ((monitor \<times> parse_log) \<times> (string \<times> row_data list) list) option" where
  "monitorThread call_first addr fr [] st = Some (st, [])"
| "monitorThread call_first addr fr (fs # fss) st = do {
     (st1, out) \<leftarrow> monitorThread_round call_first addr fr fs st;
     (st2, rest) \<leftarrow> monitorThread call_first addr fr fss st1;
     Some (st2, out # rest) }"

definition ParseBinlogThread ::
  "(nat \<Rightarrow> int) \<Rightarrow> fresh_events \<Rightarrow> files \<Rightarrow> string \<Rightarrow> parse_log \<Rightarrow> (bool \<times> parse_log \<times> row_data list) option" where
  "ParseBinlogThread addr fr fs filePath pl = parseBegin addr fr (snd (refreshFileCache fs filePath pl))"

section \<open>Lemmas\<close>

lemma string_of_bytes [simp]: "string_of (bytes_of s) = s"
proof (induction s)
  case (Cons c s)
  have "unat (of_char c :: uchar) = of_char c"
    using unat_of_nat [where 'a = 8, of "of_char c"] by (simp add: of_nat_of_char)
  then show ?case using Cons by (simp add: string_of_def bytes_of_def)
qed (simp add: string_of_def bytes_of_def)

lemma last_line_chunk:
  "fp \<noteq> [] \<Longrightarrow> last_line fp szBuf = last_line (fgets_rest 256 fp) (Some (fgets_line 256 fp))"
  by (subst last_line.simps) simp

lemma last_line_nil [simp]: "last_line [] szBuf = szBuf"
  by (subst last_line.simps) simp

text \<open>The last line of a file of short lines.\<close>

lemma fgets_short:
  assumes "10 \<notin> set l" "length l < 255"
  shows "fgets_line 256 (l @ 10 # r) = l @ [10]" "fgets_rest 256 (l @ 10 # r) = r"
proof -
  have "takeWhile (\<lambda>b. b \<noteq> 10) (l @ 10 # r) = l" using assms(1) by (auto simp: takeWhile_tail)
  then show "fgets_line 256 (l @ 10 # r) = l @ [10]" using assms by (simp add: fgets_line_def)
  then show "fgets_rest 256 (l @ 10 # r) = r" by (simp add: fgets_rest_def)
qed

definition index_lines :: "buffer list \<Rightarrow> buffer" where
  "index_lines ls = concat (map (\<lambda>l. l @ [10]) ls)"

definition index_line :: "buffer \<Rightarrow> bool" where
  "index_line l \<longleftrightarrow> l \<noteq> [] \<and> length l < 255 \<and> list_all (\<lambda>b. b \<notin> {0, 10, 13, 26}) l"

lemma last_line_index:
  "ls \<noteq> [] \<Longrightarrow> list_all index_line ls \<Longrightarrow> last_line (index_lines ls) b = Some (last ls @ [10])"
proof (induction ls arbitrary: b)
  case (Cons l ls)
  have "10 \<notin> set l" "length l < 255" using Cons.prems(2) by (auto simp: index_line_def list_all_iff)
  note f = fgets_short [OF this, of "index_lines ls"]
  have s: "index_lines (l # ls) = l @ 10 # index_lines ls" by (simp add: index_lines_def)
  have "last_line (index_lines (l # ls)) b = last_line (index_lines ls) (Some (l @ [10]))"
    unfolding s by (subst last_line_chunk) (simp_all only: f append_is_Nil_conv list.distinct simp_thms)
  then show ?case using Cons by (cases "ls = []") (auto simp: index_lines_def)
qed simp

lemma crlf_text_line:
  "list_all (\<lambda>b. b \<notin> {0, 10, 13, 26}) l \<Longrightarrow> crlf_text (l @ 10 # r) = l @ 10 # crlf_text r"
  by (induction l) auto

lemma crlf_text_index: "list_all index_line ls \<Longrightarrow> crlf_text (index_lines ls) = index_lines ls"
  by (induction ls) (auto simp: index_lines_def index_line_def crlf_text_line)

text \<open>The name read from a well-formed index file is its last line.\<close>

lemma getBinlogIndexFileName_last:
  assumes "fs (binlogIndexFile m) = Some (index_lines ls)" "ls \<noteq> []" "list_all index_line ls"
  shows "getBinlogIndexFileName win32 fs m
    = Some (string_of (last ls), m\<lparr>m_binlogIndexFileLen := u32 (int (length (index_lines ls))),
        m_binlogIndexFileName := string_of (last ls)\<rparr>)"
proof -
  have "text_stream win32 (index_lines ls) = index_lines ls" by (simp add: text_stream_def crlf_text_index assms)
  moreover have "index_line (last ls)" using assms(2,3) by (simp add: list_all_iff)
  then have "0 \<notin> set (last ls @ [10])" by (auto simp: index_line_def list_all_iff)
  then have "c_str (last ls @ [10]) = last ls @ [10]" by (rule c_str_id)
  ultimately show ?thesis
    by (simp add: getBinlogIndexFileName_def assms last_line_index Let_def)
qed

lemma getBinlogIndexSize_simps:
  "fs (binlogIndexFile m) = None \<Longrightarrow> getBinlogIndexSize fs m = (0, m)"
  "fs (binlogIndexFile m) = Some d \<Longrightarrow> getBinlogIndexSize fs m
     = (u32 (int (length d)), m\<lparr>m_binlogIndexFileLen := u32 (int (length d))\<rparr>)"
  by (simp_all add: getBinlogIndexSize_def)

text \<open>When the call is evaluated first the comparison is of the new length with itself.\<close>

lemma getBinlogIndex_call_first:
  assumes "getBinlogIndex True win32 fs m = Some (name, m1)"
  shows "name \<in> {m_binlogIndexFileName m, ''''} \<and> m_binlogIndexFileName m1 = m_binlogIndexFileName m"
  using assms
  by (cases "fs (binlogIndexFile m)")
     (auto simp: getBinlogIndex_def getBinlogIndexSize_simps getBinlogIndexFileName_def split: if_splits)

lemma getBinlogIndex_same_length:
  assumes "fs (binlogIndexFile m) = Some d" "u32 (int (length d)) = m_binlogIndexFileLen m"
  shows "getBinlogIndex call_first win32 fs m = Some (m_binlogIndexFileName m, m)"
  using assms by (cases m) (simp add: getBinlogIndex_def getBinlogIndexSize_simps)

text \<open>When the member is read first a longer index file is read again.\<close>

lemma getBinlogIndex_member_first:
  assumes "fs (binlogIndexFile m) = Some (index_lines ls)" "ls \<noteq> []" "list_all index_line ls"
    "u32 (int (length (index_lines ls))) \<noteq> m_binlogIndexFileLen m"
  shows "\<exists>m1. getBinlogIndex False win32 fs m = Some (string_of (last ls), m1)
    \<and> m_binlogIndexFileName m1 = string_of (last ls)"
proof -
  let ?m = "m\<lparr>m_binlogIndexFileLen := u32 (int (length (index_lines ls)))\<rparr>"
  have "fs (binlogIndexFile ?m) = Some (index_lines ls)" using assms(1) by (simp add: binlogIndexFile_def)
  from getBinlogIndexFileName_last [where fs = fs and m = ?m, OF this assms(2,3), of win32] show ?thesis
    using assms(4) by (simp add: getBinlogIndex_def getBinlogIndexSize_simps(2) [of fs m "index_lines ls"] assms(1))
qed

lemma monitorThread_name:
  assumes "monitorThread True addr fr fss st = Some (st1, outs)"
  shows "m_binlogIndexFileName (fst st1) = m_binlogIndexFileName (fst st)
    \<and> (\<forall>name\<in>set (map fst outs). name \<in> {m_binlogIndexFileName (fst st), ''''})"
  using assms
proof (induction fss arbitrary: st outs)
  case (Cons fs fss)
  obtain m pl where st: "st = (m, pl)" by (cases st)
  from Cons.prems obtain stm o1 o2 where o: "monitorThread_round True addr fr fs st = Some (stm, o1)"
    "monitorThread True addr fr fss stm = Some (st1, o2)" "outs = o1 # o2"
    by (auto split: bind_splits)
  from o(1) obtain name m1 where n: "getBinlogIndex True True fs m = Some (name, m1)" "fst stm = m1" "fst o1 = name"
    by (auto simp: st monitorThread_round_def Let_def split: bind_splits prod.splits if_splits)
  show ?case using getBinlogIndex_call_first [OF n(1)] Cons.IH [OF o(2)] n st o(3) by auto
qed simp

section \<open>Starting\<close>

lemma startMonitor_started:
  assumes "startMonitor win32 thread fs m = Some (True, m1)"
  shows "win32 \<or> m_monitorThread m \<noteq> None" "m_binlogIndexFileName m1 \<noteq> ''''"
  using assms
  by (auto simp: startMonitor_def initBinlogInfo_def getBinlogIndexFileName_def Let_def
        split: bind_splits if_splits option.splits)

text \<open>On the platform of the server there is no monitor: the constructor leaves the handle at null.\<close>

lemma no_monitor_without_windows: "startMonitor False thread fs (new_monitor d) \<noteq> Some (True, m1)"
  using startMonitor_started(1) [of False thread fs "new_monitor d" m1] by (auto simp: new_monitor_def)

lemma startMonitor_index:
  assumes "fs (binlogIndexFile m) = Some (index_lines ls)" "ls \<noteq> []" "list_all index_line ls"
  shows "startMonitor True (Some h) fs m
    = Some (True, m\<lparr>m_binlogIndexFileLen := u32 (int (length (index_lines ls))),
        m_binlogIndexFileName := string_of (last ls), m_monitorThread := Some h\<rparr>)"
proof -
  have "last ls \<noteq> []" using assms(2,3) by (auto simp: list_all_iff index_line_def)
  then have "string_of (last ls) \<noteq> ''''" by (simp add: string_of_def)
  then show ?thesis by (simp add: startMonitor_def initBinlogInfo_def getBinlogIndexFileName_last assms)
qed

lemma refreshFileCache_ok: "fs path = Some d \<Longrightarrow> fst (refreshFileCache fs path pl)"
  by (simp add: refreshFileCache_def fc_init_def Let_def)

lemma monitorThread_round_same:
  assumes "fs (binlogIndexFile m) = Some d" "u32 (int (length d)) = m_binlogIndexFileLen m"
    "fs (m_binlogIndexFileName m) = Some l"
    "parseBegin addr fr (snd (refreshFileCache fs (m_binlogIndexFileName m) pl)) = Some (r, pl1, outs)"
  shows "monitorThread_round call_first addr fr fs (m, pl) = Some ((m, pl1), m_binlogIndexFileName m, outs)"
  using assms refreshFileCache_ok [of fs "m_binlogIndexFileName m" l pl]
  by (cases "refreshFileCache fs (m_binlogIndexFileName m) pl")
     (simp add: monitorThread_round_def getBinlogIndex_same_length)

section \<open>Properties\<close>

text \<open>C17: a log that is rotated is lost. When the operands are evaluated in the order they are written,
  the length of the index file is compared with itself. So a monitor that was started keeps the name it
  read at the start: whatever happens to the index file and the logs, every round opens the log of the
  start, or no file when the index file is missing.\<close>

theorem new_log_never_followed:
  assumes "startMonitor True thread fs0 (new_monitor d) = Some (True, m)"
    "monitorThread True addr fr fss (m, pl) = Some ((m1, pl1), outs)"
  shows "m_binlogIndexFileName m1 = m_binlogIndexFileName m \<and> m_binlogIndexFileName m \<noteq> ''''
    \<and> (\<forall>name\<in>set (map fst outs). name = m_binlogIndexFileName m \<or> name = '''')"
  using monitorThread_name [OF assms(2)] startMonitor_started(2) [OF assms(1)] by auto


text \<open>The entry point of the library does not look whether the file was opened, and the parser takes a
  path without a file as a log without a header.\<close>

lemma ParseBinlogThread_missing:
  assumes "fs path = None" "pl_cur pl = 0"
  shows "\<exists>pl1. ParseBinlogThread addr fr fs path pl = Some (False, pl1, [])"
  using assms
  by (simp add: ParseBinlogThread_def refreshFileCache_def fc_init_def parseBegin_def checkHeader_def
      readCache_def cache_seek_def)

section \<open>Witnesses\<close>

definition sample_index :: "buffer \<Rightarrow> string \<Rightarrow> buffer \<Rightarrow> files" where
  "sample_index idx log d = (\<lambda>p. if p = ''data//logbin.index'' then Some idx else if p = log then Some d else None)"

lemma sample_index_lines: "index_lines [bytes_of ''log.1''] = bytes_of ''log.1'' @ [10]"
  "index_line (bytes_of ''log.1'')" "binlogIndexFile (new_monitor ''data'') = ''data//logbin.index''"
  by (simp_all add: index_lines_def) (code_simp+)


theorem new_log_never_followed_witness:
  "\<exists>m m1 outs. startMonitor True (Some 7) (sample_index (bytes_of ''log.1'' @ [10]) ''log.1'' []) (new_monitor ''data'') = Some (True, m)
     \<and> m_binlogIndexFileName m1 = ''log.1'' \<and> map fst outs = [''log.1'']
     \<and> monitorThread True (\<lambda>_. 0) sample_fresh [sample_index (bytes_of ''log.1'' @ [10] @ bytes_of ''log.2'' @ [10]) ''log.2'' []]
         (m, new_parse_log no_file sample_global) = Some ((m1, new_parse_log no_file sample_global), outs)"
proof -
  let ?m = "(new_monitor ''data'')\<lparr>m_binlogIndexFileLen := 6, m_binlogIndexFileName := ''log.1'', m_monitorThread := Some 7\<rparr>"
  have s: "startMonitor True (Some 7) (sample_index (bytes_of ''log.1'' @ [10]) ''log.1'' []) (new_monitor ''data'') = Some (True, ?m)"
    by code_simp
  have r: "monitorThread True (\<lambda>_. 0) sample_fresh [sample_index (bytes_of ''log.1'' @ [10] @ bytes_of ''log.2'' @ [10]) ''log.2'' []]
         (?m, new_parse_log no_file sample_global) = Some ((?m\<lparr>m_binlogIndexFileLen := 12\<rparr>, new_parse_log no_file sample_global), [(''log.1'', [])])"
    by (simp add: monitorThread_round_def getBinlogIndex_def getBinlogIndexSize_def sample_index_def binlogIndexFile_def
         new_monitor_def BINLOG_INDEX_FILE_NAME_def u32_def bytes_of_def refreshFileCache_def fc_init_def new_parse_log_def no_file_def)
  show ?thesis using new_log_never_followed [OF s r] s r by auto
qed

end
