(* ===== verification/Queues.thy ===== *)
theory Queues
  imports DS_Prelude
begin

text \<open>
  The bounded queues between the threads: the row data queue of the binlog library
  (\<open>binlog/src/CRowData.cpp\<close>) and the three queues of the server
  (\<open>DataSync/CProcessMqData.cpp\<close>). All of them follow one pattern: under a mutex, the producer
  waits on a condition variable when the queue is full and appends otherwise, the consumer waits when
  it is empty and removes the first element; both use \<open>if\<close>, not \<open>while\<close>, around the wait.

  A thread that waits gives up the mutex, so an operation has two parts: what it does from the lock to
  the wait (or to its end), and what it does after it was woken. The queue is a list, the front first;
  a state also has the threads that are asleep and the histories of what was handed in and taken out.
\<close>

section \<open>One queue\<close>

text \<open>The producer: the queue after the operation, and whether it sleeps. The wait is in the branch that
  does not append, so the item is gone when the thread wakes up.\<close>

definition product :: "nat \<Rightarrow> 'a \<Rightarrow> 'a list \<Rightarrow> 'a list \<times> bool" where
  "product cap x q = (if cap \<le> length q then (q, True) else (q @ [x], False))"

text \<open>The consumer after the test, or after it was woken: the element, if any, and the rest.\<close>

definition take_front :: "'a list \<Rightarrow> 'a option \<times> 'a list" where
  "take_front q = (case q of [] \<Rightarrow> (None, []) | x # q' \<Rightarrow> (Some x, q'))"

text \<open>The row data queue takes the front without a second test: \<open>None\<close> is the undefined
  \<open>front()\<close> of an empty \<open>deque\<close>.\<close>

definition take_front_unchecked :: "'a list \<Rightarrow> ('a \<times> 'a list) option" where
  "take_front_unchecked q = (case q of [] \<Rightarrow> None | x # q' \<Rightarrow> Some (x, q'))"

definition ROWS_DATA_MAX_SIZE :: nat where "ROWS_DATA_MAX_SIZE = 256"
definition MAX_QUEUE_DATA :: nat where "MAX_QUEUE_DATA = 1000"

definition productRowData :: "'a \<Rightarrow> 'a list \<Rightarrow> 'a list \<times> bool" where
  "productRowData x q = product ROWS_DATA_MAX_SIZE x q"

definition consumerRowData :: "'a list \<Rightarrow> ('a \<times> 'a list) option" where
  "consumerRowData q = take_front_unchecked q"

section \<open>The queues of the server\<close>

record socket_header =
  sh_code :: int
  sh_data_len :: int
  sh_message_id :: buffer

record mq_data =
  mq_header :: socket_header
  mq_dispatch_type :: buffer
  mq_stores :: buffer
  mq_body :: buffer

record mq_queues =
  m_data :: "mq_data list"
  m_raw_data :: "mq_data list"
  m_exception_data :: "mq_data list"

definition ProductData :: "socket_header \<Rightarrow> buffer \<Rightarrow> buffer \<Rightarrow> buffer \<Rightarrow> mq_queues \<Rightarrow> mq_queues \<times> bool" where
  "ProductData header disType stores body s =
     (let pData = \<lparr>mq_header = header, mq_dispatch_type = disType, mq_stores = stores, mq_body = body\<rparr>;
          (q, sleeps) = product MAX_QUEUE_DATA pData (m_data s)
      in (s\<lparr>m_data := q\<rparr>, sleeps))"

definition ConsumerData :: "mq_queues \<Rightarrow> mq_data option \<times> mq_queues" where
  "ConsumerData s = (let (r, q) = take_front (m_data s) in (r, s\<lparr>m_data := q\<rparr>))"

definition ProductExceptionData :: "socket_header \<Rightarrow> buffer \<Rightarrow> buffer \<Rightarrow> buffer \<Rightarrow> mq_queues \<Rightarrow> mq_queues \<times> bool" where
  "ProductExceptionData header disType stores body s =
     (let pData = \<lparr>mq_header = header, mq_dispatch_type = disType, mq_stores = stores, mq_body = body\<rparr>;
          (q, sleeps) = product MAX_QUEUE_DATA pData (m_exception_data s)
      in (s\<lparr>m_exception_data := q\<rparr>, sleeps))"

definition ConsumerExceptionData :: "mq_queues \<Rightarrow> mq_data option \<times> mq_queues" where
  "ConsumerExceptionData s = (let (r, q) = take_front (m_exception_data s) in (r, s\<lparr>m_exception_data := q\<rparr>))"

text \<open>The header and the dispatch type of raw data are left as \<open>new\<close> made them: \<open>h0\<close>, and empty.\<close>

definition ProductRawData :: "socket_header \<Rightarrow> buffer \<Rightarrow> buffer \<Rightarrow> mq_queues \<Rightarrow> mq_queues \<times> bool" where
  "ProductRawData h0 stores body s =
     (let pData = \<lparr>mq_header = h0, mq_dispatch_type = [], mq_stores = stores, mq_body = body\<rparr>;
          (q, sleeps) = product MAX_QUEUE_DATA pData (m_raw_data s)
      in (s\<lparr>m_raw_data := q\<rparr>, sleeps))"

text \<open>The result pointer of the raw consumer is not initialised: \<open>junk\<close> is returned when the queue is
  still empty after the wait.\<close>

definition ConsumerRawData :: "'p \<Rightarrow> mq_queues \<Rightarrow> ('p + mq_data) \<times> mq_queues" where
  "ConsumerRawData junk s =
     (case m_raw_data s of [] \<Rightarrow> (Inl junk, s) | x # q \<Rightarrow> (Inr x, s\<lparr>m_raw_data := q\<rparr>))"

section \<open>Threads at one queue\<close>

text \<open>The step relation of producers and consumers at a queue of capacity \<open>cap\<close>. \<open>qs_full\<close> and
  \<open>qs_empty\<close> count the threads asleep on the two conditions, \<open>qs_in\<close> is what producers handed in, and
  \<open>qs_lost\<close> what they dropped, in order; \<open>qs_out\<close> is what consumers took out, \<open>qs_none\<close> how often a
  consumer came back with nothing. A wait may end at any time: condition variables wake spuriously.\<close>

record 'a queue_state =
  qs_items :: "'a list"
  qs_full :: nat
  qs_empty :: nat
  qs_in :: "'a list"
  qs_lost :: "'a list"
  qs_out :: "'a list"
  qs_none :: nat

definition produce_step :: "nat \<Rightarrow> 'a \<Rightarrow> 'a queue_state \<Rightarrow> 'a queue_state" where
  "produce_step cap x s =
     (let (q, sleeps) = product cap x (qs_items s) in
      if sleeps then s\<lparr>qs_items := q, qs_full := Suc (qs_full s), qs_in := qs_in s @ [x], qs_lost := qs_lost s @ [x]\<rparr>
      else s\<lparr>qs_items := q, qs_in := qs_in s @ [x]\<rparr>)"

definition consume_now :: "'a queue_state \<Rightarrow> 'a queue_state" where
  "consume_now s =
     (let (r, q) = take_front (qs_items s) in
      case r of None \<Rightarrow> s\<lparr>qs_items := q, qs_none := Suc (qs_none s)\<rparr>
      | Some x \<Rightarrow> s\<lparr>qs_items := q, qs_out := qs_out s @ [x]\<rparr>)"

definition consume_step :: "'a queue_state \<Rightarrow> 'a queue_state" where
  "consume_step s = (if qs_items s = [] then s\<lparr>qs_empty := Suc (qs_empty s)\<rparr> else consume_now s)"

definition wake_consumer :: "'a queue_state \<Rightarrow> 'a queue_state" where
  "wake_consumer s = consume_now (s\<lparr>qs_empty := qs_empty s - 1\<rparr>)"

definition wake_producer :: "'a queue_state \<Rightarrow> 'a queue_state" where
  "wake_producer s = s\<lparr>qs_full := qs_full s - 1\<rparr>"

lemmas step_defs = produce_step_def consume_step_def wake_consumer_def wake_producer_def consume_now_def
  product_def take_front_def

inductive queue_step :: "nat \<Rightarrow> 'a queue_state \<Rightarrow> 'a queue_state \<Rightarrow> bool" for cap where
  produce: "queue_step cap s (produce_step cap x s)"
| consume: "queue_step cap s (consume_step s)"
| wake_empty: "0 < qs_empty s \<Longrightarrow> queue_step cap s (wake_consumer s)"
| wake_full: "0 < qs_full s \<Longrightarrow> queue_step cap s (wake_producer s)"

inductive_cases queue_stepE: "queue_step cap s t"

inductive queue_run :: "nat \<Rightarrow> 'a queue_state \<Rightarrow> 'a queue_state \<Rightarrow> bool" for cap where
  stop: "queue_run cap s s"
| more: "queue_run cap s t \<Longrightarrow> queue_step cap t u \<Longrightarrow> queue_run cap s u"

definition queue_init :: "'a queue_state" where
  "queue_init = \<lparr>qs_items = [], qs_full = 0, qs_empty = 0, qs_in = [], qs_lost = [], qs_out = [], qs_none = 0\<rparr>"

section \<open>A bounded first-in first-out queue\<close>

text \<open>What the clients rely on: \<open>put\<close> appends below the capacity and otherwise changes nothing and
  says so, \<open>get\<close> removes the front.\<close>

fun put_all :: "('a \<Rightarrow> 's \<Rightarrow> 's \<times> bool) \<Rightarrow> 'a list \<Rightarrow> 's \<Rightarrow> 's" where
  "put_all put [] s = s"
| "put_all put (x # xs) s = put_all put xs (fst (put x s))"

fun get_all :: "('s \<Rightarrow> 'a option \<times> 's) \<Rightarrow> nat \<Rightarrow> 's \<Rightarrow> 'a option list \<times> 's" where
  "get_all get 0 s = ([], s)"
| "get_all get (Suc n) s = (fst (get s) # fst (get_all get n (snd (get s))), snd (get_all get n (snd (get s))))"

locale bounded_queue =
  fixes cap :: nat and items :: "'s \<Rightarrow> 'a list" and put :: "'a \<Rightarrow> 's \<Rightarrow> 's \<times> bool" and get :: "'s \<Rightarrow> 'a option \<times> 's"
  assumes put_items: "items (fst (put x s)) = (if cap \<le> length (items s) then items s else items s @ [x])"
    and put_waits: "snd (put x s) \<longleftrightarrow> cap \<le> length (items s)"
    and get_items: "items (snd (get s)) = tl (items s)"
    and get_front: "fst (get s) = (if items s = [] then None else Some (hd (items s)))"
begin

lemma put_bounded: "length (items s) \<le> cap \<Longrightarrow> length (items (fst (put x s))) \<le> cap"
  by (simp add: put_items)

lemma put_all_items: "items (put_all put xs s) = items s @ take (cap - length (items s)) xs"
proof (induction xs arbitrary: s)
  case (Cons x xs)
  show ?case
  proof (cases "cap \<le> length (items s)")
    case False
    then have "cap - length (items s) = Suc (cap - Suc (length (items s)))" by simp
    then show ?thesis using Cons False by (simp add: put_items)
  qed (simp add: Cons put_items)
qed simp

lemma get_all_items:
  "fst (get_all get n s) = map Some (take n (items s)) @ replicate (n - length (items s)) None"
  "items (snd (get_all get n s)) = drop n (items s)"
proof (induction n arbitrary: s)
  case (Suc n)
  { case 1 show ?case by (cases "items s") (simp_all add: Suc.IH get_items get_front)
  next
    case 2 show ?case by (cases "items s") (simp_all add: Suc.IH get_items) }
qed simp_all

lemma fifo:
  assumes "items s = []" "length xs \<le> cap"
  shows "fst (get_all get (length xs) (put_all put xs s)) = map Some xs"
  using assms by (simp add: get_all_items put_all_items)

lemma overflow_lost:
  assumes "items s = []"
  shows "fst (get_all get (length xs) (put_all put xs s)) = map Some (take cap xs) @ replicate (length xs - cap) None"
  using assms by (auto simp: get_all_items put_all_items min_def)

end

lemma row_queue_laws:
  "fst (productRowData x q) = (if ROWS_DATA_MAX_SIZE \<le> length q then q else q @ [x])"
  "snd (productRowData x q) \<longleftrightarrow> ROWS_DATA_MAX_SIZE \<le> length q"
  by (simp_all add: productRowData_def product_def)

interpretation row_queue: bounded_queue ROWS_DATA_MAX_SIZE "\<lambda>q. q" productRowData
    "\<lambda>q. case consumerRowData q of None \<Rightarrow> (None, q) | Some (x, q') \<Rightarrow> (Some x, q')"
  by unfold_locales (auto simp: row_queue_laws consumerRowData_def take_front_unchecked_def split: list.split)

definition put_data :: "mq_data \<Rightarrow> mq_queues \<Rightarrow> mq_queues \<times> bool" where
  "put_data d = ProductData (mq_header d) (mq_dispatch_type d) (mq_stores d) (mq_body d)"

definition put_exception :: "mq_data \<Rightarrow> mq_queues \<Rightarrow> mq_queues \<times> bool" where
  "put_exception d = ProductExceptionData (mq_header d) (mq_dispatch_type d) (mq_stores d) (mq_body d)"

lemma mq_data_eta: "\<lparr>mq_header = mq_header d, mq_dispatch_type = mq_dispatch_type d, mq_stores = mq_stores d, mq_body = mq_body d\<rparr> = d"
  by (cases d) simp

interpretation data_queue: bounded_queue MAX_QUEUE_DATA m_data put_data ConsumerData
  by unfold_locales (auto simp: put_data_def ProductData_def product_def mq_data_eta ConsumerData_def take_front_def
      split: list.split prod.splits)

interpretation exception_queue: bounded_queue MAX_QUEUE_DATA m_exception_data put_exception ConsumerExceptionData
  by unfold_locales (auto simp: put_exception_def ProductExceptionData_def product_def mq_data_eta ConsumerExceptionData_def
      take_front_def split: list.split prod.splits)

interpretation raw_queue: bounded_queue MAX_QUEUE_DATA "\<lambda>s. map (\<lambda>d. (mq_stores d, mq_body d)) (m_raw_data s)"
    "\<lambda>(stores, body). ProductRawData h0 stores body"
    "\<lambda>s. case ConsumerRawData () s of (Inl _, s') \<Rightarrow> (None, s') | (Inr d, s') \<Rightarrow> (Some (mq_stores d, mq_body d), s')" for h0
  by unfold_locales (auto simp: ProductRawData_def product_def ConsumerRawData_def split: list.split prod.splits)

section \<open>All interleavings\<close>

text \<open>The invariant: the queue is within its capacity, and what was handed in is an interleaving of what
  was dropped with what was taken out followed by what is still queued, both in the order they came.\<close>

definition queue_inv :: "nat \<Rightarrow> 'a queue_state \<Rightarrow> bool" where
  "queue_inv cap s \<longleftrightarrow> length (qs_items s) \<le> cap \<and> qs_in s \<in> shuffles (qs_out s @ qs_items s) (qs_lost s)"

lemma shuffles_snoc:
  "zs \<in> shuffles xs ys \<Longrightarrow> zs @ [z] \<in> shuffles (xs @ [z]) ys"
  "zs \<in> shuffles xs ys \<Longrightarrow> zs @ [z] \<in> shuffles xs (ys @ [z])"
proof -
  have "ys @ [z] \<in> shuffles [z] ys" "ys @ [z] \<in> shuffles ys [z]" for ys
    by (induction ys) auto
  then show "zs \<in> shuffles xs ys \<Longrightarrow> zs @ [z] \<in> shuffles (xs @ [z]) ys"
    "zs \<in> shuffles xs ys \<Longrightarrow> zs @ [z] \<in> shuffles xs (ys @ [z])"
    by (induction xs ys arbitrary: zs rule: shuffles.induct) auto
qed

lemma queue_inv_step: "queue_step cap s t \<Longrightarrow> queue_inv cap s \<Longrightarrow> queue_inv cap t"
proof (induction rule: queue_step.induct)
  case (produce s x)
  then show ?case
    using shuffles_snoc [of "qs_in s" "qs_out s @ qs_items s" "qs_lost s" x]
    by (auto simp: queue_inv_def step_defs)
qed (auto simp: queue_inv_def step_defs split: list.splits)

lemma queue_inv_run: "queue_run cap s t \<Longrightarrow> queue_inv cap s \<Longrightarrow> queue_inv cap t"
  by (induction rule: queue_run.induct) (auto intro: queue_inv_step)

lemma queue_inv_init: "queue_inv cap queue_init"
  by (simp add: queue_inv_def queue_init_def)

text \<open>C10: the queues under all interleavings of any number of producers and consumers, wake-ups at any time
  included: a queue never exceeds its capacity; elements leave it in the order they entered, each at most
  once; and the elements handed in are exactly those taken out, those still queued and those dropped.\<close>

theorem queue_invariant:
  assumes "queue_run cap queue_init s"
  shows "length (qs_items s) \<le> cap \<and> qs_in s \<in> shuffles (qs_out s @ qs_items s) (qs_lost s)"
  using queue_inv_run [OF assms queue_inv_init] by (simp add: queue_inv_def)

lemma sample_queue_run:
  "queue_run 1 queue_init (consume_step (produce_step 1 (2::nat) (produce_step 1 1 queue_init)))"
  by (rule queue_run.more [OF queue_run.more [OF queue_run.more [OF queue_run.stop produce] produce] consume])

theorem queue_invariant_witness:
  "\<exists>s. queue_run 1 queue_init s \<and> qs_in s = [1, 2 :: nat] \<and> qs_out s = [1] \<and> qs_lost s = [2]
     \<and> length (qs_items s) \<le> 1"
proof -
  let ?s = "consume_step (produce_step 1 (2::nat) (produce_step 1 1 queue_init))"
  have "qs_in ?s = [1, 2] \<and> qs_out ?s = [1] \<and> qs_lost ?s = [2]" by (simp add: step_defs queue_init_def)
  then show ?thesis using sample_queue_run queue_invariant [OF sample_queue_run] by blast
qed


definition sample_mq :: "uchar \<Rightarrow> mq_data" where
  "sample_mq b = \<lparr>mq_header = \<lparr>sh_code = 103, sh_data_len = 0, sh_message_id = []\<rparr>, mq_dispatch_type = [49],
     mq_stores = [], mq_body = [b]\<rparr>"


text \<open>The row data queue is read without a second test. Two consumers and one producer are enough for a
  consumer that was woken by an element to find the queue empty again: the element was taken by the other
  consumer, and the front that is read does not exist.\<close>

theorem row_queue_front_of_empty:
  "\<exists>s. queue_run ROWS_DATA_MAX_SIZE queue_init s \<and> qs_in s = [x] \<and> qs_out s = [x] \<and> 0 < qs_empty s
     \<and> consumerRowData (qs_items s) = None"
proof -
  let ?s = "consume_step (produce_step ROWS_DATA_MAX_SIZE x (consume_step queue_init))"
  have "queue_run ROWS_DATA_MAX_SIZE queue_init ?s"
    by (rule queue_run.more [OF queue_run.more [OF queue_run.more [OF queue_run.stop consume] produce] consume])
  moreover have "qs_in ?s = [x] \<and> qs_out ?s = [x] \<and> 0 < qs_empty ?s \<and> consumerRowData (qs_items ?s) = None"
    by (simp add: step_defs queue_init_def ROWS_DATA_MAX_SIZE_def consumerRowData_def take_front_unchecked_def)
  ultimately show ?thesis by blast
qed

end
