(* ===== verification/Sockets.thy ===== *)
theory Sockets
  imports Byteorder Queues
begin

text \<open>
  Messages over a socket: \<open>mRecv\<close> and \<open>mSend\<close> of \<open>public/Commfun.cpp\<close> (the branches that are
  compiled on the server's platform) and \<open>recvMessage\<close> and \<open>sendMessage\<close> of
  \<open>DataSync/HandlerClientSocket.cpp\<close>.

  A connection delivers what the peer sent in segments of its own choosing, at most one of them per
  \<open>recv\<close>; when nothing more comes \<open>recv\<close> returns \<open>in_end\<close>: zero for a closed connection, a
  negative number for a timeout or an error. \<open>send\<close> takes as many bytes as \<open>out_room\<close> says, call by
  call, a negative number being an error, and everything once that list is used up.

  The header is a C struct of two \<open>int\<close>s and 33 characters, 44 bytes with the padding;
  \<open>sh_message_id\<close> holds the characters and the padding.
\<close>

record conn =
  in_segs :: "buffer list"
  in_end :: int
  out_room :: "int list"
  out_bytes :: buffer

definition c_recv :: "conn \<Rightarrow> nat \<Rightarrow> int \<times> buffer \<times> conn" where
  "c_recv c n =
     (case dropWhile (\<lambda>s. s = []) (in_segs c) of
        [] \<Rightarrow> (in_end c, [], c\<lparr>in_segs := []\<rparr>)
      | s # ss \<Rightarrow> (int (min n (length s)), take n s, c\<lparr>in_segs := drop n s # ss\<rparr>))"

definition c_send :: "conn \<Rightarrow> buffer \<Rightarrow> int \<times> conn" where
  "c_send c bs =
     (case out_room c of
        [] \<Rightarrow> (int (length bs), c\<lparr>out_bytes := out_bytes c @ bs\<rparr>)
      | r # rs \<Rightarrow> if r < 0 then (r, c\<lparr>out_room := rs\<rparr>)
          else (min r (int (length bs)), c\<lparr>out_room := rs, out_bytes := out_bytes c @ take (nat r) bs\<rparr>))"

text \<open>The receive loop: the result, the bytes stored and the connection. \<open>recv\<close> returning zero
  changes nothing, so the loop then never ends: \<open>None\<close>.\<close>

function recv_loop :: "nat \<Rightarrow> conn \<Rightarrow> buffer \<Rightarrow> (int \<times> buffer \<times> conn) option" where
  "recv_loop n c acc =
     (if n = 0 then Some (int (length acc), acc, c)
      else (case c_recv c n of (r, bs, c') \<Rightarrow>
        if r < 0 then Some (-2, acc, c')
        else if r = 0 then None
        else recv_loop (n - nat r) c' (acc @ bs)))"
  by pat_completeness auto
termination
  by (relation "measure (\<lambda>(n, c, acc). n)") auto

declare recv_loop.simps [simp del]

definition mRecv :: "conn \<Rightarrow> int \<Rightarrow> (int \<times> buffer \<times> conn) option" where
  "mRecv c len = recv_loop (nat len) c []"

function send_loop :: "conn \<Rightarrow> buffer \<Rightarrow> int \<Rightarrow> int \<times> conn" where
  "send_loop c bs sent =
     (if bs = [] then (sent, c)
      else (case c_send c bs of (r, c') \<Rightarrow>
        if r < 0 then (-2, c') else send_loop c' (drop (nat r) bs) (sent + r)))"
  by pat_completeness auto
termination
  by (relation "measures [\<lambda>(c, bs, sent). length (out_room c), \<lambda>(c, bs, sent). length bs]")
     (auto simp: c_send_def split: list.splits if_splits)

declare send_loop.simps [simp del]

definition mSend :: "conn \<Rightarrow> buffer \<Rightarrow> int \<times> conn" where
  "mSend c bs = send_loop c bs 0"

section \<open>Messages\<close>

definition MESSAGE_BUFFER_OVER :: buffer where "MESSAGE_BUFFER_OVER = bytes_of ''&over&''"
definition MESSAGE_BUFFER_OVER_LEN :: int where "MESSAGE_BUFFER_OVER_LEN = 6"
definition HEADER_SIZE :: int where "HEADER_SIZE = 44"

definition MSG_TYPE_STORECODE :: int where "MSG_TYPE_STORECODE = 101"
definition MSG_TYPE_BINLOG :: int where "MSG_TYPE_BINLOG = 102"
definition MSG_TYPE_UPDATE_DATABASE :: int where "MSG_TYPE_UPDATE_DATABASE = 103"
definition MSG_TYPE_HEART_BEAT :: int where "MSG_TYPE_HEART_BEAT = 104"
definition MSG_TYPE_CONNECT_SUCCESS :: int where "MSG_TYPE_CONNECT_SUCCESS = 105"

lemmas msg_defs = MSG_TYPE_STORECODE_def MSG_TYPE_BINLOG_def MSG_TYPE_UPDATE_DATABASE_def MSG_TYPE_HEART_BEAT_def
  MSG_TYPE_CONNECT_SUCCESS_def

definition header_bytes :: "socket_header \<Rightarrow> buffer" where
  "header_bytes h = int4store (sh_code h) @ int4store (sh_data_len h) @ sh_message_id h"

definition header_of :: "buffer \<Rightarrow> socket_header option" where
  "header_of bs = do {
     code \<leftarrow> sint4korr bs 0;
     len \<leftarrow> sint4korr bs 4;
     Some \<lparr>sh_code = code, sh_data_len = len, sh_message_id = drop 8 bs\<rparr> }"

text \<open>The result, the header and the text of the message; both are meaningful only when the result is
  true. A body length below zero makes the allocation or the first comparison fail.\<close>

definition recvMessage :: "conn \<Rightarrow> ((socket_header \<times> buffer) option \<times> conn) option" where
  "recvMessage c = do {
     (r, hb, c1) \<leftarrow> mRecv c HEADER_SIZE;
     if r \<noteq> HEADER_SIZE then Some (None, c1)
     else do {
       h \<leftarrow> header_of hb;
       let bodyLen = s32 (sh_data_len h - HEADER_SIZE);
       if bodyLen < 0 then Some (None, c1)
       else do {
         (r2, body, c2) \<leftarrow> mRecv c1 bodyLen;
         if r2 \<noteq> bodyLen then Some (None, c2)
         else do {
           (r3, ov, c3) \<leftarrow> mRecv c2 MESSAGE_BUFFER_OVER_LEN;
           if r3 \<noteq> MESSAGE_BUFFER_OVER_LEN then Some (None, c3)
           else if ov \<noteq> MESSAGE_BUFFER_OVER then Some (None, c3)
           else Some (Some (h, c_str body), c3) } } } }"

text \<open>\<open>None\<close> is a write behind the buffer, which has the size the header announces.\<close>

definition sendMessage :: "socket_header \<Rightarrow> buffer \<Rightarrow> conn \<Rightarrow> (bool \<times> conn) option" where
  "sendMessage h strData c =
     (let iSendLen = sh_data_len h; payload = header_bytes h @ strData in
      if iSendLen < int (length payload) then None
      else (let buf = payload @ replicate (nat iSendLen - length payload) 0; (n, c1) = mSend c buf in
            if n < iSendLen then Some (False, c1)
            else (let (m, c2) = mSend c1 MESSAGE_BUFFER_OVER in
                  Some (m = int (length MESSAGE_BUFFER_OVER), c2))))"

text \<open>The message id of a message sent by type is not initialised.\<close>

definition sendMessage_type :: "buffer \<Rightarrow> int \<Rightarrow> buffer \<Rightarrow> conn \<Rightarrow> (bool \<times> conn) option" where
  "sendMessage_type junk type strData c =
     sendMessage \<lparr>sh_code = type, sh_data_len = s32 (int (length strData) + HEADER_SIZE), sh_message_id = junk\<rparr> strData c"

section \<open>A stream of bytes\<close>

text \<open>What is still to come, however it is cut into segments.\<close>

definition in_data :: "conn \<Rightarrow> buffer" where "in_data c = concat (in_segs c)"

lemma concat_dropWhile_empty [simp]: "concat (dropWhile (\<lambda>s. s = []) ss) = concat ss"
  by (induction ss) auto

lemma c_recv_some:
  assumes "0 < n" "in_data c \<noteq> []"
  obtains k where "0 < k" "k \<le> n" "k \<le> length (in_data c)"
    "\<exists>ss. c_recv c n = (int k, take k (in_data c), c\<lparr>in_segs := ss\<rparr>) \<and> concat ss = drop k (in_data c)"
proof -
  define ss where "ss = dropWhile (\<lambda>s. s = []) (in_segs c)"
  have D: "in_data c = concat ss" by (simp add: ss_def in_data_def)
  with assms(2) obtain s ss' where S: "ss = s # ss'" by (cases ss) auto
  have "s \<noteq> []" using hd_dropWhile [of "\<lambda>s. s = []" "in_segs c"] S by (auto simp: ss_def [symmetric])
  show thesis
  proof
    show "0 < min n (length s)" using assms \<open>s \<noteq> []\<close> by simp
    show "min n (length s) \<le> n" "min n (length s) \<le> length (in_data c)" by (simp_all add: D S)
    have "c_recv c n = (int (min n (length s)), take n s, c\<lparr>in_segs := drop n s # ss'\<rparr>)"
      by (simp add: c_recv_def flip: ss_def) (simp add: S)
    then show "\<exists>ss. c_recv c n = (int (min n (length s)), take (min n (length s)) (in_data c), c\<lparr>in_segs := ss\<rparr>) \<and>
        concat ss = drop (min n (length s)) (in_data c)"
      by (auto simp: D S min_def)
  qed
qed

lemma recv_loop_stream:
  "n \<le> length (in_data c) \<Longrightarrow>
   \<exists>ss. recv_loop n c acc = Some (int (length acc + n), acc @ take n (in_data c), c\<lparr>in_segs := ss\<rparr>)
     \<and> concat ss = drop n (in_data c)"
proof (induction n c acc rule: recv_loop.induct)
  case (1 n c acc)
  show ?case
  proof (cases "n = 0")
    case True
    then show ?thesis by (intro exI [of _ "in_segs c"]) (simp add: recv_loop.simps in_data_def)
  next
    case False
    with "1.prems" have "0 < n" "in_data c \<noteq> []" by auto
    then obtain k ss where k: "0 < k" "k \<le> n" "k \<le> length (in_data c)"
      and R: "c_recv c n = (int k, take k (in_data c), c\<lparr>in_segs := ss\<rparr>)" and S: "concat ss = drop k (in_data c)"
      by (rule c_recv_some) blast
    have "n - nat (int k) \<le> length (in_data (c\<lparr>in_segs := ss\<rparr>))" using "1.prems" k by (simp add: in_data_def [of "c\<lparr>in_segs := ss\<rparr>"] S)
    from "1.IH" [OF False R [symmetric] refl _ _ this] k obtain ss'
      where "recv_loop (n - k) (c\<lparr>in_segs := ss\<rparr>) (acc @ take k (in_data c))
        = Some (int (length acc + k + (n - k)), acc @ take k (in_data c) @ take (n - k) (drop k (in_data c)), c\<lparr>in_segs := ss'\<rparr>)"
        "concat ss' = drop (n - k) (drop k (in_data c))"
      by (auto simp: in_data_def [of "c\<lparr>in_segs := ss\<rparr>"] S)
    then show ?thesis using k False R
      by (intro exI [of _ ss']) (simp add: recv_loop.simps [of n c acc] take_add [symmetric])
  qed
qed

lemma mRecv_stream:
  assumes "in_data c = xs @ ys"
  obtains ss where "mRecv c (int (length xs)) = Some (int (length xs), xs, c\<lparr>in_segs := ss\<rparr>)" "concat ss = ys"
  using recv_loop_stream [of "length xs" c "[]"] assms by (auto simp: mRecv_def)

lemma send_loop_stream:
  "\<forall>r \<in> set (out_room c). 0 \<le> r \<Longrightarrow>
   \<exists>rs. send_loop c bs n = (n + int (length bs), c\<lparr>out_room := rs, out_bytes := out_bytes c @ bs\<rparr>) \<and> set rs \<subseteq> set (out_room c)"
proof (induction c bs n rule: send_loop.induct)
  case (1 c bs n)
  show ?case
  proof (cases "bs = []")
    case True
    then show ?thesis by (auto simp: send_loop.simps intro!: exI [of _ "out_room c"])
  next
    case False
    show ?thesis
    proof (cases "out_room c")
      case Nil
      then show ?thesis using False
        by (simp add: send_loop.simps [of c bs] send_loop.simps [of _ "[]"] c_send_def)
    next
      case (Cons r rs)
      let ?c = "c\<lparr>out_room := rs, out_bytes := out_bytes c @ take (nat r) bs\<rparr>"
      have r: "0 \<le> r" using "1.prems" Cons by simp
      then have S: "c_send c bs = (min r (int (length bs)), ?c)" by (simp add: c_send_def Cons)
      obtain rs' where "send_loop ?c (drop (nat (min r (int (length bs)))) bs) (n + min r (int (length bs)))
          = (n + min r (int (length bs)) + int (length (drop (nat (min r (int (length bs)))) bs)),
             ?c\<lparr>out_room := rs', out_bytes := out_bytes ?c @ drop (nat (min r (int (length bs)))) bs\<rparr>)"
          "set rs' \<subseteq> set rs"
        using "1.IH" [OF False S [symmetric]] r "1.prems" Cons by (auto simp: not_less)
      then show ?thesis using False r
        by (intro exI [of _ rs']) (auto simp: send_loop.simps [of c bs] S Cons min_def)
    qed
  qed
qed

lemma mSend_stream:
  assumes "\<forall>r \<in> set (out_room c). 0 \<le> r"
  obtains rs where "mSend c bs = (int (length bs), c\<lparr>out_room := rs, out_bytes := out_bytes c @ bs\<rparr>)" "\<forall>r \<in> set rs. 0 \<le> r"
  using send_loop_stream [OF assms, of bs 0] assms unfolding mSend_def by auto

lemma recv_loop_short:
  "length (in_data c) < n \<Longrightarrow> in_end c \<le> 0 \<Longrightarrow> recv_loop n c acc =
     (if in_end c = 0 then None else Some (-2, acc @ in_data c, c\<lparr>in_segs := []\<rparr>))"
proof (induction n c acc rule: recv_loop.induct)
  case (1 n c acc)
  then have n: "n \<noteq> 0" by auto
  show ?case
  proof (cases "in_data c = []")
    case True
    then have E: "dropWhile (\<lambda>s. s = []) (in_segs c) = []"
      by (simp add: in_data_def dropWhile_eq_Nil_conv)
    have "c_recv c n = (in_end c, [], c\<lparr>in_segs := []\<rparr>)" by (simp only: c_recv_def E list.case)
    then show ?thesis using n True "1.prems" by (simp add: recv_loop.simps [of n c acc])
  next
    case False
    with n obtain k ss where k: "0 < k" "k \<le> n" "k \<le> length (in_data c)"
      and R: "c_recv c n = (int k, take k (in_data c), c\<lparr>in_segs := ss\<rparr>)" and S: "concat ss = drop k (in_data c)"
      by (metis c_recv_some neq0_conv)
    have D: "in_data (c\<lparr>in_segs := ss\<rparr>) = drop k (in_data c)" by (simp add: in_data_def [of "c\<lparr>in_segs := ss\<rparr>"] S)
    have "length (in_data (c\<lparr>in_segs := ss\<rparr>)) < n - nat (int k)" using "1.prems" k by (simp add: D)
    from "1.IH" [OF n R [symmetric] refl _ _ this] k "1.prems"
    show ?thesis using n R by (simp add: recv_loop.simps [of n c acc] D)
  qed
qed

section \<open>Messages on the wire\<close>

definition message_bytes :: "socket_header \<Rightarrow> buffer \<Rightarrow> buffer" where
  "message_bytes h body = header_bytes h @ body @ MESSAGE_BUFFER_OVER"

text \<open>A header that announces its message: the length counts the header and the body.\<close>

definition header_ok :: "socket_header \<Rightarrow> buffer \<Rightarrow> bool" where
  "header_ok h body \<longleftrightarrow> - (2 ^ 31) \<le> sh_code h \<and> sh_code h < 2 ^ 31 \<and> length (sh_message_id h) = 36 \<and>
     sh_data_len h = HEADER_SIZE + int (length body) \<and> sh_data_len h < 2 ^ 31"

lemma header_len: "length (sh_message_id h) = 36 \<Longrightarrow> int (length (header_bytes h)) = HEADER_SIZE"
  by (simp add: header_bytes_def store_le_bytes HEADER_SIZE_def)

lemma over_len: "int (length MESSAGE_BUFFER_OVER) = MESSAGE_BUFFER_OVER_LEN"
  by (simp add: MESSAGE_BUFFER_OVER_def MESSAGE_BUFFER_OVER_LEN_def)

lemma header_read_back:
  assumes "header_ok h body"
  shows "header_of (header_bytes h) = Some h"
proof -
  have R: "- (2 ^ 31) \<le> sh_data_len h" "sh_data_len h < 2 ^ 31"
    using assms by (simp_all add: header_ok_def HEADER_SIZE_def)
  have "sint4korr (int4store (sh_code h) @ int4store (sh_data_len h) @ sh_message_id h) 0 = Some (sh_code h)"
    using assms le.korr_store [where pre = "[]"] by (simp add: header_ok_def skorr_le_val korr_comp store_le_bytes sext_id)
  moreover have "sint4korr (int4store (sh_code h) @ int4store (sh_data_len h) @ sh_message_id h) 4 = Some (sh_data_len h)"
    using R le.korr_store [where pre = "le_bytes 4 (sh_code h)"]
    by (simp add: skorr_le_val korr_comp store_le_bytes sext_id)
  ultimately show ?thesis by (simp add: header_of_def header_bytes_def store_le_bytes)
qed

lemma sendMessage_bytes:
  assumes "header_ok h body" "\<forall>r \<in> set (out_room c). 0 \<le> r"
  obtains rs where "sendMessage h body c = Some (True, c\<lparr>out_room := rs, out_bytes := out_bytes c @ message_bytes h body\<rparr>)"
proof -
  have L: "int (length (header_bytes h @ body)) = sh_data_len h"
    using assms header_len [of h] by (simp add: header_ok_def)
  obtain rs where 1: "mSend c (header_bytes h @ body) =
      (sh_data_len h, c\<lparr>out_room := rs, out_bytes := out_bytes c @ header_bytes h @ body\<rparr>)" and "\<forall>r \<in> set rs. 0 \<le> r"
    by (rule mSend_stream [OF assms(2), of "header_bytes h @ body"]) (auto simp only: L)
  moreover from this(2) obtain rs' where "mSend (c\<lparr>out_room := rs, out_bytes := out_bytes c @ header_bytes h @ body\<rparr>) MESSAGE_BUFFER_OVER =
      (int (length MESSAGE_BUFFER_OVER), c\<lparr>out_room := rs', out_bytes := out_bytes c @ message_bytes h body\<rparr>)"
    by (rule_tac mSend_stream [of "c\<lparr>out_room := rs, out_bytes := out_bytes c @ header_bytes h @ body\<rparr>" MESSAGE_BUFFER_OVER])
       (auto simp: message_bytes_def)
  ultimately show thesis
    using that [of rs'] by (simp add: sendMessage_def L [symmetric])
qed

lemma recvMessage_bytes:
  assumes "header_ok h body" "in_data c = header_bytes h @ body @ ov @ rest" "length ov = length MESSAGE_BUFFER_OVER"
  obtains ss where "recvMessage c = Some (if ov = MESSAGE_BUFFER_OVER then Some (h, c_str body) else None, c\<lparr>in_segs := ss\<rparr>)"
    "concat ss = rest"
proof -
  have H: "int (length (header_bytes h)) = HEADER_SIZE" using assms header_len [of h] by (simp add: header_ok_def)
  obtain s1 where 1: "mRecv c HEADER_SIZE = Some (HEADER_SIZE, header_bytes h, c\<lparr>in_segs := s1\<rparr>)" "concat s1 = body @ ov @ rest"
    by (rule mRecv_stream [OF assms(2)]) (auto simp: H)
  have "in_data (c\<lparr>in_segs := s1\<rparr>) = body @ ov @ rest" by (simp add: in_data_def 1)
  then obtain s2 where 2: "mRecv (c\<lparr>in_segs := s1\<rparr>) (int (length body)) = Some (int (length body), body, c\<lparr>in_segs := s2\<rparr>)"
    "concat s2 = ov @ rest"
    by (rule mRecv_stream) auto
  have "in_data (c\<lparr>in_segs := s2\<rparr>) = ov @ rest" by (simp add: in_data_def 2)
  then obtain s3 where 3: "mRecv (c\<lparr>in_segs := s2\<rparr>) MESSAGE_BUFFER_OVER_LEN = Some (MESSAGE_BUFFER_OVER_LEN, ov, c\<lparr>in_segs := s3\<rparr>)"
    "concat s3 = rest"
    by (rule mRecv_stream) (auto simp: assms(3) over_len)
  have B: "s32 (sh_data_len h - HEADER_SIZE) = int (length body)"
    using assms(1) by (simp add: header_ok_def s32_id HEADER_SIZE_def)
  show thesis
    using that [OF _ 3(2)] by (simp add: recvMessage_def 1 2 3 B header_read_back [OF assms(1)])
qed

section \<open>Properties\<close>

text \<open>C11: a message survives the wire. A message whose header announces its length is sent whole
  over a connection that never fails, however few bytes each \<open>send\<close> takes; when the bytes it put on
  the wire reach the other side, in segments cut anywhere and with more bytes behind them,
  \<open>recvMessage\<close> returns the same header and the same text and leaves exactly the bytes behind it.\<close>

theorem message_roundtrip:
  assumes "header_ok h body" "0 \<notin> set body" "\<forall>r \<in> set (out_room c). 0 \<le> r"
  shows "\<exists>c'. sendMessage h body c = Some (True, c') \<and>
    (\<forall>d rest. out_bytes c @ concat (in_segs d) = out_bytes c' @ rest \<longrightarrow>
       (\<exists>ss. recvMessage d = Some (Some (h, body), d\<lparr>in_segs := ss\<rparr>) \<and> concat ss = rest))"
proof -
  obtain rs where S: "sendMessage h body c = Some (True, c\<lparr>out_room := rs, out_bytes := out_bytes c @ message_bytes h body\<rparr>)"
    using assms(1, 3) by (rule sendMessage_bytes)
  have "\<exists>ss. recvMessage d = Some (Some (h, body), d\<lparr>in_segs := ss\<rparr>) \<and> concat ss = rest"
    if "concat (in_segs d) = message_bytes h body @ rest" for d rest
    using that assms(2) recvMessage_bytes [OF assms(1), of d MESSAGE_BUFFER_OVER rest]
    by (auto simp: message_bytes_def in_data_def)
  with S show ?thesis by auto
qed

theorem message_roundtrip_witness:
  "let h = \<lparr>sh_code = 102, sh_data_len = 46, sh_message_id = replicate 36 7\<rparr>;
       c = \<lparr>in_segs = [], in_end = 0, out_room = [3, 0, 20], out_bytes = []\<rparr> in
   \<exists>c'. sendMessage h [65, 66] c = Some (True, c') \<and>
    (\<forall>d rest. out_bytes c @ concat (in_segs d) = out_bytes c' @ rest \<longrightarrow>
       (\<exists>ss. recvMessage d = Some (Some (h, [65, 66]), d\<lparr>in_segs := ss\<rparr>) \<and> concat ss = rest))"
  unfolding Let_def
  by (rule message_roundtrip) (simp_all add: header_ok_def HEADER_SIZE_def)



end
