(* ===== verification/Alimq.thy ===== *)
theory Alimq
  imports Configfile Sockets
begin

text \<open>
  The message queue service: \<open>syncshare/AliMessageQueue.cpp\<close> and the listeners of
  \<open>syncshare/MyMessageListener.cpp\<close>. The service itself is a library outside the repository. What it does
  with a message is the parameter \<open>ons\<close>, true when it accepts the message and false when \<open>send\<close> throws; the
  accepted messages are kept in \<open>mq_sent\<close>, the subscriptions in \<open>mq_subscribed\<close>.
\<close>

datatype topic_enum = erp_final_topic | exception_topic | queue_raw_topic

datatype queue_instance = wms_producer | erp_producer | wms_consumer | erp_consumer | erp_final_consumer
  | exception_thread1_producer | exception_thread1_consumer

record mq_config =
  cfg_name :: buffer
  cfg_producer :: buffer
  cfg_consumer :: buffer

datatype message_listener = MessageListenerErpFinal | MessageListenerException

text \<open>A producer and a consumer are known by their ids, the topic is the publish topic of the factory.\<close>

record queue_data =
  qd_producer :: "buffer option"
  qd_consumer :: "buffer option"
  qd_listener :: "message_listener option"
  qd_topics :: buffer

record ons_message =
  msg_topic :: buffer
  msg_tag :: buffer
  msg_key :: buffer
  msg_body :: buffer

record ali_queue =
  m_mq_config :: "topic_enum \<Rightarrow> mq_config option"
  m_queueInfos :: "queue_instance \<Rightarrow> queue_data option"
  mq_created :: "queue_instance list"
  mq_sent :: "ons_message list"
  mq_subscribed :: "(buffer \<times> message_listener option) list"

section \<open>Configuration\<close>

text \<open>A missing value throws an exception with the names of the section and of the key.\<close>

definition config_value :: "buffer option \<Rightarrow> string \<Rightarrow> string \<Rightarrow> string + buffer" where
  "config_value file sec key =
     (case GetConfigStringValue file (bytes_of sec) (bytes_of key) of
        (rc, v) \<Rightarrow> if rc \<noteq> SUCCESS then Inl (''config '' @ sec @ '' '' @ key) else Inr (the v))"

definition config_topic :: "buffer option \<Rightarrow> string \<Rightarrow> string + mq_config" where
  "config_topic file sec =
     (case config_value file sec ''name'' of Inl e \<Rightarrow> Inl e | Inr n \<Rightarrow>
      (case config_value file sec ''producer'' of Inl e \<Rightarrow> Inl e | Inr p \<Rightarrow>
       (case config_value file sec ''consumer'' of Inl e \<Rightarrow> Inl e | Inr c \<Rightarrow>
          Inr \<lparr>cfg_name = n, cfg_producer = p, cfg_consumer = c\<rparr>)))"

definition initConfig :: "buffer option \<Rightarrow> string + ali_queue" where
  "initConfig file =
     (case config_topic file ''MQ_FINAL_TOPIC'' of Inl e \<Rightarrow> Inl e | Inr f \<Rightarrow>
      (case config_topic file ''MQ_RAW_TOPIC'' of Inl e \<Rightarrow> Inl e | Inr r \<Rightarrow>
       (case config_topic file ''MQ_EXCEPTION'' of Inl e \<Rightarrow> Inl e | Inr x \<Rightarrow>
          Inr \<lparr>m_mq_config = [erp_final_topic \<mapsto> f, queue_raw_topic \<mapsto> r, exception_topic \<mapsto> x],
               m_queueInfos = Map.empty, mq_created = [], mq_sent = [], mq_subscribed = []\<rparr>)))"

section \<open>Producers and consumers\<close>

definition config_of :: "ali_queue \<Rightarrow> topic_enum \<Rightarrow> mq_config" where
  "config_of a t = (case m_mq_config a t of None \<Rightarrow> \<lparr>cfg_name = [], cfg_producer = [], cfg_consumer = []\<rparr> | Some c \<Rightarrow> c)"

definition createProducer :: "buffer \<Rightarrow> buffer \<Rightarrow> queue_data" where
  "createProducer szTopics szProducerId =
     \<lparr>qd_producer = Some szProducerId, qd_consumer = None, qd_listener = None, qd_topics = szTopics\<rparr>"

definition createConsumer :: "buffer \<Rightarrow> buffer \<Rightarrow> message_listener option \<Rightarrow> queue_data" where
  "createConsumer szTopics szConsumer l =
     \<lparr>qd_producer = None, qd_consumer = Some szConsumer, qd_listener = l, qd_topics = szTopics\<rparr>"

fun new_queue_data :: "ali_queue \<Rightarrow> queue_instance \<Rightarrow> queue_data" where
  "new_queue_data a wms_producer =
     createProducer (c_str (cfg_name (config_of a queue_raw_topic))) (c_str (cfg_producer (config_of a queue_raw_topic)))"
| "new_queue_data a erp_producer =
     createProducer (c_str (cfg_name (config_of a erp_final_topic))) (c_str (cfg_producer (config_of a erp_final_topic)))"
| "new_queue_data a exception_thread1_producer =
     createProducer (c_str (cfg_name (config_of a exception_topic))) (c_str (cfg_producer (config_of a exception_topic)))"
| "new_queue_data a wms_consumer = createConsumer (bytes_of ''WMS_TOPIC'') (bytes_of ''CID_wms_consumer'') None"
| "new_queue_data a erp_consumer = createConsumer (bytes_of ''ERP_TOPIC'') (bytes_of ''CID_erp_consumer'') None"
| "new_queue_data a erp_final_consumer =
     createConsumer (c_str (cfg_name (config_of a erp_final_topic))) (c_str (cfg_consumer (config_of a erp_final_topic)))
       (Some MessageListenerErpFinal)"
| "new_queue_data a exception_thread1_consumer =
     createConsumer (c_str (cfg_name (config_of a exception_topic))) (c_str (cfg_consumer (config_of a exception_topic)))
       (Some MessageListenerException)"

definition producerIsExist :: "queue_instance \<Rightarrow> ali_queue \<Rightarrow> bool" where
  "producerIsExist inst a \<longleftrightarrow> m_queueInfos a inst \<noteq> None"

definition getProOrCon :: "queue_instance \<Rightarrow> ali_queue \<Rightarrow> queue_data \<times> ali_queue" where
  "getProOrCon inst a =
     (if producerIsExist inst a then (the (m_queueInfos a inst), a)
      else (let d = new_queue_data a inst; a1 = a\<lparr>mq_created := mq_created a @ [inst]\<rparr> in
            if qd_producer d \<noteq> None \<or> qd_consumer d \<noteq> None then (d, a1\<lparr>m_queueInfos := (m_queueInfos a)(inst \<mapsto> d)\<rparr>)
            else (d, a1)))"

text \<open>Sending through an instance that has no producer reads a null pointer: \<open>None\<close>.\<close>

definition pushMessage ::
    "(ons_message \<Rightarrow> bool) \<Rightarrow> queue_instance \<Rightarrow> buffer \<Rightarrow> buffer \<Rightarrow> buffer \<Rightarrow> ali_queue \<Rightarrow> (bool \<times> ali_queue) option" where
  "pushMessage ons enumState strTag strKey strMessage a =
     (let (d, a1) = getProOrCon enumState a;
          msg = \<lparr>msg_topic = qd_topics d, msg_tag = strTag, msg_key = strKey, msg_body = strMessage\<rparr> in
      if qd_producer d = None then None
      else if ons msg then Some (True, a1\<lparr>mq_sent := mq_sent a1 @ [msg]\<rparr>)
      else Some (False, a1))"

definition pushRawMessage ::
    "(ons_message \<Rightarrow> bool) \<Rightarrow> queue_instance \<Rightarrow> buffer \<Rightarrow> buffer \<Rightarrow> buffer \<Rightarrow> ali_queue \<Rightarrow> (bool \<times> ali_queue) option" where
  "pushRawMessage ons enumState strTag strKey strMessage a =
     (let (d, a1) = getProOrCon enumState a;
          msg = \<lparr>msg_topic = qd_topics d, msg_tag = strTag, msg_key = strKey, msg_body = strMessage\<rparr> in
      if qd_producer d = None then None
      else if ons msg then Some (True, a1\<lparr>mq_sent := mq_sent a1 @ [msg]\<rparr>)
      else Some (False, a1))"

text \<open>The two functions for sending are the same.\<close>

lemma pushRawMessage_eq: "pushRawMessage = pushMessage"
  by (intro ext) (simp add: pushRawMessage_def pushMessage_def)

definition runServer :: "queue_instance \<Rightarrow> ali_queue \<Rightarrow> bool \<times> ali_queue" where
  "runServer enumState a =
     (let (d, a1) = getProOrCon enumState a in
      if qd_consumer d = None then (False, a1)
      else (True, a1\<lparr>mq_subscribed := mq_subscribed a1 @ [(qd_topics d, qd_listener d)]\<rparr>))"

section \<open>Listeners\<close>

definition c_atoi :: "buffer \<Rightarrow> int" where
  "c_atoi s = (case scan_d s of None \<Rightarrow> 0 | Some x \<Rightarrow> x)"

text \<open>What the listener of the ERP topic computes of a message before it acknowledges it: nothing for a message that
  is too short, the header, the dispatch type, the stores and the body otherwise. \<open>substr\<close> throws when it starts
  behind the end, and an id of more than 32 characters is written behind the header. \<open>junk\<close> is what the message id
  held before.\<close>

datatype erp_result = Committed "mq_data option" | Substr_throws | Header_overrun

definition MessageListenerErpFinal_consume :: "buffer \<Rightarrow> buffer \<Rightarrow> buffer \<Rightarrow> erp_result" where
  "MessageListenerErpFinal_consume junk strMsgId strMsg =
     (let msgLen = s32 (int (length strMsg)) in
      if msgLen < 5 then Committed None
      else (let strDispatchType = take 1 strMsg;
                iStoreLen = c_atoi (c_str (take 4 (drop 1 strMsg))) in
            if msgLen < iStoreLen + 5 then Committed None
            else if iStoreLen + 5 < 0 then Substr_throws
            else if length strMsgId > 32 then Header_overrun
            else (let strStores = (if iStoreLen < 0 then drop 5 strMsg else take (nat iStoreLen) (drop 5 strMsg));
                      strBody = drop (nat (iStoreLen + 5)) strMsg;
                      header = \<lparr>sh_code = MSG_TYPE_UPDATE_DATABASE, sh_data_len = s32 (HEADER_SIZE + int (length strBody)),
                                sh_message_id = strMsgId @ 0 # drop (length strMsgId + 1) junk\<rparr> in
                  Committed (Some \<lparr>mq_header = header, mq_dispatch_type = strDispatchType, mq_stores = strStores,
                                   mq_body = strBody\<rparr>))))"

definition MessageListenerException_consume :: "buffer \<Rightarrow> buffer \<Rightarrow> buffer \<Rightarrow> mq_queues \<Rightarrow> mq_queues" where
  "MessageListenerException_consume junk key strMsg q =
     (if s32 (int (length strMsg)) < 5 then q
      else (let header = \<lparr>sh_code = MSG_TYPE_UPDATE_DATABASE, sh_data_len = s32 (HEADER_SIZE + int (length strMsg)),
                          sh_message_id = junk\<rparr> in
            if key = [] then q else fst (ProductExceptionData header (bytes_of ''1'') key strMsg q)))"

section \<open>The end of the client\<close>

text \<open>The instances are ordered as the enumeration lists them, which is the order of the keys of a \<open>std::map\<close>.\<close>

fun instance_number :: "queue_instance \<Rightarrow> nat" where
  "instance_number wms_producer = 0"
| "instance_number erp_producer = 1"
| "instance_number wms_consumer = 2"
| "instance_number erp_consumer = 3"
| "instance_number erp_final_consumer = 4"
| "instance_number exception_thread1_producer = 5"
| "instance_number exception_thread1_consumer = 6"

instantiation queue_instance :: linorder
begin

definition less_eq_queue_instance :: "queue_instance \<Rightarrow> queue_instance \<Rightarrow> bool" where
  "less_eq_queue_instance i j \<longleftrightarrow> instance_number i \<le> instance_number j"

definition less_queue_instance :: "queue_instance \<Rightarrow> queue_instance \<Rightarrow> bool" where
  "less_queue_instance i j \<longleftrightarrow> instance_number i < instance_number j"

instance
proof
  fix i j :: queue_instance
  show "i \<le> j \<Longrightarrow> j \<le> i \<Longrightarrow> i = j" by (cases i; cases j) (simp_all add: less_eq_queue_instance_def)
qed (auto simp: less_eq_queue_instance_def less_queue_instance_def)

end

definition all_instances :: "queue_instance list" where
  "all_instances = [wms_producer, erp_producer, wms_consumer, erp_consumer, erp_final_consumer,
     exception_thread1_producer, exception_thread1_consumer]"

lemma all_instances_ordered: "sorted all_instances" "distinct all_instances" "set all_instances = UNIV"
proof -
  show "set all_instances = UNIV" using queue_instance.exhaust by (auto simp: all_instances_def)
qed (simp_all add: all_instances_def less_eq_queue_instance_def)

definition map_keys :: "ali_queue \<Rightarrow> queue_instance list" where
  "map_keys a = filter (\<lambda>i. m_queueInfos a i \<noteq> None) all_instances"

lemma map_keys_sorted: "map_keys a = sorted_list_of_set (dom (m_queueInfos a))"
proof -
  have "sorted (map_keys a)" "distinct (map_keys a)"
    using all_instances_ordered by (auto simp: map_keys_def sorted_wrt_filter)
  moreover have "set (map_keys a) = dom (m_queueInfos a)" using all_instances_ordered(3) by (auto simp: map_keys_def)
  ultimately show ?thesis by (metis sorted_list_of_set.idem_if_sorted_distinct)
qed

datatype ali_release = Producer_shutdown queue_instance | Consumer_shutdown queue_instance
  | Listener_deleted queue_instance | Data_deleted queue_instance

definition release_entry :: "queue_instance \<Rightarrow> queue_data \<Rightarrow> ali_release list" where
  "release_entry i d =
     (if qd_producer d \<noteq> None then [Producer_shutdown i] else [])
     @ (if qd_consumer d \<noteq> None then [Consumer_shutdown i] else [])
     @ (if qd_listener d \<noteq> None then [Listener_deleted i] else [])
     @ [Data_deleted i]"

definition destroy_queue :: "ali_queue \<Rightarrow> ali_release list \<times> ali_queue" where
  "destroy_queue a =
     (concat (map (\<lambda>i. case m_queueInfos a i of None \<Rightarrow> [] | Some d \<Rightarrow> release_entry i d) (map_keys a)),
      a\<lparr>m_queueInfos := Map.empty\<rparr>)"

text \<open>Every entry is released once, in the order of the keys, and nothing else.\<close>

lemma distinct_concat_disjoint:
  assumes "distinct xs" "\<And>x. distinct (f x)" "\<And>x y. x \<noteq> y \<Longrightarrow> set (f x) \<inter> set (f y) = {}"
  shows "distinct (concat (map f xs))"
  using assms(1)
proof (induction xs)
  case (Cons x xs)
  then have "set (f x) \<inter> set (f y) = {}" if "y \<in> set xs" for y using assms(3) [of x y] that by auto
  then show ?case using Cons assms(2) by auto
qed simp

lemma destroy_queue_releases:
  "distinct (fst (destroy_queue a))"
  "Data_deleted i \<in> set (fst (destroy_queue a)) \<longleftrightarrow> m_queueInfos a i \<noteq> None"
  "Producer_shutdown i \<in> set (fst (destroy_queue a)) \<longleftrightarrow> (\<exists>d. m_queueInfos a i = Some d \<and> qd_producer d \<noteq> None)"
  "Consumer_shutdown i \<in> set (fst (destroy_queue a)) \<longleftrightarrow> (\<exists>d. m_queueInfos a i = Some d \<and> qd_consumer d \<noteq> None)"
proof -
  have k: "i \<in> set (map_keys a) \<longleftrightarrow> m_queueInfos a i \<noteq> None" for i
    using all_instances_ordered(3) by (auto simp: map_keys_def)
  show "distinct (fst (destroy_queue a))" unfolding destroy_queue_def fst_conv
    by (rule distinct_concat_disjoint)
       (auto simp: map_keys_def all_instances_ordered(2) release_entry_def split: option.splits if_splits)
  show "Data_deleted i \<in> set (fst (destroy_queue a)) \<longleftrightarrow> m_queueInfos a i \<noteq> None"
    by (auto simp: destroy_queue_def k release_entry_def split: option.splits)
  show "Producer_shutdown i \<in> set (fst (destroy_queue a)) \<longleftrightarrow> (\<exists>d. m_queueInfos a i = Some d \<and> qd_producer d \<noteq> None)"
    "Consumer_shutdown i \<in> set (fst (destroy_queue a)) \<longleftrightarrow> (\<exists>d. m_queueInfos a i = Some d \<and> qd_consumer d \<noteq> None)"
    using k [of i] by (auto simp: destroy_queue_def release_entry_def split: option.splits if_splits intro!: bexI [of _ i])
qed

end
