(* ===== verification/Codecs.thy ===== *)
theory Codecs
  imports DS_Prelude
begin

text \<open>
  The text codecs of \<open>syncshare\<close>: Base64 (\<open>base64.cpp\<close>), the URL encoding (\<open>urlencode.cpp\<close>) and the
  splitting of a list of store codes (\<open>splitStrToVector\<close> of \<open>comm.cpp\<close>). Strings are lists of bytes;
  the character classes are those of the "C" locale.
\<close>

section \<open>Base64\<close>

definition base64_chars :: buffer where
  "base64_chars = bytes_of ''ABCDEFGHIJKLMNOPQRSTUVWXYZabcdefghijklmnopqrstuvwxyz0123456789+/''"

definition isupper :: "uchar \<Rightarrow> bool" where "isupper c \<longleftrightarrow> 65 \<le> c \<and> c \<le> 90"
definition islower :: "uchar \<Rightarrow> bool" where "islower c \<longleftrightarrow> 97 \<le> c \<and> c \<le> 122"
definition isdigit :: "uchar \<Rightarrow> bool" where "isdigit c \<longleftrightarrow> 48 \<le> c \<and> c \<le> 57"
definition isalnum :: "uchar \<Rightarrow> bool" where "isalnum c \<longleftrightarrow> isupper c \<or> islower c \<or> isdigit c"
definition isxdigit :: "uchar \<Rightarrow> bool" where
  "isxdigit c \<longleftrightarrow> isdigit c \<or> 65 \<le> c \<and> c \<le> 70 \<or> 97 \<le> c \<and> c \<le> 102"
definition tolower :: "uchar \<Rightarrow> uchar" where "tolower c = (if isupper c then c + 32 else c)"

lemmas ctype_defs = isupper_def islower_def isdigit_def isalnum_def isxdigit_def tolower_def

definition is_base64 :: "uchar \<Rightarrow> bool" where
  "is_base64 c \<longleftrightarrow> isalnum c \<or> c = 43 \<or> c = 47"

text \<open>The four sextets of three bytes, and the three bytes of four sextets; the sums are computed as
  \<open>int\<close> and stored into \<open>unsigned char\<close>.\<close>

definition sextets :: "uchar \<Rightarrow> uchar \<Rightarrow> uchar \<Rightarrow> uchar list" where
  "sextets a b c =
     [uchar_of (shr (and (uint a) 0xfc) 2),
      uchar_of (shl (and (uint a) 0x03) 4 + shr (and (uint b) 0xf0) 4),
      uchar_of (shl (and (uint b) 0x0f) 2 + shr (and (uint c) 0xc0) 6),
      uchar_of (and (uint c) 0x3f)]"

definition octets :: "uchar \<Rightarrow> uchar \<Rightarrow> uchar \<Rightarrow> uchar \<Rightarrow> uchar list" where
  "octets a b c d =
     [uchar_of (shl (uint a) 2 + shr (and (uint b) 0x30) 4),
      uchar_of (shl (and (uint b) 0xf) 4 + shr (and (uint c) 0x3c) 2),
      uchar_of (shl (and (uint c) 0x3) 6 + uint d)]"

definition base64_char :: "uchar \<Rightarrow> uchar" where
  "base64_char x = base64_chars ! unat x"

text \<open>\<open>std::string::find\<close> of a character, stored into an \<open>unsigned char\<close>: 255 is \<open>npos\<close> cut to a byte.\<close>

fun find_char :: "buffer \<Rightarrow> uchar \<Rightarrow> uchar \<Rightarrow> uchar" where
  "find_char [] c k = 255"
| "find_char (x # xs) c k = (if x = c then k else find_char xs c (k + 1))"

definition base64_find :: "uchar \<Rightarrow> uchar" where
  "base64_find c = find_char base64_chars c 0"

text \<open>The loop of the encoder: \<open>arr\<close> is the part of \<open>char_array_3\<close> that is filled.\<close>

fun encode_loop :: "uchar list \<Rightarrow> buffer \<Rightarrow> buffer \<Rightarrow> buffer \<times> uchar list" where
  "encode_loop arr [] ret = (ret, arr)"
| "encode_loop arr (x # xs) ret =
     (case arr @ [x] of
        [a, b, c] \<Rightarrow> encode_loop [] xs (ret @ map base64_char (sextets a b c))
      | arr' \<Rightarrow> encode_loop arr' xs ret)"

definition base64_encode :: "buffer \<Rightarrow> buffer" where
  "base64_encode bs =
     (case encode_loop [] bs [] of
        (ret, [a]) \<Rightarrow> ret @ map base64_char (take 2 (sextets a 0 0)) @ [61, 61]
      | (ret, [a, b]) \<Rightarrow> ret @ map base64_char (take 3 (sextets a b 0)) @ [61]
      | (ret, _) \<Rightarrow> ret)"

fun decode_loop :: "uchar list \<Rightarrow> buffer \<Rightarrow> buffer \<Rightarrow> buffer \<times> uchar list" where
  "decode_loop arr [] ret = (ret, arr)"
| "decode_loop arr (x # xs) ret =
     (if x \<noteq> 61 \<and> is_base64 x then
        (case arr @ [x] of
           [a, b, c, d] \<Rightarrow> decode_loop [] xs (ret @ octets (base64_find a) (base64_find b) (base64_find c) (base64_find d))
         | arr' \<Rightarrow> decode_loop arr' xs ret)
      else (ret, arr))"

definition base64_decode :: "buffer \<Rightarrow> buffer" where
  "base64_decode s =
     (case decode_loop [] s [] of (ret, arr) \<Rightarrow>
        (if arr = [] then ret
         else (case map base64_find (arr @ replicate (4 - length arr) 0) of
                 [a, b, c, d] \<Rightarrow> ret @ take (length arr - 1) (octets a b c d)
               | _ \<Rightarrow> ret)))"

section \<open>URL encoding\<close>

definition hexchars :: buffer where
  "hexchars = bytes_of ''0123456789ABCDEF''"

definition hex_val :: "uchar \<Rightarrow> int" where
  "hex_val c0 = (let c = tolower c0 in if 48 \<le> c \<and> c \<le> 57 then uint c - 48 else uint c - 97 + 10)"

definition php_htoi :: "uchar \<Rightarrow> uchar \<Rightarrow> int" where
  "php_htoi a b = hex_val a * 16 + hex_val b"

definition url_escaped :: "uchar \<Rightarrow> bool" where
  "url_escaped c \<longleftrightarrow> (c < 48 \<and> c \<noteq> 45 \<and> c \<noteq> 46) \<or> (c < 65 \<and> c > 57) \<or> (c > 90 \<and> c < 97 \<and> c \<noteq> 95) \<or> c > 122"

definition url_char :: "uchar \<Rightarrow> buffer" where
  "url_char c =
     (if c = 32 then [43]
      else if url_escaped c then [37, hexchars ! unat (drop_bit 4 c), hexchars ! unat (and c 15)]
      else [c])"

text \<open>The encoder, and its result length.\<close>

definition url_encode :: "buffer \<Rightarrow> buffer \<times> int" where
  "url_encode s = (let out = concat (map url_char s) in (out, int (length out)))"

text \<open>The decoder works in place; the place written never overtakes the place read.\<close>

function url_decode_loop :: "buffer \<Rightarrow> buffer" where
  "url_decode_loop [] = []"
| "url_decode_loop (x # xs) =
     (if x = 43 then 32 # url_decode_loop xs
      else if x = 37 \<and> 2 \<le> length xs \<and> isxdigit (xs ! 0) \<and> isxdigit (xs ! 1)
      then uchar_of (php_htoi (xs ! 0) (xs ! 1)) # url_decode_loop (drop 2 xs)
      else x # url_decode_loop xs)"
  by pat_completeness auto
termination
  by (relation "measure length") auto

definition url_decode :: "buffer \<Rightarrow> buffer \<times> int" where
  "url_decode s = (let out = url_decode_loop s in (out, int (length out)))"

section \<open>Lists of store codes\<close>

text \<open>The two indices of \<open>splitStrToVector\<close>; the character at the length of a string is the zero that
  ends it, and beyond it the access is out of bounds.\<close>

fun skip_spaces :: "buffer \<Rightarrow> nat" where
  "skip_spaces (x # xs) = (if x = 32 then Suc (skip_spaces xs) else 0)"
| "skip_spaces [] = 0"

function split_loop :: "buffer \<Rightarrow> nat \<Rightarrow> nat \<Rightarrow> buffer list \<Rightarrow> buffer list option" where
  "split_loop s i j res =
     (if i < length s then
        (if length s < j then None
         else if j = length s \<or> s ! j = 44 \<or> s ! j = 0
         then split_loop s (j + 1) (j + 1) (res @ [take (j - i) (drop i s)])
         else split_loop s i (j + 1) res)
      else Some res)"
  by pat_completeness auto
termination
  by (relation "measure (\<lambda>(s, i, j, res). Suc (length s) - j)") auto

declare split_loop.simps [simp del]

definition splitStrToVector :: "buffer \<Rightarrow> buffer list option" where
  "splitStrToVector s = split_loop s (skip_spaces s) (skip_spaces s) []"

section \<open>Base64 round trip\<close>

lemma and_lowbits: "and x 3 = x mod 4" "and x 0xf = x mod 16" "and x 0x3f = x mod 64" for x :: int
proof -
  have "and x (2 ^ n - 1) = x mod 2 ^ n" for n
    by (simp add: mask_eq_exp_minus_1 [symmetric] take_bit_eq_mask [symmetric] take_bit_eq_mod)
  from this [of 2] this [of 4] this [of 6] show "and x 3 = x mod 4" "and x 0xf = x mod 16" "and x 0x3f = x mod 64" by simp_all
qed

lemma sextet_bits:
  assumes "0 \<le> x" "x < 256"
  shows "shr (and x 0xfc) 2 = x div 4" "shr (and x 0xf0) 4 = x div 16" "shr (and x 0xc0) 6 = x div 64"
    "shr (and x 0x30) 4 = x div 16 mod 4" "shr (and x 0x3c) 2 = x div 4 mod 16"
proof -
  have e: "shr (and x 0xfc) 2 = and (shr x 2) 0x3f" "shr (and x 0xf0) 4 = and (shr x 4) 0xf" "shr (and x 0xc0) 6 = and (shr x 6) 3"
    "shr (and x 0x30) 4 = and (shr x 4) 3" "shr (and x 0x3c) 2 = and (shr x 2) 0xf" by simp_all
  have sh: "shr x 2 = x div 4" "shr x 4 = x div 16" "shr x 6 = x div 64" by (simp_all add: shr_div)
  have m: "x div 4 mod 64 = x div 4" "x div 16 mod 16 = x div 16" "x div 64 mod 4 = x div 64"
    by (rule mod_pos_pos_trivial; use assms in linarith)+
  show "shr (and x 0xfc) 2 = x div 4" "shr (and x 0xf0) 4 = x div 16" "shr (and x 0xc0) 6 = x div 64"
    "shr (and x 0x30) 4 = x div 16 mod 4" "shr (and x 0x3c) 2 = x div 4 mod 16"
    by (simp_all only: e sh and_lowbits m)
qed

lemma sextets_arith:
  "sextets a b c = [uchar_of (uint a div 4), uchar_of (uint a mod 4 * 16 + uint b div 16),
     uchar_of (uint b mod 16 * 4 + uint c div 64), uchar_of (uint c mod 64)]"
  unfolding sextets_def sextet_bits [OF uint_uchar_bounds(1,2)] by (simp add: and_lowbits shl_mult)

lemma octets_arith:
  "octets a b c d = [uchar_of (uint a * 4 + uint b div 16 mod 4), uchar_of (uint b mod 16 * 16 + uint c div 4 mod 16),
     uchar_of (uint c mod 4 * 64 + uint d)]"
  unfolding octets_def sextet_bits [OF uint_uchar_bounds(1,2)] by (simp add: and_lowbits shl_mult)

lemma sextet_range:
  assumes "0 \<le> a" "a < 256" "0 \<le> b" "b < 256" "0 \<le> c" "c < (256 :: int)"
  shows "a div 4 < 64" "a mod 4 * 16 + b div 16 < 64" "b mod 16 * 4 + c div 64 < 64"
    "(a div 4) mod 256 = a div 4" "(a mod 4 * 16 + b div 16) mod 256 = a mod 4 * 16 + b div 16"
    "(b mod 16 * 4 + c div 64) mod 256 = b mod 16 * 4 + c div 64" "(c mod 64) mod 256 = c mod 64"
    "a div 4 * 4 + (a mod 4 * 16 + b div 16) div 16 mod 4 = a"
    "(a mod 4 * 16 + b div 16) mod 16 * 16 + (b mod 16 * 4 + c div 64) div 4 mod 16 = b"
    "(b mod 16 * 4 + c div 64) mod 4 * 64 + c mod 64 = c"
proof -
  have r: "0 \<le> a div 4" "a div 4 < 64" "0 \<le> b div 16" "b div 16 < 16" "0 \<le> c div 64" "c div 64 < 4"
    "0 \<le> a mod 4" "a mod 4 < 4" "0 \<le> b mod 16" "b mod 16 < 16" "0 \<le> c mod 64" "c mod 64 < 64"
    using assms by simp_all
  then show s: "a div 4 < 64" "a mod 4 * 16 + b div 16 < 64" "b mod 16 * 4 + c div 64 < 64" by linarith+
  with r show "(a div 4) mod 256 = a div 4" "(a mod 4 * 16 + b div 16) mod 256 = a mod 4 * 16 + b div 16"
    "(b mod 16 * 4 + c div 64) mod 256 = b mod 16 * 4 + c div 64" "(c mod 64) mod 256 = c mod 64"
    by (intro mod_pos_pos_trivial; linarith)+
  have d: "(k * n + y) div n = k" "(k * n + y) mod n = y" if "0 \<le> y" "y < n" for k y n :: int
    using that by simp_all
  have q: "(a mod 4 * 16 + b div 16) div 16 = a mod 4" "(a mod 4 * 16 + b div 16) mod 16 = b div 16"
    "(b mod 16 * 4 + c div 64) div 4 = b mod 16" "(b mod 16 * 4 + c div 64) mod 4 = c div 64"
    using d [OF r(3,4)] d [OF r(5,6)] by blast+
  show "a div 4 * 4 + (a mod 4 * 16 + b div 16) div 16 mod 4 = a"
    "(a mod 4 * 16 + b div 16) mod 16 * 16 + (b mod 16 * 4 + c div 64) div 4 mod 16 = b"
    "(b mod 16 * 4 + c div 64) mod 4 * 64 + c mod 64 = c"
    unfolding q by (simp_all only: mod_mod_trivial div_mult_mod_eq)
qed

lemmas sextet_range_uint = sextet_range [OF uint_uchar_bounds(1,2) uint_uchar_bounds(1,2) uint_uchar_bounds(1,2)]

lemma octets_sextets: "sextets a b c = [w, x, y, z] \<Longrightarrow> octets w x y z = [a, b, c]"
proof -
  assume "sextets a b c = [w, x, y, z]"
  then have w: "w = uchar_of (uint a div 4)" "x = uchar_of (uint a mod 4 * 16 + uint b div 16)"
     "y = uchar_of (uint b mod 16 * 4 + uint c div 64)" "z = uchar_of (uint c mod 64)"
    by (simp_all add: sextets_arith)
  show ?thesis unfolding w octets_arith uint_uchar_of sextet_range_uint by simp
qed

lemma sextets_small: "\<forall>x\<in>set (sextets a b c). x < 64"
  unfolding sextets_arith by (simp add: word_less_def sextet_range_uint)

lemma find_char_nth:
  assumes "distinct xs" "k < length xs"
  shows "find_char xs (xs ! k) j = j + of_nat k"
  using assms by (induction xs arbitrary: k j) (auto simp: less_Suc_eq_0_disj nth_Cons algebra_simps split: nat.split)

lemma base64_chars_facts: "distinct base64_chars" "length base64_chars = 64" "\<forall>c\<in>set base64_chars. is_base64 c \<and> c \<noteq> 61"
  by code_simp+

lemma base64_alphabet:
  assumes "x < 64"
  shows "base64_find (base64_char x) = x" "is_base64 (base64_char x)" "base64_char x \<noteq> 61"
proof -
  have k: "unat x < length base64_chars" using assms by (simp add: base64_chars_facts word_less_nat_alt)
  then show "base64_find (base64_char x) = x"
    by (simp add: base64_find_def base64_char_def find_char_nth base64_chars_facts)
  have "base64_char x \<in> set base64_chars" using k by (simp add: base64_char_def)
  then show "is_base64 (base64_char x)" "base64_char x \<noteq> 61" using base64_chars_facts(3) by blast+
qed


lemma encode_loop_acc: "encode_loop arr xs (r1 @ r2) = apfst ((@) r1) (encode_loop arr xs r2)"
  by (induction xs arbitrary: arr r2) (auto split: list.split)

lemma decode_loop_acc: "decode_loop arr xs (r1 @ r2) = apfst ((@) r1) (decode_loop arr xs r2)"
  by (induction xs arbitrary: arr r2) (auto split: list.split)

lemma base64_encode_3: "base64_encode (a # b # c # bs) = map base64_char (sextets a b c) @ base64_encode bs"
  unfolding base64_encode_def
  by (simp add: encode_loop_acc [of "[]" bs "map base64_char (sextets a b c)" "[]", simplified] split: list.split prod.split)

lemma base64_encode_short:
  "base64_encode [] = []" "base64_encode [a] = map base64_char (take 2 (sextets a 0 0)) @ [61, 61]"
  "base64_encode [a, b] = map base64_char (take 3 (sextets a b 0)) @ [61]"
  by (simp_all add: base64_encode_def)

lemma base64_decode_4:
  assumes "w < 64" "x < 64" "y < 64" "z < 64"
  shows "base64_decode (map base64_char [w, x, y, z] @ s) = octets w x y z @ base64_decode s"
  unfolding base64_decode_def
  by (simp add: base64_alphabet assms decode_loop_acc [of "[]" s "octets w x y z" "[]", simplified] split: list.split prod.split)

lemma base64_decode_short:
  assumes "w < 64" "x < 64" "y < 64"
  shows "base64_decode (map base64_char [w, x] @ [61, 61]) = take 1 (octets w x (base64_find 0) (base64_find 0))"
    "base64_decode (map base64_char [w, x, y] @ [61]) = take 2 (octets w x y (base64_find 0))"
  by (simp_all add: base64_decode_def base64_alphabet assms numeral_2_eq_2)

lemma octets_take:
  "take 1 (octets w x y z) = take 1 (octets w x y' z')" "take 2 (octets w x y z) = take 2 (octets w x y z')"
  by (simp_all add: octets_def)

lemma sextets_cases:
  obtains w x y z where "sextets a b c = [w, x, y, z]" "w < 64" "x < 64" "y < 64" "z < 64" "octets w x y z = [a, b, c]"
proof -
  obtain w x y z where s: "sextets a b c = [w, x, y, z]" by (simp add: sextets_def)
  with sextets_small [of a b c] octets_sextets [OF s] that show ?thesis by simp
qed

lemma base64_decode_encode: "base64_decode (base64_encode bs) = bs"
proof (induction bs rule: length_induct)
  case (1 bs)
  consider "bs = []" | a where "bs = [a]" | a b where "bs = [a, b]" | a b c bs' where "bs = a # b # c # bs'"
    by (metis list.exhaust)
  then show ?case
  proof cases
    case 1
    then show ?thesis by (simp add: base64_encode_short base64_decode_def)
  next
    case (2 a)
    obtain w x y z where s: "sextets a 0 0 = [w, x, y, z]" "w < 64" "x < 64" "octets w x y z = [a, 0, 0]"
      by (rule sextets_cases)
    show ?thesis using base64_decode_short(1) [OF s(2,3,3)] octets_take(1) [of w x "base64_find 0" "base64_find 0" y z] s 2
      by (simp add: base64_encode_short)
  next
    case (3 a b)
    obtain w x y z where s: "sextets a b 0 = [w, x, y, z]" "w < 64" "x < 64" "y < 64" "octets w x y z = [a, b, 0]"
      by (rule sextets_cases)
    show ?thesis using base64_decode_short(2) [OF s(2-4)] octets_take(2) [of w x y "base64_find 0" z] s 3
      by (simp add: base64_encode_short)
  next
    case (4 a b c bs')
    obtain w x y z where s: "sextets a b c = [w, x, y, z]" "w < 64" "x < 64" "y < 64" "z < 64" "octets w x y z = [a, b, c]"
      by (rule sextets_cases)
    have "base64_decode (base64_encode bs') = bs'" using 1 4 by simp
    then show ?thesis using base64_decode_4 [OF s(2-5)] s 4 by (simp add: base64_encode_3)
  qed
qed

section \<open>URL round trip\<close>

lemma hex_digits:
  "\<forall>k\<in>set [0..<16]. isxdigit (hexchars ! k) \<and> hex_val (hexchars ! k) = int k \<and> \<not> url_escaped (hexchars ! k) \<and> hexchars ! k \<noteq> 32"
  by code_simp

lemma hexchars_nth:
  assumes "k < 16"
  shows "isxdigit (hexchars ! k)" "hex_val (hexchars ! k) = int k" "\<not> url_escaped (hexchars ! k)" "hexchars ! k \<noteq> 32"
  using hex_digits assms by simp_all

lemma nibbles:
  "unat (drop_bit 4 c) < 16" "unat (and c 15) < 16" "uint (drop_bit 4 c) * 16 + uint (and c 15) = uint c" for c :: uchar
proof -
  have u: "uint (drop_bit 4 c) = uint c div 16" "uint (and c 15) = uint c mod 16"
    by (simp_all add: drop_bit_eq_div uint_div unsigned_and_eq and_lowbits)
  show "unat (drop_bit 4 c) < 16" "unat (and c 15) < 16"
proof -
    have "uint c div 16 < 16" "0 \<le> uint c div 16" using uint_uchar_bounds(1,2) [of c] by linarith+
    then have "nat (uint c div 16) < nat 16" "nat (uint c mod 16) < nat 16" by linarith+
    then show "unat (drop_bit 4 c) < 16" "unat (and c 15) < 16" using u by (simp_all flip: nat_uint_eq)
  qed
  show "uint (drop_bit 4 c) * 16 + uint (and c 15) = uint c" using u by simp
qed

lemma url_decode_char: "url_decode_loop (url_char c @ s) = c # url_decode_loop s"
proof -
  consider "c = 32" | "c \<noteq> 32" "url_escaped c" | "c \<noteq> 32" "\<not> url_escaped c" by blast
  then show ?thesis
  proof cases
    case 2
    then show ?thesis using hexchars_nth [OF nibbles(1)] hexchars_nth [OF nibbles(2)]
      by (simp add: url_char_def php_htoi_def nibbles(3))
  next
    case 3
    then have "c \<noteq> 43" "c \<noteq> 37" by (auto simp: url_escaped_def)
    with 3 show ?thesis by (simp add: url_char_def)
  qed (simp add: url_char_def)
qed

lemma url_decode_encode: "url_decode_loop (concat (map url_char s)) = s"
  by (induction s) (simp_all add: url_decode_char)

text \<open>The characters of an encoded string: letters, digits and minus, point, underscore, plus and percent.\<close>

definition url_safe :: "uchar \<Rightarrow> bool" where
  "url_safe c \<longleftrightarrow> 48 \<le> c \<and> c \<le> 57 \<or> 65 \<le> c \<and> c \<le> 90 \<or> 97 \<le> c \<and> c \<le> 122 \<or> c \<in> {45, 46, 95, 43, 37}"

lemma url_safe_unescaped: "\<not> url_escaped c \<Longrightarrow> url_safe c"
  unfolding url_escaped_def url_safe_def by (auto simp: not_less not_le)

lemma url_char_safe: "\<forall>x\<in>set (url_char c). url_safe x"
proof -
  have "url_safe 43" "url_safe 37" by (simp_all add: url_safe_def)
  with hexchars_nth [OF nibbles(1)] hexchars_nth [OF nibbles(2)] show ?thesis
    by (auto simp: url_char_def url_safe_unescaped)
qed

section \<open>Splitting\<close>

definition code_ok :: "buffer \<Rightarrow> bool" where
  "code_ok n \<longleftrightarrow> 44 \<notin> set n \<and> 0 \<notin> set n"

fun join_codes :: "buffer list \<Rightarrow> buffer" where
  "join_codes [] = []"
| "join_codes [n] = n"
| "join_codes (n # ns) = n @ 44 # join_codes ns"

lemma split_loop_word:
  assumes "code_ok n" "i = length pre" "s = pre @ n @ rest" "i < length s" "j \<le> length n"
  shows "split_loop s i (i + j) res = split_loop s i (i + length n) res"
  using assms
proof (induction "length n - j" arbitrary: j)
  case (Suc k)
  then have j: "j < length n" by simp
  have "s ! (i + j) = n ! j" using j Suc.prems by (simp add: nth_append)
  moreover have "n ! j \<noteq> 44" "n ! j \<noteq> 0" using j Suc.prems(1) by (auto simp: code_ok_def in_set_conv_nth)
  moreover have "i + j < length s" using j Suc.prems by simp
  ultimately have "split_loop s i (i + j) res = split_loop s i (i + Suc j) res"
    using Suc.prems(4) by (subst split_loop.simps) simp
  also have "\<dots> = split_loop s i (i + length n) res" using Suc by (intro Suc.hyps) auto
  finally show ?case .
qed simp

lemma split_loop_join:
  assumes "\<forall>n\<in>set ns. code_ok n" "ns \<noteq> []" "last ns \<noteq> []" "s = pre @ join_codes ns"
  shows "split_loop s (length pre) (length pre) res = Some (res @ ns)"
  using assms
proof (induction ns arbitrary: pre res rule: join_codes.induct)
  case (2 n)
  have s: "s = pre @ n @ []" and l: "length pre < length s" using 2 by auto
  have w: "split_loop s (length pre) (length pre) res = split_loop s (length pre) (length pre + length n) res"
    using split_loop_word [OF _ refl s l, of 0 res] 2 by simp
  have "split_loop s (length pre) (length pre + length n) res = split_loop s (Suc (length s)) (Suc (length s)) (res @ [n])"
    using l s by (subst split_loop.simps) simp
  also have "\<dots> = Some (res @ [n])" by (subst split_loop.simps) simp
  finally show ?case using w by simp
next
  case (3 n m ns)
  have s: "s = pre @ n @ (44 # join_codes (m # ns))" and l: "length pre < length s" using 3 by auto
  have w: "split_loop s (length pre) (length pre) res = split_loop s (length pre) (length pre + length n) res"
    using split_loop_word [OF _ refl s l, of 0 res] 3 by simp
  have "s ! (length pre + length n) = 44" using s by (simp add: nth_append)
  then have "split_loop s (length pre) (length pre + length n) res
      = split_loop s (length (pre @ n @ [44])) (length (pre @ n @ [44])) (res @ [n])"
    using l s by (subst split_loop.simps) simp
  also have "\<dots> = Some ((res @ [n]) @ m # ns)" using 3 s by (intro 3) auto
  finally show ?case using w by simp
qed simp

lemma skip_spaces_replicate: "skip_spaces (replicate k 32 @ s) = k + skip_spaces s"
  by (induction k) auto

lemma splitStrToVector_join:
  assumes "\<forall>n\<in>set ns. code_ok n" "ns \<noteq> []" "last ns \<noteq> []" "join_codes ns ! 0 \<noteq> 32"
  shows "splitStrToVector (replicate k 32 @ join_codes ns) = Some ns"
proof -
  have "join_codes ns \<noteq> []" using assms(2,3) by (cases ns rule: join_codes.cases) auto
  then have "skip_spaces (join_codes ns) = 0" using assms(4) by (cases "join_codes ns") auto
  then show ?thesis using split_loop_join [OF assms(1-3) refl, of "replicate k 32" "[]"]
    by (simp add: splitStrToVector_def skip_spaces_replicate)
qed

text \<open>Base64. Decoding an encoded byte string gives it back, whatever its length and its bytes.\<close>

theorem base64_roundtrip: "base64_decode (base64_encode bs) = bs"
  by (rule base64_decode_encode)

text \<open>The URL encoding. Decoding an encoded byte string gives it back with its length, and the encoded
  string has only letters, digits and the characters minus, point, underscore, plus and percent.\<close>

theorem url_roundtrip:
  "url_decode (fst (url_encode s)) = (s, int (length s))
   \<and> list_all url_safe (fst (url_encode s))"
  using url_char_safe by (auto simp: url_decode_def url_encode_def Let_def url_decode_encode list_all_iff)

text \<open>Lists of store codes. A list of codes without commas and zero bytes, joined with commas and with spaces
  in front, is split into exactly these codes, provided the last one is not empty and the first does not
  begin with a space.\<close>

theorem store_codes_split:
  assumes "\<forall>n\<in>set ns. code_ok n" "ns \<noteq> []" "last ns \<noteq> []" "join_codes ns ! 0 \<noteq> 32"
  shows "splitStrToVector (replicate k 32 @ join_codes ns) = Some ns"
  using assms by (rule splitStrToVector_join)

theorem store_codes_split_witness:
  "splitStrToVector (replicate 1 32 @ join_codes [[49, 57], [], [50]]) = Some [[49, 57], [], [50]]"
  by (rule store_codes_split) (simp_all add: code_ok_def)

end
