(* ===== verification/Server.thy ===== *)
theory Server
  imports Alimq Codecs "HOL-Library.Multiset"
begin

text \<open>
  The server that distributes data to the stores: \<open>DataSync/SocketServer.cpp\<close>, the client handlers of
  \<open>DataSync/HandlerClientSocket.cpp\<close> and the thread bodies of \<open>DataSync/CProcessMqData.cpp\<close>.

  A client is a handler object with its connection; the list \<open>m_clients\<close> is the vector of handlers and a client is
  named by its index in it. \<open>m_disconnect_store\<close> holds the ids of the stores that were connected once and are not any
  more. A result \<open>None\<close> is an operation that does not return or writes behind a buffer. Each operation is one step;
  the mutexes of the code make \<open>sendHeartbeat\<close> and the checks of the client list exclude each other. \<open>alive\<close>
  stands for the state of a socket that \<open>getsockopt\<close> reports, the times are those \<open>time\<close> returned, and \<open>junk\<close>
  is what an uninitialised message id holds.
\<close>

record client =
  m_client_socket :: int
  m_ip :: buffer
  m_client_id :: buffer
  m_last_heartbeat_timestamp :: int
  m_conn :: conn

record server =
  m_clients :: "client list"
  m_disconnect_store :: "buffer list"
  sv_ali :: ali_queue
  sv_mq :: mq_queues

section \<open>The client list\<close>

definition HandlerClientSocket :: "int \<Rightarrow> buffer \<Rightarrow> int \<Rightarrow> conn \<Rightarrow> client" where
  "HandlerClientSocket socket ip now c =
     \<lparr>m_client_socket = socket, m_ip = ip, m_client_id = [], m_last_heartbeat_timestamp = now, m_conn = c\<rparr>"

definition destorySocket :: "client \<Rightarrow> client" where
  "destorySocket cl = (if m_client_socket cl \<noteq> 0 then cl\<lparr>m_client_socket := 0\<rparr> else cl)"

definition addClient :: "client \<Rightarrow> server \<Rightarrow> server" where
  "addClient cl s = s\<lparr>m_clients := m_clients s @ [cl]\<rparr>"

fun ip_loop :: "buffer \<Rightarrow> client list \<Rightarrow> bool" where
  "ip_loop ip [] = False"
| "ip_loop ip (c # cs) = (if m_ip c = ip then False else ip_loop ip cs)"

definition checkClientsIpExist :: "buffer \<Rightarrow> server \<Rightarrow> bool" where
  "checkClientsIpExist ip s = ip_loop ip (m_clients s)"

fun id_loop :: "buffer \<Rightarrow> client list \<Rightarrow> bool" where
  "id_loop i [] = False"
| "id_loop i (c # cs) = (if m_client_id c = i then True else id_loop i cs)"

definition checkClientsIdExist :: "buffer \<Rightarrow> server \<Rightarrow> bool" where
  "checkClientsIdExist i s = id_loop i (m_clients s)"

text \<open>What the accepting thread does with a new connection.\<close>

definition accept_client :: "int \<Rightarrow> buffer \<Rightarrow> int \<Rightarrow> conn \<Rightarrow> server \<Rightarrow> server" where
  "accept_client socket ip now c s =
     (if checkClientsIpExist ip s then s else addClient (HandlerClientSocket socket ip now c) s)"

fun erase_socket :: "int \<Rightarrow> client list \<Rightarrow> client option \<times> client list" where
  "erase_socket i [] = (None, [])"
| "erase_socket i (c # cs) =
     (if m_client_socket c = i then (Some c, cs) else (case erase_socket i cs of (r, cs') \<Rightarrow> (r, c # cs')))"

definition dealDisconnectSocket :: "int \<Rightarrow> server \<Rightarrow> server" where
  "dealDisconnectSocket socketId s =
     (case erase_socket socketId (m_clients s) of
        (None, _) \<Rightarrow> s
      | (Some c, cs) \<Rightarrow> s\<lparr>m_clients := cs, m_disconnect_store := m_disconnect_store s @ [m_client_id c]\<rparr>)"

definition addDisconnectStore :: "int \<Rightarrow> server \<Rightarrow> server" where
  "addDisconnectStore socketId s =
     (case erase_socket socketId (m_clients s) of
        (None, _) \<Rightarrow> s
      | (Some c, cs) \<Rightarrow> s\<lparr>m_clients := cs, m_disconnect_store := m_disconnect_store s @ [m_client_id c]\<rparr>)"

definition removeDisconnectStore :: "buffer \<Rightarrow> buffer list \<Rightarrow> buffer list" where
  "removeDisconnectStore storeId ds = remove1 storeId ds"

definition checkDisconnectStore :: "buffer \<Rightarrow> server \<Rightarrow> bool" where
  "checkDisconnectStore storeId s \<longleftrightarrow> storeId \<in> set (m_disconnect_store s)"

text \<open>The effect of removing a client on the list of disconnected stores; the handler is deleted.\<close>

definition removeClient :: "client \<Rightarrow> buffer list \<Rightarrow> buffer list" where
  "removeClient cl ds = (if m_client_id cl \<noteq> [] then ds @ [m_client_id cl] else ds)"

section \<open>Sending\<close>

definition send_to :: "socket_header \<Rightarrow> buffer \<Rightarrow> client \<Rightarrow> client option" where
  "send_to h strData cl = (case sendMessage h strData (m_conn cl) of None \<Rightarrow> None | Some (_, c) \<Rightarrow> Some (cl\<lparr>m_conn := c\<rparr>))"

definition send_type_to :: "buffer \<Rightarrow> int \<Rightarrow> buffer \<Rightarrow> client \<Rightarrow> client option" where
  "send_type_to junk type strData cl =
     (case sendMessage_type junk type strData (m_conn cl) of None \<Rightarrow> None | Some (_, c) \<Rightarrow> Some (cl\<lparr>m_conn := c\<rparr>))"

definition cmpClientId :: "buffer \<Rightarrow> client \<Rightarrow> bool" where
  "cmpClientId clientid cl \<longleftrightarrow> c_str clientid = c_str (m_client_id cl)"

text \<open>The loops of the dispatcher: to the first client with an id, and to every client that is selected.\<close>

fun send_first :: "socket_header \<Rightarrow> buffer \<Rightarrow> buffer \<Rightarrow> client list \<Rightarrow> (bool \<times> client list) option" where
  "send_first h strData code [] = Some (False, [])"
| "send_first h strData code (c # cs) =
     (if cmpClientId code c then do { c' \<leftarrow> send_to h strData c; Some (True, c' # cs) }
      else do { (found, cs') \<leftarrow> send_first h strData code cs; Some (found, c # cs') })"

fun send_where :: "(client \<Rightarrow> bool) \<Rightarrow> socket_header \<Rightarrow> buffer \<Rightarrow> client list \<Rightarrow> client list option" where
  "send_where P h strData [] = Some []"
| "send_where P h strData (c # cs) = do {
     c' \<leftarrow> (if P c then send_to h strData c else Some c);
     cs' \<leftarrow> send_where P h strData cs;
     Some (c' # cs') }"

definition FAILED_TAG :: buffer where "FAILED_TAG = bytes_of ''ERP_SEND_TO_WMS_FAILED''"

definition dealSendFailed :: "(ons_message \<Rightarrow> bool) \<Rightarrow> buffer \<Rightarrow> buffer \<Rightarrow> ali_queue \<Rightarrow> ali_queue option" where
  "dealSendFailed ons storeCode strData a =
     map_option snd (pushMessage ons exception_thread1_producer FAILED_TAG storeCode strData a)"

text \<open>The three functions \<open>dealDisconnectStoreData\<close>: for the stores of a list, for one store, for all.\<close>

fun deal_where :: "(ons_message \<Rightarrow> bool) \<Rightarrow> (buffer \<Rightarrow> bool) \<Rightarrow> buffer \<Rightarrow> buffer list \<Rightarrow> ali_queue \<Rightarrow> ali_queue option" where
  "deal_where ons P strData [] a = Some a"
| "deal_where ons P strData (d # ds) a = do {
     a' \<leftarrow> (if P d then dealSendFailed ons d strData a else Some a);
     deal_where ons P strData ds a' }"

fun deal_one :: "(ons_message \<Rightarrow> bool) \<Rightarrow> buffer \<Rightarrow> buffer \<Rightarrow> buffer list \<Rightarrow> ali_queue \<Rightarrow> ali_queue option" where
  "deal_one ons storeId strData [] a = Some a"
| "deal_one ons storeId strData (d # ds) a =
     (if storeId = d then dealSendFailed ons d strData a else deal_one ons storeId strData ds a)"

definition dispatchMessage ::
    "(ons_message \<Rightarrow> bool) \<Rightarrow> socket_header \<Rightarrow> buffer \<Rightarrow> buffer \<Rightarrow> buffer \<Rightarrow> server \<Rightarrow> server option" where
  "dispatchMessage ons header type storeCode strData s =
     (if type = bytes_of ''1'' then do {
        (_, cs) \<leftarrow> send_first header strData storeCode (m_clients s);
        a \<leftarrow> deal_one ons storeCode strData (m_disconnect_store s) (sv_ali s);
        Some (s\<lparr>m_clients := cs, sv_ali := a\<rparr>) }
      else if type = bytes_of ''2'' then do {
        vStore \<leftarrow> splitStrToVector storeCode;
        cs \<leftarrow> send_where (\<lambda>c. m_client_id c \<in> set vStore) header strData (m_clients s);
        a \<leftarrow> deal_where ons (\<lambda>d. d \<in> set vStore) strData (m_disconnect_store s) (sv_ali s);
        Some (s\<lparr>m_clients := cs, sv_ali := a\<rparr>) }
      else if type = bytes_of ''3'' then do {
        cs \<leftarrow> send_where (\<lambda>c. True) header strData (m_clients s);
        a \<leftarrow> deal_where ons (\<lambda>d. True) strData (m_disconnect_store s) (sv_ali s);
        Some (s\<lparr>m_clients := cs, sv_ali := a\<rparr>) }
      else Some s)"

definition dispatchOneMessage ::
    "(ons_message \<Rightarrow> bool) \<Rightarrow> socket_header \<Rightarrow> buffer \<Rightarrow> buffer \<Rightarrow> buffer \<Rightarrow> server \<Rightarrow> server option" where
  "dispatchOneMessage ons header type storeCode strData s =
     (if type = bytes_of ''1'' then do {
        (found, cs) \<leftarrow> send_first header strData storeCode (m_clients s);
        a \<leftarrow> (if found then Some (sv_ali s) else dealSendFailed ons storeCode strData (sv_ali s));
        Some (s\<lparr>m_clients := cs, sv_ali := a\<rparr>) }
      else Some s)"

section \<open>Heartbeats\<close>

text \<open>The clients and the list of disconnected stores after one round; \<open>clock k\<close> is the time read for the client that
  is visited in position \<open>k\<close>.\<close>

fun heartbeat_loop ::
    "(int \<Rightarrow> bool) \<Rightarrow> (nat \<Rightarrow> int) \<Rightarrow> buffer \<Rightarrow> nat \<Rightarrow> client list \<Rightarrow> buffer list \<Rightarrow> (client list \<times> buffer list) option" where
  "heartbeat_loop alive clock junk k [] ds = Some ([], ds)"
| "heartbeat_loop alive clock junk k (c # cs) ds =
     (if \<not> alive (m_client_socket c) \<or> clock k - m_last_heartbeat_timestamp c > 18
      then heartbeat_loop alive clock junk (Suc k) cs (removeClient c ds)
      else do {
        c' \<leftarrow> send_type_to junk MSG_TYPE_HEART_BEAT (bytes_of ''hello'') c;
        (cs', ds') \<leftarrow> heartbeat_loop alive clock junk (Suc k) cs (removeDisconnectStore (m_client_id c) ds);
        Some (c' # cs', ds') })"

definition sendHeartbeat :: "(int \<Rightarrow> bool) \<Rightarrow> (nat \<Rightarrow> int) \<Rightarrow> buffer \<Rightarrow> server \<Rightarrow> server option" where
  "sendHeartbeat alive clock junk s = do {
     (cs, ds) \<leftarrow> heartbeat_loop alive clock junk 0 (m_clients s) (m_disconnect_store s);
     Some (s\<lparr>m_clients := cs, m_disconnect_store := ds\<rparr>) }"

section \<open>Messages of a client\<close>

text \<open>The operations of the client with index \<open>i\<close>.\<close>

definition handlerMessage :: "nat \<Rightarrow> socket_header \<Rightarrow> buffer \<Rightarrow> int \<Rightarrow> socket_header \<Rightarrow> server \<Rightarrow> bool \<times> server" where
  "handlerMessage i msgHeader strMessage now h0 s =
     (let cl = m_clients s ! i; opCode = sh_code msgHeader in
      if opCode = MSG_TYPE_STORECODE then
        if strMessage = [] then (False, s)
        else if checkClientsIdExist strMessage s then (False, s)
        else (True, s\<lparr>m_clients := (m_clients s)[i := cl\<lparr>m_last_heartbeat_timestamp := now, m_client_id := strMessage\<rparr>],
                      m_disconnect_store := removeDisconnectStore strMessage (m_disconnect_store s)\<rparr>)
      else if opCode = MSG_TYPE_HEART_BEAT then
        (True, s\<lparr>m_clients := (m_clients s)[i := cl\<lparr>m_last_heartbeat_timestamp := now\<rparr>]\<rparr>)
      else if opCode = MSG_TYPE_BINLOG then
        if strMessage = [] then (False, s)
        else (True, s\<lparr>sv_mq := fst (ProductRawData h0 (c_str (m_client_id cl)) (c_str strMessage) (sv_mq s))\<rparr>)
      else (True, s))"

definition set_client :: "nat \<Rightarrow> client \<Rightarrow> server \<Rightarrow> server" where
  "set_client i cl s = s\<lparr>m_clients := (m_clients s)[i := cl]\<rparr>"

definition client_recv :: "nat \<Rightarrow> server \<Rightarrow> ((socket_header \<times> buffer) option \<times> server) option" where
  "client_recv i s = do {
     (r, c) \<leftarrow> recvMessage (m_conn (m_clients s ! i));
     Some (r, set_client i ((m_clients s ! i)\<lparr>m_conn := c\<rparr>) s) }"

definition client_send :: "buffer \<Rightarrow> int \<Rightarrow> buffer \<Rightarrow> nat \<Rightarrow> server \<Rightarrow> server option" where
  "client_send junk type strData i s = do {
     cl \<leftarrow> send_type_to junk type strData (m_clients s ! i);
     Some (set_client i cl s) }"

definition initConnect :: "buffer \<Rightarrow> nat \<Rightarrow> int \<Rightarrow> socket_header \<Rightarrow> server \<Rightarrow> (bool \<times> server) option" where
  "initConnect junk i now h0 s = do {
     s1 \<leftarrow> client_send junk MSG_TYPE_HEART_BEAT (bytes_of ''begin'') i s;
     (r, s2) \<leftarrow> client_recv i s1;
     case r of
       None \<Rightarrow> Some (False, s2)
     | Some (msgHeader, strRecvData) \<Rightarrow>
         if sh_code msgHeader = MSG_TYPE_STORECODE
         then (case handlerMessage i msgHeader strRecvData now h0 s2 of
                 (True, s3) \<Rightarrow> do { s4 \<leftarrow> client_send junk MSG_TYPE_CONNECT_SUCCESS (bytes_of ''i am server'') i s3; Some (True, s4) }
               | (False, s3) \<Rightarrow> Some (False, s3))
         else Some (False, s2) }"

text \<open>The thread of a client: the greeting, and one round of its loop.\<close>

definition handler_start :: "buffer \<Rightarrow> nat \<Rightarrow> int \<Rightarrow> socket_header \<Rightarrow> server \<Rightarrow> server option" where
  "handler_start junk i now h0 s = do {
     (ok, s1) \<leftarrow> initConnect junk i now h0 s;
     if ok then Some s1 else Some (set_client i (destorySocket (m_clients s1 ! i)) s1) }"

definition handler_round :: "nat \<Rightarrow> int \<Rightarrow> socket_header \<Rightarrow> server \<Rightarrow> server option" where
  "handler_round i now h0 s = do {
     (r, s1) \<leftarrow> client_recv i s;
     case r of
       None \<Rightarrow> Some s1
     | Some (msgHeader, strRecvData) \<Rightarrow> Some (snd (handlerMessage i msgHeader strRecvData now h0 s1)) }"

section \<open>The threads of the queues\<close>

text \<open>One round of each of the three threads, after its consumer has returned. The raw consumer is only run when its
  queue has an element.\<close>

definition threadProcess_round :: "(ons_message \<Rightarrow> bool) \<Rightarrow> server \<Rightarrow> server option" where
  "threadProcess_round ons s =
     (case ConsumerData (sv_mq s) of
        (None, q) \<Rightarrow> Some (s\<lparr>sv_mq := q\<rparr>)
      | (Some d, q) \<Rightarrow>
          dispatchMessage ons (mq_header d) (mq_dispatch_type d) (mq_stores d) (mq_body d) (s\<lparr>sv_mq := q\<rparr>))"

definition threadProcessException_round :: "(ons_message \<Rightarrow> bool) \<Rightarrow> server \<Rightarrow> server option" where
  "threadProcessException_round ons s =
     (case ConsumerExceptionData (sv_mq s) of
        (None, q) \<Rightarrow> Some (s\<lparr>sv_mq := q\<rparr>)
      | (Some d, q) \<Rightarrow>
          if mq_stores d = [] then Some (s\<lparr>sv_mq := q\<rparr>)
          else dispatchOneMessage ons (mq_header d) (mq_dispatch_type d) (mq_stores d) (mq_body d) (s\<lparr>sv_mq := q\<rparr>))"

definition threadProcessRaw_round :: "(ons_message \<Rightarrow> bool) \<Rightarrow> server \<Rightarrow> server option" where
  "threadProcessRaw_round ons s =
     (case ConsumerRawData () (sv_mq s) of
        (Inl _, q) \<Rightarrow> None
      | (Inr d, q) \<Rightarrow> do {
          (_, a) \<leftarrow> pushMessage ons wms_producer (mq_stores d) [] (mq_body d) (sv_ali s);
          Some (s\<lparr>sv_mq := q, sv_ali := a\<rparr>) })"

section \<open>Steps\<close>

text \<open>The listener of the exception topic hands a message of the service to the exception queue.\<close>

inductive server_step :: "(ons_message \<Rightarrow> bool) \<Rightarrow> server \<Rightarrow> server \<Rightarrow> bool" for ons where
  accept: "server_step ons s (accept_client socket ip now c s)"
| start: "i < length (m_clients s) \<Longrightarrow> handler_start junk i now h0 s = Some s' \<Longrightarrow> server_step ons s s'"
| round: "i < length (m_clients s) \<Longrightarrow> handler_round i now h0 s = Some s' \<Longrightarrow> server_step ons s s'"
| heartbeat: "sendHeartbeat alive clock junk s = Some s' \<Longrightarrow> server_step ons s s'"
| listen: "server_step ons s (s\<lparr>sv_mq := MessageListenerException_consume junk key body (sv_mq s)\<rparr>)"
| dispatch: "threadProcess_round ons s = Some s' \<Longrightarrow> server_step ons s s'"
| exception: "threadProcessException_round ons s = Some s' \<Longrightarrow> server_step ons s s'"
| raw: "threadProcessRaw_round ons s = Some s' \<Longrightarrow> server_step ons s s'"

inductive server_run :: "(ons_message \<Rightarrow> bool) \<Rightarrow> server \<Rightarrow> server \<Rightarrow> bool" for ons where
  none: "server_run ons s s"
| more: "server_run ons s s' \<Longrightarrow> server_step ons s' s'' \<Longrightarrow> server_run ons s s''"

definition server_init :: "ali_queue \<Rightarrow> server" where
  "server_init a = \<lparr>m_clients = [], m_disconnect_store = [], sv_ali = a,
     sv_mq = \<lparr>m_data = [], m_raw_data = [], m_exception_data = []\<rparr>\<rparr>"

section \<open>Known stores\<close>

text \<open>The stores the server knows: those with a client, and those that were connected before.\<close>

definition client_ids :: "client list \<Rightarrow> buffer list" where
  "client_ids cs = filter (\<lambda>i. i \<noteq> []) (map m_client_id cs)"

definition known_stores :: "server \<Rightarrow> buffer list" where
  "known_stores s = m_disconnect_store s @ client_ids (m_clients s)"

lemma client_ids_simps [simp]:
  "client_ids [] = []" "client_ids (c # cs) = (if m_client_id c = [] then client_ids cs else m_client_id c # client_ids cs)"
  "client_ids (cs @ cs') = client_ids cs @ client_ids cs'"
  by (simp_all add: client_ids_def)

lemma Nil_notin_ids [simp]: "[] \<notin> set (client_ids cs)"
  by (simp add: client_ids_def)

lemma client_ids_cong: "map m_client_id cs' = map m_client_id cs \<Longrightarrow> client_ids cs' = client_ids cs"
  by (simp add: client_ids_def)

lemma client_ids_update_same [simp]: "m_client_id c = m_client_id (cs ! i) \<Longrightarrow> client_ids (cs[i := c]) = client_ids cs"
  by (rule client_ids_cong) (metis list_update_id map_update)

lemma client_ids_register:
  assumes "n \<noteq> []" "n \<notin> set (client_ids cs)" "distinct (client_ids cs)" "m_client_id c = n"
  shows "distinct (client_ids (cs[i := c])) \<and> set (client_ids (cs[i := c])) \<subseteq> insert n (set (client_ids cs))"
  using assms(2,3)
proof (induction cs arbitrary: i)
  case (Cons a cs)
  show ?case
  proof (cases i)
    case 0
    then show ?thesis using Cons.prems assms(1,4) by (auto split: if_splits)
  next
    case (Suc j)
    then show ?thesis using Cons.prems Cons.IH [of j] assms(1,4) by (auto split: if_splits)
  qed
qed simp

lemma id_loop_iff: "n \<noteq> [] \<Longrightarrow> id_loop n cs \<longleftrightarrow> n \<in> set (client_ids cs)"
  by (induction cs) auto

lemma ip_never_exists: "\<not> checkClientsIpExist ip s"
proof -
  have "\<not> ip_loop ip cs" for cs by (induction cs) auto
  then show ?thesis by (simp add: checkClientsIpExist_def)
qed

section \<open>Sending keeps the clients\<close>

lemma send_to_id [simp]: "send_to h d c = Some c' \<Longrightarrow> m_client_id c' = m_client_id c"
  by (auto simp: send_to_def split: option.splits)

lemma send_type_to_id [simp]: "send_type_to junk t d c = Some c' \<Longrightarrow> m_client_id c' = m_client_id c"
  by (auto simp: send_type_to_def split: option.splits)

lemma send_first_ids: "send_first h d code cs = Some (b, cs') \<Longrightarrow> map m_client_id cs' = map m_client_id cs"
  by (induction cs arbitrary: b cs') (auto split: if_splits Option.bind_splits)

lemma send_where_ids: "send_where P h d cs = Some cs' \<Longrightarrow> map m_client_id cs' = map m_client_id cs"
  by (induction cs arbitrary: cs') (auto split: if_splits Option.bind_splits)

section \<open>The message queue service\<close>

text \<open>Every producer and consumer is created once, from the configuration.\<close>

definition ali_ok :: "ali_queue \<Rightarrow> bool" where
  "ali_ok a \<longleftrightarrow> distinct (mq_created a) \<and> (\<forall>i. m_queueInfos a i = (if i \<in> set (mq_created a) then Some (new_queue_data a i) else None))"

lemma new_queue_data_cong: "m_mq_config a' = m_mq_config a \<Longrightarrow> new_queue_data a' i = new_queue_data a i"
  by (cases i) (simp_all add: config_of_def)

lemma ali_ok_cong:
  "m_mq_config a' = m_mq_config a \<Longrightarrow> m_queueInfos a' = m_queueInfos a \<Longrightarrow> mq_created a' = mq_created a \<Longrightarrow> ali_ok a' = ali_ok a"
  by (simp add: ali_ok_def new_queue_data_cong [of a' a])

lemma getProOrCon_ok:
  assumes "ali_ok a"
  shows "\<exists>a'. getProOrCon i a = (new_queue_data a i, a') \<and> ali_ok a' \<and> m_mq_config a' = m_mq_config a \<and> mq_sent a' = mq_sent a"
proof (cases "i \<in> set (mq_created a)")
  case True
  then show ?thesis using assms by (simp add: getProOrCon_def producerIsExist_def ali_ok_def)
next
  case False
  let ?a = "a\<lparr>mq_created := mq_created a @ [i], m_queueInfos := (m_queueInfos a)(i \<mapsto> new_queue_data a i)\<rparr>"
  have "qd_producer (new_queue_data a i) \<noteq> None \<or> qd_consumer (new_queue_data a i) \<noteq> None"
    by (cases i) (simp_all add: createProducer_def createConsumer_def)
  then have "getProOrCon i a = (new_queue_data a i, ?a)"
    using assms False by (simp add: getProOrCon_def producerIsExist_def ali_ok_def Let_def)
  moreover have "ali_ok ?a" using assms False by (simp add: ali_ok_def new_queue_data_cong [of ?a a])
  ultimately show ?thesis by simp
qed

lemma pushMessage_ok:
  assumes "ali_ok a" "qd_producer (new_queue_data a i) \<noteq> None"
    "msg = \<lparr>msg_topic = qd_topics (new_queue_data a i), msg_tag = tag, msg_key = key, msg_body = body\<rparr>"
  shows "\<exists>a'. pushMessage ons i tag key body a = Some (ons msg, a') \<and> ali_ok a' \<and> m_mq_config a' = m_mq_config a \<and>
    mq_sent a' = mq_sent a @ filter ons [msg]"
proof -
  obtain a1 where a1: "getProOrCon i a = (new_queue_data a i, a1)" "ali_ok a1" "m_mq_config a1 = m_mq_config a" "mq_sent a1 = mq_sent a"
    using getProOrCon_ok [OF assms(1)] by blast
  then have "ali_ok (a1\<lparr>mq_sent := m\<rparr>)" for m using ali_ok_cong [of "a1\<lparr>mq_sent := m\<rparr>" a1] by simp
  with a1 show ?thesis
    using assms(2) by (cases "ons msg") (simp_all add: pushMessage_def Let_def assms(3))
qed

text \<open>The message that stands for data a store could not be given.\<close>

definition failed_message :: "ali_queue \<Rightarrow> buffer \<Rightarrow> buffer \<Rightarrow> ons_message" where
  "failed_message a storeCode strData =
     \<lparr>msg_topic = c_str (cfg_name (config_of a exception_topic)), msg_tag = FAILED_TAG, msg_key = storeCode, msg_body = strData\<rparr>"

lemma failed_message_cong: "m_mq_config a' = m_mq_config a \<Longrightarrow> failed_message a' = failed_message a"
  by (simp add: fun_eq_iff failed_message_def config_of_def)

lemma dealSendFailed_ok:
  assumes "ali_ok a"
  shows "\<exists>a'. dealSendFailed ons d data a = Some a' \<and> ali_ok a' \<and> m_mq_config a' = m_mq_config a \<and>
    mq_sent a' = mq_sent a @ filter ons [failed_message a d data]"
  using pushMessage_ok [OF assms, of exception_thread1_producer "failed_message a d data" FAILED_TAG d data ons]
  by (auto simp: createProducer_def dealSendFailed_def failed_message_def)

lemma deal_where_ok:
  assumes "ali_ok a"
  shows "\<exists>a'. deal_where ons P data ds a = Some a' \<and> ali_ok a' \<and> m_mq_config a' = m_mq_config a \<and>
    mq_sent a' = mq_sent a @ filter ons (map (\<lambda>d. failed_message a d data) (filter P ds))"
  using assms
proof (induction ds arbitrary: a)
  case (Cons d ds)
  have "\<exists>a1. (if P d then dealSendFailed ons d data a else Some a) = Some a1 \<and> ali_ok a1 \<and> m_mq_config a1 = m_mq_config a \<and>
    mq_sent a1 = mq_sent a @ filter ons (map (\<lambda>d. failed_message a d data) (filter P [d]))"
    using dealSendFailed_ok [OF Cons.prems, of ons d data] Cons.prems by (cases "P d") auto
  then obtain a1 where a1: "(if P d then dealSendFailed ons d data a else Some a) = Some a1" "ali_ok a1" "m_mq_config a1 = m_mq_config a"
    "mq_sent a1 = mq_sent a @ filter ons (map (\<lambda>d. failed_message a d data) (filter P [d]))"
    by blast
  obtain a2 where a2: "deal_where ons P data ds a1 = Some a2" "ali_ok a2" "m_mq_config a2 = m_mq_config a1"
    "mq_sent a2 = mq_sent a1 @ filter ons (map (\<lambda>d. failed_message a1 d data) (filter P ds))"
    using Cons.IH [OF a1(2)] by blast
  have "deal_where ons P data (d # ds) a = Some a2" unfolding deal_where.simps a1(1) by (simp add: a2(1))
  moreover have "mq_sent a2 = mq_sent a @ filter ons (map (\<lambda>d. failed_message a d data) (filter P (d # ds)))"
    unfolding a2(4) a1(4) failed_message_cong [OF a1(3)] by simp
  ultimately show ?case using a1(3) a2(2,3) by simp
qed simp

lemma deal_one_where: "distinct ds \<Longrightarrow> deal_one ons code data ds a = deal_where ons (\<lambda>d. d = code) data ds a"
proof (induction ds arbitrary: a)
  case (Cons d ds)
  have "code \<notin> set ds \<Longrightarrow> deal_where ons (\<lambda>d. d = code) data ds a = Some a" for a by (induction ds) auto
  with Cons show ?case by (cases "d = code") (auto cong: option.case_cong simp: bind_eq_Some_conv split: Option.bind_splits)
qed simp

section \<open>The invariant\<close>

definition mq_ok :: "mq_queues \<Rightarrow> bool" where
  "mq_ok q \<longleftrightarrow> length (m_data q) \<le> MAX_QUEUE_DATA \<and> length (m_raw_data q) \<le> MAX_QUEUE_DATA \<and>
     length (m_exception_data q) \<le> MAX_QUEUE_DATA"

text \<open>No store is listed twice, neither in the two lists nor in one of them; the empty id is not a store.\<close>

definition server_ok :: "server \<Rightarrow> bool" where
  "server_ok s \<longleftrightarrow> distinct (known_stores s) \<and> [] \<notin> set (m_disconnect_store s) \<and> ali_ok (sv_ali s) \<and> mq_ok (sv_mq s)"

lemma server_ok_cong:
  assumes "client_ids (m_clients s') = client_ids (m_clients s)" "m_disconnect_store s' = m_disconnect_store s"
    "ali_ok (sv_ali s')" "mq_ok (sv_mq s')" "server_ok s"
  shows "server_ok s'"
  using assms by (simp add: server_ok_def known_stores_def)

lemma server_ok_same:
  assumes "server_ok s" "client_ids (m_clients s') = client_ids (m_clients s)" "m_disconnect_store s' = m_disconnect_store s"
    "sv_ali s' = sv_ali s" "sv_mq s' = sv_mq s"
  shows "server_ok s'"
  using assms by (simp add: server_ok_def known_stores_def)

lemma mq_ok_steps:
  assumes "mq_ok q"
  shows "mq_ok (fst (ProductRawData h0 st b q))" "mq_ok (fst (ProductExceptionData h t st b q))"
    "mq_ok (snd (ConsumerData q))" "mq_ok (snd (ConsumerExceptionData q))" "mq_ok (snd (ConsumerRawData p q))"
  using assms
  by (auto simp: mq_ok_def ProductRawData_def ProductExceptionData_def ConsumerData_def ConsumerExceptionData_def
      ConsumerRawData_def product_def take_front_def Let_def split: list.splits)

lemma heartbeat_loop_stores:
  "heartbeat_loop alive clock junk k cs ds = Some (cs', ds') \<Longrightarrow> [] \<notin> set ds \<Longrightarrow> distinct (ds @ client_ids cs) \<Longrightarrow>
   mset (ds' @ client_ids cs') = mset (ds @ client_ids cs) \<and> [] \<notin> set ds'"
proof (induction alive clock junk k cs ds arbitrary: cs' ds' rule: heartbeat_loop.induct)
  case (2 alive clock junk k c cs ds)
  show ?case
  proof (cases "\<not> alive (m_client_socket c) \<or> clock k - m_last_heartbeat_timestamp c > 18")
    case True
    then show ?thesis using "2.IH"(1) [OF True, of cs' ds'] "2.prems" by (auto simp: removeClient_def)
  next
    case False
    obtain c' cs1 where c': "send_type_to junk MSG_TYPE_HEART_BEAT (bytes_of ''hello'') c = Some c'"
      "heartbeat_loop alive clock junk (Suc k) cs (removeDisconnectStore (m_client_id c) ds) = Some (cs1, ds')" "cs' = c' # cs1"
      using "2.prems"(1) False by (auto split: Option.bind_splits)
    have "m_client_id c \<notin> set ds" using "2.prems"(2,3) by (cases "m_client_id c = []") auto
    then have R: "removeDisconnectStore (m_client_id c) ds = ds" by (simp add: removeDisconnectStore_def remove1_idem)
    show ?thesis using "2.IH"(2) [OF False c'(1), of cs1 ds'] c' "2.prems"(2,3) by (auto simp: R split: if_splits)
  qed
qed simp

lemma sendHeartbeat_stores:
  assumes "server_ok s" "sendHeartbeat alive clock junk s = Some s'"
  shows "mset (known_stores s') = mset (known_stores s)" "server_ok s'"
proof -
  obtain cs ds where H: "heartbeat_loop alive clock junk 0 (m_clients s) (m_disconnect_store s) = Some (cs, ds)"
    and s': "s' = s\<lparr>m_clients := cs, m_disconnect_store := ds\<rparr>"
    using assms(2) by (auto simp: sendHeartbeat_def split: Option.bind_splits)
  have M: "mset (ds @ client_ids cs) = mset (m_disconnect_store s @ client_ids (m_clients s))" and N: "[] \<notin> set ds"
    using heartbeat_loop_stores [OF H] assms(1) by (auto simp: server_ok_def known_stores_def)
  then show "mset (known_stores s') = mset (known_stores s)" by (simp add: s' known_stores_def)
  from M have "distinct (ds @ client_ids cs) = distinct (m_disconnect_store s @ client_ids (m_clients s))"
    by (rule mset_eq_imp_distinct_iff)
  then show "server_ok s'" using assms(1) N by (simp add: server_ok_def known_stores_def s')
qed

lemma set_client_ids [simp]: "m_client_id cl = m_client_id (m_clients s ! i) \<Longrightarrow> client_ids (m_clients (set_client i cl s)) = client_ids (m_clients s)"
  by (simp add: set_client_def)

lemma client_recv_ok: "server_ok s \<Longrightarrow> client_recv i s = Some (r, s') \<Longrightarrow> server_ok s'"
  by (erule server_ok_same) (auto simp: client_recv_def set_client_def split: Option.bind_splits)

lemma client_send_ok: "server_ok s \<Longrightarrow> client_send junk t d i s = Some s' \<Longrightarrow> server_ok s'"
  by (erule server_ok_same) (auto simp: client_send_def set_client_def split: Option.bind_splits)

lemma handlerMessage_ok:
  assumes "server_ok s" "handlerMessage i h m now h0 s = (b, s')"
  shows "server_ok s'"
proof (cases "sh_code h = MSG_TYPE_STORECODE \<and> m \<noteq> [] \<and> \<not> checkClientsIdExist m s")
  case True
  let ?cl = "(m_clients s ! i)\<lparr>m_last_heartbeat_timestamp := now, m_client_id := m\<rparr>"
  have s': "s' = s\<lparr>m_clients := (m_clients s)[i := ?cl], m_disconnect_store := remove1 m (m_disconnect_store s)\<rparr>"
    using True assms(2) by (simp add: handlerMessage_def Let_def removeDisconnectStore_def)
  have "m \<notin> set (client_ids (m_clients s))" using True id_loop_iff [of m "m_clients s"] by (simp add: checkClientsIdExist_def)
  with True assms(1) client_ids_register [of m "m_clients s" ?cl i]
  have "distinct (client_ids ((m_clients s)[i := ?cl]))" "set (client_ids ((m_clients s)[i := ?cl])) \<subseteq> insert m (set (client_ids (m_clients s)))"
    by (auto simp: server_ok_def known_stores_def)
  then show ?thesis using assms(1) set_remove1_subset [of m "m_disconnect_store s"]
    by (auto simp: server_ok_def known_stores_def s')
next
  case False
  then have "m_disconnect_store s' = m_disconnect_store s \<and> client_ids (m_clients s') = client_ids (m_clients s) \<and>
      sv_ali s' = sv_ali s \<and> mq_ok (sv_mq s')"
    using assms by (auto simp: handlerMessage_def Let_def server_ok_def mq_ok_steps split: if_splits)
  then show ?thesis using assms(1) by (intro server_ok_cong [of s' s]) (auto simp: server_ok_def)
qed

lemma initConnect_ok:
  assumes "server_ok s" "initConnect junk i now h0 s = Some (b, s')"
  shows "server_ok s'"
proof -
  obtain s1 r s2 where s: "client_send junk MSG_TYPE_HEART_BEAT (bytes_of ''begin'') i s = Some s1" "client_recv i s1 = Some (r, s2)"
    using assms(2) by (auto simp: initConnect_def split: Option.bind_splits)
  then have "server_ok s2" using assms(1) client_send_ok client_recv_ok by blast
  with s assms(2) show ?thesis
    by (auto simp: initConnect_def split: option.splits if_splits prod.splits bool.splits Option.bind_splits
        dest: handlerMessage_ok client_send_ok)
qed

lemma handler_ok:
  assumes "server_ok s"
  shows "handler_start junk i now h0 s = Some s' \<Longrightarrow> server_ok s'" "handler_round i now h0 s = Some s' \<Longrightarrow> server_ok s'"
proof -
  assume "handler_start junk i now h0 s = Some s'"
  then obtain b s1 where "initConnect junk i now h0 s = Some (b, s1)"
    "s' = s1 \<or> s' = set_client i (destorySocket (m_clients s1 ! i)) s1"
    by (auto simp: handler_start_def split: Option.bind_splits if_splits)
  moreover from this(1) have "server_ok s1" using assms initConnect_ok by blast
  moreover from this have "server_ok (set_client i (destorySocket (m_clients s1 ! i)) s1)"
    by (rule server_ok_same) (auto simp: set_client_def destorySocket_def)
  ultimately show "server_ok s'" by auto
next
  assume "handler_round i now h0 s = Some s'"
  then show "server_ok s'" using assms
    by (auto simp: handler_round_def split: Option.bind_splits option.splits
        intro: client_recv_ok handlerMessage_ok [OF client_recv_ok prod.collapse [symmetric]])
qed

lemma dispatch_clients:
  assumes "server_ok s"
  shows "dispatchMessage ons h t st d s = Some s' \<Longrightarrow> server_ok s'" "dispatchOneMessage ons h t st d s = Some s' \<Longrightarrow> server_ok s'"
proof -
  have "ali_ok (sv_ali s)" "distinct (m_disconnect_store s)" using assms by (simp_all add: server_ok_def known_stores_def)
  then have D: "\<And>P a. deal_where ons P d (m_disconnect_store s) (sv_ali s) = Some a \<Longrightarrow> ali_ok a"
    "\<And>a. deal_one ons st d (m_disconnect_store s) (sv_ali s) = Some a \<Longrightarrow> ali_ok a"
    "\<And>a. dealSendFailed ons st d (sv_ali s) = Some a \<Longrightarrow> ali_ok a"
    using deal_where_ok [of "sv_ali s" ons _ d "m_disconnect_store s"] dealSendFailed_ok [of "sv_ali s" ons st d]
    by (simp_all add: deal_one_where) (metis option.inject)+
  note K = client_ids_cong [OF send_first_ids] client_ids_cong [OF send_where_ids] D
  show "dispatchMessage ons h t st d s = Some s' \<Longrightarrow> server_ok s'"
    using assms by (intro server_ok_cong [of s' s])
      (auto simp: dispatchMessage_def server_ok_def split: if_splits Option.bind_splits; (rule K; assumption))+
  show "dispatchOneMessage ons h t st d s = Some s' \<Longrightarrow> server_ok s'"
    using assms \<open>ali_ok (sv_ali s)\<close> by (intro server_ok_cong [of s' s])
      (auto simp: dispatchOneMessage_def server_ok_def split: if_splits Option.bind_splits; (rule K; assumption))+
qed

inductive_cases server_stepE: "server_step ons s s'"

lemma threads_ok:
  assumes "server_ok s"
  shows "threadProcess_round ons s = Some s' \<Longrightarrow> server_ok s'" "threadProcessException_round ons s = Some s' \<Longrightarrow> server_ok s'"
    "threadProcessRaw_round ons s = Some s' \<Longrightarrow> server_ok s'"
proof -
  have Q: "server_ok (s\<lparr>sv_mq := q\<rparr>)" if "mq_ok q" for q
    using assms that by (simp add: server_ok_def known_stores_def)
  have q: "mq_ok (snd (ConsumerData (sv_mq s)))" "mq_ok (snd (ConsumerExceptionData (sv_mq s)))" "mq_ok (snd (ConsumerRawData () (sv_mq s)))"
    using assms by (simp_all add: mq_ok_steps server_ok_def)
  show "threadProcess_round ons s = Some s' \<Longrightarrow> server_ok s'"
    using Q [OF q(1)] by (auto simp: threadProcess_round_def split: prod.splits option.splits dest: dispatch_clients)
  show "threadProcessException_round ons s = Some s' \<Longrightarrow> server_ok s'"
    using Q [OF q(2)]
    by (auto simp: threadProcessException_round_def split: prod.splits option.splits if_splits dest: dispatch_clients)
  assume R: "threadProcessRaw_round ons s = Some s'"
  then obtain d q where d: "ConsumerRawData () (sv_mq s) = (Inr d, q)"
    by (auto simp: threadProcessRaw_round_def split: prod.splits sum.splits)
  have "ali_ok (sv_ali s)" "qd_producer (new_queue_data (sv_ali s) wms_producer) \<noteq> None"
    using assms by (simp_all add: server_ok_def createProducer_def)
  from pushMessage_ok [OF this refl] obtain a where
    "pushMessage ons wms_producer (mq_stores d) [] (mq_body d) (sv_ali s) = Some (ons \<lparr>msg_topic = qd_topics (new_queue_data (sv_ali s) wms_producer),
        msg_tag = mq_stores d, msg_key = [], msg_body = mq_body d\<rparr>, a)" "ali_ok a" by blast
  with R d q(3) assms show "server_ok s'" by (auto simp: threadProcessRaw_round_def server_ok_def known_stores_def)
qed

lemma server_step_ok: "server_step ons s s' \<Longrightarrow> server_ok s \<Longrightarrow> server_ok s'"
proof (erule server_stepE)
  assume "server_ok s"
  then show "server_ok s'" if "s' = accept_client socket ip now c s" for socket ip now c
    using that by (auto simp: accept_client_def addClient_def HandlerClientSocket_def intro: server_ok_same)
  show "server_ok s'" if "s' = s\<lparr>sv_mq := MessageListenerException_consume junk key body (sv_mq s)\<rparr>" for junk key body
    using that \<open>server_ok s\<close>
    by (auto simp: MessageListenerException_consume_def server_ok_def known_stores_def mq_ok_steps Let_def)
qed (auto dest: handler_ok threads_ok sendHeartbeat_stores(2))

lemma server_run_ok: "server_run ons s s' \<Longrightarrow> server_ok s \<Longrightarrow> server_ok s'"
  by (induction rule: server_run.induct) (auto dest: server_step_ok)

lemma initConfig_ok: "initConfig file = Inr a \<Longrightarrow> ali_ok a"
  by (auto simp: initConfig_def ali_ok_def split: sum.splits)

lemma server_init_ok: "ali_ok a \<Longrightarrow> server_ok (server_init a)"
  by (simp add: server_init_def server_ok_def known_stores_def mq_ok_def)

section \<open>Delivery\<close>

text \<open>The message is on the wire of the client, whole and once.\<close>

definition got_message :: "socket_header \<Rightarrow> buffer \<Rightarrow> client \<Rightarrow> client \<Rightarrow> bool" where
  "got_message h d cl cl' \<longleftrightarrow> (\<exists>rs. cl' = cl\<lparr>m_conn := (m_conn cl)\<lparr>out_room := rs, out_bytes := out_bytes (m_conn cl) @ message_bytes h d\<rparr>\<rparr>)"

text \<open>The clients whose id is selected got the message, the others are as they were.\<close>

definition delivered :: "(buffer \<Rightarrow> bool) \<Rightarrow> socket_header \<Rightarrow> buffer \<Rightarrow> client list \<Rightarrow> client list \<Rightarrow> bool" where
  "delivered P h d = list_all2 (\<lambda>cl cl'. if P (m_client_id cl) then got_message h d cl cl' else cl' = cl)"

definition conns_ok :: "client list \<Rightarrow> bool" where
  "conns_ok cs \<longleftrightarrow> list_all (\<lambda>cl. list_all (\<lambda>r. 0 \<le> r) (out_room (m_conn cl))) cs"

lemma send_to_ok:
  assumes "header_ok h d" "list_all (\<lambda>r. 0 \<le> r) (out_room (m_conn cl))"
  shows "\<exists>cl'. send_to h d cl = Some cl' \<and> got_message h d cl cl'"
proof -
  have "\<forall>r \<in> set (out_room (m_conn cl)). 0 \<le> r" using assms(2) by (simp add: list_all_iff)
  from sendMessage_bytes [OF assms(1) this] obtain rs where
    "sendMessage h d (m_conn cl) = Some (True, (m_conn cl)\<lparr>out_room := rs, out_bytes := out_bytes (m_conn cl) @ message_bytes h d\<rparr>)" .
  then show ?thesis by (auto simp: send_to_def got_message_def)
qed

lemma delivered_simps [simp]:
  "delivered P h d [] []"
  "delivered P h d (c # cs) (c' # cs') \<longleftrightarrow> (if P (m_client_id c) then got_message h d c c' else c' = c) \<and> delivered P h d cs cs'"
  by (simp_all add: delivered_def)

lemma delivered_none: "(\<And>cl. cl \<in> set cs \<Longrightarrow> \<not> P (m_client_id cl)) \<Longrightarrow> delivered P h d cs cs"
  by (auto simp: delivered_def intro: list.rel_refl_strong)

lemma send_where_ok:
  assumes "header_ok h d" "conns_ok cs"
  shows "\<exists>cs'. send_where (\<lambda>c. P (m_client_id c)) h d cs = Some cs' \<and> delivered P h d cs cs'"
  using assms(2)
proof (induction cs)
  case (Cons c cs)
  then obtain cs' where cs': "send_where (\<lambda>c. P (m_client_id c)) h d cs = Some cs'" "delivered P h d cs cs'"
    by (auto simp: conns_ok_def)
  show ?case
  proof (cases "P (m_client_id c)")
    case True
    obtain c' where "send_to h d c = Some c'" "got_message h d c c'"
      using send_to_ok [OF assms(1), of c] Cons.prems by (auto simp: conns_ok_def)
    with cs' True show ?thesis by simp
  next
    case False
    with cs' show ?thesis by simp
  qed
qed simp

lemma send_first_ok:
  assumes "header_ok h d" "conns_ok cs" "distinct (client_ids cs)" "code \<noteq> []" "0 \<notin> set code"
    "\<forall>cl \<in> set cs. 0 \<notin> set (m_client_id cl)"
  shows "\<exists>cs'. send_first h d code cs = Some (code \<in> set (client_ids cs), cs') \<and> delivered (\<lambda>i. i = code) h d cs cs'"
  using assms(2,3,6)
proof (induction cs)
  case (Cons c cs)
  show ?case
  proof (cases "m_client_id c = code")
    case True
    obtain c' where "send_to h d c = Some c'" "got_message h d c c'"
      using send_to_ok [OF assms(1), of c] Cons.prems by (auto simp: conns_ok_def)
    moreover have "delivered (\<lambda>i. i = code) h d cs cs"
      using Cons.prems True assms(4) by (intro delivered_none) (auto simp: client_ids_def image_iff)
    ultimately show ?thesis using True assms(4,5) by (auto simp: cmpClientId_def)
  next
    case False
    with Cons assms(5) show ?thesis by (auto simp: cmpClientId_def conns_ok_def split: if_splits)
  qed
qed simp

text \<open>The stores a message is for.\<close>

definition addressed :: "buffer \<Rightarrow> buffer \<Rightarrow> buffer \<Rightarrow> bool" where
  "addressed type stores i =
     (if type = bytes_of ''1'' then i = stores
      else if type = bytes_of ''2'' then (case splitStrToVector stores of None \<Rightarrow> False | Some v \<Rightarrow> i \<in> set v)
      else type = bytes_of ''3'')"

lemma sendMessage_type_total:
  assumes "length junk = 36" "length d < 2 ^ 31 - 44"
  shows "sendMessage_type junk t d c \<noteq> None"
proof -
  have "s32 (int (length d) + HEADER_SIZE) = int (length d) + HEADER_SIZE" using assms(2) by (simp add: s32_id HEADER_SIZE_def)
  then show ?thesis using header_len [of "\<lparr>sh_code = t, sh_data_len = int (length d) + HEADER_SIZE, sh_message_id = junk\<rparr>"] assms(1)
    by (auto simp: sendMessage_type_def sendMessage_def Let_def split: prod.split intro: exI [of _ False])
qed

lemma send_type_to_hello:
  assumes "length junk = 36"
  obtains c' where "send_type_to junk t (bytes_of ''hello'') cl = Some (cl\<lparr>m_conn := c'\<rparr>)"
  using sendMessage_type_total [OF assms, of "bytes_of ''hello''" t "m_conn cl"] that by (auto simp: send_type_to_def)

text \<open>A client stays when its socket is up and it was heard of within 18 seconds.\<close>

definition stays :: "(int \<Rightarrow> bool) \<Rightarrow> (nat \<Rightarrow> int) \<Rightarrow> nat \<times> client \<Rightarrow> bool" where
  "stays alive clock kc \<longleftrightarrow> alive (m_client_socket (snd kc)) \<and> clock (fst kc) - m_last_heartbeat_timestamp (snd kc) \<le> 18"

lemma heartbeat_loop_result:
  assumes "length junk = 36"
  shows "[] \<notin> set ds \<Longrightarrow> distinct (ds @ client_ids cs) \<Longrightarrow>
    \<exists>cs'. heartbeat_loop alive clock junk k cs ds =
        Some (cs', ds @ client_ids (map snd (filter (\<lambda>kc. \<not> stays alive clock kc) (enumerate k cs)))) \<and>
      list_all2 (\<lambda>c c'. c' = c\<lparr>m_conn := m_conn c'\<rparr>) (map snd (filter (stays alive clock) (enumerate k cs))) cs'"
proof (induction cs arbitrary: k ds)
  case (Cons c cs)
  show ?case
  proof (cases "stays alive clock (k, c)")
    case True
    obtain c' where c': "send_type_to junk MSG_TYPE_HEART_BEAT (bytes_of ''hello'') c = Some (c\<lparr>m_conn := c'\<rparr>)"
      using send_type_to_hello [OF assms] .
    have "m_client_id c \<notin> set ds" using Cons.prems by (cases "m_client_id c = []") auto
    then have R: "removeDisconnectStore (m_client_id c) ds = ds" by (simp add: removeDisconnectStore_def remove1_idem)
    have "distinct (ds @ client_ids cs)" using Cons.prems(2) by (auto split: if_splits)
    from Cons.IH [OF Cons.prems(1) this, of "Suc k"] show ?thesis
      using True by (auto simp: R c' stays_def not_le)
  next
    case False
    have "distinct (removeClient c ds @ client_ids cs)" "[] \<notin> set (removeClient c ds)"
      using Cons.prems by (auto simp: removeClient_def split: if_splits)
    note IH = Cons.IH [OF this(2,1), of "Suc k"]
    have E: "heartbeat_loop alive clock junk k (c # cs) ds = heartbeat_loop alive clock junk (Suc k) cs (removeClient c ds)"
      using False by (auto simp: stays_def not_le)
    have "removeClient c ds @ client_ids xs = ds @ client_ids (c # xs)" for xs by (simp add: removeClient_def)
    with IH show ?thesis unfolding E using False by simp
  qed
qed simp

section \<open>Properties\<close>


text \<open>C8: a message reaches exactly the stores it is addressed to. One of type 1 is for the store it names, one of type 2
  for the stores of its list, one of type 3 for all. Every client of such a store gets the whole message on its
  connection, once; for every such store that is disconnected one message with its code and the data is handed to
  the exception topic; no other client and no other topic sees anything.\<close>

theorem dispatch_reaches_addressed:
  assumes "server_ok s" "header_ok h d" "conns_ok (m_clients s)"
    and "type = bytes_of ''1'' \<and> stores \<noteq> [] \<and> 0 \<notin> set stores \<and> (\<forall>cl \<in> set (m_clients s). 0 \<notin> set (m_client_id cl))
      \<or> type = bytes_of ''2'' \<and> splitStrToVector stores \<noteq> None \<or> type = bytes_of ''3''"
  shows "\<exists>s'. dispatchMessage ons h type stores d s = Some s'
    \<and> delivered (addressed type stores) h d (m_clients s) (m_clients s')
    \<and> m_disconnect_store s' = m_disconnect_store s \<and> sv_mq s' = sv_mq s
    \<and> mq_sent (sv_ali s') = mq_sent (sv_ali s) @
        filter ons (map (\<lambda>i. failed_message (sv_ali s) i d) (filter (addressed type stores) (m_disconnect_store s)))"
proof -
  have ok: "ali_ok (sv_ali s)" "distinct (m_disconnect_store s)" "distinct (client_ids (m_clients s))"
    using assms(1) by (simp_all add: server_ok_def known_stores_def)
  obtain a where a: "deal_where ons (addressed type stores) d (m_disconnect_store s) (sv_ali s) = Some a"
    "mq_sent a = mq_sent (sv_ali s) @
        filter ons (map (\<lambda>i. failed_message (sv_ali s) i d) (filter (addressed type stores) (m_disconnect_store s)))"
    using deal_where_ok [OF ok(1)] by blast
  obtain cs where cs: "send_where (\<lambda>c. addressed type stores (m_client_id c)) h d (m_clients s) = Some cs"
    "delivered (addressed type stores) h d (m_clients s) cs"
    using send_where_ok [OF assms(2,3)] by blast
  have b: "bytes_of ''2'' \<noteq> bytes_of ''1''" "bytes_of ''3'' \<noteq> bytes_of ''1''" "bytes_of ''3'' \<noteq> bytes_of ''2''"
    by (simp_all add: bytes_of_def)
  from assms(4) show ?thesis
  proof (elim disjE conjE)
    assume t: "type = bytes_of ''1''" "stores \<noteq> []" "0 \<notin> set stores" "\<forall>cl \<in> set (m_clients s). 0 \<notin> set (m_client_id cl)"
    then have A: "addressed type stores = (\<lambda>i. i = stores)" by (auto simp: addressed_def)
    obtain f cs1 where "send_first h d stores (m_clients s) = Some (f, cs1)" "delivered (\<lambda>i. i = stores) h d (m_clients s) cs1"
      using send_first_ok [OF assms(2,3) ok(3) t(2-4)] by blast
    then show ?thesis using a unfolding A by (simp add: dispatchMessage_def deal_one_where [OF ok(2)] t(1))
  next
    assume t: "type = bytes_of ''2''" "splitStrToVector stores \<noteq> None"
    then obtain v where v: "splitStrToVector stores = Some v" by auto
    then have A: "addressed type stores = (\<lambda>i. i \<in> set v)" using t b by (auto simp: addressed_def)
    show ?thesis using a cs unfolding A by (simp add: dispatchMessage_def v t(1) b)
  next
    assume t: "type = bytes_of ''3''"
    then have A: "addressed type stores = (\<lambda>i. True)" using b by (auto simp: addressed_def)
    show ?thesis using a cs unfolding A by (simp add: dispatchMessage_def t b)
  qed
qed

text \<open>C21: data that could not be delivered is not lost on its way back. A message of the exception topic with a store
  code and at least five bytes of data, taken from the queue by its thread, is either put on the connection of
  that store, or handed to the exception topic again with the same code and the same data.\<close>

theorem failed_data_retried:
  assumes "server_ok s" "m_exception_data (sv_mq s) = []" "conns_ok (m_clients s)"
    "key \<noteq> []" "0 \<notin> set key" "\<forall>cl \<in> set (m_clients s). 0 \<notin> set (m_client_id cl)"
    "5 \<le> length body" "length body < 2 ^ 31 - 44" "length junk = 36"
  shows "\<exists>h s'. threadProcessException_round ons (s\<lparr>sv_mq := MessageListenerException_consume junk key body (sv_mq s)\<rparr>) = Some s'
    \<and> header_ok h body \<and> m_exception_data (sv_mq s') = []
    \<and> delivered (\<lambda>i. i = key) h body (m_clients s) (m_clients s')
    \<and> mq_sent (sv_ali s') = mq_sent (sv_ali s) @
        (if key \<in> set (client_ids (m_clients s)) then [] else filter ons [failed_message (sv_ali s) key body])"
proof -
  let ?h = "\<lparr>sh_code = MSG_TYPE_UPDATE_DATABASE, sh_data_len = HEADER_SIZE + int (length body), sh_message_id = junk\<rparr>"
  let ?m = "\<lparr>mq_header = ?h, mq_dispatch_type = bytes_of ''1'', mq_stores = key, mq_body = body\<rparr>"
  have S: "s32 (HEADER_SIZE + int (length body)) = HEADER_SIZE + int (length body)" "s32 (int (length body)) = int (length body)"
    using assms(8) by (simp_all add: s32_id HEADER_SIZE_def)
  have h: "header_ok ?h body" using assms(8,9) by (simp add: header_ok_def HEADER_SIZE_def MSG_TYPE_UPDATE_DATABASE_def)
  have Q: "MessageListenerException_consume junk key body (sv_mq s) = (sv_mq s)\<lparr>m_exception_data := [?m]\<rparr>"
    using assms(2,4,7)
    by (simp add: MessageListenerException_consume_def S ProductExceptionData_def product_def MAX_QUEUE_DATA_def Let_def)
  have ok: "ali_ok (sv_ali s)" "distinct (client_ids (m_clients s))" using assms(1) by (simp_all add: server_ok_def known_stores_def)
  obtain cs where cs: "send_first ?h body key (m_clients s) = Some (key \<in> set (client_ids (m_clients s)), cs)"
    "delivered (\<lambda>i. i = key) ?h body (m_clients s) cs"
    using send_first_ok [OF h assms(3) ok(2) assms(4,5,6)] by blast
  obtain a where a: "dealSendFailed ons key body (sv_ali s) = Some a" "mq_sent a = mq_sent (sv_ali s) @ filter ons [failed_message (sv_ali s) key body]"
    using dealSendFailed_ok [OF ok(1)] by blast
  have "threadProcessException_round ons (s\<lparr>sv_mq := MessageListenerException_consume junk key body (sv_mq s)\<rparr>) =
      dispatchOneMessage ons ?h (bytes_of ''1'') key body (s\<lparr>sv_mq := (sv_mq s)\<lparr>m_exception_data := []\<rparr>\<rparr>)"
    using assms(4) by (simp add: threadProcessException_round_def Q ConsumerExceptionData_def take_front_def)
  then show ?thesis using cs a h
    by (cases "key \<in> set (client_ids (m_clients s))") (auto simp: dispatchOneMessage_def intro!: exI [of _ ?h])
qed

text \<open>C22: a round of heartbeats sorts the clients. Those whose socket is up and that were heard of within 18 seconds stay,
  in their order and with nothing but their connection changed; the others go, and their stores are added to the
  disconnected ones. No store gets lost: connected and disconnected stores together are the same as before.\<close>

theorem heartbeat_sorts_clients:
  assumes "server_ok s" "length junk = 36"
  shows "\<exists>s'. sendHeartbeat alive clock junk s = Some s'
    \<and> list_all2 (\<lambda>c c'. c' = c\<lparr>m_conn := m_conn c'\<rparr>) (map snd (filter (stays alive clock) (enumerate 0 (m_clients s)))) (m_clients s')
    \<and> m_disconnect_store s' = m_disconnect_store s @
        client_ids (map snd (filter (\<lambda>kc. \<not> stays alive clock kc) (enumerate 0 (m_clients s))))
    \<and> mset (known_stores s') = mset (known_stores s)"
proof -
  obtain cs where cs: "heartbeat_loop alive clock junk 0 (m_clients s) (m_disconnect_store s) =
        Some (cs, m_disconnect_store s @ client_ids (map snd (filter (\<lambda>kc. \<not> stays alive clock kc) (enumerate 0 (m_clients s)))))"
    "list_all2 (\<lambda>c c'. c' = c\<lparr>m_conn := m_conn c'\<rparr>) (map snd (filter (stays alive clock) (enumerate 0 (m_clients s)))) cs"
    using heartbeat_loop_result [OF assms(2)] assms(1) unfolding server_ok_def known_stores_def by blast
  then have H: "sendHeartbeat alive clock junk s = Some (s\<lparr>m_clients := cs, m_disconnect_store :=
      m_disconnect_store s @ client_ids (map snd (filter (\<lambda>kc. \<not> stays alive clock kc) (enumerate 0 (m_clients s))))\<rparr>)"
    by (simp add: sendHeartbeat_def)
  then show ?thesis using cs(2) sendHeartbeat_stores(1) [OF assms(1) H] by simp
qed

section \<open>A small server\<close>

definition demo_config :: config where
  "demo_config = map (\<lambda>t. (bytes_of t, [(bytes_of ''name'', bytes_of t), (bytes_of ''producer'', bytes_of ''P''), (bytes_of ''consumer'', bytes_of ''C'')]))
     [''MQ_FINAL_TOPIC'', ''MQ_RAW_TOPIC'', ''MQ_EXCEPTION'']"

definition demo_ali :: ali_queue where
  "demo_ali = (let t = (\<lambda>n. \<lparr>cfg_name = bytes_of n, cfg_producer = bytes_of ''P'', cfg_consumer = bytes_of ''C''\<rparr>) in
     \<lparr>m_mq_config = [erp_final_topic \<mapsto> t ''MQ_FINAL_TOPIC'', queue_raw_topic \<mapsto> t ''MQ_RAW_TOPIC'', exception_topic \<mapsto> t ''MQ_EXCEPTION''],
      m_queueInfos = Map.empty, mq_created = [], mq_sent = [], mq_subscribed = []\<rparr>)"

text \<open>One client that is registered, one that is not, and a store that is disconnected.\<close>

definition demo_server :: server where
  "demo_server = (let c = \<lparr>in_segs = [], in_end = -1, out_room = [], out_bytes = []\<rparr> in
     (server_init demo_ali)\<lparr>
       m_clients := [\<lparr>m_client_socket = 5, m_ip = [], m_client_id = bytes_of ''S1'', m_last_heartbeat_timestamp = 100, m_conn = c\<rparr>,
                     HandlerClientSocket 6 [] 90 c],
       m_disconnect_store := [bytes_of ''S2'']\<rparr>)"

lemma demo_ok: "server_ok demo_server" "conns_ok (m_clients demo_server)" "m_exception_data (sv_mq demo_server) = []"
  "\<forall>cl \<in> set (m_clients demo_server). 0 \<notin> set (m_client_id cl)"
  by (simp_all add: demo_server_def server_init_def server_ok_def known_stores_def client_ids_def HandlerClientSocket_def
      ali_ok_def demo_ali_def mq_ok_def conns_ok_def bytes_of_def Let_def)

lemma demo_config_ok: "config_ok demo_config"
  by code_simp

lemma demo_lookup:
  assumes "t \<in> {''MQ_FINAL_TOPIC'', ''MQ_RAW_TOPIC'', ''MQ_EXCEPTION''}"
  shows "config_value (Some (config_text demo_config)) t ''name'' = Inr (bytes_of t)"
    "config_value (Some (config_text demo_config)) t ''producer'' = Inr (bytes_of ''P'')"
    "config_value (Some (config_text demo_config)) t ''consumer'' = Inr (bytes_of ''C'')"
  using assms unfolding config_value_def GetConfigStringValue_def option.case sections_loop_config [OF demo_config_ok]
  by (auto simp: demo_config_def bytes_of_def config_codes)

lemma demo_initConfig: "initConfig (Some (config_text demo_config)) = Inr demo_ali"
  by (simp add: initConfig_def config_topic_def demo_lookup demo_ali_def Let_def)


theorem dispatch_reaches_addressed_witness:
  "\<exists>s'. dispatchMessage (\<lambda>_. True) \<lparr>sh_code = 103, sh_data_len = 46, sh_message_id = replicate 36 0\<rparr> (bytes_of ''1'') (bytes_of ''S2'') [7, 8]
        demo_server = Some s'
     \<and> m_clients s' = m_clients demo_server
     \<and> mq_sent (sv_ali s') = [failed_message demo_ali (bytes_of ''S2'') [7, 8]]"
proof -
  let ?h = "\<lparr>sh_code = 103, sh_data_len = 46, sh_message_id = replicate 36 0\<rparr>"
  have "header_ok ?h [7, 8]" by (simp add: header_ok_def HEADER_SIZE_def)
  from dispatch_reaches_addressed [OF demo_ok(1) this demo_ok(2), of "bytes_of ''1''" "bytes_of ''S2''" "\<lambda>_. True"] demo_ok(4)
  show ?thesis
    by (auto simp: bytes_of_def addressed_def demo_server_def server_init_def HandlerClientSocket_def demo_ali_def delivered_def
        list_all2_Cons1 failed_message_def config_of_def Let_def)
qed

theorem failed_data_retried_witness:
  "\<exists>h s'. threadProcessException_round (\<lambda>_. True)
        (demo_server\<lparr>sv_mq := MessageListenerException_consume (replicate 36 0) (bytes_of ''S1'') [1, 2, 3, 4, 5] (sv_mq demo_server)\<rparr>) = Some s'
      \<and> delivered (\<lambda>i. i = bytes_of ''S1'') h [1, 2, 3, 4, 5] (m_clients demo_server) (m_clients s')"
  using failed_data_retried [OF demo_ok(1,3,2), of "bytes_of ''S1''" "[1, 2, 3, 4, 5]" "replicate 36 0" "\<lambda>_. True"] demo_ok(4)
  by (force simp: bytes_of_def)

theorem heartbeat_sorts_clients_witness:
  "\<exists>s'. sendHeartbeat (\<lambda>_. True) (\<lambda>_. 110) (replicate 36 0) demo_server = Some s'
      \<and> map m_client_id (m_clients s') = [bytes_of ''S1''] \<and> m_disconnect_store s' = [bytes_of ''S2'']"
proof -
  have "map m_client_id cs' = map m_client_id cs" if "list_all2 (\<lambda>c c'. c' = c\<lparr>m_conn := m_conn c'\<rparr>) cs cs'" for cs cs'
    using that by (induction rule: list_all2_induct) (auto dest: arg_cong [where f = m_client_id])
  then show ?thesis
    using heartbeat_sorts_clients [OF demo_ok(1), of "replicate 36 0" "\<lambda>_. True" "\<lambda>_. 110"]
    by (fastforce simp: demo_server_def server_init_def HandlerClientSocket_def stays_def Let_def)
qed

section \<open>Registration in two steps\<close>

text \<open>A registration is a check of the client list, made under its mutex, and the entry of the id, made without it.\<close>

definition store_code_check :: "buffer \<Rightarrow> server \<Rightarrow> bool" where
  "store_code_check strMessage s \<longleftrightarrow> strMessage \<noteq> [] \<and> \<not> checkClientsIdExist strMessage s"

definition store_code_enter :: "nat \<Rightarrow> buffer \<Rightarrow> int \<Rightarrow> server \<Rightarrow> server" where
  "store_code_enter i strMessage now s =
     s\<lparr>m_clients := (m_clients s)[i := (m_clients s ! i)\<lparr>m_last_heartbeat_timestamp := now, m_client_id := strMessage\<rparr>],
       m_disconnect_store := removeDisconnectStore strMessage (m_disconnect_store s)\<rparr>"

lemma handlerMessage_store_code:
  "sh_code h = MSG_TYPE_STORECODE \<Longrightarrow> handlerMessage i h m now h0 s =
     (if store_code_check m s then (True, store_code_enter i m now s) else (False, s))"
  by (simp add: handlerMessage_def store_code_check_def store_code_enter_def Let_def)

lemma nth_client_ids: "k < length cs \<Longrightarrow> m_client_id (cs ! k) \<noteq> [] \<Longrightarrow> m_client_id (cs ! k) \<in> set (client_ids cs)"
  by (simp add: client_ids_def)

lemma client_ids_twice_less:
  assumes "i < j" "j < length cs" "m_client_id (cs ! i) = n" "m_client_id (cs ! j) = n" "n \<noteq> []"
  shows "\<not> distinct (client_ids cs)"
proof -
  have "client_ids cs = client_ids (take j cs @ cs ! j # drop (Suc j) cs)" using assms(2) by (simp add: id_take_nth_drop [symmetric])
  moreover have "n \<in> set (client_ids (take j cs))" using nth_client_ids [of i "take j cs"] assms by simp
  ultimately show ?thesis using assms(4,5) by simp
qed

lemma client_ids_twice:
  assumes "i < length cs" "j < length cs" "i \<noteq> j" "m_client_id (cs ! i) = n" "m_client_id (cs ! j) = n" "n \<noteq> []"
  shows "\<not> distinct (client_ids cs)"
  using assms client_ids_twice_less [of i j cs n] client_ids_twice_less [of j i cs n] by linarith

text \<open>Two clients that register the same store at the same time both succeed. When both checks are made before
  either id is entered, both handlers end up with the id, and the store is listed twice. Run one after the
  other, the second registration is refused.\<close>

lemma registration_race:
  assumes "i < length (m_clients s)" "j < length (m_clients s)" "i \<noteq> j" "store_code_check n s"
  shows "store_code_check n s \<and> m_client_id (m_clients (store_code_enter j n t' (store_code_enter i n t s)) ! i) = n
    \<and> m_client_id (m_clients (store_code_enter j n t' (store_code_enter i n t s)) ! j) = n
    \<and> \<not> distinct (known_stores (store_code_enter j n t' (store_code_enter i n t s)))
    \<and> \<not> store_code_check n (store_code_enter i n t s)"
proof -
  have "n \<noteq> []" using assms(4) by (simp add: store_code_check_def)
  have 1: "m_client_id (m_clients (store_code_enter i n t s) ! i) = n" using assms(1) by (simp add: store_code_enter_def)
  then have "n \<in> set (client_ids (m_clients (store_code_enter i n t s)))"
    using nth_client_ids [of i "m_clients (store_code_enter i n t s)"] assms(1) \<open>n \<noteq> []\<close> by (simp add: store_code_enter_def)
  then have "\<not> store_code_check n (store_code_enter i n t s)"
    using id_loop_iff [OF \<open>n \<noteq> []\<close>] by (simp add: store_code_check_def checkClientsIdExist_def)
  moreover have 2: "m_client_id (m_clients (store_code_enter j n t' (store_code_enter i n t s)) ! k) = n" if "k = i \<or> k = j" for k
    using that assms by (auto simp: store_code_enter_def nth_list_update)
  moreover have "\<not> distinct (client_ids (m_clients (store_code_enter j n t' (store_code_enter i n t s))))"
    using assms \<open>n \<noteq> []\<close> by (intro client_ids_twice [of i _ j n]) (simp_all add: 2, simp_all add: store_code_enter_def)
  ultimately show ?thesis using assms(4) by (simp add: known_stores_def)
qed

lemma registration_race_witness:
  "\<not> distinct (known_stores (store_code_enter 1 (bytes_of ''S3'') 8 (store_code_enter 0 (bytes_of ''S3'') 7 demo_server)))"
  using registration_race [of 0 demo_server 1 "bytes_of ''S3''" 8 7]
  by (simp add: store_code_check_def checkClientsIdExist_def demo_server_def server_init_def HandlerClientSocket_def bytes_of_def Let_def)

end
