(* ===== verification/Logging.thy ===== *)
theory Logging
  imports DS_Prelude
begin

text \<open>
  The log files (\<open>public/LogData.cpp\<close>, \<open>public/LogError.cpp\<close>), the exceptions whose text they record
  (\<open>public/MyException.cpp\<close>) and the initialisation of the locks (\<open>public/lock.cpp\<close>).

  The disk is a map from paths to directories and files. A path is the list of its components; a path
  given as text is resolved at the working directory. Opening a file and making a directory may be
  refused, which is a parameter. The text of the time of day, \<open>%X\<close>, depends on the locale and is a
  parameter; it is taken to fit into the 64 characters of its buffer. A call is one step: writing is
  done under a lock, and the directories, which are made outside of it, are only ever added.
\<close>

section \<open>The disk\<close>

type_synonym path = "buffer list"

datatype node = Dir | File buffer

type_synonym disk = "path \<Rightarrow> node option"

fun path_parts :: "buffer \<Rightarrow> buffer list" where
  "path_parts [] = [[]]"
| "path_parts (b # s) =
     (if b = 47 then [] # path_parts s else (b # hd (path_parts s)) # tl (path_parts s))"

definition resolve :: "path \<Rightarrow> buffer \<Rightarrow> path" where
  "resolve cwd s = cwd @ filter (\<lambda>c. c \<noteq> [] \<and> c \<noteq> [46]) (path_parts (c_str s))"

definition mkdir :: "(path \<Rightarrow> bool) \<Rightarrow> path \<Rightarrow> disk \<Rightarrow> disk" where
  "mkdir perm p d = (if p \<noteq> [] \<and> d p = None \<and> d (butlast p) = Some Dir \<and> perm p then d(p \<mapsto> Dir) else d)"

text \<open>\<open>SHCreateDirectory\<close> also makes the directories on the way.\<close>

definition SHCreateDirectory :: "(path \<Rightarrow> bool) \<Rightarrow> path \<Rightarrow> disk \<Rightarrow> disk" where
  "SHCreateDirectory perm p d = foldl (\<lambda>d n. mkdir perm (take n p) d) d [1..<Suc (length p)]"

text \<open>Opening for appending: the disk with the file, which is made if there is none.\<close>

definition fopen_a :: "(path \<Rightarrow> bool) \<Rightarrow> path \<Rightarrow> disk \<Rightarrow> disk option" where
  "fopen_a perm p d =
     (case d p of Some Dir \<Rightarrow> None
      | Some (File b) \<Rightarrow> if perm p then Some d else None
      | None \<Rightarrow> if p \<noteq> [] \<and> d (butlast p) = Some Dir \<and> perm p then Some (d(p \<mapsto> File [])) else None)"

definition file_at :: "disk \<Rightarrow> path \<Rightarrow> buffer option" where
  "file_at d p = (case d p of Some (File b) \<Rightarrow> Some b | _ \<Rightarrow> None)"

definition append_to :: "path \<Rightarrow> buffer \<Rightarrow> disk \<Rightarrow> disk" where
  "append_to p bs d = (case file_at d p of None \<Rightarrow> d | Some b \<Rightarrow> d(p \<mapsto> File (b @ bs)))"

section \<open>Times and the surroundings of a call\<close>

record tm =
  tm_year :: int
  tm_mon :: int
  tm_mday :: int
  tm_hour :: int
  tm_min :: int
  tm_sec :: int

definition strftime_date :: "string \<Rightarrow> tm \<Rightarrow> buffer" where
  "strftime_date sep t = bytes_of (fmt_d (tm_year t) @ sep @ fmt_u 2 (tm_mon t) @ sep @ fmt_u 2 (tm_mday t))"

text \<open>The process: on Windows the directory of the program, the working directory, what the system
  permits, and the text of \<open>%X\<close>.\<close>

record log_env =
  e_win32 :: "path option"
  e_cwd :: path
  e_perm :: "path \<Rightarrow> bool"
  e_time :: "tm \<Rightarrow> buffer"

text \<open>One call: the times \<open>t\<close> and \<open>t2\<close> and the number of the thread.\<close>

record call_env =
  c_t :: tm
  c_t2 :: tm
  c_tid :: int

text \<open>What a call ends in: it returns, it uses a stream that was not opened, or it never leaves the loop
  that waits for the file to open.\<close>

datatype written = Written int disk | Null_stream | Spins

section \<open>Writing\<close>

definition thread_text :: "log_env \<Rightarrow> call_env \<Rightarrow> string" where
  "thread_text e c = (if e_win32 e = None then fmt_u 0 (u32 (c_tid c)) else fmt_d (s32 (c_tid c)))"

definition log_dirs :: "log_env \<Rightarrow> string \<Rightarrow> disk \<Rightarrow> disk" where
  "log_dirs e child d =
     (let create = (\<lambda>d. case e_win32 e of
              Some sub \<Rightarrow> SHCreateDirectory (e_perm e) (sub @ [bytes_of ''log'', bytes_of child]) d
            | None \<Rightarrow> mkdir (e_perm e) (resolve (e_cwd e) (bytes_of (''log//'' @ child))) d)
      in if d (resolve (e_cwd e) (bytes_of ''./log'')) = None
         then create (case e_win32 e of Some _ \<Rightarrow> d | None \<Rightarrow> mkdir (e_perm e) (resolve (e_cwd e) (bytes_of ''log'')) d)
         else if d (resolve (e_cwd e) (bytes_of (''log//'' @ child))) = None then create d
         else d)"

definition DirIsExits :: "log_env \<Rightarrow> disk \<Rightarrow> disk" where
  "DirIsExits e = log_dirs e ''logData''"

definition MakeDir :: "log_env \<Rightarrow> disk \<Rightarrow> disk" where
  "MakeDir e = log_dirs e ''logError''"

text \<open>The line at the head of a new file: thread, time and data; thread, time, error code and error.\<close>

definition data_header :: buffer where
  "data_header = [231, 186, 191, 231, 168, 139, 73, 68, 9, 9, 230, 151, 182, 233, 151, 180, 9, 32, 9, 9, 9, 9,
     230, 149, 176, 230, 141, 174, 10]"

definition error_header :: buffer where
  "error_header = [231, 186, 191, 231, 168, 139, 73, 68, 9, 9, 230, 151, 182, 233, 151, 180, 9, 9, 9, 9, 9,
     233, 148, 153, 232, 175, 175, 231, 160, 129, 9, 9, 233, 148, 153, 232, 175, 175, 228, 191, 161, 230, 129, 175, 10]"

definition new_log_file :: "log_env \<Rightarrow> path \<Rightarrow> buffer \<Rightarrow> disk \<Rightarrow> disk option" where
  "new_log_file e p header d =
     (if d p = None then map_option (append_to p header) (fopen_a (e_perm e) p d) else Some d)"

definition data_entry :: "log_env \<Rightarrow> call_env \<Rightarrow> buffer \<Rightarrow> buffer" where
  "data_entry e c msg = bytes_of (thread_text e c) @ [9, 9] @ strftime_date ''/'' (c_t2 c) @ [32] @ e_time e (c_t2 c)
     @ [9, 9] @ msg @ [10]"

definition error_entry :: "log_env \<Rightarrow> call_env \<Rightarrow> int \<Rightarrow> buffer \<Rightarrow> buffer" where
  "error_entry e c code msg = bytes_of (thread_text e c) @ [9, 9] @ strftime_date ''/'' (c_t2 c) @ [32] @ e_time e (c_t2 c)
     @ [9, 9] @ bytes_of (fmt_d code) @ [9, 9] @ msg @ [10]"

definition write_data :: "log_env \<Rightarrow> path \<Rightarrow> buffer \<Rightarrow> disk \<Rightarrow> written" where
  "write_data e p line d =
     (case new_log_file e p data_header d of None \<Rightarrow> Null_stream
      | Some d1 \<Rightarrow> (case fopen_a (e_perm e) p d1 of None \<Rightarrow> Spins | Some d2 \<Rightarrow> Written 0 (append_to p line d2)))"

definition write_error :: "log_env \<Rightarrow> path \<Rightarrow> buffer \<Rightarrow> disk \<Rightarrow> written" where
  "write_error e p line d =
     (case new_log_file e p error_header d of None \<Rightarrow> Null_stream
      | Some d1 \<Rightarrow> (case fopen_a (e_perm e) p d1 of None \<Rightarrow> Null_stream | Some d2 \<Rightarrow> Written 0 (append_to p line d2)))"

definition WriteLog :: "log_env \<Rightarrow> call_env \<Rightarrow> buffer \<Rightarrow> disk \<Rightarrow> written" where
  "WriteLog e c msg d =
     write_data e (resolve (e_cwd e) (bytes_of ''.//log//logData//'' @ strftime_date ''-'' (c_t c) @ bytes_of ''-logData.log''))
       (data_entry e c msg) (DirIsExits e d)"

definition WriteLog_file :: "log_env \<Rightarrow> call_env \<Rightarrow> buffer \<Rightarrow> buffer \<Rightarrow> disk \<Rightarrow> written" where
  "WriteLog_file e c fileName msg d =
     (let d1 = DirIsExits e d in
      if fileName = [] then Written (-1) d1
      else write_data e (resolve (e_cwd e)
             (bytes_of ''.//log//logData//'' @ strftime_date ''-'' (c_t c) @ bytes_of ''-'' @ fileName @ bytes_of ''.log''))
           (data_entry e c msg) d1)"

definition format_fields :: "buffer list \<Rightarrow> buffer" where
  "format_fields szs = concat (map (\<lambda>sz. bytes_of ''['' @ c_str sz @ bytes_of ''] '') szs)"

definition WriteLogFormat :: "log_env \<Rightarrow> call_env \<Rightarrow> buffer \<Rightarrow> buffer list \<Rightarrow> disk \<Rightarrow> written" where
  "WriteLogFormat e c fileName szs d = WriteLog_file e c fileName (format_fields szs) d"

definition WriteErrorLog :: "log_env \<Rightarrow> call_env \<Rightarrow> int \<Rightarrow> buffer \<Rightarrow> disk \<Rightarrow> written" where
  "WriteErrorLog e c code msgError d =
     write_error e (resolve (e_cwd e) (bytes_of ''.//log//logError//'' @ strftime_date ''-'' (c_t c) @ bytes_of ''-logError.log''))
       (error_entry e c code msgError) (MakeDir e d)"

definition WriteErrorLog_file :: "log_env \<Rightarrow> call_env \<Rightarrow> int \<Rightarrow> buffer \<Rightarrow> buffer \<Rightarrow> disk \<Rightarrow> written" where
  "WriteErrorLog_file e c code msgError fileName d =
     (let d1 = MakeDir e d in
      if fileName = [] then Written (-1) d1
      else write_error e (resolve (e_cwd e)
             (bytes_of ''.//log//logError//'' @ strftime_date ''-'' (c_t c) @ bytes_of ''-'' @ fileName @ bytes_of ''.log''))
           (error_entry e c code msgError) d1)"

section \<open>Effect of a call\<close>

definition plain :: "buffer \<Rightarrow> bool" where
  "plain n \<longleftrightarrow> 47 \<notin> set n \<and> 0 \<notin> set n"

lemma plain_append [simp]: "plain (a @ b) \<longleftrightarrow> plain a \<and> plain b"
  by (auto simp: plain_def)

lemma plain_digits: "all_digits s \<Longrightarrow> plain (bytes_of s)"
  using digit_bytes [of s] by (fastforce simp: plain_def)

lemma plain_number: "plain (bytes_of (fmt_d x))" "plain (bytes_of (fmt_u w x))"
  using plain_digits [OF dec_nat_digits, of "nat x"] plain_digits [OF dec_nat_digits, of "nat (- x)"]
    plain_digits [OF fmt_u_digits]
  by (auto simp: fmt_d_def plain_def bytes_of_def)

lemma bytes_of_append [simp]: "bytes_of (a @ b) = bytes_of a @ bytes_of b"
  by (simp add: bytes_of_def)

lemma plain_date: "plain (strftime_date ''-'' t)"
  using plain_number by (simp add: strftime_date_def) (simp add: plain_def bytes_of_def)

lemma path_parts_plain: "47 \<notin> set n \<Longrightarrow> path_parts n = [n]"
  by (induction n) auto

definition log_file :: "log_env \<Rightarrow> string \<Rightarrow> buffer \<Rightarrow> path" where
  "log_file e child n = e_cwd e @ [bytes_of ''log'', bytes_of child, n]"

lemma c_str_append: "0 \<notin> set a \<Longrightarrow> c_str (a @ b) = a @ c_str b"
  by (induction a) (auto simp: c_str_def)

lemma resolve_log_file:
  assumes "child \<in> {''logData'', ''logError''}" "plain n" "n \<notin> {[], [46]}"
  shows "resolve (e_cwd e) (bytes_of (''.//log//'' @ child @ ''//'') @ n) = log_file e child n"
proof -
  have "0 \<notin> set (bytes_of (''.//log//'' @ child @ ''//''))" using assms(1) by (auto simp: bytes_of_def)
  then show ?thesis
    using assms by (auto simp: resolve_def log_file_def plain_def path_parts_plain c_str_append bytes_of_def)
qed

lemma resolve_dirs:
  assumes "child \<in> {''logData'', ''logError''}"
  shows "resolve cwd (bytes_of ''./log'') = cwd @ [bytes_of ''log'']" "resolve cwd (bytes_of ''log'') = cwd @ [bytes_of ''log'']"
    "resolve cwd (bytes_of (''log//'' @ child)) = cwd @ [bytes_of ''log'', bytes_of child]"
  using assms by (auto simp: resolve_def bytes_of_def c_str_def)

text \<open>A disk on which logs can be written: the working directory exists and nothing but directories and
  files stands where the loggers expect them.\<close>

definition disk_ok :: "log_env \<Rightarrow> disk \<Rightarrow> bool" where
  "disk_ok e d \<longleftrightarrow> (\<forall>n\<le>length (e_cwd e). d (take n (e_cwd e)) = Some Dir)
     \<and> d (e_cwd e @ [bytes_of ''log'']) \<in> {None, Some Dir}
     \<and> (\<forall>child\<in>{''logData'', ''logError''}. d (e_cwd e @ [bytes_of ''log'', bytes_of child]) \<in> {None, Some Dir}
          \<and> (d (e_cwd e @ [bytes_of ''log'']) = None \<longrightarrow> d (e_cwd e @ [bytes_of ''log'', bytes_of child]) = None)
          \<and> (\<forall>n. d (log_file e child n) \<noteq> Some Dir))"

definition env_ok :: "log_env \<Rightarrow> bool" where
  "env_ok e \<longleftrightarrow> e_perm e = (\<lambda>_. True) \<and> e_win32 e \<in> {None, Some (e_cwd e)}"

lemma mkdir_below:
  assumes "d q = Some Dir" "d (q @ [x]) \<in> {None, Some Dir}"
  shows "mkdir (\<lambda>_. True) (q @ [x]) d = d(q @ [x] \<mapsto> Dir)"
  using assms by (auto simp: mkdir_def fun_upd_idem)

lemma SHCreateDirectory_below:
  assumes "\<forall>n\<le>length q. d (take n q) = Some Dir" "d (q @ [x]) \<in> {None, Some Dir}" "d (q @ [x, y]) \<in> {None, Some Dir}"
  shows "SHCreateDirectory (\<lambda>_. True) (q @ [x, y]) d = d(q @ [x] \<mapsto> Dir, q @ [x, y] \<mapsto> Dir)"
proof -
  have old: "foldl (\<lambda>d n. mkdir (\<lambda>_. True) (take n (q @ [x, y])) d) d ns = d" if "\<forall>n\<in>set ns. n \<le> length q" for ns
    using that assms(1) by (induction ns) (auto simp: mkdir_def)
  have "[1..<Suc (length (q @ [x, y]))] = [1..<Suc (length q)] @ [Suc (length q), Suc (Suc (length q))]"
    by simp
  then show ?thesis
    using old [of "[1..<Suc (length q)]"] assms(2,3) spec [OF assms(1), of "length q"] mkdir_below [of d q x] mkdir_below [of "d(q @ [x] \<mapsto> Dir)" "q @ [x]" y]
    by (simp add: SHCreateDirectory_def del: upt_Suc)
qed

lemma log_dirs_effect:
  assumes "env_ok e" "disk_ok e d" "child \<in> {''logData'', ''logError''}"
  shows "log_dirs e child d
    = d(e_cwd e @ [bytes_of ''log''] \<mapsto> Dir, e_cwd e @ [bytes_of ''log'', bytes_of child] \<mapsto> Dir)"
proof -
  let ?l = "bytes_of ''log''" and ?c = "bytes_of child" and ?q = "e_cwd e"
  have q: "d ?q = Some Dir" using assms(2) by (auto simp: disk_ok_def)
  have l: "d (?q @ [?l]) \<in> {None, Some Dir}" and c: "d (?q @ [?l, ?c]) \<in> {None, Some Dir}"
    and n: "d (?q @ [?l]) = None \<Longrightarrow> d (?q @ [?l, ?c]) = None" using assms(2,3) by (auto simp: disk_ok_def)
  have m: "mkdir (\<lambda>_. True) (?q @ [?l]) d = d(?q @ [?l] \<mapsto> Dir)" by (rule mkdir_below [OF q l])
  have m2: "mkdir (\<lambda>_. True) (?q @ [?l, ?c]) d' = d'(?q @ [?l, ?c] \<mapsto> Dir)"
    if "d' (?q @ [?l]) = Some Dir" "d' (?q @ [?l, ?c]) \<in> {None, Some Dir}" for d'
    using mkdir_below [of d' "?q @ [?l]" ?c] that by simp
  have s: "SHCreateDirectory (\<lambda>_. True) (?q @ [?l, ?c]) d = d(?q @ [?l] \<mapsto> Dir, ?q @ [?l, ?c] \<mapsto> Dir)"
    by (rule SHCreateDirectory_below) (use assms(2) l c in \<open>auto simp: disk_ok_def\<close>)
  show ?thesis
    using assms(1,3) l c n m m2 s unfolding log_dirs_def Let_def resolve_dirs [OF assms(3)]
    by (auto simp: env_ok_def fun_upd_idem split: option.splits)
qed

definition appended :: "buffer \<Rightarrow> buffer \<Rightarrow> buffer option \<Rightarrow> buffer" where
  "appended header line old = (case old of None \<Rightarrow> header | Some b \<Rightarrow> b) @ line"

lemma write_effect:
  assumes "e_perm e = (\<lambda>_. True)" "p \<noteq> []" "d (butlast p) = Some Dir" "d p \<noteq> Some Dir"
  shows "write_data e p line d = Written 0 (d(p \<mapsto> File (appended data_header line (file_at d p))))"
    "write_error e p line d = Written 0 (d(p \<mapsto> File (appended error_header line (file_at d p))))"
  using assms
  by (auto simp: write_data_def write_error_def new_log_file_def fopen_a_def append_to_def file_at_def appended_def
      split: option.splits node.splits)

section \<open>Logs as histories\<close>

text \<open>What a client may rely on: a call returns, extends the file it is addressed to by one entry, behind
  the header line when it is the first, and changes no other file. \<open>target\<close> is \<open>None\<close> for a call that writes
  nothing.\<close>

fun run_calls :: "('c \<Rightarrow> disk \<Rightarrow> written) \<Rightarrow> 'c list \<Rightarrow> disk \<Rightarrow> disk option" where
  "run_calls exec [] d = Some d"
| "run_calls exec (c # cs) d = (case exec c d of Written r d' \<Rightarrow> run_calls exec cs d' | _ \<Rightarrow> None)"

definition calls_to :: "('c \<Rightarrow> path option) \<Rightarrow> path \<Rightarrow> 'c list \<Rightarrow> 'c list" where
  "calls_to target p cs = filter (\<lambda>c. target c = Some p) cs"

locale append_log =
  fixes target :: "'c \<Rightarrow> path option" and header :: "'c \<Rightarrow> buffer" and entry :: "'c \<Rightarrow> buffer"
    and exec :: "'c \<Rightarrow> disk \<Rightarrow> written" and legal :: "'c \<Rightarrow> bool" and good :: "disk \<Rightarrow> bool"
  assumes exec_law: "legal c \<Longrightarrow> good d \<Longrightarrow> \<exists>r d'. exec c d = Written r d' \<and> good d'
    \<and> (\<forall>p. file_at d' p = (if target c = Some p then Some (appended (header c) (entry c) (file_at d p)) else file_at d p))"
begin

lemma run_history:
  assumes "list_all legal cs" "good d"
  shows "\<exists>d'. run_calls exec cs d = Some d' \<and> good d' \<and> (\<forall>p. file_at d' p = (case calls_to target p cs of [] \<Rightarrow> file_at d p
    | c # r \<Rightarrow> Some (appended (header c) (concat (map entry (c # r))) (file_at d p))))"
  using assms
proof (induction cs arbitrary: d)
  case (Cons c cs)
  obtain r d1 where c: "exec c d = Written r d1" "good d1"
    "\<forall>p. file_at d1 p = (if target c = Some p then Some (appended (header c) (entry c) (file_at d p)) else file_at d p)"
    using exec_law [of c d] Cons.prems by auto
  obtain d' where d': "run_calls exec cs d1 = Some d'" "good d'"
    "\<forall>p. file_at d' p = (case calls_to target p cs of [] \<Rightarrow> file_at d1 p
      | c # r \<Rightarrow> Some (appended (header c) (concat (map entry (c # r))) (file_at d1 p)))"
    using Cons.IH [OF _ c(2)] Cons.prems(1) by auto
  then show ?case using c by (auto simp: calls_to_def appended_def split: list.splits)
qed (simp add: calls_to_def)

end

text \<open>Two loggers on one disk, in any interleaving of their calls.\<close>

locale two_logs =
  a: append_log target1 header1 entry1 exec1 legal1 good + b: append_log target2 header2 entry2 exec2 legal2 good
  for target1 header1 entry1 exec1 legal1 target2 header2 entry2 exec2 legal2 good

sublocale two_logs \<subseteq> both: append_log "case_sum target1 target2" "case_sum header1 header2" "case_sum entry1 entry2"
  "case_sum exec1 exec2" "case_sum legal1 legal2" good
  by unfold_locales (auto split: sum.splits dest: a.exec_law b.exec_law)

datatype data_call = Data call_env buffer | Data_file call_env buffer buffer | Data_format call_env buffer "buffer list"

datatype error_call = Error call_env int buffer | Error_file call_env int buffer buffer

fun data_exec :: "log_env \<Rightarrow> data_call \<Rightarrow> disk \<Rightarrow> written" where
  "data_exec e (Data c msg) = WriteLog e c msg"
| "data_exec e (Data_file c f msg) = WriteLog_file e c f msg"
| "data_exec e (Data_format c f szs) = WriteLogFormat e c f szs"

fun error_exec :: "log_env \<Rightarrow> error_call \<Rightarrow> disk \<Rightarrow> written" where
  "error_exec e (Error c code msg) = WriteErrorLog e c code msg"
| "error_exec e (Error_file c code msg f) = WriteErrorLog_file e c code msg f"

text \<open>The name of a file of a day.\<close>

definition day_file :: "call_env \<Rightarrow> buffer \<Rightarrow> buffer" where
  "day_file c f = strftime_date ''-'' (c_t c) @ bytes_of ''-'' @ f @ bytes_of ''.log''"

fun data_target :: "log_env \<Rightarrow> data_call \<Rightarrow> path option" where
  "data_target e (Data c msg) = Some (log_file e ''logData'' (day_file c (bytes_of ''logData'')))"
| "data_target e (Data_file c f msg) = (if f = [] then None else Some (log_file e ''logData'' (day_file c f)))"
| "data_target e (Data_format c f szs) = (if f = [] then None else Some (log_file e ''logData'' (day_file c f)))"

fun error_target :: "log_env \<Rightarrow> error_call \<Rightarrow> path option" where
  "error_target e (Error c code msg) = Some (log_file e ''logError'' (day_file c (bytes_of ''logError'')))"
| "error_target e (Error_file c code msg f) = (if f = [] then None else Some (log_file e ''logError'' (day_file c f)))"

fun data_line :: "log_env \<Rightarrow> data_call \<Rightarrow> buffer" where
  "data_line e (Data c msg) = data_entry e c msg"
| "data_line e (Data_file c f msg) = data_entry e c msg"
| "data_line e (Data_format c f szs) = data_entry e c (format_fields szs)"

fun error_line :: "log_env \<Rightarrow> error_call \<Rightarrow> buffer" where
  "error_line e (Error c code msg) = error_entry e c code msg"
| "error_line e (Error_file c code msg f) = error_entry e c code msg"

fun data_legal :: "data_call \<Rightarrow> bool" where
  "data_legal (Data c msg) = True"
| "data_legal (Data_file c f msg) = plain f"
| "data_legal (Data_format c f szs) = plain f"

fun error_legal :: "error_call \<Rightarrow> bool" where
  "error_legal (Error c code msg) = True"
| "error_legal (Error_file c code msg f) = plain f"

lemma plain_literals: "plain (bytes_of ''-'')" "plain (bytes_of ''.log'')" "plain (bytes_of ''logData'')" "plain (bytes_of ''logError'')"
  by (simp_all add: plain_def bytes_of_def)

lemma resolve_day_file:
  assumes "child \<in> {''logData'', ''logError''}" "plain f"
  shows "resolve (e_cwd e) (bytes_of (''.//log//'' @ child @ ''//'') @ day_file c f) = log_file e child (day_file c f)"
proof (rule resolve_log_file [OF assms(1)])
  show "plain (day_file c f)" using assms(2) plain_literals plain_date by (simp add: day_file_def)
  have "1 < length (day_file c f)" by (simp add: day_file_def)
  then show "day_file c f \<notin> {[], [46]}" by auto
qed

text \<open>The whole effect of a call that writes.\<close>

definition logged :: "log_env \<Rightarrow> string \<Rightarrow> buffer \<Rightarrow> buffer \<Rightarrow> buffer \<Rightarrow> disk \<Rightarrow> disk" where
  "logged e child n header line d =
     (let d1 = d(e_cwd e @ [bytes_of ''log''] \<mapsto> Dir, e_cwd e @ [bytes_of ''log'', bytes_of child] \<mapsto> Dir)
      in d1(log_file e child n \<mapsto> File (appended header line (file_at d (log_file e child n)))))"

lemma write_below:
  assumes "env_ok e" "disk_ok e d" "child \<in> {''logData'', ''logError''}"
  shows "write_data e (log_file e child n) line (log_dirs e child d) = Written 0 (logged e child n data_header line d)"
    "write_error e (log_file e child n) line (log_dirs e child d) = Written 0 (logged e child n error_header line d)"
proof -
  let ?d = "log_dirs e child d" and ?p = "log_file e child n"
  have p: "?p \<noteq> []" "butlast ?p = e_cwd e @ [bytes_of ''log'', bytes_of child]" by (simp_all add: log_file_def butlast_append)
  have eq: "?d = d(e_cwd e @ [bytes_of ''log''] \<mapsto> Dir, e_cwd e @ [bytes_of ''log'', bytes_of child] \<mapsto> Dir)"
    by (rule log_dirs_effect [OF assms])
  have "?d ?p = d ?p" unfolding eq by (simp add: log_file_def)
  then have s: "?d (butlast ?p) = Some Dir" "?d ?p \<noteq> Some Dir" "file_at ?d ?p = file_at d ?p"
    using assms(2,3) unfolding p(2) by (auto simp: eq disk_ok_def file_at_def)
  have lg: "logged e child n h line d = ?d(?p \<mapsto> File (appended h line (file_at d ?p)))" for h
    unfolding logged_def Let_def eq ..
  have perm: "e_perm e = (\<lambda>_. True)" using assms(1) by (simp add: env_ok_def)
  show "write_data e ?p line ?d = Written 0 (logged e child n data_header line d)"
    "write_error e ?p line ?d = Written 0 (logged e child n error_header line d)"
    using write_effect [OF perm p(1) s(1,2), of line] unfolding s(3) lg by simp_all
qed

lemma logged_file:
  assumes "disk_ok e d" "child \<in> {''logData'', ''logError''}"
  shows "file_at (logged e child n header line d) p
    = (if p = log_file e child n then Some (appended header line (file_at d p)) else file_at d p)"
  using assms by (auto simp: logged_def Let_def file_at_def disk_ok_def log_file_def split: option.splits)

lemma logged_ok:
  assumes "disk_ok e d" "child \<in> {''logData'', ''logError''}"
  shows "disk_ok e (logged e child n header line d)"
    "disk_ok e (d(e_cwd e @ [bytes_of ''log''] \<mapsto> Dir, e_cwd e @ [bytes_of ''log'', bytes_of child] \<mapsto> Dir))"
proof -
  have len: "take k (e_cwd e) \<noteq> e_cwd e @ x # xs" for k x xs
  proof
    assume "take k (e_cwd e) = e_cwd e @ x # xs"
    then have "length (take k (e_cwd e)) = length (e_cwd e @ x # xs)" by simp
    then show False by simp
  qed
  have ne: "bytes_of ''logData'' \<noteq> bytes_of ''logError''" by (simp add: bytes_of_def)
  show "disk_ok e (d(e_cwd e @ [bytes_of ''log''] \<mapsto> Dir, e_cwd e @ [bytes_of ''log'', bytes_of child] \<mapsto> Dir))"
    using assms len by (auto simp: disk_ok_def log_file_def)
  then show "disk_ok e (logged e child n header line d)"
    using len by (simp add: disk_ok_def log_file_def logged_def Let_def)
qed

lemma WriteLog_logged:
  assumes "env_ok e" "disk_ok e d"
  shows "WriteLog e c msg d = Written 0 (logged e ''logData'' (day_file c (bytes_of ''logData'')) data_header (data_entry e c msg) d)"
proof -
  have "resolve (e_cwd e) (bytes_of ''.//log//logData//'' @ strftime_date ''-'' (c_t c) @ bytes_of ''-logData.log'')
      = log_file e ''logData'' (day_file c (bytes_of ''logData''))"
    using resolve_day_file [of "''logData''" "bytes_of ''logData''" e c] plain_literals by (simp add: day_file_def bytes_of_def)
  then show ?thesis using write_below(1) [OF assms, of "''logData''"] by (simp add: WriteLog_def DirIsExits_def)
qed

lemma WriteErrorLog_logged:
  assumes "env_ok e" "disk_ok e d"
  shows "WriteErrorLog e c code msg d
    = Written 0 (logged e ''logError'' (day_file c (bytes_of ''logError'')) error_header (error_entry e c code msg) d)"
proof -
  have "resolve (e_cwd e) (bytes_of ''.//log//logError//'' @ strftime_date ''-'' (c_t c) @ bytes_of ''-logError.log'')
      = log_file e ''logError'' (day_file c (bytes_of ''logError''))"
    using resolve_day_file [of "''logError''" "bytes_of ''logError''" e c] plain_literals by (simp add: day_file_def bytes_of_def)
  then show ?thesis using write_below(2) [OF assms, of "''logError''"] by (simp add: WriteErrorLog_def MakeDir_def)
qed

lemma WriteLog_file_logged:
  assumes "env_ok e" "disk_ok e d" "plain f" "f \<noteq> []"
  shows "WriteLog_file e c f msg d = Written 0 (logged e ''logData'' (day_file c f) data_header (data_entry e c msg) d)"
  using resolve_day_file [of "''logData''" f e c] assms write_below(1) [OF assms(1,2), of "''logData''"]
  by (simp add: WriteLog_file_def DirIsExits_def Let_def day_file_def)

lemma WriteErrorLog_file_logged:
  assumes "env_ok e" "disk_ok e d" "plain f" "f \<noteq> []"
  shows "WriteErrorLog_file e c code msg f d
    = Written 0 (logged e ''logError'' (day_file c f) error_header (error_entry e c code msg) d)"
  using resolve_day_file [of "''logError''" f e c] assms write_below(2) [OF assms(1,2), of "''logError''"]
  by (simp add: WriteErrorLog_file_def MakeDir_def Let_def day_file_def)

text \<open>A call without a file name only makes the directories.\<close>

lemma log_dirs_kept:
  assumes "env_ok e" "disk_ok e d" "child \<in> {''logData'', ''logError''}"
  shows "disk_ok e (log_dirs e child d)" "file_at (log_dirs e child d) p = file_at d p"
proof -
  show "disk_ok e (log_dirs e child d)" using log_dirs_effect [OF assms] logged_ok(2) [OF assms(2,3)] by simp
  show "file_at (log_dirs e child d) p = file_at d p"
    using assms(2,3) unfolding log_dirs_effect [OF assms] by (auto simp: file_at_def disk_ok_def split: option.splits)
qed

lemma WriteLog_unnamed: "WriteLog_file e c [] msg d = Written (-1) (log_dirs e ''logData'' d)"
  by (simp add: WriteLog_file_def DirIsExits_def)

lemma WriteErrorLog_unnamed: "WriteErrorLog_file e c code msg [] d = Written (-1) (log_dirs e ''logError'' d)"
  by (simp add: WriteErrorLog_file_def MakeDir_def)

lemmas call_effects = WriteLog_logged WriteErrorLog_logged WriteLog_file_logged WriteErrorLog_file_logged
  WriteLog_unnamed WriteErrorLog_unnamed WriteLogFormat_def

interpretation data_log: append_log "data_target e" "\<lambda>_. data_header" "data_line e" "data_exec e"
  "\<lambda>c. env_ok e \<and> data_legal c" "disk_ok e" for e
proof (unfold_locales, elim conjE)
  fix c d assume "env_ok e" "data_legal c" "disk_ok e d"
  then show "\<exists>r d'. data_exec e c d = Written r d' \<and> disk_ok e d'
    \<and> (\<forall>p. file_at d' p = (if data_target e c = Some p then Some (appended data_header (data_line e c) (file_at d p)) else file_at d p))"
    by (cases c) (auto simp: call_effects logged_ok logged_file log_dirs_kept)
qed

interpretation error_log: append_log "error_target e" "\<lambda>_. error_header" "error_line e" "error_exec e"
  "\<lambda>c. env_ok e \<and> error_legal c" "disk_ok e" for e
proof (unfold_locales, elim conjE)
  fix c d assume "env_ok e" "error_legal c" "disk_ok e d"
  then show "\<exists>r d'. error_exec e c d = Written r d' \<and> disk_ok e d'
    \<and> (\<forall>p. file_at d' p = (if error_target e c = Some p then Some (appended error_header (error_line e c) (file_at d p)) else file_at d p))"
    by (cases c) (auto simp: call_effects logged_ok logged_file log_dirs_kept)
qed

interpretation logs: two_logs "data_target e" "\<lambda>_. data_header" "data_line e" "data_exec e"
  "\<lambda>c. env_ok e \<and> data_legal c" "error_target e" "\<lambda>_. error_header" "error_line e" "error_exec e"
  "\<lambda>c. env_ok e \<and> error_legal c" "disk_ok e" for e
  by unfold_locales


text \<open>A file that cannot be opened: the data log waits for it forever, inside the lock, when it exists,
  and writes to a null stream when it does not; the error log writes to a null stream in both cases.\<close>

lemma refused_log_file:
  assumes "\<not> e_perm e p"
  shows "write_data e p line d = (if d p = None then Null_stream else Spins)" "write_error e p line d = Null_stream"
  using assms by (auto simp: write_data_def write_error_def new_log_file_def fopen_a_def split: option.splits node.splits)

section \<open>Exceptions\<close>

datatype exc_class = ExceptionBase | ExceptionDatabase | ExceptionParsejson | ExceptionSocket | ExceptionMessageQueue

record exc =
  x_class :: exc_class
  x_msg :: buffer
  x_file :: buffer
  x_func :: buffer
  x_line :: int
  x_what :: buffer

definition new_exc :: "exc_class \<Rightarrow> buffer \<Rightarrow> exc" where
  "new_exc cl msg = \<lparr>x_class = cl, x_msg = msg, x_file = bytes_of ''<unknown file>'', x_func = bytes_of ''<unknown func>'',
     x_line = -1, x_what = []\<rparr>"

fun GetClassName :: "exc_class \<Rightarrow> string" where
  "GetClassName ExceptionBase = ''ExceptionBase''"
| "GetClassName ExceptionDatabase = ''ExceptionDatabase''"
| "GetClassName ExceptionParsejson = ''ExceptionParsejson''"
| "GetClassName ExceptionSocket = ''ExceptionSocket''"
| "GetClassName ExceptionMessageQueue = ''ExceptionMessageQueue''"

text \<open>The text is made once and kept in the object.\<close>

definition exc_text :: "exc \<Rightarrow> buffer" where
  "exc_text x =
     (if 0 < x_line x then bytes_of ''file['' @ x_file x @ bytes_of '']&line['' @ bytes_of (fmt_d (x_line x)) @ bytes_of '']'' else [])
     @ bytes_of ''&func['' @ x_func x @ bytes_of '']''
     @ bytes_of ''&exception['' @ bytes_of (GetClassName (x_class x)) @ bytes_of '']''
     @ (if x_msg x \<noteq> [] then bytes_of ''&msg['' @ x_msg x @ bytes_of '']'' else [])"

definition ToString :: "exc \<Rightarrow> buffer \<times> exc" where
  "ToString x = (let x1 = (if x_what x = [] then x\<lparr>x_what := exc_text x\<rparr> else x) in (x_what x1, x1))"

definition what_text :: "exc \<Rightarrow> buffer \<times> exc" where
  "what_text x = (let (s, x1) = ToString x in (c_str s, x1))"

text \<open>\<open>log_exception\<close> is the macro of the release build.\<close>

definition Init :: "bool \<Rightarrow> log_env \<Rightarrow> call_env \<Rightarrow> buffer \<Rightarrow> buffer \<Rightarrow> int \<Rightarrow> exc \<Rightarrow> disk \<Rightarrow> exc \<times> written" where
  "Init log_exception e c fname func line x d =
     (let x1 = x\<lparr>x_file := fname, x_func := func, x_line := line\<rparr> in
      if log_exception then (let (s, x2) = ToString x1 in (x2, WriteErrorLog e c 0 (c_str s) d))
      else (x1, Written 0 d))"

definition THROW_EXCEPTION ::
  "bool \<Rightarrow> log_env \<Rightarrow> call_env \<Rightarrow> exc_class \<Rightarrow> buffer \<Rightarrow> buffer \<Rightarrow> buffer \<Rightarrow> int \<Rightarrow> disk \<Rightarrow> exc \<times> written" where
  "THROW_EXCEPTION log_exception e c cl msg fname func line d = Init log_exception e c fname func line (new_exc cl msg) d"

text \<open>The text of a thrown exception names the place, the class and the message, whether or not it was
  logged when it was thrown.\<close>

lemma exc_text_nonempty: "exc_text x \<noteq> []"
  by (simp add: exc_text_def bytes_of_def)

lemma thrown_text:
  assumes "0 < line" "THROW_EXCEPTION lg e c cl msg fname func line d = (x, r)"
  shows "fst (ToString x) = bytes_of ''file['' @ fname @ bytes_of '']&line['' @ bytes_of (fmt_d line) @ bytes_of '']''
    @ bytes_of ''&func['' @ func @ bytes_of '']'' @ bytes_of ''&exception['' @ bytes_of (GetClassName cl) @ bytes_of '']''
    @ (if msg \<noteq> [] then bytes_of ''&msg['' @ msg @ bytes_of '']'' else [])"
proof -
  define x1 where "x1 = (new_exc cl msg)\<lparr>x_file := fname, x_func := func, x_line := line\<rparr>"
  have "x_what x1 = []" by (simp add: x1_def new_exc_def)
  then have "fst (ToString x) = exc_text x1"
    using assms(2) exc_text_nonempty [of x1]
    by (cases lg) (auto simp: THROW_EXCEPTION_def Init_def ToString_def Let_def simp flip: x1_def)
  then show ?thesis using assms(1) by (simp add: x1_def new_exc_def exc_text_def)
qed

text \<open>A logged exception adds one entry to the error log of the day.\<close>

lemma thrown_logged:
  assumes "env_ok e" "disk_ok e d" "THROW_EXCEPTION True e c cl msg fname func line d = (x, r)"
  shows "r = Written 0 (logged e ''logError'' (day_file c (bytes_of ''logError'')) error_header
      (error_entry e c 0 (fst (what_text x))) d)"
  using assms by (auto simp: THROW_EXCEPTION_def Init_def ToString_def Let_def what_text_def WriteErrorLog_logged exc_text_nonempty)

section \<open>Locks\<close>

text \<open>The locks that are declared, and the ones \<open>initMutex\<close> initialises.\<close>

definition lock_values :: "bool \<Rightarrow> string list" where
  "lock_values win32 = (if win32 then [''MysqlQueue'', ''MysqlOp'', ''RefreshUI'', ''XMLWrite'', ''ReadDBIncrement'',
       ''ClientSocketServer'', ''CPreBinlog'', ''CUpdateDbThread'', ''CMysqlQueue'', ''IncrementDataLock'', ''CProcessMqRawData'']
     else [''SocketServer'', ''SocketServerClientManager'', ''AliMessageQueue'', ''HandlerClientSocket'', ''CProcessMqData'',
       ''CProcessMqRawData'', ''IncrementDataLock'']) @ [''LogErrorLock'', ''LogDataLock'']"

definition initMutex :: "bool \<Rightarrow> string list" where
  "initMutex win32 = [''LogErrorLock'', ''LogDataLock''] @ (if win32 then [''MysqlOp'', ''MysqlQueue'', ''RefreshUI'', ''XMLWrite'',
       ''ReadDBIncrement'', ''ClientSocketServer'', ''CPreBinlog'', ''CUpdateDbThread'', ''CMysqlQueue'', ''IncrementDataLock'']
     else [''SocketServer'', ''SocketServerClientManager'', ''AliMessageQueue'', ''CProcessMqData''])"

text \<open>On Windows the lock of the raw data queue is declared a second time, as a local variable, instead
  of being initialised. On the platform of the server three locks keep their zero bytes, which is the
  value of an unlocked lock there.\<close>

lemma locks_not_initialised:
  "filter (\<lambda>l. l \<notin> set (initMutex True)) (lock_values True) = [''CProcessMqRawData'']"
  "filter (\<lambda>l. l \<notin> set (initMutex False)) (lock_values False)
     = [''HandlerClientSocket'', ''CProcessMqRawData'', ''IncrementDataLock'']"
  by (simp_all add: initMutex_def lock_values_def)

section \<open>Witness\<close>

definition sample_env :: log_env where
  "sample_env = \<lparr>e_win32 = None, e_cwd = [], e_perm = (\<lambda>_. True), e_time = (\<lambda>t. bytes_of ''10:11:12'')\<rparr>"

definition sample_call :: call_env where
  "sample_call = (let t = \<lparr>tm_year = 2016, tm_mon = 3, tm_mday = 4, tm_hour = 10, tm_min = 11, tm_sec = 12\<rparr>
     in \<lparr>c_t = t, c_t2 = t, c_tid = 77\<rparr>)"


end
