(* ===== verification/Startup.thy ===== *)
theory Startup
  imports Server Logging
begin

text \<open>
  The start of the server: \<open>main\<close> of \<open>DataSync/main.cpp\<close> with the functions that create the threads
  (\<open>DataSync/SocketServer.cpp\<close>, \<open>DataSync/CProcessMqData.cpp\<close>) and with what happens to an exception on the way.
  What \<open>pthread_create\<close> returns for a thread, its result and the number of the thread, is a parameter. An
  exception is the object of \<open>Logging.thy\<close>; it is logged when it is thrown, in the release build, and again
  when \<open>main\<close> catches it. \<open>Crash\<close> is a log that could not be opened.
\<close>

datatype thread_kind = Server_thread | Heartbeat_thread | Process_thread | Exception_thread | Raw_thread

record process =
  pr_threads :: "thread_kind list"
  m_server_thread_id :: nat
  m_heartbeat_thread_id :: nat
  m_thread_id :: nat
  m_thread_id_exception :: nat
  m_thread_id_raw :: nat
  pr_joined :: "nat option"
  pr_ali :: "ali_queue option"
  pr_disk :: disk

definition new_process :: "disk \<Rightarrow> process" where
  "new_process d = \<lparr>pr_threads = [], m_server_thread_id = 0, m_heartbeat_thread_id = 0, m_thread_id = 0,
     m_thread_id_exception = 0, m_thread_id_raw = 0, pr_joined = None, pr_ali = None, pr_disk = d\<rparr>"

datatype action = Done process | Thrown exc process | Crash

definition then_do :: "action \<Rightarrow> (process \<Rightarrow> action) \<Rightarrow> action" where
  "then_do r f = (case r of Done p \<Rightarrow> f p | _ \<Rightarrow> r)"

text \<open>The process as an exception sees it: whether exceptions are logged, the surroundings of the log, and
  the moments of the throw and of the catch.\<close>

record run_env =
  r_log_exception :: bool
  r_env :: log_env
  r_throw :: call_env
  r_catch :: call_env
  r_create :: "thread_kind \<Rightarrow> int \<times> nat"
  r_config :: "buffer option"

definition throw_at :: "run_env \<Rightarrow> exc_class \<Rightarrow> string \<Rightarrow> string \<Rightarrow> string \<Rightarrow> int \<Rightarrow> process \<Rightarrow> action" where
  "throw_at r cl msg fname func line p =
     (case THROW_EXCEPTION (r_log_exception r) (r_env r) (r_throw r) cl (bytes_of msg) (bytes_of fname) (bytes_of func) line (pr_disk p) of
        (x, Written _ d) \<Rightarrow> Thrown x (p\<lparr>pr_disk := d\<rparr>)
      | _ \<Rightarrow> Crash)"

definition created :: "thread_kind \<Rightarrow> process \<Rightarrow> process" where
  "created k p = p\<lparr>pr_threads := pr_threads p @ [k]\<rparr>"

definition SocketServer_run :: "run_env \<Rightarrow> process \<Rightarrow> action" where
  "SocketServer_run r p =
     (if m_server_thread_id p = 0 then
        (case r_create r Server_thread of (rv, i) \<Rightarrow>
           if rv = 0 then Done (created Server_thread (p\<lparr>m_server_thread_id := i\<rparr>))
           else throw_at r ExceptionSocket ''server thread thread failed'' ''SocketServer.cpp'' ''run'' 117 p)
      else Done p)"

definition runHeartBeatThread :: "run_env \<Rightarrow> process \<Rightarrow> bool \<times> process" where
  "runHeartBeatThread r p =
     (case r_create r Heartbeat_thread of (rv, i) \<Rightarrow>
        if rv \<noteq> 0 then (False, p) else (True, created Heartbeat_thread (p\<lparr>m_heartbeat_thread_id := i\<rparr>)))"

definition StartThread :: "run_env \<Rightarrow> process \<Rightarrow> action" where
  "StartThread r p =
     (if m_thread_id p = 0 then
        (case r_create r Process_thread of (rv, i) \<Rightarrow>
           if rv = 0 then Done (created Process_thread (p\<lparr>m_thread_id := i\<rparr>))
           else throw_at r ExceptionBase ''CProcessMqData thread thread failed'' ''CProcessMqData.cpp'' ''StartThread'' 115 p)
      else Done p)"

definition StartThreadException :: "run_env \<Rightarrow> process \<Rightarrow> action" where
  "StartThreadException r p =
     (if m_thread_id_exception p = 0 then
        (case r_create r Exception_thread of (rv, i) \<Rightarrow>
           if rv = 0 then Done (created Exception_thread (p\<lparr>m_thread_id_exception := i\<rparr>))
           else throw_at r ExceptionBase ''CProcessMqData thread thread failed'' ''CProcessMqData.cpp'' ''StartThreadException'' 129 p)
      else Done p)"

definition StartThreadRaw :: "run_env \<Rightarrow> process \<Rightarrow> action" where
  "StartThreadRaw r p =
     (if m_thread_id_raw p = 0 then
        (case r_create r Raw_thread of (rv, i) \<Rightarrow>
           if rv = 0 then Done (created Raw_thread (p\<lparr>m_thread_id_raw := i\<rparr>))
           else throw_at r ExceptionBase ''CProcessMqData thread thread raw failed'' ''CProcessMqData.cpp'' ''StartThreadRaw'' 98 p)
      else Done p)"

text \<open>The line of the throw for each missing value of the configuration.\<close>

definition config_line :: "string \<Rightarrow> int" where
  "config_line msg = the (map_of [(''config MQ_FINAL_TOPIC name'', 55), (''config MQ_FINAL_TOPIC producer'', 63),
     (''config MQ_FINAL_TOPIC consumer'', 71), (''config MQ_RAW_TOPIC name'', 81), (''config MQ_RAW_TOPIC producer'', 90),
     (''config MQ_RAW_TOPIC consumer'', 98), (''config MQ_EXCEPTION name'', 108), (''config MQ_EXCEPTION producer'', 116),
     (''config MQ_EXCEPTION consumer'', 124)] msg)"

definition Ali_getInstance :: "run_env \<Rightarrow> process \<Rightarrow> action" where
  "Ali_getInstance r p =
     (case pr_ali p of Some _ \<Rightarrow> Done p
      | None \<Rightarrow> (case initConfig (r_config r) of
          Inr a \<Rightarrow> Done (p\<lparr>pr_ali := Some a\<rparr>)
        | Inl msg \<Rightarrow> throw_at r ExceptionMessageQueue msg ''../syncshare/AliMessageQueue.cpp'' ''initConfig'' (config_line msg) p))"

definition run_consumer :: "run_env \<Rightarrow> queue_instance \<Rightarrow> process \<Rightarrow> action" where
  "run_consumer r inst p =
     then_do (Ali_getInstance r p) (\<lambda>p. Done (p\<lparr>pr_ali := map_option (\<lambda>a. snd (runServer inst a)) (pr_ali p)\<rparr>))"

definition waitServerThread :: "process \<Rightarrow> process" where
  "waitServerThread p = (if m_server_thread_id p \<noteq> 0 then p\<lparr>pr_joined := Some (m_server_thread_id p)\<rparr> else p)"

definition main_try :: "run_env \<Rightarrow> process \<Rightarrow> action" where
  "main_try r p =
     then_do (SocketServer_run r p) (\<lambda>p.
     let p = snd (runHeartBeatThread r p) in
     then_do (StartThread r p) (\<lambda>p.
     then_do (StartThreadException r p) (\<lambda>p.
     then_do (run_consumer r erp_final_consumer p) (\<lambda>p.
     then_do (run_consumer r exception_thread1_consumer p) (\<lambda>p.
     then_do (StartThreadRaw r p) (\<lambda>p. Done (waitServerThread p)))))))"

text \<open>The three handlers of \<open>main\<close> do the same. The result is the exit code and the process at that time.\<close>

definition main :: "run_env \<Rightarrow> process \<Rightarrow> (int \<times> process) option" where
  "main r p =
     (case main_try r p of
        Done p1 \<Rightarrow> Some (0, p1)
      | Thrown x p1 \<Rightarrow>
          (case WriteErrorLog (r_env r) (r_catch r) (-1) (fst (what_text x)) (pr_disk p1) of
             Written _ d \<Rightarrow> Some (0, p1\<lparr>pr_disk := d\<rparr>) | _ \<Rightarrow> None)
      | Crash \<Rightarrow> None)"

section \<open>Lemmas\<close>

abbreviation "error_log_of e c \<equiv> logged e ''logError'' (day_file c (bytes_of ''logError'')) error_header"

definition needed :: "run_env \<Rightarrow> bool" where
  "needed r \<longleftrightarrow> (\<forall>k\<in>{Server_thread, Process_thread, Exception_thread, Raw_thread}. fst (r_create r k) = 0)
     \<and> (\<exists>a. initConfig (r_config r) = Inr a)"

lemma throw_at_logged:
  assumes "env_ok (r_env r)" "disk_ok (r_env r) (pr_disk p)"
  shows "\<exists>x. x_class x = cl \<and> throw_at r cl msg fname func line p = Thrown x (p\<lparr>pr_disk :=
    (if r_log_exception r then error_log_of (r_env r) (r_throw r) (error_entry (r_env r) (r_throw r) 0 (fst (what_text x))) (pr_disk p)
     else pr_disk p)\<rparr>)"
proof -
  obtain x w where t: "THROW_EXCEPTION (r_log_exception r) (r_env r) (r_throw r) cl (bytes_of msg) (bytes_of fname) (bytes_of func) line (pr_disk p) = (x, w)"
    by (cases "THROW_EXCEPTION (r_log_exception r) (r_env r) (r_throw r) cl (bytes_of msg) (bytes_of fname) (bytes_of func) line (pr_disk p)")
  have "x_class x = cl" using t by (auto simp: THROW_EXCEPTION_def Init_def new_exc_def ToString_def Let_def split: if_splits)
  moreover have "w = Written 0 (if r_log_exception r
      then error_log_of (r_env r) (r_throw r) (error_entry (r_env r) (r_throw r) 0 (fst (what_text x))) (pr_disk p) else pr_disk p)"
    using t thrown_logged [OF assms, of "r_throw r" cl "bytes_of msg" "bytes_of fname" "bytes_of func" line x w]
    by (cases "r_log_exception r") (auto simp: THROW_EXCEPTION_def Init_def Let_def)
  ultimately show ?thesis using t by (auto simp: throw_at_def)
qed

text \<open>An exception thrown before the last thread is created.\<close>

definition thrown_early :: "run_env \<Rightarrow> disk \<Rightarrow> action \<Rightarrow> bool" where
  "thrown_early r d a \<longleftrightarrow> (\<exists>x p. a = Thrown x p \<and> Raw_thread \<notin> set (pr_threads p) \<and> pr_disk p =
    (if r_log_exception r then error_log_of (r_env r) (r_throw r) (error_entry (r_env r) (r_throw r) 0 (fst (what_text x))) d else d))"

lemma throw_at_early:
  assumes "env_ok (r_env r)" "disk_ok (r_env r) d" "pr_disk p = d" "Raw_thread \<notin> set (pr_threads p)"
  shows "thrown_early r d (throw_at r cl msg fname func line p)"
  using throw_at_logged [of r p cl msg fname func line] assms by (auto simp: thrown_early_def)

lemma then_do_simps [simp]: "then_do (Done p) f = f p" "thrown_early r d a \<Longrightarrow> thrown_early r d (then_do a f)"
  by (auto simp: then_do_def thrown_early_def)

lemmas start_defs = SocketServer_run_def runHeartBeatThread_def StartThread_def StartThreadException_def StartThreadRaw_def
  Ali_getInstance_def run_consumer_def created_def

lemma main_try_thrown:
  assumes "env_ok (r_env r)" "disk_ok (r_env r) d" "\<not> needed r"
  shows "thrown_early r d (main_try r (new_process d))"
  using assms(3) throw_at_early [OF assms(1,2)]
  by (auto simp: main_try_def start_defs needed_def new_process_def Let_def split: prod.splits sum.splits)

definition started :: "run_env \<Rightarrow> ali_queue \<Rightarrow> disk \<Rightarrow> process" where
  "started r a d = \<lparr>pr_threads = [Server_thread] @ (if fst (r_create r Heartbeat_thread) = 0 then [Heartbeat_thread] else [])
       @ [Process_thread, Exception_thread, Raw_thread],
     m_server_thread_id = snd (r_create r Server_thread),
     m_heartbeat_thread_id = (if fst (r_create r Heartbeat_thread) = 0 then snd (r_create r Heartbeat_thread) else 0),
     m_thread_id = snd (r_create r Process_thread), m_thread_id_exception = snd (r_create r Exception_thread),
     m_thread_id_raw = snd (r_create r Raw_thread),
     pr_joined = (if snd (r_create r Server_thread) \<noteq> 0 then Some (snd (r_create r Server_thread)) else None),
     pr_ali = Some (snd (runServer exception_thread1_consumer (snd (runServer erp_final_consumer a)))), pr_disk = d\<rparr>"

lemma main_try_done:
  assumes "needed r" "initConfig (r_config r) = Inr a"
  shows "main_try r (new_process d) = Done (started r a d)"
proof -
  have "fst (r_create r k) = 0" if "k \<in> {Server_thread, Process_thread, Exception_thread, Raw_thread}" for k
    using assms(1) that unfolding needed_def by blast
  then show ?thesis
    by (simp add: main_try_def start_defs new_process_def Let_def waitServerThread_def started_def prod.case_eq_if assms(2))
qed

lemma runServer_ok:
  assumes "ali_ok a"
  shows "ali_ok (snd (runServer i a)) \<and> m_mq_config (snd (runServer i a)) = m_mq_config a
    \<and> (qd_consumer (new_queue_data a i) \<noteq> None \<longrightarrow> mq_subscribed (snd (runServer i a))
        = mq_subscribed a @ [(qd_topics (new_queue_data a i), qd_listener (new_queue_data a i))])"
proof -
  obtain a' where a': "getProOrCon i a = (new_queue_data a i, a')" "ali_ok a'" "m_mq_config a' = m_mq_config a"
    using getProOrCon_ok [OF assms, of i] by blast
  have "mq_subscribed a' = mq_subscribed a" using a'(1) by (auto simp: getProOrCon_def Let_def split: if_splits)
  moreover have "ali_ok (a'\<lparr>mq_subscribed := ss\<rparr>)" for ss using a'(2) by (subst ali_ok_cong [of _ a']) simp_all
  ultimately show ?thesis using a' by (simp add: runServer_def)
qed

lemma subscribed_at_start:
  assumes "initConfig file = Inr a" "a' = snd (runServer exception_thread1_consumer (snd (runServer erp_final_consumer a)))"
  shows "ali_ok a' \<and> mq_subscribed a' = [(c_str (cfg_name (config_of a erp_final_topic)), Some MessageListenerErpFinal),
      (c_str (cfg_name (config_of a exception_topic)), Some MessageListenerException)]"
proof -
  have ok: "ali_ok a" by (rule initConfig_ok [OF assms(1)])
  have "mq_subscribed a = []" using assms(1) by (auto simp: initConfig_def split: sum.splits)
  then show ?thesis
    using runServer_ok [OF ok, of erp_final_consumer] runServer_ok [of "snd (runServer erp_final_consumer a)" exception_thread1_consumer]
      assms(2) by (simp add: createConsumer_def config_of_def)
qed


section \<open>Witness\<close>

definition sample_run_env :: "buffer option \<Rightarrow> run_env" where
  "sample_run_env cfg = \<lparr>r_log_exception = True, r_env = sample_env, r_throw = sample_call, r_catch = sample_call,
     r_create = (\<lambda>k. (0, 1)), r_config = cfg\<rparr>"


end
