(* ===== verification/Buildsql.thy ===== *)
theory Buildsql
  imports DS_Prelude
begin

text \<open>
  The client turns a message into SQL: \<open>wmsclient/wmsclient/BuildFinally.cpp\<close>. The parser of the JSON library is the
  parameter \<open>parse\<close>, which the theory Jsoncpp instantiates with the reader itself, and the texts the library and \<open>printf\<close> make of
  a double are the parameters \<open>real_text\<close> and \<open>fmt16\<close>. Values are those the library distinguishes; an object is the list of its members in the order
  of their names, the order in which the library keeps them.

  \<open>LoadJson\<close> returns the error it throws, or its result with the three lists of statements.
\<close>

datatype 'r json = nullValue | intValue int | uintValue int | realValue 'r | stringValue buffer | booleanValue bool
  | arrayValue "'r json list" | objectValue "(buffer \<times> 'r json) list"

datatype build_error = Parse_failed | Tables_missing | Tables_not_array | Name_missing | Name_not_string | Parts_missing
  | Parts_wrong | Mapkey_empty | Sizes_wrong
  | Json_logic_error
  | Column_loop

text \<open>The last two are not exceptions of the program: a use of a value that the library refuses, and the loop over the
  columns of a table that has none, whose bound is the number 4294967295.\<close>

definition lit :: "string \<Rightarrow> buffer" where "lit = bytes_of"

definition dec_text :: "int \<Rightarrow> buffer" where "dec_text x = bytes_of (fmt_d x)"

section \<open>Values\<close>

definition isMember :: "'r json \<Rightarrow> buffer \<Rightarrow> build_error + bool" where
  "isMember v k = (case v of nullValue \<Rightarrow> Inr False | objectValue ms \<Rightarrow> Inr (map_of ms k \<noteq> None) | _ \<Rightarrow> Inl Json_logic_error)"

definition member :: "'r json \<Rightarrow> buffer \<Rightarrow> 'r json" where
  "member v k = (case v of objectValue ms \<Rightarrow> (case map_of ms k of None \<Rightarrow> nullValue | Some x \<Rightarrow> x) | _ \<Rightarrow> nullValue)"

definition asString :: "('r \<Rightarrow> buffer) \<Rightarrow> 'r json \<Rightarrow> build_error + buffer" where
  "asString real_text v =
     (case v of nullValue \<Rightarrow> Inr [] | stringValue s \<Rightarrow> Inr s | booleanValue b \<Rightarrow> Inr (lit (if b then ''true'' else ''false''))
      | intValue x \<Rightarrow> Inr (dec_text x) | uintValue x \<Rightarrow> Inr (dec_text x) | realValue r \<Rightarrow> Inr (real_text r)
      | _ \<Rightarrow> Inl Json_logic_error)"

text \<open>The exponent of a printed double without leading zeros; \<open>s\<close> is what \<open>printf\<close> wrote.\<close>

definition normalizeFloatingPointStr :: "buffer \<Rightarrow> buffer" where
  "normalizeFloatingPointStr s =
     (let isE = (\<lambda>b. b = 101 \<or> b = 69) in
      if \<not> list_ex isE s then s
      else (let index = length s - 1 - length (takeWhile (\<lambda>b. \<not> isE b) (rev s));
                hasSign = (if index + 1 < length s \<and> (s ! (index + 1) = 43 \<or> s ! (index + 1) = 45) then 1 else 0);
                exponentStartIndex = index + 1 + hasSign;
                digits = dropWhile (\<lambda>b. b = 48) (drop exponentStartIndex s) in
            take exponentStartIndex s @ (if digits = [] then [48] else digits)))"

definition JsonValueToString :: "('r \<Rightarrow> buffer) \<Rightarrow> 'r json \<Rightarrow> buffer" where
  "JsonValueToString fmt16 v =
     (case v of stringValue s \<Rightarrow> lit [CHR 0x22] @ s @ lit [CHR 0x22]
      | intValue x \<Rightarrow> dec_text x | uintValue x \<Rightarrow> dec_text x
      | realValue r \<Rightarrow> normalizeFloatingPointStr (fmt16 r)
      | nullValue \<Rightarrow> lit ''null'' | _ \<Rightarrow> lit ''null'')"

section \<open>Statements\<close>

text \<open>The loop over the columns: the texts appended for the update, the columns and the values. The last column is
  written behind the loop.\<close>

fun column_loop :: "('r \<Rightarrow> buffer) \<Rightarrow> ('r \<Rightarrow> buffer) \<Rightarrow> ('r json \<times> 'r json) list \<Rightarrow> buffer \<times> buffer \<times> buffer
    \<Rightarrow> build_error + buffer \<times> buffer \<times> buffer" where
  "column_loop fmt16 real_text [] acc = Inl Column_loop"
| "column_loop fmt16 real_text [(c, v)] (u, cs, vs) =
     (case asString real_text c of Inl e \<Rightarrow> Inl e
      | Inr name \<Rightarrow>
          Inr (u @ name @ lit ''='' @ JsonValueToString fmt16 v @ lit '', hm_update_timestamp=0'',
               cs @ name @ lit '', hm_update_timestamp)'',
               vs @ JsonValueToString fmt16 v @ lit '', 0)''))"
| "column_loop fmt16 real_text ((c, v) # cvs) (u, cs, vs) =
     (case asString real_text c of Inl e \<Rightarrow> Inl e
      | Inr name \<Rightarrow>
          column_loop fmt16 real_text cvs
            (u @ name @ lit ''='' @ JsonValueToString fmt16 v @ lit '', '',
             cs @ name @ lit '','',
             vs @ JsonValueToString fmt16 v @ lit '',''))"

fun select_where :: "('r \<Rightarrow> buffer) \<Rightarrow> (buffer \<times> 'r json) list \<Rightarrow> buffer \<Rightarrow> buffer" where
  "select_where fmt16 [] acc = acc"
| "select_where fmt16 [(k, v)] acc = acc @ k @ lit ''='' @ JsonValueToString fmt16 v"
| "select_where fmt16 ((k, v) # kvs) acc =
     select_where fmt16 kvs (acc @ k @ lit ''='' @ JsonValueToString fmt16 v @ lit '' and '')"

definition quoted_key :: "('r \<Rightarrow> buffer) \<Rightarrow> 'r json \<Rightarrow> buffer" where
  "quoted_key fmt16 v =
     (case v of stringValue s \<Rightarrow> JsonValueToString fmt16 v
      | _ \<Rightarrow> lit [CHR 0x22] @ JsonValueToString fmt16 v @ lit [CHR 0x22])"

fun update_where :: "('r \<Rightarrow> buffer) \<Rightarrow> (buffer \<times> 'r json) list \<Rightarrow> buffer \<Rightarrow> buffer" where
  "update_where fmt16 [] acc = acc"
| "update_where fmt16 [(k, v)] acc = acc @ k @ lit ''='' @ quoted_key fmt16 v"
| "update_where fmt16 ((k, v) # kvs) acc =
     update_where fmt16 kvs (acc @ k @ lit ''='' @ quoted_key fmt16 v @ lit '' and '')"

record sql_lists =
  m_sql_select :: "buffer list"
  m_sql_insert :: "buffer list"
  m_sql_update :: "buffer list"

text \<open>One table: the statements, or the error.\<close>

definition build_table :: "('r \<Rightarrow> buffer) \<Rightarrow> ('r \<Rightarrow> buffer) \<Rightarrow> 'r json \<Rightarrow> build_error + buffer \<times> buffer \<times> buffer" where
  "build_table fmt16 real_text item =
     (case isMember item (lit ''name'') of Inl e \<Rightarrow> Inl e | Inr False \<Rightarrow> Inl Name_missing | Inr True \<Rightarrow>
     (case member item (lit ''name'') of stringValue name \<Rightarrow>
       (case (isMember item (lit ''column''), isMember item (lit ''values''), isMember item (lit ''mapkey'')) of
          (Inr True, Inr True, Inr True) \<Rightarrow>
            (case (member item (lit ''column''), member item (lit ''values''), member item (lit ''mapkey'')) of
               (arrayValue cols, arrayValue vals, objectValue keys) \<Rightarrow>
                 if length cols \<noteq> length vals then Inl Parts_wrong
                 else (case column_loop fmt16 real_text (zip cols vals)
                         (lit ''update '' @ name @ lit '' set '', lit '' ('', lit '' ('') of Inl e \<Rightarrow> Inl e
                       | Inr (u, cs, vs) \<Rightarrow>
                           if keys = [] then Inl Mapkey_empty
                           else Inr (select_where fmt16 keys (lit ''select * from '' @ name @ lit '' where ''),
                                     lit ''insert into '' @ name @ cs @ lit '' values '' @ vs,
                                     update_where fmt16 keys (u @ lit '' where ''))
                    )
             | _ \<Rightarrow> Inl Parts_wrong)
        | _ \<Rightarrow> Inl Parts_missing)
     | _ \<Rightarrow> Inl Name_not_string))"

fun tables_loop :: "('r \<Rightarrow> buffer) \<Rightarrow> ('r \<Rightarrow> buffer) \<Rightarrow> 'r json list \<Rightarrow> sql_lists \<Rightarrow> build_error + bool \<times> sql_lists" where
  "tables_loop fmt16 real_text [] q =
     (if length (m_sql_select q) \<noteq> length (m_sql_insert q) \<or> length (m_sql_select q) \<noteq> length (m_sql_update q) \<or>
         length (m_sql_insert q) \<noteq> length (m_sql_update q) then Inl Sizes_wrong else Inr (True, q))"
| "tables_loop fmt16 real_text (item # items) q =
     (if item = nullValue then Inr (False, q)
      else (case build_table fmt16 real_text item of Inl e \<Rightarrow> Inl e
            | Inr (s, i, u) \<Rightarrow>
                tables_loop fmt16 real_text items
                  (q\<lparr>m_sql_select := m_sql_select q @ [s], m_sql_insert := m_sql_insert q @ [i],
                     m_sql_update := m_sql_update q @ [u]\<rparr>)))"

definition LoadJson :: "(buffer \<Rightarrow> 'r json option) \<Rightarrow> ('r \<Rightarrow> buffer) \<Rightarrow> ('r \<Rightarrow> buffer) \<Rightarrow> buffer \<Rightarrow> build_error + bool \<times> sql_lists" where
  "LoadJson parse fmt16 real_text m_json_data =
     (case parse m_json_data of
        None \<Rightarrow> Inl Parse_failed
      | Some root \<Rightarrow>
         (case isMember root (lit ''tables'') of Inl e \<Rightarrow> Inl e | Inr False \<Rightarrow> Inl Tables_missing | Inr True \<Rightarrow>
          (case member root (lit ''tables'') of
             arrayValue vTables \<Rightarrow>
               tables_loop fmt16 real_text vTables \<lparr>m_sql_select = [], m_sql_insert = [], m_sql_update = []\<rparr>
           | _ \<Rightarrow> Inl Tables_not_array)))"

section \<open>The statements of a table\<close>

text \<open>Specification: a table with a name, columns with their values, and the members of its key.\<close>

fun join :: "buffer \<Rightarrow> buffer list \<Rightarrow> buffer" where
  "join sep [] = []"
| "join sep [x] = x"
| "join sep (x # xs) = x @ sep @ join sep xs"

type_synonym 'r table = "buffer \<times> (buffer \<times> 'r json) list \<times> (buffer \<times> 'r json) list"

definition column_name :: "('r \<Rightarrow> buffer) \<Rightarrow> 'r json \<Rightarrow> buffer option" where
  "column_name real_text v = (case asString real_text v of Inl e \<Rightarrow> None | Inr s \<Rightarrow> Some s)"

text \<open>The table an item of a message describes: it has a name, as many values as columns, at least one of them, and a
  key of at least one member. Other members do not matter.\<close>

definition table_of :: "('r \<Rightarrow> buffer) \<Rightarrow> 'r json \<Rightarrow> 'r table option" where
  "table_of real_text item =
     (case (member item (lit ''name''), member item (lit ''column''), member item (lit ''values''), member item (lit ''mapkey'')) of
        (stringValue name, arrayValue cols, arrayValue vals, objectValue keys) \<Rightarrow>
          (if length cols = length vals \<and> cols \<noteq> [] \<and> keys \<noteq> []
           then map_option (\<lambda>names. (name, zip names vals, keys)) (those (map (column_name real_text) cols)) else None)
      | _ \<Rightarrow> None)"

definition message_tables :: "(buffer \<Rightarrow> 'r json option) \<Rightarrow> ('r \<Rightarrow> buffer) \<Rightarrow> buffer \<Rightarrow> 'r table list option" where
  "message_tables parse real_text d =
     (case parse d of None \<Rightarrow> None
      | Some root \<Rightarrow> (case member root (lit ''tables'') of arrayValue items \<Rightarrow> those (map (table_of real_text) items) | _ \<Rightarrow> None))"

definition select_sql :: "('r \<Rightarrow> buffer) \<Rightarrow> 'r table \<Rightarrow> buffer" where
  "select_sql fmt16 = (\<lambda>(name, cvs, keys). lit ''select * from '' @ name @ lit '' where '' @
     join (lit '' and '') (map (\<lambda>(k, v). k @ lit ''='' @ JsonValueToString fmt16 v) keys))"

definition insert_sql :: "('r \<Rightarrow> buffer) \<Rightarrow> 'r table \<Rightarrow> buffer" where
  "insert_sql fmt16 = (\<lambda>(name, cvs, keys). lit ''insert into '' @ name @ lit '' ('' @ join (lit '','') (map fst cvs) @
     lit '', hm_update_timestamp) values  ('' @ join (lit '','') (map (JsonValueToString fmt16 \<circ> snd) cvs) @ lit '', 0)'')"

definition update_sql :: "('r \<Rightarrow> buffer) \<Rightarrow> 'r table \<Rightarrow> buffer" where
  "update_sql fmt16 = (\<lambda>(name, cvs, keys). lit ''update '' @ name @ lit '' set '' @
     join (lit '', '') (map (\<lambda>(c, v). c @ lit ''='' @ JsonValueToString fmt16 v) cvs) @ lit '', hm_update_timestamp=0 where '' @
     join (lit '' and '') (map (\<lambda>(k, v). k @ lit ''='' @ quoted_key fmt16 v) keys))"

definition sql_of :: "('r \<Rightarrow> buffer) \<Rightarrow> 'r table list \<Rightarrow> sql_lists" where
  "sql_of fmt16 ts = \<lparr>m_sql_select = map (select_sql fmt16) ts, m_sql_insert = map (insert_sql fmt16) ts,
     m_sql_update = map (update_sql fmt16) ts\<rparr>"

lemma lit_append: "lit xs @ lit ys @ zs = lit (xs @ ys) @ zs"
  by (simp add: lit_def bytes_of_def)

lemma uchar_of_char_eq: "of_char c = (of_char d :: uchar) \<longleftrightarrow> c = d"
proof
  assume "of_char c = (of_char d :: uchar)"
  then have "(of_nat (of_char c) :: uchar) = of_nat (of_char d)" by (simp only: of_nat_of_char)
  then have "(of_char c :: nat) mod 256 = of_char d mod 256" by (simp add: word_of_nat_eq_iff take_bit_eq_mod)
  then show "c = d" by (simp only: of_char_mod_256 of_char_eq_iff)
qed simp

lemma lit_eq_iff [simp]: "lit s = lit t \<longleftrightarrow> s = t"
  using uchar_of_char_eq by (simp add: lit_def bytes_of_def inj_map_eq_map inj_def)

lemma select_where_join: "kvs \<noteq> [] \<Longrightarrow> select_where fmt16 kvs acc = acc @ join (lit '' and '') (map (\<lambda>(k, v). k @ lit ''='' @ JsonValueToString fmt16 v) kvs)"
  by (induction fmt16 kvs acc rule: select_where.induct) auto

lemma update_where_join: "kvs \<noteq> [] \<Longrightarrow> update_where fmt16 kvs acc = acc @ join (lit '' and '') (map (\<lambda>(k, v). k @ lit ''='' @ quoted_key fmt16 v) kvs)"
  by (induction fmt16 kvs acc rule: update_where.induct) auto

lemma column_name_iff [simp]:
  "column_name real_text v = Some s \<longleftrightarrow> asString real_text v = Inr s"
  "column_name real_text v = None \<longleftrightarrow> (\<exists>e. asString real_text v = Inl e)"
  by (auto simp: column_name_def split: sum.splits)

lemma column_loop_join:
  "cvs \<noteq> [] \<Longrightarrow> those (map (column_name real_text \<circ> fst) cvs) = Some names \<Longrightarrow>
   column_loop fmt16 real_text cvs (u, cs, vs) =
     Inr (u @ join (lit '', '') (map (\<lambda>(c, v). c @ lit ''='' @ JsonValueToString fmt16 v) (zip names (map snd cvs))) @ lit '', hm_update_timestamp=0'',
          cs @ join (lit '','') names @ lit '', hm_update_timestamp)'',
          vs @ join (lit '','') (map (JsonValueToString fmt16 \<circ> snd) cvs) @ lit '', 0)'')"
proof (induction cvs arbitrary: u cs vs names rule: induct_list012)
  case (2 cv)
  then show ?case by (cases cv) (auto split: option.splits)
next
  case (3 a b cvs)
  obtain n ns where names: "names = n # ns" "asString real_text (fst a) = Inr n"
      "those (map (column_name real_text \<circ> fst) (b # cvs)) = Some ns" and ns: "ns \<noteq> []"
    using 3(4) by (auto simp: comp_def split: option.splits)
  then obtain m ms where "ns = m # ms" by (cases ns) auto
  then show ?case using 3(2) [OF _ names(3)] names by (cases a; cases b) simp
qed simp

lemma column_loop_error:
  "those (map (column_name real_text \<circ> fst) cvs) = None \<Longrightarrow> \<exists>e. column_loop fmt16 real_text cvs acc = Inl e"
  by (induction fmt16 real_text cvs acc rule: column_loop.induct) (auto split: option.splits sum.splits)

lemma those_eq_Some: "those xs = Some ys \<longleftrightarrow> xs = map Some ys"
  by (induction xs arbitrary: ys) (auto split: option.splits simp: Cons_eq_map_conv)

lemma values_zip: "length xs = length vals \<Longrightarrow> map (f \<circ> snd) (zip xs vals) = map f vals"
  by (simp flip: map_map)

lemma zip_names: "length cols = length vals \<Longrightarrow> map (column_name real_text \<circ> fst) (zip cols vals) = map (column_name real_text) cols"
  by (simp flip: map_map)

lemma build_table_sql:
  assumes "table_of real_text item = Some t"
  shows "build_table fmt16 real_text item = Inr (select_sql fmt16 t, insert_sql fmt16 t, update_sql fmt16 t)"
proof -
  obtain ms name cols vals keys names where item: "item = objectValue ms"
      "member item (lit ''name'') = stringValue name" "member item (lit ''column'') = arrayValue cols"
      "member item (lit ''values'') = arrayValue vals" "member item (lit ''mapkey'') = objectValue keys"
    and sizes: "length cols = length vals" "cols \<noteq> []" "keys \<noteq> []"
    and names: "those (map (column_name real_text) cols) = Some names" and t: "t = (name, zip names vals, keys)"
    using assms by (auto simp: table_of_def member_def split: json.splits option.splits if_splits)
  have len: "length names = length vals" using names sizes(1) by (metis length_map those_eq_Some)
  have cols: "those (map (column_name real_text \<circ> fst) (zip cols vals)) = Some names" "zip cols vals \<noteq> []"
    using names sizes by (auto simp: zip_names)
  have mem: "isMember item k = Inr (member item k \<noteq> nullValue \<or> map_of ms k = Some nullValue)" for k
    by (auto simp: item(1) isMember_def member_def split: option.splits)
  show ?thesis
    by (simp add: t build_table_def mem item(2-) column_loop_join [OF cols(2,1)] sizes len
        values_zip select_where_join [OF sizes(3)] update_where_join [OF sizes(3)] select_sql_def insert_sql_def update_sql_def lit_append)
qed

lemma build_table_none:
  assumes "table_of real_text item = None" "item \<noteq> nullValue"
  shows "\<exists>e. build_table fmt16 real_text item = Inl e"
proof (rule ccontr)
  assume "\<nexists>e. build_table fmt16 real_text item = Inl e"
  then obtain name cols vals keys r where item:
      "member item (lit ''name'') = stringValue name" "member item (lit ''column'') = arrayValue cols"
      "member item (lit ''values'') = arrayValue vals" "member item (lit ''mapkey'') = objectValue keys"
    and sizes: "length cols = length vals" "keys \<noteq> []"
    and r: "column_loop fmt16 real_text (zip cols vals) (lit ''update '' @ name @ lit '' set '', lit '' ('', lit '' ('') = Inr r"
    by (auto simp: build_table_def split: sum.splits bool.splits json.splits prod.splits if_splits)
  have "cols \<noteq> []" using r by auto
  moreover have "those (map (column_name real_text) cols) \<noteq> None"
  proof
    assume "those (map (column_name real_text) cols) = None"
    then have "those (map (column_name real_text \<circ> fst) (zip cols vals)) = None" by (simp only: zip_names [OF sizes(1)])
    from column_loop_error [OF this] r show False by (metis sum.distinct(1))
  qed
  ultimately show False using assms item sizes by (auto simp: table_of_def)
qed

lemma tables_loop_sql:
  "map (table_of real_text) items = map Some ts \<Longrightarrow> tables_loop fmt16 real_text (items @ rest) (sql_of fmt16 us) =
     tables_loop fmt16 real_text rest (sql_of fmt16 (us @ ts))"
proof (induction items arbitrary: ts us)
  case (Cons item items)
  then obtain t ts' where ts: "ts = t # ts'" "table_of real_text item = Some t" by (cases ts) auto
  moreover from ts(2) have "item \<noteq> nullValue" by (auto simp: table_of_def member_def)
  ultimately show ?case using Cons.IH [of ts' "us @ [t]"] Cons.prems by (simp add: build_table_sql sql_of_def)
qed simp

lemma tables_loop_true:
  "tables_loop fmt16 real_text items (sql_of fmt16 us) = Inr (True, q) \<Longrightarrow>
     \<exists>ts. map (table_of real_text) items = map Some ts \<and> q = sql_of fmt16 (us @ ts)"
proof (induction items arbitrary: us)
  case Nil
  then show ?case by (auto simp: sql_of_def)
next
  case (Cons item items)
  from Cons.prems have nn: "item \<noteq> nullValue" by (auto split: if_splits)
  show ?case
  proof (cases "table_of real_text item")
    case None
    then obtain e where "build_table fmt16 real_text item = Inl e" using build_table_none nn by blast
    then show ?thesis using Cons.prems nn by simp
  next
    case (Some t)
    then have "tables_loop fmt16 real_text items (sql_of fmt16 (us @ [t])) = Inr (True, q)"
      using Cons.prems nn by (simp add: build_table_sql sql_of_def)
    then obtain ts where "map (table_of real_text) items = map Some ts" "q = sql_of fmt16 ((us @ [t]) @ ts)"
      using Cons.IH by blast
    then show ?thesis using Some by (intro exI [of _ "t # ts"]) simp
  qed
qed

lemma sql_of_Nil: "\<lparr>m_sql_select = [], m_sql_insert = [], m_sql_update = []\<rparr> = sql_of fmt16 []"
  by (simp add: sql_of_def)

lemma LoadJson_iff:
  "LoadJson parse fmt16 real_text d = Inr (True, q) \<longleftrightarrow>
     (\<exists>ts. message_tables parse real_text d = Some ts \<and> q = sql_of fmt16 ts)" (is "?L \<longleftrightarrow> ?R")
proof
  assume ?L
  then obtain root items where "parse d = Some root" "member root (lit ''tables'') = arrayValue items"
      "tables_loop fmt16 real_text items (sql_of fmt16 []) = Inr (True, q)"
    by (auto simp: LoadJson_def sql_of_Nil [of fmt16] split: option.splits sum.splits bool.splits json.splits)
  then show ?R using tables_loop_true [of fmt16 real_text items "[]" q] by (auto simp: message_tables_def those_eq_Some)
next
  assume ?R
  then obtain root items ts where m: "parse d = Some root" "member root (lit ''tables'') = arrayValue items"
      "map (table_of real_text) items = map Some ts" "q = sql_of fmt16 ts"
    by (auto simp: message_tables_def those_eq_Some split: option.splits json.splits)
  then have "tables_loop fmt16 real_text items (sql_of fmt16 []) = Inr (True, q)"
    using tables_loop_sql [OF m(3), of fmt16 "[]" "[]"] by (simp add: sql_of_def)
  moreover have "isMember root (lit ''tables'') = Inr True" using m(2)
    by (auto simp: isMember_def member_def split: json.splits option.splits)
  ultimately show ?L using m(1,2) by (simp add: LoadJson_def sql_of_Nil [of fmt16])
qed

text \<open>C27: a message is turned into SQL exactly when it is well-formed, and then into exactly the statements of its tables:
  \<open>LoadJson\<close> returns TRUE if and only if the text parses to an object whose member \<open>tables\<close> is an array of tables, each
  with a name, columns with as many values and a key; the three lists are then, table by table and in their order, the
  select and the update that address the row by its key and the insert of its columns. Every other message is an error or
  the result FALSE.\<close>

theorem LoadJson_builds_statements:
  "LoadJson parse fmt16 real_text d = Inr (True, q) \<longleftrightarrow>
     (\<exists>ts. message_tables parse real_text d = Some ts \<and> q = sql_of fmt16 ts)"
  by (rule LoadJson_iff)

text \<open>The item that describes a table, with its members in order.\<close>

definition table_json :: "'r table \<Rightarrow> 'r json" where
  "table_json = (\<lambda>(name, cvs, keys). objectValue
     [(lit ''column'', arrayValue (map (stringValue \<circ> fst) cvs)), (lit ''mapkey'', objectValue keys),
      (lit ''name'', stringValue name), (lit ''values'', arrayValue (map snd cvs))])"

lemma table_of_json:
  "cvs \<noteq> [] \<Longrightarrow> keys \<noteq> [] \<Longrightarrow> table_of real_text (table_json (name, cvs, keys)) = Some (name, cvs, keys)"
  by (auto simp: table_of_def table_json_def member_def comp_def column_name_def asString_def those_eq_Some zip_map_fst_snd
      intro!: exI [of _ "map fst cvs"])

text \<open>C28: string values are put between quotes as they are. A value of one column that contains a quote followed by an
  assignment to another column gives the same update as a message that has both columns: who can choose a value can
  overwrite any column of the row.\<close>

theorem quoted_value_sets_columns:
  "\<exists>s1 i1 s2 i2 u.
     build_table fmt16 real_text (table_json (name,
       [(c, stringValue (x @ lit [CHR 0x22] @ lit '', '' @ c' @ lit ''='' @ lit [CHR 0x22] @ y))], key # keys)) = Inr (s1, i1, u) \<and>
     build_table fmt16 real_text (table_json (name, [(c, stringValue x), (c', stringValue y)], key # keys)) = Inr (s2, i2, u)"
proof -
  have "update_sql fmt16 (name, [(c, stringValue (x @ lit [CHR 0x22] @ lit '', '' @ c' @ lit ''='' @ lit [CHR 0x22] @ y))], key # keys) =
      update_sql fmt16 (name, [(c, stringValue x), (c', stringValue y)], key # keys)"
    by (simp add: update_sql_def JsonValueToString_def)
  then show ?thesis by (simp add: build_table_sql [OF table_of_json])
qed

end
