(* ===== verification/Clientdb.thy ===== *)
theory Clientdb
  imports Buildsql Queues
begin

text \<open>
  The client's database: \<open>CMysqlOperation\<close> of \<open>wmsclient/wmsclient/MysqlOperation.cpp\<close> and the thread of
  \<open>UpdateDbThread.cpp\<close> that takes messages from a queue, builds their statements and executes them.

  The MySQL client library is not part of the program. A database has a type of its own, \<open>'db\<close>; \<open>lib_query\<close> is what
  \<open>mysql_real_query\<close> and \<open>mysql_store_result\<close> make of a statement, \<open>lib_commit\<close> whether \<open>mysql_commit\<close> succeeds.
  Automatic commits are switched off by \<open>connectDb\<close>, so a connection works on its own version \<open>db_work\<close>, which a commit
  makes the stored one and a rollback discards.

  An exception that is thrown is a value, \<open>Thrown\<close>; \<open>None\<close> is an access outside of a vector.
\<close>

section \<open>The connection\<close>

datatype query_reply = Query_failed | No_result | Result_rows nat

record 'db mysql_lib =
  lib_query :: "'db \<Rightarrow> buffer \<Rightarrow> query_reply \<times> 'db"
  lib_commit :: "'db \<Rightarrow> bool"

record 'db mysql_operation =
  m_bConnect :: bool
  m_threadId :: int
  db_work :: 'db
  db_stored :: 'db

definition mysql_success :: int where "mysql_success = -1000"
definition mysql_dbDisconnection :: int where "mysql_dbDisconnection = -1002"

datatype 'a outcome = Returned 'a | Thrown

definition mysql_commit :: "'db mysql_lib \<Rightarrow> 'db mysql_operation \<Rightarrow> bool \<times> 'db mysql_operation" where
  "mysql_commit lib s = (if lib_commit lib (db_work s) then (True, s\<lparr>db_stored := db_work s\<rparr>) else (False, s))"

definition checkConnectAlive :: "'db mysql_operation \<Rightarrow> bool" where
  "checkConnectAlive s = (if \<not> m_bConnect s then False else True)"

definition execOneSql :: "'db mysql_lib \<Rightarrow> buffer \<Rightarrow> 'db mysql_operation \<Rightarrow> int outcome \<times> 'db mysql_operation" where
  "execOneSql lib strSql s =
     (if \<not> checkConnectAlive s then (Returned mysql_dbDisconnection, s)
      else (case lib_query lib (db_work s) strSql of
              (Query_failed, w) \<Rightarrow> (Thrown, s\<lparr>db_work := w\<rparr>)
            | (_, w) \<Rightarrow> (Returned mysql_success, s\<lparr>db_work := w\<rparr>)))"

definition commitSql :: "'db mysql_lib \<Rightarrow> 'db mysql_operation \<Rightarrow> int outcome \<times> 'db mysql_operation" where
  "commitSql lib s = (case mysql_commit lib s of (True, s') \<Rightarrow> (Returned mysql_success, s') | (False, s') \<Rightarrow> (Thrown, s'))"

text \<open>\<open>getQueryRows\<close> also returns the number of rows, unchanged when it does not reach them.\<close>

definition getQueryRows ::
  "'db mysql_lib \<Rightarrow> buffer \<Rightarrow> nat \<Rightarrow> 'db mysql_operation \<Rightarrow> (int \<times> nat) outcome \<times> 'db mysql_operation" where
  "getQueryRows lib strSql rowLen s =
     (if \<not> checkConnectAlive s then (Returned (mysql_dbDisconnection, rowLen), s)
      else (case lib_query lib (db_work s) strSql of
              (Query_failed, w) \<Rightarrow> (Thrown, s\<lparr>db_work := w\<rparr>)
            | (No_result, w) \<Rightarrow> (Thrown, s\<lparr>db_work := w\<rparr>)
            | (Result_rows n, w) \<Rightarrow> (Returned (mysql_success, n), s\<lparr>db_work := w\<rparr>)))"

definition nth_sql :: "buffer list \<Rightarrow> nat \<Rightarrow> buffer option" where
  "nth_sql xs i = (if i < length xs then Some (xs ! i) else None)"

text \<open>The loop of \<open>execMutilSql\<close> over the rest of the selects, from index \<open>i\<close> on: true when it came to its end, false
  when it goes to the label \<open>error\<close> or a called function throws. Behind the label the exception is thrown before the
  rollback is reached, so both end in the same way.\<close>

fun exec_loop :: "'db mysql_lib \<Rightarrow> buffer list \<Rightarrow> buffer list \<Rightarrow> buffer list \<Rightarrow> nat \<Rightarrow> nat \<Rightarrow> 'db mysql_operation
    \<Rightarrow> (bool \<times> 'db mysql_operation) option" where
  "exec_loop lib [] ins upd i rowNum s = Some (True, s)"
| "exec_loop lib (sel # sels) ins upd i rowNum s =
     (case getQueryRows lib sel rowNum s of
        (Thrown, s1) \<Rightarrow> Some (False, s1)
      | (Returned (r, rowNum1), s1) \<Rightarrow>
          if r \<noteq> mysql_success then Some (False, s1)
          else (case nth_sql (if rowNum1 > 0 then upd else ins) i of None \<Rightarrow> None
                | Some sql \<Rightarrow>
                   (case execOneSql lib sql s1 of
                      (Thrown, s2) \<Rightarrow> Some (False, s2)
                    | (Returned r2, s2) \<Rightarrow>
                        if r2 \<noteq> mysql_success then Some (False, s2)
                        else exec_loop lib sels ins upd (Suc i) rowNum1 s2)))"

definition execMutilSql :: "'db mysql_lib \<Rightarrow> sql_lists \<Rightarrow> 'db mysql_operation \<Rightarrow> (int outcome \<times> 'db mysql_operation) option" where
  "execMutilSql lib q s =
     (case exec_loop lib (m_sql_select q) (m_sql_insert q) (m_sql_update q) 0 0 s of
        None \<Rightarrow> None
      | Some (True, s') \<Rightarrow> Some (Returned mysql_success, snd (mysql_commit lib s'))
      | Some (False, s') \<Rightarrow> Some (Thrown, s'))"

text \<open>One round of \<open>doPingThread\<close>: \<open>alive\<close> when \<open>mysql_ping\<close> returns zero, \<open>tid\<close> the thread id the library reports.\<close>

definition doPing_round :: "bool \<Rightarrow> int \<Rightarrow> 'db mysql_operation \<Rightarrow> 'db mysql_operation" where
  "doPing_round alive tid s = (if alive then s\<lparr>m_threadId := tid\<rparr> else s\<lparr>m_bConnect := False\<rparr>)"

section \<open>The update thread\<close>

record update_data =
  ud_header :: socket_header
  ud_body :: buffer

definition UPDATE_ROWS_DATA_MAX_SIZE :: nat where "UPDATE_ROWS_DATA_MAX_SIZE = 1000"

definition update_ProductData :: "socket_header \<Rightarrow> buffer \<Rightarrow> update_data list \<Rightarrow> update_data list \<times> bool" where
  "update_ProductData header strData q = product UPDATE_ROWS_DATA_MAX_SIZE \<lparr>ud_header = header, ud_body = strData\<rparr> q"

definition update_ConsumerData :: "update_data list \<Rightarrow> update_data option \<times> update_data list" where
  "update_ConsumerData q = take_front q"

text \<open>One message in \<open>ThreadProcess\<close>: the tag it is logged with and the connection, or \<open>None\<close> when the thread does not
  get so far: an exception of the JSON library is not caught, and the loop over no columns does not end.\<close>

datatype log_tag = successData | failedData

definition ThreadProcess_message :: "(buffer \<Rightarrow> 'r json option) \<Rightarrow> ('r \<Rightarrow> buffer) \<Rightarrow> ('r \<Rightarrow> buffer) \<Rightarrow> 'db mysql_lib
    \<Rightarrow> update_data \<Rightarrow> 'db mysql_operation \<Rightarrow> (log_tag \<times> 'db mysql_operation) option" where
  "ThreadProcess_message parse fmt16 real_text lib tmpData s =
     (case LoadJson parse fmt16 real_text (ud_body tmpData) of
        Inl e \<Rightarrow> if e = Json_logic_error \<or> e = Column_loop then None else Some (failedData, s)
      | Inr (b, q) \<Rightarrow>
          (case execMutilSql lib q s of None \<Rightarrow> None
           | Some (Thrown, s') \<Rightarrow> Some (failedData, s')
           | Some (Returned r, s') \<Rightarrow> Some (successData, s')))"

definition ThreadProcess_round :: "(buffer \<Rightarrow> 'r json option) \<Rightarrow> ('r \<Rightarrow> buffer) \<Rightarrow> ('r \<Rightarrow> buffer) \<Rightarrow> 'db mysql_lib
    \<Rightarrow> update_data list \<times> 'db mysql_operation \<Rightarrow> (log_tag option \<times> update_data list \<times> 'db mysql_operation) option" where
  "ThreadProcess_round parse fmt16 real_text lib c =
     (case update_ConsumerData (fst c) of
        (None, q) \<Rightarrow> Some (None, q, snd c)
      | (Some d, q) \<Rightarrow>
          map_option (\<lambda>(tag, s). (Some tag, q, s)) (ThreadProcess_message parse fmt16 real_text lib d (snd c)))"

interpretation update_queue: bounded_queue UPDATE_ROWS_DATA_MAX_SIZE "\<lambda>q. q"
    "\<lambda>d. update_ProductData (ud_header d) (ud_body d)" update_ConsumerData
  by unfold_locales (auto simp: update_ProductData_def product_def update_ConsumerData_def take_front_def split: list.split)

section \<open>What a message does to the database\<close>

text \<open>Specification: the tables one after the other, each updated when its row is there and inserted otherwise; false with
  the database so far when a statement fails.\<close>

fun run_tables :: "'db mysql_lib \<Rightarrow> ('r \<Rightarrow> buffer) \<Rightarrow> 'r table list \<Rightarrow> 'db \<Rightarrow> bool \<times> 'db" where
  "run_tables lib fmt16 [] w = (True, w)"
| "run_tables lib fmt16 (t # ts) w =
     (case lib_query lib w (select_sql fmt16 t) of
        (Result_rows n, w1) \<Rightarrow>
          (case lib_query lib w1 (if n > 0 then update_sql fmt16 t else insert_sql fmt16 t) of
             (Query_failed, w2) \<Rightarrow> (False, w2)
           | (_, w2) \<Rightarrow> run_tables lib fmt16 ts w2)
      | (_, w1) \<Rightarrow> (False, w1))"

lemmas mysql_defs = execOneSql_def getQueryRows_def checkConnectAlive_def mysql_success_def mysql_dbDisconnection_def

lemma nth_sql_append: "nth_sql (xs @ y # ys) (length xs) = Some y"
  by (simp add: nth_sql_def)

lemma exec_loop_tables:
  "m_bConnect s \<Longrightarrow>
   exec_loop lib (map (select_sql fmt16) ts) (map (insert_sql fmt16) (us @ ts)) (map (update_sql fmt16) (us @ ts)) (length us) r s =
     Some (fst (run_tables lib fmt16 ts (db_work s)), s\<lparr>db_work := snd (run_tables lib fmt16 ts (db_work s))\<rparr>)"
proof (induction ts arbitrary: us r s)
  case (Cons t ts)
  have nth: "nth_sql (if b then map (update_sql fmt16) (us @ t # ts) else map (insert_sql fmt16) (us @ t # ts)) (length us) =
      Some (if b then update_sql fmt16 t else insert_sql fmt16 t)" for b
    using nth_sql_append [of "map f us" "f t" "map f ts" for f] by (simp add: comp_def)
  have IH: "exec_loop lib (map (select_sql fmt16) ts) (map (insert_sql fmt16) (us @ t # ts))
      (map (update_sql fmt16) (us @ t # ts)) (Suc (length us)) r1 (s\<lparr>db_work := w\<rparr>) =
     Some (fst (run_tables lib fmt16 ts w), s\<lparr>db_work := snd (run_tables lib fmt16 ts w)\<rparr>)" for r1 w
    using Cons.IH [of "s\<lparr>db_work := w\<rparr>" "us @ [t]" r1] Cons.prems by simp
  show ?case using Cons.prems
    by (simp add: mysql_defs nth IH del: map_append split: prod.splits query_reply.splits)
qed simp

lemma exec_loop_disconnected:
  "\<not> m_bConnect s \<Longrightarrow> sels \<noteq> [] \<Longrightarrow> exec_loop lib sels ins upd i r s = Some (False, s)"
  by (cases sels) (simp_all add: mysql_defs)

lemma message_sql: "message_tables parse real_text d = Some ts \<Longrightarrow> LoadJson parse fmt16 real_text d = Inr (True, sql_of fmt16 ts)"
  by (rule LoadJson_iff [THEN iffD2]) blast

definition after_tables :: "'db mysql_lib \<Rightarrow> bool \<times> 'db \<Rightarrow> 'db mysql_operation \<Rightarrow> log_tag \<times> 'db mysql_operation" where
  "after_tables lib r s =
     (if fst r then (successData, s\<lparr>db_work := snd r, db_stored := (if lib_commit lib (snd r) then snd r else db_stored s)\<rparr>)
      else (failedData, s\<lparr>db_work := snd r\<rparr>))"

lemma execMutilSql_tables:
  assumes "m_bConnect s"
  shows "execMutilSql lib (sql_of fmt16 ts) s = (let (tag, s') = after_tables lib (run_tables lib fmt16 ts (db_work s)) s in
     Some (if tag = successData then Returned mysql_success else Thrown, s'))"
  using exec_loop_tables [OF assms, of lib fmt16 ts "[]"]
  by (simp add: execMutilSql_def sql_of_def after_tables_def mysql_commit_def split: bool.splits)

lemma message_executed:
  assumes "message_tables parse real_text (ud_body d) = Some ts" "m_bConnect s"
  shows "ThreadProcess_message parse fmt16 real_text lib d s = Some (after_tables lib (run_tables lib fmt16 ts (db_work s)) s)"
  using message_sql [OF assms(1), of fmt16] execMutilSql_tables [OF assms(2), of lib fmt16 ts]
  by (simp add: ThreadProcess_message_def after_tables_def split: prod.splits)

section \<open>Rows by their keys\<close>

text \<open>What the messages mean: a table is a row, addressed by the name of the table and the members of the key, with
  values for some of its columns; the row is created or these columns of it are overwritten. The column
  \<open>hm_update_timestamp\<close> is always set to 0.\<close>

type_synonym 'r row_id = "buffer \<times> (buffer \<times> 'r json) list"
type_synonym 'r rows = "'r row_id \<Rightarrow> (buffer \<Rightarrow> 'r json option) option"

definition row_id :: "'r table \<Rightarrow> 'r row_id" where "row_id t = (fst t, snd (snd t))"

definition cells :: "'r table \<Rightarrow> buffer \<Rightarrow> 'r json option" where
  "cells t = map_of (fst (snd t)) ++ [lit ''hm_update_timestamp'' \<mapsto> intValue 0]"

definition upsert :: "'r rows \<Rightarrow> 'r table \<Rightarrow> 'r rows" where
  "upsert m t = m(row_id t \<mapsto> (case m (row_id t) of None \<Rightarrow> cells t | Some r \<Rightarrow> r ++ cells t))"

lemma upsert_apply:
  "upsert m t i = (if i = row_id t then Some (case m i of None \<Rightarrow> cells t | Some r \<Rightarrow> r ++ cells t) else m i)"
  by (simp add: upsert_def)

lemma upsert_cells:
  "foldl upsert m ts i = None \<longleftrightarrow> m i = None \<and> i \<notin> row_id ` set ts"
  "foldl upsert m ts i = Some r \<Longrightarrow> r c = (case List.find (\<lambda>t. row_id t = i \<and> cells t c \<noteq> None) (rev ts) of
      Some t \<Rightarrow> cells t c | None \<Rightarrow> (case m i of None \<Rightarrow> None | Some r0 \<Rightarrow> r0 c))"
proof (induction ts arbitrary: i r rule: rev_induct)
  case (snoc t ts)
  { case 1 show ?case using snoc.IH(1) [of i] by (auto simp: upsert_apply [of "foldl upsert m ts" t i])
  next
    case 2
    show ?case
    proof (cases "row_id t = i")
      case False
      then show ?thesis using 2 snoc.IH(2) [of i r] by (simp add: upsert_apply [of "foldl upsert m ts" t i])
    next
      case True
      show ?thesis
      proof (cases "foldl upsert m ts i")
        case None
        then have "List.find (\<lambda>t. row_id t = i \<and> cells t c \<noteq> None) (rev ts) = None" "m i = None"
          using snoc.IH(1) [of i] by (auto simp: find_None_iff)
        moreover have "r = cells t" using 2 True None by (simp add: upsert_apply [of "foldl upsert m ts" t i])
        ultimately show ?thesis using True by simp
      next
        case (Some r0)
        then have "r = r0 ++ cells t" using 2 True by (simp add: upsert_apply [of "foldl upsert m ts" t i])
        then show ?thesis using snoc.IH(2) [OF Some] True by (auto simp: map_add_def split: option.splits)
      qed
    qed }
qed simp_all

lemma upsert_twice: "foldl upsert (foldl upsert m ts) ts = foldl upsert m ts"
proof
  fix i
  show "foldl upsert (foldl upsert m ts) ts i = foldl upsert m ts i"
  proof (cases "foldl upsert m ts i")
    case None
    then show ?thesis using upsert_cells(1) by metis
  next
    case (Some r)
    then have "foldl upsert (foldl upsert m ts) ts i \<noteq> None" using upsert_cells(1) by (metis option.distinct(1))
    then obtain r' where r': "foldl upsert (foldl upsert m ts) ts i = Some r'" by blast
    have "r' c = r c" for c
      using upsert_cells(2) [OF r', of c] upsert_cells(2) [OF Some, of c] Some by (auto split: option.splits)
    then show ?thesis using Some r' by auto
  qed
qed

text \<open>The documented behaviour of the database for the statements of a set of tables: a select finds rows exactly
  when there is one with that key and changes nothing; an insert creates the row; an update overwrites the columns.\<close>

definition sql_server :: "'db mysql_lib \<Rightarrow> ('db \<Rightarrow> 'r rows) \<Rightarrow> ('r \<Rightarrow> buffer) \<Rightarrow> 'r table set \<Rightarrow> bool" where
  "sql_server lib view fmt16 T \<longleftrightarrow> (\<forall>t\<in>T. \<forall>db.
     (\<exists>n. lib_query lib db (select_sql fmt16 t) = (Result_rows n, db) \<and> (0 < n \<longleftrightarrow> view db (row_id t) \<noteq> None)) \<and>
     (view db (row_id t) = None \<longrightarrow>
        (\<exists>db'. lib_query lib db (insert_sql fmt16 t) = (No_result, db') \<and> view db' = (view db)(row_id t \<mapsto> cells t))) \<and>
     (\<forall>r. view db (row_id t) = Some r \<longrightarrow>
        (\<exists>db'. lib_query lib db (update_sql fmt16 t) = (No_result, db') \<and> view db' = (view db)(row_id t \<mapsto> r ++ cells t))))"

lemma sql_server_upsert:
  assumes "sql_server lib view fmt16 T" "t \<in> T"
  shows "\<exists>n db'. lib_query lib db (select_sql fmt16 t) = (Result_rows n, db) \<and>
     lib_query lib db (if n > 0 then update_sql fmt16 t else insert_sql fmt16 t) = (No_result, db') \<and> view db' = upsert (view db) t"
proof -
  have law: "(\<exists>n. lib_query lib db (select_sql fmt16 t) = (Result_rows n, db) \<and> (0 < n \<longleftrightarrow> view db (row_id t) \<noteq> None)) \<and>
     (view db (row_id t) = None \<longrightarrow>
        (\<exists>db'. lib_query lib db (insert_sql fmt16 t) = (No_result, db') \<and> view db' = (view db)(row_id t \<mapsto> cells t))) \<and>
     (\<forall>r. view db (row_id t) = Some r \<longrightarrow>
        (\<exists>db'. lib_query lib db (update_sql fmt16 t) = (No_result, db') \<and> view db' = (view db)(row_id t \<mapsto> r ++ cells t)))"
    using assms unfolding sql_server_def by blast
  then show ?thesis by (cases "view db (row_id t)") (auto simp: upsert_def)
qed

lemma run_tables_upsert:
  "sql_server lib view fmt16 T \<Longrightarrow> set ts \<subseteq> T \<Longrightarrow>
     \<exists>w'. run_tables lib fmt16 ts w = (True, w') \<and> view w' = foldl upsert (view w) ts"
proof (induction ts arbitrary: w)
  case (Cons t ts)
  obtain n w1 where "lib_query lib w (select_sql fmt16 t) = (Result_rows n, w)"
      "lib_query lib w (if n > 0 then update_sql fmt16 t else insert_sql fmt16 t) = (No_result, w1)" "view w1 = upsert (view w) t"
    using sql_server_upsert [OF Cons.prems(1), of t w] Cons.prems(2) by auto
  then show ?case using Cons.IH [of w1] Cons.prems by (auto split del: if_split)
qed simp

lemma run_tables_append:
  "run_tables lib fmt16 ts w = (True, w') \<Longrightarrow> run_tables lib fmt16 (ts @ us) w = run_tables lib fmt16 us w'"
  by (induction ts arbitrary: w) (auto split: prod.splits query_reply.splits)

section \<open>Sequences of messages\<close>

fun process_messages :: "(buffer \<Rightarrow> 'r json option) \<Rightarrow> ('r \<Rightarrow> buffer) \<Rightarrow> ('r \<Rightarrow> buffer) \<Rightarrow> 'db mysql_lib
    \<Rightarrow> update_data list \<Rightarrow> 'db mysql_operation \<Rightarrow> (log_tag list \<times> 'db mysql_operation) option" where
  "process_messages parse fmt16 real_text lib [] s = Some ([], s)"
| "process_messages parse fmt16 real_text lib (d # ds) s =
     (case ThreadProcess_message parse fmt16 real_text lib d s of None \<Rightarrow> None
      | Some (tag, s') \<Rightarrow> map_option (\<lambda>(tags, s2). (tag # tags, s2)) (process_messages parse fmt16 real_text lib ds s'))"

lemma process_messages_upsert:
  assumes "sql_server lib view fmt16 T" "\<And>w. lib_commit lib w"
    and "map (message_tables parse real_text \<circ> ud_body) ds = map Some tss" "set (concat tss) \<subseteq> T" "m_bConnect s"
    and "view (db_stored s) = view (db_work s)"
  shows "\<exists>s'. process_messages parse fmt16 real_text lib ds s = Some (replicate (length ds) successData, s') \<and> m_bConnect s' \<and>
     view (db_work s') = foldl upsert (view (db_work s)) (concat tss) \<and> view (db_stored s') = view (db_work s')"
  using assms(3-)
proof (induction ds arbitrary: tss s)
  case (Cons d ds)
  then obtain ts tss' where tss: "tss = ts # tss'" "message_tables parse real_text (ud_body d) = Some ts"
    by (cases tss) auto
  obtain w where w: "run_tables lib fmt16 ts (db_work s) = (True, w)" "view w = foldl upsert (view (db_work s)) ts"
    using run_tables_upsert [OF assms(1), of ts "db_work s"] Cons.prems(2) tss by auto
  let ?s = "s\<lparr>db_work := w, db_stored := w\<rparr>"
  have step: "ThreadProcess_message parse fmt16 real_text lib d s = Some (successData, ?s)"
    using message_executed [OF tss(2) Cons.prems(3)] w(1) assms(2) by (simp add: after_tables_def)
  have "\<exists>s'. process_messages parse fmt16 real_text lib ds ?s = Some (replicate (length ds) successData, s') \<and> m_bConnect s' \<and>
     view (db_work s') = foldl upsert (view (db_work ?s)) (concat tss') \<and> view (db_stored s') = view (db_work s')"
    by (rule Cons.IH) (use Cons.prems tss(1) in simp_all)
  then show ?case using step w(2) tss(1) by (elim exE) (simp only: process_messages.simps, simp)
qed simp

section \<open>Properties of the update thread\<close>

text \<open>A server with one table that knows its three statements, and a parser for two messages: with it the hypotheses on
  the database and the parser can be met.\<close>

definition demo_fmt :: "unit \<Rightarrow> buffer" where "demo_fmt u = []"

definition demo_table :: "unit table" where
  "demo_table = (lit ''stock'', [(lit ''amount'', intValue 7)], [(lit ''id'', intValue 1)])"

definition demo_other :: "unit table" where
  "demo_other = (lit ''lost'', [(lit ''amount'', intValue 8)], [(lit ''id'', intValue 1)])"

definition demo_lib :: "unit rows mysql_lib" where
  "demo_lib = \<lparr>lib_query = (\<lambda>db sql.
       if sql = select_sql demo_fmt demo_table then (Result_rows (if db (row_id demo_table) = None then 0 else 1), db)
       else if sql = insert_sql demo_fmt demo_table then (No_result, db(row_id demo_table \<mapsto> cells demo_table))
       else if sql = update_sql demo_fmt demo_table then (No_result, upsert db demo_table)
       else (Query_failed, db)), lib_commit = (\<lambda>db. True)\<rparr>"

definition demo_parse :: "buffer \<Rightarrow> unit json option" where
  "demo_parse d = (if d = [1] then Some (objectValue [(lit ''tables'', arrayValue [table_json demo_table])])
     else if d = [2] then Some (objectValue [(lit ''tables'', arrayValue [table_json demo_table, table_json demo_other])])
     else if d = [3] then Some (objectValue [(lit ''tables'', arrayValue [table_json demo_table, nullValue, table_json demo_other])])
     else None)"

definition demo_message :: "buffer \<Rightarrow> update_data" where
  "demo_message b = \<lparr>ud_header = \<lparr>sh_code = 103, sh_data_len = 45, sh_message_id = []\<rparr>, ud_body = b\<rparr>"

definition demo_start :: "unit rows mysql_operation" where
  "demo_start = \<lparr>m_bConnect = True, m_threadId = 0, db_work = Map.empty, db_stored = Map.empty\<rparr>"

lemma demo_tables:
  "message_tables demo_parse demo_fmt [1] = Some [demo_table]"
  "message_tables demo_parse demo_fmt [2] = Some [demo_table, demo_other]"
  by (simp_all add: message_tables_def demo_parse_def member_def demo_table_def demo_other_def table_of_json)

lemma demo_texts:
  "insert_sql demo_fmt demo_table \<noteq> select_sql demo_fmt demo_table" "update_sql demo_fmt demo_table \<noteq> select_sql demo_fmt demo_table"
  "update_sql demo_fmt demo_table \<noteq> insert_sql demo_fmt demo_table"
  "select_sql demo_fmt demo_other \<noteq> select_sql demo_fmt demo_table" "select_sql demo_fmt demo_other \<noteq> insert_sql demo_fmt demo_table"
  "select_sql demo_fmt demo_other \<noteq> update_sql demo_fmt demo_table"
  by (simp_all add: insert_sql_def select_sql_def update_sql_def demo_table_def demo_other_def lit_def bytes_of_def)

lemma demo_sql_server: "sql_server demo_lib (\<lambda>db. db) demo_fmt {demo_table}"
  by (simp add: sql_server_def demo_lib_def demo_texts upsert_def)

lemma demo_lib_commit: "lib_commit demo_lib w"
  by (simp add: demo_lib_def)



text \<open>A message that is delivered again changes nothing. Processing a list of messages a second time, as happens when
  the server sends data of the exception topic again, leaves the same rows as processing it once.\<close>

theorem redelivery_harmless:
  assumes "sql_server lib view fmt16 T" "\<And>w. lib_commit lib w"
    and "map (message_tables parse real_text \<circ> ud_body) ds = map Some tss" "set (concat tss) \<subseteq> T"
    and "m_bConnect s" "view (db_stored s) = view (db_work s)"
  shows "\<exists>tags s1 tags2 s2. process_messages parse fmt16 real_text lib ds s = Some (tags, s1) \<and>
     process_messages parse fmt16 real_text lib (ds @ ds) s = Some (tags2, s2) \<and> view (db_stored s2) = view (db_stored s1)"
proof -
  have "map (message_tables parse real_text \<circ> ud_body) (ds @ ds) = map Some (tss @ tss)" "set (concat (tss @ tss)) \<subseteq> T"
    using assms(3,4) by auto
  from process_messages_upsert [OF assms(1,2) this assms(5,6)] process_messages_upsert [OF assms]
  show ?thesis by (auto simp: upsert_twice)
qed

theorem redelivery_harmless_witness:
  "\<exists>tags s1 tags2 s2. process_messages demo_parse demo_fmt demo_fmt demo_lib [demo_message [1]] demo_start = Some (tags, s1) \<and>
     process_messages demo_parse demo_fmt demo_fmt demo_lib ([demo_message [1]] @ [demo_message [1]]) demo_start = Some (tags2, s2) \<and>
     db_stored s2 = db_stored s1"
  by (rule redelivery_harmless [where view = "\<lambda>db. db" and tss = "[[demo_table]]", OF demo_sql_server demo_lib_commit])
    (simp_all add: demo_message_def demo_tables demo_start_def)



text \<open>A null entry in the list of tables is not an error. \<open>LoadJson\<close> stops there and returns FALSE, which the thread does
  not look at: the tables before it are executed and the message is logged like one that has only these tables; the ones
  behind it are lost.\<close>

lemma null_entry_truncates:
  assumes "parse (ud_body d) = Some root" "member root (lit ''tables'') = arrayValue (items @ nullValue # rest)"
    and "map (table_of real_text) items = map Some ts"
    and "message_tables parse real_text (ud_body e) = Some ts"
  shows "LoadJson parse fmt16 real_text (ud_body d) = Inr (False, sql_of fmt16 ts) \<and>
     ThreadProcess_message parse fmt16 real_text lib d s = ThreadProcess_message parse fmt16 real_text lib e s"
proof -
  have "isMember root (lit ''tables'') = Inr True" using assms(2)
    by (auto simp: isMember_def member_def split: json.splits option.splits)
  then have "LoadJson parse fmt16 real_text (ud_body d) = Inr (False, sql_of fmt16 ts)"
    using assms(1,2) tables_loop_sql [OF assms(3), of fmt16 "nullValue # rest" "[]"]
    by (simp add: LoadJson_def sql_of_Nil [of fmt16])
  then show ?thesis using message_sql [OF assms(4), of fmt16] by (simp add: ThreadProcess_message_def)
qed

lemma null_entry_truncates_witness:
  "LoadJson demo_parse demo_fmt demo_fmt [3] = Inr (False, sql_of demo_fmt [demo_table]) \<and>
   ThreadProcess_message demo_parse demo_fmt demo_fmt demo_lib (demo_message [3]) demo_start =
     ThreadProcess_message demo_parse demo_fmt demo_fmt demo_lib (demo_message [1]) demo_start"
proof -
  have "LoadJson demo_parse demo_fmt demo_fmt (ud_body (demo_message [3])) = Inr (False, sql_of demo_fmt [demo_table]) \<and>
     ThreadProcess_message demo_parse demo_fmt demo_fmt demo_lib (demo_message [3]) demo_start =
     ThreadProcess_message demo_parse demo_fmt demo_fmt demo_lib (demo_message [1]) demo_start"
    by (rule null_entry_truncates [where items = "[table_json demo_table]" and rest = "[table_json demo_other]"
          and root = "objectValue [(lit ''tables'', arrayValue [table_json demo_table, nullValue, table_json demo_other])]"])
      (simp_all add: demo_message_def demo_parse_def demo_tables member_def table_of_json [of _ _ demo_fmt] demo_table_def)
  then show ?thesis by (simp add: demo_message_def)
qed

section \<open>The connection is lost once\<close>

text \<open>The steps of the two threads that share the connection: a message, and a ping every twenty seconds.\<close>

inductive db_step :: "(buffer \<Rightarrow> 'r json option) \<Rightarrow> ('r \<Rightarrow> buffer) \<Rightarrow> ('r \<Rightarrow> buffer) \<Rightarrow> 'db mysql_lib
    \<Rightarrow> 'db mysql_operation \<Rightarrow> 'db mysql_operation \<Rightarrow> bool" for parse fmt16 real_text lib where
  message: "ThreadProcess_message parse fmt16 real_text lib d s = Some (tag, s') \<Longrightarrow> db_step parse fmt16 real_text lib s s'"
| ping: "db_step parse fmt16 real_text lib s (doPing_round alive tid s)"

inductive_cases db_stepE: "db_step parse fmt16 real_text lib s s'"

inductive db_run :: "(buffer \<Rightarrow> 'r json option) \<Rightarrow> ('r \<Rightarrow> buffer) \<Rightarrow> ('r \<Rightarrow> buffer) \<Rightarrow> 'db mysql_lib
    \<Rightarrow> 'db mysql_operation \<Rightarrow> 'db mysql_operation \<Rightarrow> bool" for parse fmt16 real_text lib where
  run_stop: "db_run parse fmt16 real_text lib s s"
| run_more: "db_run parse fmt16 real_text lib s t \<Longrightarrow> db_step parse fmt16 real_text lib t u \<Longrightarrow> db_run parse fmt16 real_text lib s u"

lemma disconnected_exec:
  assumes "\<not> m_bConnect s" "execMutilSql lib q s = Some (r, s')"
  shows "\<not> m_bConnect s' \<and> db_work s' = db_work s"
  using assms exec_loop_disconnected [OF assms(1), of "m_sql_select q" lib "m_sql_insert q" "m_sql_update q" 0 0]
  by (cases "m_sql_select q") (auto simp: execMutilSql_def mysql_commit_def split: if_splits)

lemma disconnected_step:
  "db_step parse fmt16 real_text lib s t \<Longrightarrow> \<not> m_bConnect s \<Longrightarrow> \<not> m_bConnect t \<and> db_work t = db_work s"
proof (induction rule: db_step.induct)
  case (message d s tag s')
  then show ?case
    by (auto simp: ThreadProcess_message_def disconnected_exec split: sum.splits option.splits outcome.splits if_splits)
next
  case (ping s alive tid)
  then show ?case by (simp add: doPing_round_def)
qed

lemma disconnected_run:
  "db_run parse fmt16 real_text lib s t \<Longrightarrow> \<not> m_bConnect s \<Longrightarrow> \<not> m_bConnect t \<and> db_work t = db_work s"
proof (induction rule: db_run.induct)
  case (run_more s t u)
  then show ?case using disconnected_step [OF run_more.hyps(2)] by simp
qed simp

text \<open>The client does not recover from a lost database connection. After one ping that failed, whatever messages and
  further pings follow, every message with a table is logged as failed and changes nothing, until the program is started
  again.\<close>

lemma lost_connection_is_final:
  assumes "db_run parse fmt16 real_text lib (doPing_round False tid s) t"
    and "message_tables parse real_text (ud_body d) = Some ts" "ts \<noteq> []"
  shows "ThreadProcess_message parse fmt16 real_text lib d t = Some (failedData, t) \<and> db_work t = db_work s"
proof -
  have "\<not> m_bConnect t \<and> db_work t = db_work s"
    using disconnected_run [OF assms(1)] by (simp add: doPing_round_def)
  moreover from this have "exec_loop lib (map (select_sql fmt16) ts) ins upd 0 0 t = Some (False, t)" for ins upd
    by (intro exec_loop_disconnected) (use assms(3) in auto)
  ultimately show ?thesis
    using message_sql [OF assms(2), of fmt16] by (simp add: ThreadProcess_message_def execMutilSql_def sql_of_def)
qed

lemma lost_connection_is_final_witness:
  "\<exists>t. db_run demo_parse demo_fmt demo_fmt demo_lib (doPing_round False 0 demo_start) t \<and>
     ThreadProcess_message demo_parse demo_fmt demo_fmt demo_lib (demo_message [1]) t = Some (failedData, t)"
proof -
  let ?s = "doPing_round False 0 demo_start"
  have run: "db_run demo_parse demo_fmt demo_fmt demo_lib ?s (doPing_round True 5 ?s)"
    by (rule run_more [OF run_stop ping])
  from lost_connection_is_final [OF this, of "demo_message [1]" "[demo_table]"]
  have "ThreadProcess_message demo_parse demo_fmt demo_fmt demo_lib (demo_message [1]) (doPing_round True 5 ?s) =
      Some (failedData, doPing_round True 5 ?s)"
    by (simp add: demo_message_def demo_tables)
  then show ?thesis using run by blast
qed

end
