(* ===== verification/Dbconnect.thy ===== *)
theory Dbconnect
  imports Clientdb
begin

text \<open>
  Opening the database of the client (\<open>wmsclient/wmsclient/MysqlOperation.cpp\<close>): the configuration, the connection, the instance
  that the update thread of \<open>UpdateDbThread.cpp\<close> asks for with every message.

  What the surroundings answer at a time is a \<open>db_env\<close>: the section of the configuration file, if the file is found, whether
  the calls of the MySQL library and of the operating system succeed, the error the library reports, and the stored database.
\<close>

section \<open>Configuration and connection\<close>

record db_config =
  m_host :: buffer
  m_username :: buffer
  m_password :: buffer
  m_database :: buffer

record 'db db_env =
  env_profile :: "(string \<Rightarrow> buffer) option"
  env_connects :: "db_config \<Rightarrow> bool"
  env_charset :: bool
  env_autocommit :: bool
  env_thread :: bool
  env_errno :: int
  env_errmsg :: buffer
  env_db :: 'db

text \<open>\<open>GetPrivateProfileStringA\<close> copies as much as fits in front of the terminating zero and returns the number of
  characters.\<close>

definition profile_string :: "(string \<Rightarrow> buffer) \<Rightarrow> string \<Rightarrow> buffer" where
  "profile_string p key = take 259 (c_str (p key))"

text \<open>The result of the first call is tested four times.\<close>

definition initDbConfig :: "'db db_env \<Rightarrow> db_config \<Rightarrow> bool \<times> db_config" where
  "initDbConfig env c =
     (case env_profile env of None \<Rightarrow> (False, c)
      | Some p \<Rightarrow>
          let c1 = c\<lparr>m_host := profile_string p ''Host''\<rparr>; iRv = length (m_host c1) in
          if iRv = 0 then (False, c1)
          else let c2 = c1\<lparr>m_username := profile_string p ''UserName''\<rparr> in
          if iRv = 0 then (False, c2)
          else let c3 = c2\<lparr>m_password := profile_string p ''Password''\<rparr> in
          if iRv = 0 then (False, c3)
          else let c4 = c3\<lparr>m_database := profile_string p ''DatabaseName''\<rparr> in
          if iRv = 0 then (False, c4) else (True, c4))"

datatype 'a db_result = Db_returned 'a | ExceptionDatabase buffer

definition setError :: "'db db_env \<Rightarrow> buffer" where
  "setError env = lit ''[code:'' @ dec_text (s32 (env_errno env)) @ lit '']'' @ c_str (env_errmsg env)"

definition connectDb :: "'db db_env \<Rightarrow> db_config \<Rightarrow> bool db_result" where
  "connectDb env c =
     (if \<not> env_connects env c then ExceptionDatabase (setError env)
      else if \<not> env_charset env then ExceptionDatabase (setError env)
      else if \<not> env_autocommit env then ExceptionDatabase (setError env)
      else if \<not> env_thread env then Db_returned False
      else Db_returned True)"

definition no_config :: db_config where
  "no_config = \<lparr>m_host = [], m_username = [], m_password = [], m_database = []\<rparr>"

definition new_connection :: "bool \<Rightarrow> 'db db_env \<Rightarrow> 'db mysql_operation" where
  "new_connection b env = \<lparr>m_bConnect = b, m_threadId = 0, db_work = env_db env, db_stored = env_db env\<rparr>"

definition CMysqlOperation :: "'db db_env \<Rightarrow> 'db mysql_operation db_result" where
  "CMysqlOperation env =
     (let (m_bConfig, c) = initDbConfig env no_config in
      if m_bConfig then (case connectDb env c of ExceptionDatabase e \<Rightarrow> ExceptionDatabase e | Db_returned b \<Rightarrow> Db_returned (new_connection b env))
      else Db_returned (new_connection False env))"

text \<open>The instance stays empty when the constructor throws.\<close>

definition getInstance :: "'db db_env \<Rightarrow> 'db mysql_operation option \<Rightarrow> 'db mysql_operation db_result \<times> 'db mysql_operation option" where
  "getInstance env m_pInstance =
     (case m_pInstance of Some s \<Rightarrow> (Db_returned s, m_pInstance)
      | None \<Rightarrow> (case CMysqlOperation env of ExceptionDatabase e \<Rightarrow> (ExceptionDatabase e, None) | Db_returned s \<Rightarrow> (Db_returned s, Some s)))"

definition destoryInstance :: "'db mysql_operation option \<Rightarrow> 'db mysql_operation option" where
  "destoryInstance m_pInstance = (case m_pInstance of Some s \<Rightarrow> None | None \<Rightarrow> m_pInstance)"

definition setConnectB :: "bool \<Rightarrow> 'db mysql_operation \<Rightarrow> 'db mysql_operation" where
  "setConnectB brv s = s\<lparr>m_bConnect := brv\<rparr>"

definition updateThreadId :: "int \<Rightarrow> 'db mysql_operation \<Rightarrow> 'db mysql_operation" where
  "updateThreadId tid s = s\<lparr>m_threadId := tid\<rparr>"

lemma doPing_round_calls: "doPing_round alive tid s = (if alive then updateThreadId tid s else setConnectB False s)"
  by (simp add: doPing_round_def updateThreadId_def setConnectB_def)

text \<open>\<open>Run\<close> of the update thread; \<open>created\<close> when the operating system gives it a thread.\<close>

definition update_Run :: "bool \<Rightarrow> bool" where
  "update_Run created = (if \<not> created then False else True)"

text \<open>A message of the update thread with the instance it asks for; then one message after the other, each at its time.\<close>

definition ThreadProcess_instance :: "(buffer \<Rightarrow> 'r json option) \<Rightarrow> ('r \<Rightarrow> buffer) \<Rightarrow> ('r \<Rightarrow> buffer) \<Rightarrow> 'db mysql_lib
    \<Rightarrow> 'db db_env \<Rightarrow> update_data \<Rightarrow> 'db mysql_operation option \<Rightarrow> (log_tag \<times> 'db mysql_operation option) option" where
  "ThreadProcess_instance parse fmt16 real_text lib env tmpData m_pInstance =
     (case LoadJson parse fmt16 real_text (ud_body tmpData) of
        Inl e \<Rightarrow> if e = Json_logic_error \<or> e = Column_loop then None else Some (failedData, m_pInstance)
      | Inr (b, q) \<Rightarrow>
          (case getInstance env m_pInstance of
             (ExceptionDatabase e, inst) \<Rightarrow> Some (failedData, inst)
           | (Db_returned s, inst) \<Rightarrow>
               (case execMutilSql lib q s of None \<Rightarrow> None
                | Some (Thrown, s') \<Rightarrow> Some (failedData, Some s')
                | Some (Returned r, s') \<Rightarrow> Some (successData, Some s'))))"

fun messages_at :: "(buffer \<Rightarrow> 'r json option) \<Rightarrow> ('r \<Rightarrow> buffer) \<Rightarrow> ('r \<Rightarrow> buffer) \<Rightarrow> 'db mysql_lib
    \<Rightarrow> ('db db_env \<times> update_data) list \<Rightarrow> 'db mysql_operation option \<Rightarrow> (log_tag list \<times> 'db mysql_operation option) option" where
  "messages_at parse fmt16 real_text lib [] inst = Some ([], inst)"
| "messages_at parse fmt16 real_text lib ((env, d) # ms) inst = do {
     (tag, inst1) \<leftarrow> ThreadProcess_instance parse fmt16 real_text lib env d inst;
     (tags, inst2) \<leftarrow> messages_at parse fmt16 real_text lib ms inst1;
     Some (tag # tags, inst2) }"

section \<open>The life of the connection\<close>

definition configured :: "'db db_env \<Rightarrow> bool" where
  "configured env \<longleftrightarrow> (case env_profile env of None \<Rightarrow> False | Some p \<Rightarrow> profile_string p ''Host'' \<noteq> [])"

definition accepted :: "'db db_env \<Rightarrow> bool" where
  "accepted env \<longleftrightarrow> env_connects env (snd (initDbConfig env no_config)) \<and> env_charset env \<and> env_autocommit env"

lemma initDbConfig_configured: "fst (initDbConfig env c) \<longleftrightarrow> configured env"
  by (simp add: initDbConfig_def configured_def Let_def split: option.split)

lemma constructor_cases:
  "CMysqlOperation env = (if \<not> configured env then Db_returned (new_connection False env)
     else if \<not> accepted env then ExceptionDatabase (setError env) else Db_returned (new_connection (env_thread env) env))"
  using initDbConfig_configured [of env no_config]
  by (cases "initDbConfig env no_config") (auto simp: CMysqlOperation_def connectDb_def accepted_def)

text \<open>With an instance the surroundings are not looked at again.\<close>

lemma existing_instance:
  "ThreadProcess_instance parse fmt16 real_text lib env d (Some s) =
     map_option (\<lambda>(tag, s'). (tag, Some s')) (ThreadProcess_message parse fmt16 real_text lib d s)"
  by (simp add: ThreadProcess_instance_def ThreadProcess_message_def getInstance_def split: sum.split option.split prod.split outcome.split)

lemma new_instance:
  assumes "message_tables parse real_text (ud_body d) = Some ts"
  shows "ThreadProcess_instance parse fmt16 real_text lib env d None =
     (case CMysqlOperation env of ExceptionDatabase e \<Rightarrow> Some (failedData, None)
      | Db_returned s \<Rightarrow> ThreadProcess_instance parse fmt16 real_text lib env d (Some s))"
  using message_sql [OF assms, of fmt16]
  by (simp add: ThreadProcess_instance_def getInstance_def split: db_result.split option.split prod.split outcome.split)

definition usable :: "(buffer \<Rightarrow> 'r json option) \<Rightarrow> ('r \<Rightarrow> buffer) \<Rightarrow> update_data \<Rightarrow> bool" where
  "usable parse real_text d \<longleftrightarrow> message_tables parse real_text (ud_body d) \<notin> {None, Some []}"

lemma refused_message:
  assumes "usable parse real_text d" "configured env" "\<not> accepted env"
  shows "ThreadProcess_instance parse fmt16 real_text lib env d None = Some (failedData, None)"
proof -
  obtain ts where ts: "message_tables parse real_text (ud_body d) = Some ts" using assms(1) by (auto simp: usable_def)
  show ?thesis unfolding new_instance [OF ts] constructor_cases using assms(2,3) by simp
qed

lemma unconnected_message:
  assumes "usable parse real_text d" "\<not> m_bConnect s"
  shows "ThreadProcess_message parse fmt16 real_text lib d s = Some (failedData, s)"
proof -
  obtain ts where ts: "message_tables parse real_text (ud_body d) = Some ts" "ts \<noteq> []" using assms(1) by (auto simp: usable_def)
  have "exec_loop lib (map (select_sql fmt16) ts) ins upd 0 0 s = Some (False, s)" for ins upd
    by (intro exec_loop_disconnected) (use ts assms(2) in auto)
  then show ?thesis using message_sql [OF ts(1), of fmt16] by (simp add: ThreadProcess_message_def execMutilSql_def sql_of_def)
qed

lemma unconnected_messages:
  assumes "\<not> m_bConnect s" "list_all (\<lambda>(env, d). usable parse real_text d) ms"
  shows "messages_at parse fmt16 real_text lib ms (Some s) = Some (replicate (length ms) failedData, Some s)"
  using assms(2) by (induction ms) (auto simp: existing_instance unconnected_message [OF _ assms(1)])

lemma refused_messages:
  assumes "list_all (\<lambda>(env, d). usable parse real_text d \<and> configured env \<and> \<not> accepted env) refused"
  shows "messages_at parse fmt16 real_text lib (refused @ ms) None =
     map_option (\<lambda>(tags, inst). (replicate (length refused) failedData @ tags, inst)) (messages_at parse fmt16 real_text lib ms None)"
  using assms
proof (induction refused)
  case Nil
  show ?case by (cases "messages_at parse fmt16 real_text lib ms None") auto
next
  case (Cons r refused)
  then show ?case
    by (cases r; cases "messages_at parse fmt16 real_text lib ms None") (auto simp: refused_message)
qed

definition demo_env :: "bool \<Rightarrow> bool \<Rightarrow> unit rows db_env" where
  "demo_env host up = \<lparr>env_profile = Some (\<lambda>key. if host then lit ''db'' else []), env_connects = (\<lambda>_. up), env_charset = True,
     env_autocommit = True, env_thread = True, env_errno = 2003, env_errmsg = [], env_db = db_work demo_start\<rparr>"

text \<open>Only releasing the instance makes a new connection possible.\<close>

lemma released_instance_connects:
  assumes "configured env" "accepted env" "env_thread env"
  shows "getInstance env (destoryInstance inst) = (Db_returned (new_connection True env), Some (new_connection True env))"
  using assms by (simp add: getInstance_def destoryInstance_def constructor_cases split: option.split)



end
