(* ===== verification/Tinyxml.thy ===== *)
theory Tinyxml
  imports Configfile
begin

text \<open>
  The XML library (\<open>include/tinyxml\<close>) as the client uses it: \<open>TiXmlDocument::LoadFile\<close> with the parser
  (\<open>tinyxmlparser.cpp\<close>), \<open>SaveFile\<close> with the printer (\<open>tinyxml.cpp\<close>), and the access to elements and attributes.

  The text of a document is a zero-terminated block. A pointer into it is the rest of the text up to the
  terminating zero (\<open>At\<close>), the null pointer, or a pointer behind the zero, which the parser can produce and must
  not follow: following one is \<open>None\<close>. Of an error only the flag is kept, not its number and its place.
  The assertions of the code are off, as in the release build.
\<close>

datatype encoding = ENCODING_UNKNOWN | ENCODING_UTF8 | ENCODING_LEGACY

datatype ptr = Null | At buffer | Wild

datatype xml_node = Element buffer "(buffer \<times> buffer) list" "xml_node list"
  | Comment buffer
  | Unknown buffer
  | Text bool buffer
  | Declaration buffer buffer buffer

record document =
  d_nodes :: "xml_node list"
  d_bom :: bool
  d_error :: bool

section \<open>Characters\<close>

definition IsWhiteSpace :: "uchar \<Rightarrow> bool" where
  "IsWhiteSpace c \<longleftrightarrow> c_isspace c \<or> c = 10 \<or> c = 13"

definition IsAlpha :: "uchar \<Rightarrow> bool" where
  "IsAlpha c \<longleftrightarrow> (if c < 127 then (65 \<le> c \<and> c \<le> 90) \<or> (97 \<le> c \<and> c \<le> 122) else True)"

definition IsAlphaNum :: "uchar \<Rightarrow> bool" where
  "IsAlphaNum c \<longleftrightarrow> (if c < 127 then (65 \<le> c \<and> c \<le> 90) \<or> (97 \<le> c \<and> c \<le> 122) \<or> (48 \<le> c \<and> c \<le> 57) else True)"

definition ToLower :: "uchar \<Rightarrow> uchar" where
  "ToLower c = (if 65 \<le> c \<and> c \<le> 90 then c + 32 else c)"

definition utf8ByteTable :: "uchar \<Rightarrow> nat" where
  "utf8ByteTable c = (if c < 0xC2 then 1 else if c < 0xE0 then 2 else if c < 0xF0 then 3 else if c < 0xF5 then 4 else 1)"

text \<open>\<open>unsigned long\<close> has 32 bits on the platform of the client.\<close>

definition ConvertUTF32ToUTF8 :: "int \<Rightarrow> buffer" where
  "ConvertUTF32ToUTF8 input =
     (let cont = (\<lambda>x. uchar_of (and (or x 0x80) 0xBF)) in
      if input < 0x80 then [uchar_of input]
      else if input < 0x800 then [uchar_of (or (input div 64) 0xC0), cont input]
      else if input < 0x10000 then [uchar_of (or (input div 4096) 0xE0), cont (input div 64), cont input]
      else if input < 0x200000 then [uchar_of (or (input div 262144) 0xF0), cont (input div 4096), cont (input div 64), cont input]
      else [])"

section \<open>Reading names and text\<close>

text \<open>The byte order marks of Microsoft are white space in UTF-8.\<close>

definition byte_order_mark :: "buffer \<Rightarrow> bool" where
  "byte_order_mark s \<longleftrightarrow> take 3 s \<in> {[0xEF, 0xBB, 0xBF], [0xEF, 0xBF, 0xBE], [0xEF, 0xBF, 0xBF]}"

function skip_utf8 :: "buffer \<Rightarrow> buffer" where
  "skip_utf8 s = (case s of [] \<Rightarrow> []
     | c # r \<Rightarrow> if byte_order_mark s then skip_utf8 (drop 3 s) else if IsWhiteSpace c then skip_utf8 r else s)"
  by pat_completeness auto

termination
  by (relation "measure length") auto

declare skip_utf8.simps [simp del]

definition skip_white :: "encoding \<Rightarrow> buffer \<Rightarrow> buffer" where
  "skip_white e s = (if e = ENCODING_UTF8 then skip_utf8 s else dropWhile IsWhiteSpace s)"

fun SkipWhiteSpace :: "encoding \<Rightarrow> ptr \<Rightarrow> ptr option" where
  "SkipWhiteSpace e Null = Some Null"
| "SkipWhiteSpace e (At s) = Some (if s = [] then Null else At (skip_white e s))"
| "SkipWhiteSpace e Wild = None"

definition name_char :: "uchar \<Rightarrow> bool" where
  "name_char c \<longleftrightarrow> IsAlphaNum c \<or> c = 95 \<or> c = 45 \<or> c = 46 \<or> c = 58"

definition name_start :: "uchar \<Rightarrow> bool" where
  "name_start c \<longleftrightarrow> IsAlpha c \<or> c = 95"

fun ReadName :: "ptr \<Rightarrow> (buffer \<times> ptr) option" where
  "ReadName (At (c # s)) =
     Some (if name_start c then (takeWhile name_char (c # s), At (dropWhile name_char (c # s))) else ([], Null))"
| "ReadName Wild = None"
| "ReadName _ = Some ([], Null)"

definition StringEqual :: "buffer \<Rightarrow> buffer \<Rightarrow> bool \<Rightarrow> bool" where
  "StringEqual p tag ignoreCase \<longleftrightarrow> p \<noteq> [] \<and>
     (if ignoreCase then map ToLower (take (length tag) p) = map ToLower tag else take (length tag) p = tag)"

definition hex_digit_value :: "uchar \<Rightarrow> int option" where
  "hex_digit_value c =
     (if 48 \<le> c \<and> c \<le> 57 then Some (uint c - 48)
      else if 97 \<le> c \<and> c \<le> 102 then Some (uint c - 97 + 10)
      else if 65 \<le> c \<and> c \<le> 70 then Some (uint c - 65 + 10)
      else None)"

definition dec_digit_value :: "uchar \<Rightarrow> int option" where
  "dec_digit_value c = (if 48 \<le> c \<and> c \<le> 57 then Some (uint c - 48) else None)"

text \<open>The digits of a character reference are read from the last to the first.\<close>

fun sum_digits :: "(uchar \<Rightarrow> int option) \<Rightarrow> int \<Rightarrow> buffer \<Rightarrow> int \<Rightarrow> int \<Rightarrow> int option" where
  "sum_digits val base [] mult ucs = Some ucs"
| "sum_digits val base (c # q) mult ucs =
     (case val c of None \<Rightarrow> None
      | Some v \<Rightarrow> sum_digits val base q (u32 (mult * base)) (u32 (ucs + u32 (mult * v))))"

definition entity :: "(buffer \<times> uchar) list" where
  "entity = [(bytes_of ''&amp;'', 38), (bytes_of ''&lt;'', 60), (bytes_of ''&gt;'', 62), (bytes_of ''&quot;'', 34),
     (bytes_of ''&apos;'', 39)]"

text \<open>The bytes an entity stands for, and where reading goes on; \<open>p\<close> starts with an ampersand. One that is
  not known stands for nothing.\<close>

definition char_reference :: "encoding \<Rightarrow> buffer \<Rightarrow> buffer \<times> ptr" where
  "char_reference e p =
     (let hex = (p ! 2 = 120);
          q = drop (if hex then 3 else 2) p;
          body = takeWhile (\<lambda>c. c \<noteq> 59) q;
          digits = takeWhile (\<lambda>c. c \<noteq> (if hex then 120 else 35)) (rev body);
          after = drop (length body + 1) q
      in if (hex \<and> q = []) \<or> 59 \<notin> set q then ([], Null)
         else (case sum_digits (if hex then hex_digit_value else dec_digit_value) (if hex then 16 else 10) digits 1 0 of
             None \<Rightarrow> ([], Null)
           | Some ucs \<Rightarrow> (if e = ENCODING_UTF8 then ConvertUTF32ToUTF8 ucs else [uchar_of ucs], At after)))"

definition GetEntity :: "encoding \<Rightarrow> buffer \<Rightarrow> buffer \<times> ptr" where
  "GetEntity e p =
     (if 2 < length p \<and> p ! 1 = 35 then char_reference e p
      else (case find (\<lambda>(str, chr). take (length str) p = str) entity of
          Some (str, chr) \<Rightarrow> ([chr], At (drop (length str) p))
        | None \<Rightarrow> ([], At (tl p))))"

text \<open>A sequence of several bytes that is cut off by the end of the text is filled up with zeros, and
  reading goes on behind the end.\<close>

definition GetChar :: "encoding \<Rightarrow> buffer \<Rightarrow> buffer \<times> ptr" where
  "GetChar e p =
     (let len = (if e = ENCODING_UTF8 then utf8ByteTable (hd p) else 1) in
      if len = 1 then (if hd p = 38 then GetEntity e p else ([hd p], At (tl p)))
      else if len \<le> length p then (take len p, At (drop len p))
      else (p @ replicate (len - length p) 0, Wild))"

lemma GetChar_shorter:
  assumes "p \<noteq> []" "GetChar e p = (cs, At r)"
  shows "length r < length p"
  using assms
  by (cases p)
     (auto simp: GetChar_def GetEntity_def char_reference_def entity_def bytes_of_def Let_def utf8ByteTable_def find_Some_iff
       split: if_splits option.splits)

text \<open>Reading up to an end tag: the text, and the place of the end tag. \<open>Null\<close> is an invalid character reference.\<close>

function read_keep :: "encoding \<Rightarrow> buffer \<Rightarrow> buffer \<Rightarrow> (buffer \<times> ptr) option" where
  "read_keep e endTag p =
     (if p = [] \<or> StringEqual p endTag False then Some ([], At p)
      else (case GetChar e p of
          (cs, At r) \<Rightarrow> map_option (\<lambda>(t, q). (cs @ t, q)) (read_keep e endTag r)
        | (cs, Null) \<Rightarrow> Some (cs, Null)
        | (cs, Wild) \<Rightarrow> None))"
  by pat_completeness auto

termination
  by (relation "measure (\<lambda>(e, t, p). length p)") (auto dest: GetChar_shorter [OF _ sym])

declare read_keep.simps [simp del]

text \<open>The same with white space condensed to single spaces.\<close>

function read_condensed :: "encoding \<Rightarrow> buffer \<Rightarrow> bool \<Rightarrow> buffer \<Rightarrow> (buffer \<times> ptr) option" where
  "read_condensed e endTag whitespace p =
     (if p = [] \<or> StringEqual p endTag False then Some ([], At p)
      else if IsWhiteSpace (hd p) then read_condensed e endTag True (tl p)
      else (let sp = (if whitespace then [32] else []) in
            case GetChar e p of
          (cs, At r) \<Rightarrow> map_option (\<lambda>(t, q). (sp @ cs @ t, q)) (read_condensed e endTag False r)
        | (cs, Null) \<Rightarrow> Some (sp @ cs, Null)
        | (cs, Wild) \<Rightarrow> None))"
  by pat_completeness auto

termination
  by (relation "measure (\<lambda>(e, t, w, p). length p)") (auto dest: GetChar_shorter [OF _ sym])

declare read_condensed.simps [simp del]

text \<open>A pointer moved on by \<open>n\<close> characters.\<close>

fun advance :: "nat \<Rightarrow> ptr \<Rightarrow> ptr" where
  "advance n (At s) = (if n \<le> length s then At (drop n s) else Wild)"
| "advance n _ = Wild"

definition ReadText :: "encoding \<Rightarrow> buffer \<Rightarrow> buffer \<Rightarrow> (buffer \<times> ptr) option" where
  "ReadText e endTag p = map_option (\<lambda>(t, q). (t, advance (length endTag) q)) (read_keep e endTag p)"

section \<open>Attributes\<close>

text \<open>Name and value, the place behind, and whether an error is reported to the document of the attribute,
  if it has one.\<close>

definition attr_value :: "encoding \<Rightarrow> buffer \<Rightarrow> (buffer \<times> ptr) option" where
  "attr_value e p =
     (if hd p = 39 \<or> hd p = 34 then ReadText e [hd p] (tl p)
      else (let stop = (\<lambda>c. IsWhiteSpace c \<or> c = 47 \<or> c = 62) in
            Some (takeWhile (\<lambda>c. \<not> stop c) p, At (dropWhile (\<lambda>c. \<not> stop c) p))))"

definition attr_parse :: "encoding \<Rightarrow> ptr \<Rightarrow> ((buffer \<times> buffer) \<times> ptr \<times> bool) option" where
  "attr_parse e p = do {
     p1 \<leftarrow> SkipWhiteSpace e p;
     if p1 = Null \<or> p1 = At [] then Some (([], []), Null, False)
     else do {
       (name, p2) \<leftarrow> ReadName p1;
       if p2 = Null \<or> p2 = At [] then Some ((name, []), Null, True)
       else do {
         p3 \<leftarrow> SkipWhiteSpace e p2;
         case p3 of At (c # s) \<Rightarrow>
             if c \<noteq> 61 then Some ((name, []), Null, True)
             else do {
               p4 \<leftarrow> SkipWhiteSpace e (At s);
               case p4 of At (d # t) \<Rightarrow> do { (v, p5) \<leftarrow> attr_value e (d # t); Some ((name, v), p5, False) }
               | _ \<Rightarrow> Some ((name, []), Null, True) }
         | _ \<Rightarrow> Some ((name, []), Null, True) } } }"

text \<open>The loop over the attributes of a start tag: the attributes, and how the tag ends. A second attribute of a
  name replaces the value of the first and ends the element, without an error.\<close>

datatype tag_end = Tag_empty buffer | Tag_open buffer | Tag_failed bool

definition attr_find :: "buffer \<Rightarrow> (buffer \<times> buffer) list \<Rightarrow> buffer option" where
  "attr_find name attrs = map_of attrs name"

fun attr_set :: "buffer \<Rightarrow> buffer \<Rightarrow> (buffer \<times> buffer) list \<Rightarrow> (buffer \<times> buffer) list" where
  "attr_set name v [] = [(name, v)]"
| "attr_set name v ((n, w) # attrs) = (if n = name then (n, v) # attrs else (n, w) # attr_set name v attrs)"

lemma skip_utf8_length: "length (skip_utf8 s) \<le> length s"
proof (induction s rule: skip_utf8.induct)
  case (1 s)
  show ?case
  proof (cases s)
    case (Cons c r)
    have "length (skip_utf8 (drop 3 s)) \<le> length s" if "byte_order_mark s"
      using "1.IH"(1) [OF Cons that] by simp
    moreover have "length (skip_utf8 r) \<le> length s" if "\<not> byte_order_mark s" "IsWhiteSpace c"
      using "1.IH"(2) [OF Cons that] Cons by simp
    ultimately show ?thesis by (simp add: skip_utf8.simps [of "c # r"] Cons)
  qed (simp add: skip_utf8.simps [of "[]"])
qed

lemma skip_white_length: "length (skip_white e s) \<le> length s"
  by (simp add: skip_white_def skip_utf8_length length_dropWhile_le)

lemma SkipWhiteSpace_length: "SkipWhiteSpace e (At s) = Some (At r) \<Longrightarrow> length r \<le> length s"
  using skip_white_length by (auto split: if_splits)

lemma read_keep_end: "p = [] \<or> StringEqual p endTag False \<Longrightarrow> read_keep e endTag p = Some ([], At p)"
  by (simp add: read_keep.simps [of e endTag p])

lemma read_keep_char:
  "p \<noteq> [] \<Longrightarrow> \<not> StringEqual p endTag False \<Longrightarrow> GetChar e p = (cs, At r) \<Longrightarrow>
     read_keep e endTag p = map_option (\<lambda>(t, q). (cs @ t, q)) (read_keep e endTag r)"
  by (simp add: read_keep.simps [of e endTag p])

lemma read_keep_length: "read_keep e endTag p = Some (t, At r) \<Longrightarrow> length r \<le> length p"
proof (induction e endTag p arbitrary: t rule: read_keep.induct)
  case (1 e endTag p)
  show ?case
  proof (cases "p = [] \<or> StringEqual p endTag False")
    case True
    then show ?thesis using 1(2) by (simp add: read_keep_end)
  next
    case False
    obtain cs q where q: "GetChar e p = (cs, q)" by (cases "GetChar e p")
    show ?thesis
    proof (cases q)
      case (At s)
      then have "length s < length p" using GetChar_shorter [of p e cs s] q False by simp
      moreover obtain u where "read_keep e endTag s = Some (u, At r)"
        using 1(2) False q At by (auto simp: read_keep_char)
      ultimately show ?thesis using "1.IH" [OF False q [symmetric] At] by simp
    qed (use 1(2) False q in \<open>simp_all add: read_keep.simps [of e endTag p]\<close>)
  qed
qed

lemma advance_length: "advance n p = At r \<Longrightarrow> \<exists>q. p = At q \<and> length r \<le> length q"
  by (cases p) (auto split: if_splits)

lemma ReadText_length: "ReadText e endTag p = Some (t, At r) \<Longrightarrow> length r \<le> length p"
  using read_keep_length by (fastforce simp: ReadText_def dest!: advance_length)

lemma ReadName_shorter: "ReadName (At s) = Some (n, At r) \<Longrightarrow> length r < length s"
proof (induction "At s" rule: ReadName.induct)
  case (1 c s)
  have "name_start c \<Longrightarrow> name_char c"
    by (auto simp: name_start_def name_char_def IsAlpha_def IsAlphaNum_def split: if_splits)
  then show ?case using 1 length_dropWhile_le [of name_char s] by (auto split: if_splits)
qed auto

lemma attr_value_length: "attr_value e p = Some (v, At r) \<Longrightarrow> length r \<le> length p"
  using ReadText_length [of e "[hd p]" "tl p" v r] length_dropWhile_le
  by (fastforce simp: attr_value_def Let_def split: if_splits)

lemma attr_parse_shorter:
  assumes "attr_parse e (At s) = Some (x, At r, b)"
  shows "length r < length s"
proof -
  obtain s1 where s1: "SkipWhiteSpace e (At s) = Some (At s1)"
    using assms by (auto simp: attr_parse_def split: if_splits)
  obtain name s2 where s2: "ReadName (At s1) = Some (name, At s2)"
    using assms s1 by (cases s1) (auto simp: attr_parse_def split: if_splits)
  obtain c s3 where s3: "SkipWhiteSpace e (At s2) = Some (At (c # s3))"
    using assms s1 s2 by (auto simp: attr_parse_def split: bind_splits if_splits ptr.splits list.splits)
  obtain d t where t: "SkipWhiteSpace e (At s3) = Some (At (d # t))"
    using assms s1 s2 s3 by (auto simp: attr_parse_def split: bind_splits if_splits ptr.splits list.splits)
  obtain v where v: "attr_value e (d # t) = Some (v, At r)"
    using assms s1 s2 s3 t by (auto simp: attr_parse_def split: bind_splits if_splits)
  show ?thesis
    using SkipWhiteSpace_length [OF s1] ReadName_shorter [OF s2] SkipWhiteSpace_length [OF s3] SkipWhiteSpace_length [OF t]
      attr_value_length [OF v] by simp
qed

lemma skip_white_Cons: "skip_white e p = c # r \<Longrightarrow> length r < length p"
  using skip_white_length [of e p] by simp

function attr_loop ::
  "encoding \<Rightarrow> (buffer \<times> buffer) list \<Rightarrow> buffer \<Rightarrow> ((buffer \<times> buffer) list \<times> tag_end) option" where
  "attr_loop e attrs p =
     (case skip_white e p of [] \<Rightarrow> Some (attrs, Tag_failed True)
      | c # r \<Rightarrow>
          if c = 47 then Some (attrs, if take 1 r = [62] then Tag_empty (tl r) else Tag_failed True)
          else if c = 62 then Some (attrs, Tag_open r)
          else (case attr_parse e (At (c # r)) of None \<Rightarrow> None
            | Some (a, At [], err) \<Rightarrow> Some (attrs, Tag_failed True)
            | Some (a, At (x # t), err) \<Rightarrow>
                if attr_find (fst a) attrs \<noteq> None then Some (attr_set (fst a) (c_str (snd a)) attrs, Tag_failed False)
                else attr_loop e (attrs @ [a]) (x # t)
            | Some (a, Null, err) \<Rightarrow> Some (attrs, Tag_failed True)
            | Some (a, Wild, err) \<Rightarrow> None))"
  by pat_completeness auto

termination
  by (relation "measure (\<lambda>(e, attrs, p). length p)")
     (auto dest!: attr_parse_shorter skip_white_Cons)

declare attr_loop.simps [simp del]

section \<open>Nodes\<close>

datatype node_kind = K_declaration | K_comment | K_cdata | K_unknown | K_element

text \<open>\<open>p\<close> starts with an opening bracket.\<close>

definition Identify :: "buffer \<Rightarrow> node_kind" where
  "Identify p =
     (if StringEqual p (bytes_of ''<?xml'') True then K_declaration
      else if StringEqual p (bytes_of ''<!--'') False then K_comment
      else if StringEqual p (bytes_of ''<![CDATA['') False then K_cdata
      else if StringEqual p (bytes_of ''<!'') False then K_unknown
      else if tl p \<noteq> [] \<and> name_start (hd (tl p)) then K_element
      else K_unknown)"

text \<open>The parts of a declaration, which are also taken from attributes with longer names.\<close>

lemma skip_white_head: "skip_white e p = c # r \<Longrightarrow> \<not> IsWhiteSpace c"
proof (cases "e = ENCODING_UTF8")
  case True
  have "skip_utf8 p = c # r \<Longrightarrow> \<not> IsWhiteSpace c"
  proof (induction p rule: skip_utf8.induct)
    case (1 p)
    show ?case
    proof (cases p)
      case (Cons b s)
      then show ?thesis using 1 by (auto simp: skip_utf8.simps [of "b # s"] split: if_splits)
    qed (use 1(3) in \<open>simp add: skip_utf8.simps [of "[]"]\<close>)
  qed
  then show "skip_white e p = c # r \<Longrightarrow> \<not> IsWhiteSpace c" using True by (simp add: skip_white_def)
next
  case False
  then show "skip_white e p = c # r \<Longrightarrow> \<not> IsWhiteSpace c" by (auto simp: skip_white_def dropWhile_eq_Cons_conv)
qed

lemma skip_white_id_or_shorter: "skip_white e p = p \<or> length (skip_white e p) < length p"
proof (cases "e = ENCODING_UTF8")
  case True
  show ?thesis
  proof (cases p)
    case (Cons b s)
    have "length (skip_utf8 (drop 3 (b # s))) < length (b # s)"
      using skip_utf8_length [of "drop 3 (b # s)"] by (simp add: le_less_trans)
    moreover have "length (skip_utf8 s) < length (b # s)" using skip_utf8_length [of s] by simp
    ultimately show ?thesis using Cons True by (simp add: skip_white_def skip_utf8.simps [of "b # s"])
  qed (simp add: skip_white_def skip_utf8.simps [of "[]"])
next
  case False
  show ?thesis
  proof (cases p)
    case (Cons b s)
    then show ?thesis using False length_dropWhile_le [of IsWhiteSpace s] by (auto simp: skip_white_def)
  qed (simp add: skip_white_def False)
qed

definition decl_store :: "buffer \<Rightarrow> buffer \<times> buffer \<times> buffer \<Rightarrow> (buffer \<Rightarrow> buffer \<times> buffer \<times> buffer) option" where
  "decl_store s = (\<lambda>(ver, enc, std).
     if StringEqual s (bytes_of ''version'') True then Some (\<lambda>x. (x, enc, std))
     else if StringEqual s (bytes_of ''encoding'') True then Some (\<lambda>x. (ver, x, std))
     else if StringEqual s (bytes_of ''standalone'') True then Some (\<lambda>x. (ver, enc, x))
     else None)"

lemma decl_skip_shorter:
  assumes "p \<noteq> []" "hd p \<noteq> 62"
  shows "length (dropWhile (\<lambda>c. c \<noteq> 62 \<and> \<not> IsWhiteSpace c) (skip_white e p)) < length p"
proof (cases "skip_white e p")
  case (Cons c r)
  have "length (dropWhile (\<lambda>c. c \<noteq> 62 \<and> \<not> IsWhiteSpace c) r) \<le> length r" by (rule length_dropWhile_le)
  then show ?thesis
    using assms Cons skip_white_head [OF Cons] skip_white_id_or_shorter [of e p] skip_white_Cons [OF Cons]
    by (cases "c = 62") auto
qed (use assms in simp)

function decl_loop :: "encoding \<Rightarrow> buffer \<times> buffer \<times> buffer \<Rightarrow> buffer \<Rightarrow> ((buffer \<times> buffer \<times> buffer) \<times> ptr) option" where
  "decl_loop e d p =
     (if p = [] then Some (d, Null)
      else if hd p = 62 then Some (d, At (tl p))
      else (case decl_store (skip_white e p) d of
          Some put \<Rightarrow> (case attr_parse e (At (skip_white e p)) of None \<Rightarrow> None
            | Some (a, At r, err) \<Rightarrow> decl_loop e (put (c_str (snd a))) r
            | Some (a, Null, err) \<Rightarrow> Some (put (c_str (snd a)), Null)
            | Some (a, Wild, err) \<Rightarrow> None)
        | None \<Rightarrow> decl_loop e d (dropWhile (\<lambda>c. c \<noteq> 62 \<and> \<not> IsWhiteSpace c) (skip_white e p))))"
  by pat_completeness auto

termination
  by (relation "measure (\<lambda>(e, d, p). length p)")
     (auto dest!: attr_parse_shorter intro: less_le_trans [OF _ skip_white_length] decl_skip_shorter)

declare decl_loop.simps [simp del]

text \<open>The content of a CDATA section, and the text from its end on.\<close>

fun cdata_split :: "buffer \<Rightarrow> buffer \<times> buffer" where
  "cdata_split [] = ([], [])"
| "cdata_split (c # s) =
     (if StringEqual (c # s) (bytes_of '']]>'') False then ([], c # s) else (let (v, q) = cdata_split s in (c # v, q)))"

text \<open>The nodes that have no children.\<close>

definition Declaration_Parse :: "encoding \<Rightarrow> buffer \<Rightarrow> (xml_node \<times> ptr \<times> bool) option" where
  [simp]: "Declaration_Parse e p =
     map_option (\<lambda>((ver, enc, std), q). (Declaration ver enc std, q, False)) (decl_loop e ([], [], []) (drop 5 p))"

definition Comment_Parse :: "encoding \<Rightarrow> buffer \<Rightarrow> (xml_node \<times> ptr \<times> bool) option" where
  [simp]: "Comment_Parse e p = map_option (\<lambda>(t, q). (Comment t, q, False)) (ReadText e (bytes_of ''-->'') (drop 4 p))"

definition Cdata_Parse :: "encoding \<Rightarrow> buffer \<Rightarrow> (xml_node \<times> ptr \<times> bool) option" where
  [simp]: "Cdata_Parse e p =
     (let (v, q) = (cdata_split (drop 9 p)) in
      map_option (\<lambda>(t, r). (Text True v, r, False)) (ReadText e (bytes_of '']]>'') q))"

definition Unknown_Parse :: "buffer \<Rightarrow> (xml_node \<times> ptr \<times> bool) option" where
  [simp]: "Unknown_Parse p =
     (let v = takeWhile (\<lambda>c. c \<noteq> 62) (tl p); q = dropWhile (\<lambda>c. c \<noteq> 62) (tl p) in Some (Unknown v, At (drop 1 q), False))"

fun leaf_parse :: "encoding \<Rightarrow> node_kind \<Rightarrow> buffer \<Rightarrow> (xml_node \<times> ptr \<times> bool) option" where
  "leaf_parse e K_declaration p = Declaration_Parse e p"
| "leaf_parse e K_comment p = Comment_Parse e p"
| "leaf_parse e K_cdata p = Cdata_Parse e p"
| "leaf_parse e _ p = Unknown_Parse p"

text \<open>The text of an element, with its white space condensed; what ends it is left.\<close>

definition Text_Parse :: "encoding \<Rightarrow> buffer \<Rightarrow> (buffer \<times> ptr) option" where
  [simp]: "Text_Parse e p = read_condensed e [60] False (skip_white e p)"

definition Blank :: "buffer \<Rightarrow> bool" where
  [simp]: "Blank t \<longleftrightarrow> list_all IsWhiteSpace t"

text \<open>An element and what stands between its tags. The counter is above the length of the text
  (\<open>fuel_irrelevant\<close>). Text that is only white space is dropped. Text that the document ends in is not an error
  when white space follows: the element ends without its end tag.\<close>

fun elem_parse :: "nat \<Rightarrow> encoding \<Rightarrow> buffer \<Rightarrow> (xml_node \<times> ptr \<times> bool) option"
  and read_value :: "nat \<Rightarrow> encoding \<Rightarrow> ptr \<Rightarrow> xml_node list \<Rightarrow> (xml_node list \<times> ptr \<times> bool) option" where
  "elem_parse 0 e p = None"
| "elem_parse (Suc n) e p = do {
     p1 \<leftarrow> SkipWhiteSpace e (At (tl p));
     (name, p2) \<leftarrow> ReadName p1;
     case p2 of At (c # s) \<Rightarrow> do {
         (attrs, t) \<leftarrow> attr_loop e [] (c # s);
         case t of
           Tag_empty r \<Rightarrow> Some (Element name attrs [], At r, False)
         | Tag_failed err \<Rightarrow> Some (Element name attrs [], Null, err)
         | Tag_open r \<Rightarrow> do {
             (nodes, p3, err) \<leftarrow> read_value n e (At r) [];
             case p3 of At (d # u) \<Rightarrow>
                 let endTag = bytes_of ''</'' @ name @ bytes_of ''>'' in
                 if StringEqual (d # u) endTag False then Some (Element name attrs nodes, advance (length endTag) (At (d # u)), err)
                 else Some (Element name attrs nodes, Null, True)
             | Wild \<Rightarrow> None
             | _ \<Rightarrow> Some (Element name attrs nodes, Null, err) } }
     | _ \<Rightarrow> Some (Element name [] [], Null, True) }"
| "read_value 0 e p nodes = None"
| "read_value (Suc n) e p nodes = do {
     p1 \<leftarrow> SkipWhiteSpace e p;
     case p1 of At (c # s) \<Rightarrow>
         if c \<noteq> 60 then do {
           (t, p2) \<leftarrow> Text_Parse e (c # s);
           read_value n e p2 (if Blank t then nodes else nodes @ [Text False t]) }
         else if StringEqual (c # s) (bytes_of ''</'') False then Some (nodes, At (c # s), False)
         else do {
           (node, p2, err) \<leftarrow> (let k = Identify (c # s) in
              if k = K_element then elem_parse n e (c # s) else leaf_parse e k (c # s));
           (nodes', p3, err') \<leftarrow> read_value n e p2 (nodes @ [node]);
           Some (nodes', p3, err \<or> err') }
     | Wild \<Rightarrow> None
     | p0 \<Rightarrow> Some (nodes, p0, p0 = Null) }"

section \<open>Documents\<close>

definition declared_encoding :: "buffer \<Rightarrow> encoding" where
  "declared_encoding enc =
     (if enc = [] \<or> StringEqual enc (bytes_of ''UTF-8'') True \<or> StringEqual enc (bytes_of ''UTF8'') True then ENCODING_UTF8
      else ENCODING_LEGACY)"

definition next_encoding :: "encoding \<Rightarrow> xml_node \<Rightarrow> encoding" where
  "next_encoding e node =
     (case node of Declaration ver enc std \<Rightarrow> if e = ENCODING_UNKNOWN then declared_encoding enc else e | _ \<Rightarrow> e)"

fun document_loop :: "nat \<Rightarrow> encoding \<Rightarrow> ptr \<Rightarrow> xml_node list \<Rightarrow> bool \<Rightarrow> (xml_node list \<times> bool) option" where
  "document_loop 0 e p nodes error = None"
| "document_loop (Suc n) e p nodes error =
     (case p of At (c # s) \<Rightarrow>
         if c \<noteq> 60 then Some (nodes, error)
         else do {
           (node, p1, err) \<leftarrow> (let k = Identify (c # s) in
              if k = K_element then elem_parse n e (c # s) else leaf_parse e k (c # s));
           let e1 = next_encoding e node;
           p2 \<leftarrow> SkipWhiteSpace e1 p1;
           document_loop n e1 p2 (nodes @ [node]) (error \<or> err) }
     | Wild \<Rightarrow> None
     | _ \<Rightarrow> Some (nodes, error))"

definition failed_document :: document where
  "failed_document = \<lparr>d_nodes = [], d_bom = False, d_error = True\<rparr>"

definition parse_fuel :: "buffer \<Rightarrow> nat" where
  "parse_fuel p = 2 * length p + 3"

definition Document_Parse :: "buffer \<Rightarrow> document option" where
  "Document_Parse p =
     (if p = [] then Some failed_document
      else (let bom = (take 3 p = [0xEF, 0xBB, 0xBF]); e = (if bom then ENCODING_UTF8 else ENCODING_UNKNOWN) in do {
        p1 \<leftarrow> SkipWhiteSpace e (At p);
        (nodes, err) \<leftarrow> document_loop (parse_fuel p) e p1 [] False;
        Some \<lparr>d_nodes = nodes, d_bom = bom, d_error = err \<or> nodes = []\<rparr> }))"

text \<open>Ends of lines become single line feeds.\<close>

fun norm_eol :: "buffer \<Rightarrow> buffer" where
  "norm_eol [] = []"
| "norm_eol (c # s) = (if c = 13 then 10 # (if take 1 s = [10] then norm_eol (tl s) else norm_eol s) else c # norm_eol s)"

definition LoadFile :: "buffer option \<Rightarrow> document option" where
  "LoadFile file =
     (case file of None \<Rightarrow> Some failed_document
      | Some buf \<Rightarrow> if buf = [] then Some failed_document else Document_Parse (norm_eol (c_str buf)))"

section \<open>Printing\<close>

definition hex_upper_digit :: "int \<Rightarrow> uchar" where
  "hex_upper_digit v = uchar_of (if v < 10 then 48 + v else 55 + v)"

definition put_char :: "uchar \<Rightarrow> buffer" where
  "put_char c =
     (if c = 38 then bytes_of ''&amp;''
      else if c = 60 then bytes_of ''&lt;''
      else if c = 62 then bytes_of ''&gt;''
      else if c = 34 then bytes_of ''&quot;''
      else if c = 39 then bytes_of ''&apos;''
      else if c < 32 then bytes_of ''&#x'' @ [hex_upper_digit (uint c div 16), hex_upper_digit (uint c mod 16), 59]
      else [c])"

text \<open>What looks like a hexadecimal character reference is passed through up to its semicolon, or up to the
  last character.\<close>

function PutString :: "buffer \<Rightarrow> buffer" where
  "PutString s = (case s of [] \<Rightarrow> []
     | c # r \<Rightarrow>
         if c = 38 \<and> take 2 r = [35, 120]
         then (let n = min (Suc (length (takeWhile (\<lambda>c. c \<noteq> 59) r))) (length r) in take n s @ PutString (drop n s))
         else put_char c @ PutString r)"
  by pat_completeness auto

termination
  by (relation "measure length") (auto simp: min_def)

declare PutString.simps [simp del]

text \<open>\<open>find\<close> of the string class of the library stops at a zero.\<close>

definition print_attribute :: "buffer \<times> buffer \<Rightarrow> buffer" where
  "print_attribute = (\<lambda>(name, v).
     let q = (if 34 \<in> set (c_str v) then 39 else 34) in c_str (PutString name) @ [61, q] @ c_str (PutString v) @ [q])"

definition indent :: "nat \<Rightarrow> buffer" where
  "indent depth = replicate (4 * depth) 32"

fun is_text :: "xml_node \<Rightarrow> bool" where
  "is_text (Text cdata v) = True"
| "is_text _ = False"

definition print_part :: "string \<Rightarrow> buffer \<Rightarrow> buffer" where
  "print_part name v = (if v \<noteq> [] then bytes_of name @ [61, 34] @ c_str v @ [34, 32] else [])"

definition Comment_Print :: "nat \<Rightarrow> buffer \<Rightarrow> buffer" where
  [simp]: "Comment_Print depth v = indent depth @ bytes_of ''<!--'' @ c_str v @ bytes_of ''-->''"

definition Unknown_Print :: "nat \<Rightarrow> buffer \<Rightarrow> buffer" where
  [simp]: "Unknown_Print depth v = indent depth @ bytes_of ''<'' @ c_str v @ bytes_of ''>''"

definition Text_Print :: "nat \<Rightarrow> bool \<Rightarrow> buffer \<Rightarrow> buffer" where
  [simp]: "Text_Print depth cdata v =
     (if cdata then [10] @ indent depth @ bytes_of ''<![CDATA['' @ c_str v @ bytes_of '']]>'' @ [10] else c_str (PutString v))"

definition Declaration_Print :: "buffer \<Rightarrow> buffer \<Rightarrow> buffer \<Rightarrow> buffer" where
  [simp]: "Declaration_Print ver enc std =
     bytes_of ''<?xml '' @ print_part ''version'' ver @ print_part ''encoding'' enc @ print_part ''standalone'' std @ bytes_of ''?>''"

fun print_node :: "nat \<Rightarrow> xml_node \<Rightarrow> buffer" where
  "print_node depth (Element name attrs nodes) =
     indent depth @ bytes_of ''<'' @ c_str name @ concat (map (\<lambda>a. 32 # print_attribute a) attrs) @
     (if nodes = [] then bytes_of '' />''
      else if length nodes = 1 \<and> list_all is_text nodes
        then bytes_of ''>'' @ concat (map (print_node (Suc depth)) nodes) @ bytes_of ''</'' @ c_str name @ bytes_of ''>''
      else bytes_of ''>'' @ concat (map (\<lambda>n. (if is_text n then [] else [10]) @ print_node (Suc depth) n) nodes)
        @ [10] @ indent depth @ bytes_of ''</'' @ c_str name @ bytes_of ''>'')"
| "print_node depth (Comment v) = Comment_Print depth v"
| "print_node depth (Unknown v) = Unknown_Print depth v"
| "print_node depth (Text cdata v) = Text_Print depth cdata v"
| "print_node depth (Declaration ver enc std) = Declaration_Print ver enc std"

definition Document_Print :: "document \<Rightarrow> buffer" where
  "Document_Print d = concat (map (\<lambda>n. print_node 0 n @ [10]) (d_nodes d))"

text \<open>The file is opened for text, so that on Windows a line feed becomes two characters.\<close>

definition text_out :: "bool \<Rightarrow> buffer \<Rightarrow> buffer" where
  "text_out win32 s = (if win32 then concat (map (\<lambda>c. if c = 10 then [13, 10] else [c]) s) else s)"

definition SaveFile :: "bool \<Rightarrow> document \<Rightarrow> buffer" where
  "SaveFile win32 d = text_out win32 ((if d_bom d then [0xEF, 0xBB, 0xBF] else []) @ Document_Print d)"

section \<open>Elements and attributes\<close>

fun is_element :: "xml_node \<Rightarrow> bool" where
  "is_element (Element name attrs nodes) = True"
| "is_element _ = False"

definition RootElement :: "document \<Rightarrow> xml_node option" where
  "RootElement d = find is_element (d_nodes d)"

text \<open>The children that a loop over \<open>FirstChildElement\<close> and \<open>NextSiblingElement\<close> visits.\<close>

fun child_elements :: "xml_node \<Rightarrow> xml_node list" where
  "child_elements (Element name attrs nodes) = filter is_element nodes"
| "child_elements _ = []"

fun Attribute :: "buffer \<Rightarrow> xml_node \<Rightarrow> buffer option" where
  "Attribute name (Element n attrs nodes) = map_option c_str (attr_find name attrs)"
| "Attribute name _ = None"

fun SetAttribute :: "buffer \<Rightarrow> buffer \<Rightarrow> xml_node \<Rightarrow> xml_node" where
  "SetAttribute name v (Element n attrs nodes) = Element n (attr_set name (c_str v) attrs) nodes"
| "SetAttribute name v x = x"

section \<open>The parser ends\<close>

text \<open>Every part of the parser leaves less text than it was given, so that the counters never run out.\<close>

lemma read_condensed_length:
  "read_condensed e endTag w p = Some (t, At r) \<Longrightarrow> length r \<le> length p"
proof (induction e endTag w p arbitrary: t rule: read_condensed.induct)
  case (1 e endTag w p)
  show ?case
  proof (cases "p = [] \<or> StringEqual p endTag False")
    case True
    then show ?thesis using 1(3) by (simp add: read_condensed.simps [of e endTag w p])
  next
    case False
    note ne = False
    show ?thesis
    proof (cases "IsWhiteSpace (hd p)")
      case True
      then have "read_condensed e endTag True (tl p) = Some (t, At r)"
        using 1(3) ne by (simp add: read_condensed.simps [of e endTag w p])
      then show ?thesis using 1(1) [OF ne True] by fastforce
    next
      case False
      obtain cs q where q: "GetChar e p = (cs, q)" by (cases "GetChar e p")
      then obtain s where s: "q = At s"
        using 1(3) ne False by (cases q) (simp_all add: read_condensed.simps [of e endTag w p])
      then have "length s < length p" using GetChar_shorter [of p e cs s] q ne by simp
      moreover obtain u where "read_condensed e endTag False s = Some (u, At r)"
        using 1(3) ne False q s by (auto simp: read_condensed.simps [of e endTag w p])
      ultimately show ?thesis using 1(2) [OF ne False refl q [symmetric] s] by fastforce
    qed
  qed
qed

lemma read_condensed_shorter:
  assumes "read_condensed e [60] False (skip_white e (c # s)) = Some (t, At r)" "c \<noteq> 60" "\<not> IsWhiteSpace c"
    "skip_white e (c # s) = c # s"
  shows "length r < length (c # s)"
proof -
  have ne: "\<not> (c # s = [] \<or> StringEqual (c # s) [60] False)" using assms(2) by (simp add: StringEqual_def)
  obtain cs q where q: "GetChar e (c # s) = (cs, q)" by (cases "GetChar e (c # s)")
  then obtain v where v: "q = At v"
    using assms ne by (cases q) (simp_all add: read_condensed.simps [of e "[60]" False "c # s"])
  have "length v < length (c # s)" using GetChar_shorter [of "c # s" e cs v] q v by simp
  moreover obtain u where "read_condensed e [60] False v = Some (u, At r)"
    using assms ne q v by (auto simp: read_condensed.simps [of e "[60]" False "c # s"])
  ultimately show ?thesis using read_condensed_length [of e "[60]" False v u r] by simp
qed

lemma attr_loop_length:
  "attr_loop e attrs p = Some (as, t) \<Longrightarrow> t \<in> {Tag_empty r, Tag_open r} \<Longrightarrow> length r < length p"
proof (induction e attrs p rule: attr_loop.induct)
  case (1 e attrs p)
  show ?case
  proof (cases "skip_white e p")
    case Nil
    then show ?thesis using 1(2,3) by (auto simp: attr_loop.simps [of e attrs p])
  next
    case (Cons c s)
    note len = skip_white_Cons [OF Cons]
    show ?thesis
    proof (cases "c = 47 \<or> c = 62")
      case True
      then show ?thesis using 1(2,3) Cons len by (auto simp: attr_loop.simps [of e attrs p] split: if_splits)
    next
      case False
      obtain a x u err where a: "attr_parse e (At (c # s)) = Some (a, At (x # u), err)" "attr_find (fst a) attrs = None"
        "attr_loop e (attrs @ [a]) (x # u) = Some (as, t)"
        using 1(2,3) Cons False
        by (auto simp: attr_loop.simps [of e attrs p] split: option.splits prod.splits ptr.splits list.splits if_splits)
      have "length r < length (x # u)"
        using "1.IH" [OF Cons _ _ a(1) refl refl refl refl _ a(3) 1(3)] False a(2) by simp
      then show ?thesis using attr_parse_shorter [OF a(1)] len by simp
    qed
  qed
qed

lemma decl_loop_length: "decl_loop e d p = Some (x, At r) \<Longrightarrow> length r \<le> length p"
proof (induction e d p rule: decl_loop.induct)
  case (1 e d p)
  show ?case
  proof (cases "p = [] \<or> hd p = 62")
    case True
    then show ?thesis using 1(3) by (subst (asm) decl_loop.simps) (auto split: if_splits)
  next
    case False
    then have ne: "p \<noteq> []" "hd p \<noteq> 62" by auto
    let ?s = "skip_white e p"
    show ?thesis
    proof (cases "decl_store ?s d")
      case None
      then have "decl_loop e d (dropWhile (\<lambda>c. c \<noteq> 62 \<and> \<not> IsWhiteSpace c) ?s) = Some (x, At r)"
        using 1(3) ne by (simp add: decl_loop.simps [of e d p])
      then have "length r \<le> length (dropWhile (\<lambda>c. c \<noteq> 62 \<and> \<not> IsWhiteSpace c) ?s)"
        by (rule 1(1) [OF ne None])
      then show ?thesis using decl_skip_shorter [OF ne, of e] by simp
    next
      case (Some put)
      then obtain a q err where a: "attr_parse e (At ?s) = Some (a, At q, err)" "decl_loop e (put (c_str (snd a))) q = Some (x, At r)"
        using 1(3) ne by (auto simp: decl_loop.simps [of e d p] split: option.splits prod.splits ptr.splits)
      have "length r \<le> length q" by (rule 1(2) [OF ne Some a(1) refl refl refl a(2)])
      then show ?thesis using attr_parse_shorter [OF a(1)] skip_white_length [of e p] by simp
    qed
  qed
qed

lemma cdata_split_length: "length (snd (cdata_split p)) \<le> length p"
  by (induction p) (auto simp: Let_def split: prod.splits)

lemma StringEqual_length: "StringEqual p tag c \<Longrightarrow> length tag \<le> length p"
  by (auto simp: StringEqual_def min_def split: if_splits dest: arg_cong [where f = length])

lemma leaf_parse_shorter:
  assumes "leaf_parse e k p = Some (x, At r, err)" "p \<noteq> []" "k = Identify p" "k \<noteq> K_element"
  shows "length r < length p"
proof (cases k)
  case K_declaration
  then have "StringEqual p (bytes_of ''<?xml'') True" using assms(3) by (auto simp: Identify_def split: if_splits)
  then have "5 \<le> length p" by (auto dest: StringEqual_length)
  moreover obtain d where "decl_loop e ([], [], []) (drop 5 p) = Some (d, At r)" using assms(1) K_declaration by auto
  ultimately show ?thesis using decl_loop_length by fastforce
next
  case K_comment
  then have "StringEqual p (bytes_of ''<!--'') False" using assms(3) by (auto simp: Identify_def split: if_splits)
  then have "4 \<le> length p" by (auto dest: StringEqual_length)
  moreover obtain t where "ReadText e (bytes_of ''-->'') (drop 4 p) = Some (t, At r)" using assms(1) K_comment by auto
  ultimately show ?thesis using ReadText_length by fastforce
next
  case K_cdata
  then have "StringEqual p (bytes_of ''<![CDATA['') False" using assms(3) by (auto simp: Identify_def split: if_splits)
  then have "9 \<le> length p" by (auto dest: StringEqual_length)
  moreover obtain t where "ReadText e (bytes_of '']]>'') (snd (cdata_split (drop 9 p))) = Some (t, At r)"
    using assms(1) K_cdata by (auto simp: Let_def split: prod.splits)
  ultimately show ?thesis using ReadText_length cdata_split_length [of "drop 9 p"] by fastforce
next
  case K_unknown
  then have "r = drop 1 (dropWhile (\<lambda>c. c \<noteq> 62) (tl p))" using assms(1) by (simp add: Let_def)
  then have "length r \<le> length (tl p)" using length_dropWhile_le [of "\<lambda>c. c \<noteq> 62" "tl p"] by simp
  then show ?thesis using assms(2) by (cases p) auto
qed (use assms in simp)

lemma skip_white_idem: "skip_white e p = c # s \<Longrightarrow> skip_white e (c # s) = c # s"
proof (cases "e = ENCODING_UTF8")
  case True
  have "skip_utf8 p = c # s \<Longrightarrow> skip_utf8 (c # s) = c # s"
  proof (induction p rule: skip_utf8.induct)
    case (1 p)
    show ?case
    proof (cases p)
      case (Cons b t)
      show ?thesis
      proof (cases "byte_order_mark p \<or> IsWhiteSpace b")
        case True
        then show ?thesis using 1 Cons by (auto simp: skip_utf8.simps [of "b # t"] split: if_splits)
      next
        case False
        then have "skip_utf8 p = p" by (simp add: skip_utf8.simps [of "b # t"] Cons)
        then show ?thesis using 1(3) by simp
      qed
    qed (use 1(3) in \<open>simp add: skip_utf8.simps [of "[]"]\<close>)
  qed
  then show "skip_white e p = c # s \<Longrightarrow> skip_white e (c # s) = c # s" using True by (simp add: skip_white_def)
next
  case False
  then show "skip_white e p = c # s \<Longrightarrow> skip_white e (c # s) = c # s"
    by (auto simp: skip_white_def dropWhile_eq_Cons_conv)
qed

fun ptr_length :: "ptr \<Rightarrow> nat" where
  "ptr_length (At s) = length s"
| "ptr_length _ = 0"

text \<open>One node, element or not.\<close>

definition node_parse :: "nat \<Rightarrow> encoding \<Rightarrow> buffer \<Rightarrow> (xml_node \<times> ptr \<times> bool) option" where
  "node_parse n e p = (let k = Identify p in if k = K_element then elem_parse n e p else leaf_parse e k p)"

lemma node_parse_eq: "elem_parse n e p = elem_parse m e p \<Longrightarrow> node_parse n e p = node_parse m e p"
  by (simp add: node_parse_def Let_def)

lemma SkipWhiteSpace_At: "SkipWhiteSpace e p = Some (At (c # s)) \<Longrightarrow>
    \<exists>t. p = At t \<and> skip_white e (c # s) = c # s \<and> \<not> IsWhiteSpace c \<and> length (c # s) \<le> length t"
proof (cases p)
  case (At t)
  assume "SkipWhiteSpace e p = Some (At (c # s))"
  then have "skip_white e t = c # s" using At by (simp split: if_splits)
  then show ?thesis using At skip_white_idem skip_white_head skip_white_length [of e t] by simp
qed simp_all

lemma read_value_text:
  "SkipWhiteSpace e p = Some (At (c # s)) \<Longrightarrow> c \<noteq> 60 \<Longrightarrow> read_value (Suc n) e p nodes = do {
     (t, p2) \<leftarrow> read_condensed e [60] False (c # s);
     read_value n e p2 (if list_all IsWhiteSpace t then nodes else nodes @ [Text False t]) }"
  using SkipWhiteSpace_At [of e p c s] by auto

lemma read_value_end:
  "SkipWhiteSpace e p = Some (At (60 # s)) \<Longrightarrow> StringEqual (60 # s) (bytes_of ''</'') False \<Longrightarrow>
     read_value (Suc n) e p nodes = Some (nodes, At (60 # s), False)"
  by simp

lemma read_value_node:
  "SkipWhiteSpace e p = Some (At (60 # s)) \<Longrightarrow> \<not> StringEqual (60 # s) (bytes_of ''</'') False \<Longrightarrow>
     read_value (Suc n) e p nodes = do {
       (node, p2, err) \<leftarrow> node_parse n e (60 # s);
       (nodes', p3, err') \<leftarrow> read_value n e p2 (nodes @ [node]);
       Some (nodes', p3, err \<or> err') }"
  by (simp add: node_parse_def)

lemma elem_parse_Suc:
  assumes "elem_parse (Suc n) e p = Some (x, At r, err)" "p \<noteq> []"
    and rec: "\<And>s ns u b. read_value n e (At s) [] = Some (ns, At u, b) \<Longrightarrow> length u \<le> length s"
  shows "length r < length p"
proof -
  obtain p1 name p2 where p: "SkipWhiteSpace e (At (tl p)) = Some p1" "ReadName p1 = Some (name, p2)"
    using assms(1) by (auto split: bind_splits)
  obtain c s where c: "p2 = At (c # s)" using assms(1) p by (auto split: ptr.splits list.splits)
  obtain s1 where s1: "p1 = At s1" using p(2) c by (cases p1) auto
  have l: "length (c # s) < length p"
    using SkipWhiteSpace_length [of e "tl p" s1] ReadName_shorter [of s1 name "c # s"] p c s1 assms(2) by (cases p) auto
  obtain attrs t where t: "attr_loop e [] (c # s) = Some (attrs, t)" using assms(1) p c by (auto split: bind_splits)
  show ?thesis
  proof (cases t)
    case (Tag_empty q)
    then show ?thesis using assms(1) p c t attr_loop_length [OF t, of q] l by simp
  next
    case (Tag_open q)
    then obtain ns d u b where u: "read_value n e (At q) [] = Some (ns, At (d # u), b)" "advance (length (bytes_of ''</'' @ name @ bytes_of ''>'')) (At (d # u)) = At r"
      using assms(1) p c t by (auto simp: Let_def simp del: advance.simps split: bind_splits ptr.splits list.splits if_splits)
    then have "length r \<le> length (d # u)" using advance_length by blast
    then show ?thesis using rec [OF u(1)] attr_loop_length [OF t, of q] Tag_open l by simp
  qed (use assms(1) p c t in simp)
qed

lemma node_parse_shorter:
  assumes "\<And>x r err. elem_parse n e (c # s) = Some (x, At r, err) \<Longrightarrow> length r < length (c # s)"
    and "node_parse n e (c # s) = Some (x, q, b)"
  shows "ptr_length q < length (c # s)"
proof (cases q)
  case (At r)
  show ?thesis
  proof (cases "Identify (c # s) = K_element")
    case True
    then show ?thesis using assms(1) [of x r b] assms(2) At by (simp add: node_parse_def)
  next
    case False
    then show ?thesis using assms(2) At leaf_parse_shorter [of e "Identify (c # s)" "c # s" x r b] by (simp add: node_parse_def)
  qed
qed simp_all

lemma parse_shorter:
  "(\<forall>e p x r err. elem_parse n e p = Some (x, At r, err) \<longrightarrow> p \<noteq> [] \<longrightarrow> length r < length p)
   \<and> (\<forall>e q ns ns' r err. read_value n e q ns = Some (ns', At r, err) \<longrightarrow> length r \<le> ptr_length q)"
proof (induction n)
  case (Suc n)
  have el: "length r < length p" if "elem_parse (Suc n) e p = Some (x, At r, err)" "p \<noteq> []" for e p x r err
    by (rule elem_parse_Suc [OF that]) (use Suc.IH in fastforce)
  have rv: "length r \<le> ptr_length q" if v: "read_value (Suc n) e q ns = Some (ns', At r, err)" for e q ns ns' r err
  proof -
    obtain q1 where q1: "SkipWhiteSpace e q = Some q1" using v by (auto split: bind_splits)
    show ?thesis
    proof (cases "\<exists>c s. q1 = At (c # s)")
      case False
      then show ?thesis using v q1 by (cases q1) (auto split: list.splits)
    next
      case True
      then obtain c s where c: "q1 = At (c # s)" by blast
      then obtain t where t: "q = At t" "skip_white e (c # s) = c # s" "\<not> IsWhiteSpace c" "length (c # s) \<le> length t"
        using SkipWhiteSpace_At [of e q c s] q1 by blast
      consider "c \<noteq> 60" | "c = 60" "StringEqual (c # s) (bytes_of ''</'') False" | "c = 60" "\<not> StringEqual (c # s) (bytes_of ''</'') False"
        by blast
      then show ?thesis
      proof cases
        case 1
        then obtain w q2 ns2 where w: "read_condensed e [60] False (c # s) = Some (w, q2)" "read_value n e q2 ns2 = Some (ns', At r, err)"
          using v read_value_text [of e q c s n ns] q1 c 1 by (auto simp del: read_value.simps SkipWhiteSpace.simps split: bind_splits)
        then have "length r \<le> ptr_length q2" using Suc.IH by blast
        moreover have "ptr_length q2 < length (c # s)"
          using read_condensed_shorter [of e c s w] w(1) 1 t(2,3) by (cases q2) auto
        ultimately show ?thesis using t by simp
      next
        case 2
        then have "r = c # s" using v q1 c by simp
        then show ?thesis using t by simp
      next
        case 3
        have v': "node_parse n e (c # s) \<bind> (\<lambda>(node, p2, err). read_value n e p2 (ns @ [node]) \<bind>
            (\<lambda>(nodes', p3, err'). Some (nodes', p3, err \<or> err'))) = Some (ns', At r, err)"
          using v read_value_node [of e q s n ns] q1 c 3 by (simp del: read_value.simps SkipWhiteSpace.simps)
        then obtain x q2 b where x1: "node_parse n e (c # s) = Some (x, q2, b)" by (auto split: bind_splits)
        then obtain b' where x2: "read_value n e q2 (ns @ [x]) = Some (ns', At r, b')" using v' by (auto split: bind_splits)
        note x = x1 x2
        then have "length r \<le> ptr_length q2" using Suc.IH by blast
        moreover have "ptr_length q2 < length (c # s)"
          by (rule node_parse_shorter [OF _ x(1)]) (use Suc.IH in fastforce)+
        ultimately show ?thesis using t by simp
      qed
    qed
  qed
  show ?case using el rv by blast
qed simp

lemma elem_parse_cong:
  assumes "\<And>r. length r < length p \<Longrightarrow> read_value n e (At r) [] = read_value m e (At r) []"
  shows "elem_parse (Suc n) e p = elem_parse (Suc m) e p"
proof -
  have "read_value n e (At r) [] = read_value m e (At r) []"
    if h: "SkipWhiteSpace e (At (tl p)) = Some p1" "ReadName p1 = Some (name, At (c # s))" "attr_loop e [] (c # s) = Some (attrs, Tag_open r)"
    for p1 name c s attrs r
  proof -
    obtain s1 where s1: "p1 = At s1" using h(2) by (cases p1) auto
    have "length s1 \<le> length (tl p)" using SkipWhiteSpace_length [of e "tl p" s1] h(1) s1 by simp
    moreover have "length (c # s) < length s1" using ReadName_shorter [of s1 name "c # s"] h(2) s1 by simp
    ultimately show ?thesis using assms [of r] attr_loop_length [OF h(3), of r] by simp
  qed
  then show ?thesis
    by (auto simp del: SkipWhiteSpace.simps ReadName.simps intro!: Option.bind_cong split: ptr.splits list.splits tag_end.splits)
qed

lemma read_value_cong:
  assumes "\<And>c s. length (c # s) \<le> ptr_length q \<Longrightarrow> node_parse n e (c # s) = node_parse m e (c # s)"
    and "\<And>q' ns. ptr_length q' < ptr_length q \<Longrightarrow> read_value n e q' ns = read_value m e q' ns"
  shows "read_value (Suc n) e q ns = read_value (Suc m) e q ns"
proof (cases "\<exists>c s. SkipWhiteSpace e q = Some (At (c # s))")
  case False
  then show ?thesis by (cases "SkipWhiteSpace e q") (auto simp del: SkipWhiteSpace.simps split: ptr.splits list.splits)
next
  case True
  then obtain c s where q: "SkipWhiteSpace e q = Some (At (c # s))" by blast
  then have t: "skip_white e (c # s) = c # s" "\<not> IsWhiteSpace c" "length (c # s) \<le> ptr_length q"
    using SkipWhiteSpace_At [of e q c s] by auto
  show ?thesis
  proof (cases "c = 60")
    case False
    have "read_value n e q2 ns' = read_value m e q2 ns'" if "read_condensed e [60] False (c # s) = Some (w, q2)" for w q2 ns'
      using assms(2) [of q2] read_condensed_shorter [of e c s w] that t False by (cases q2) auto
    then show ?thesis unfolding read_value_text [OF q False] by (intro Option.bind_cong) auto
  next
    case True
    show ?thesis
    proof (cases "StringEqual (60 # s) (bytes_of ''</'') False")
      case True
      then show ?thesis using q \<open>c = 60\<close> read_value_end by simp
    next
      case False
      have "read_value n e q2 ns' = read_value m e q2 ns'" if "node_parse m e (60 # s) = Some (x, q2, b)" for x q2 b ns'
      proof -
        have "ptr_length q2 < length (60 # s)"
          by (rule node_parse_shorter [OF _ that]) (use parse_shorter [of m] in blast)
        then show ?thesis using assms(2) [of q2] t(3) \<open>c = 60\<close> by simp
      qed
      moreover have "node_parse n e (60 # s) = node_parse m e (60 # s)" using assms(1) [of 60 s] t(3) \<open>c = 60\<close> by simp
      moreover have q': "SkipWhiteSpace e q = Some (At (60 # s))" using q \<open>c = 60\<close> by simp
      ultimately show ?thesis unfolding read_value_node [OF q' False] by (intro Option.bind_cong) auto
    qed
  qed
qed

lemma fuel_irrelevant:
  "(\<forall>e p n m. length p \<le> L \<longrightarrow> 2 * L + 1 \<le> n \<longrightarrow> 2 * L + 1 \<le> m \<longrightarrow> elem_parse n e p = elem_parse m e p)
   \<and> (\<forall>e q ns n m. ptr_length q \<le> L \<longrightarrow> 2 * L + 2 \<le> n \<longrightarrow> 2 * L + 2 \<le> m \<longrightarrow> read_value n e q ns = read_value m e q ns)"
proof (induction L)
  case 0
  have el: "elem_parse n e [] = elem_parse m e []" if "1 \<le> n" "1 \<le> m" for n m e
  proof -
    have "elem_parse (Suc (n - 1)) e [] = elem_parse (Suc (m - 1)) e []" by (rule elem_parse_cong) simp
    then show ?thesis using that by (simp del: elem_parse.simps)
  qed
  have rv: "read_value n e q ns = read_value m e q ns" if "ptr_length q = 0" "1 \<le> n" "1 \<le> m" for n m e q ns
  proof -
    have "read_value (Suc (n - 1)) e q ns = read_value (Suc (m - 1)) e q ns" by (rule read_value_cong) (use that(1) in simp_all)
    then show ?thesis using that by (simp del: read_value.simps)
  qed
  show ?case
  proof (intro conjI allI impI)
    fix e and n m :: nat and p :: buffer
    assume "length p \<le> 0" "2 * 0 + 1 \<le> n" "2 * 0 + 1 \<le> m"
    then have "p = []" "1 \<le> n" "1 \<le> m" by auto
    then show "elem_parse n e p = elem_parse m e p" using el by blast
  next
    fix e q ns and n m :: nat
    assume "ptr_length q \<le> 0" "2 * 0 + 2 \<le> n" "2 * 0 + 2 \<le> m"
    then have "ptr_length q = 0" "1 \<le> n" "1 \<le> m" by auto
    then show "read_value n e q ns = read_value m e q ns" by (rule rv)
  qed
next
  case (Suc L)
  have el: "elem_parse n e p = elem_parse m e p" if h: "length p \<le> Suc L" "2 * Suc L + 1 \<le> n" "2 * Suc L + 1 \<le> m" for n m e p
  proof -
    have "read_value (n - 1) e (At r) [] = read_value (m - 1) e (At r) []" if "length r < length p" for r
      using Suc.IH h that by simp
    from elem_parse_cong [of p "n - 1" e "m - 1", OF this] show ?thesis using h by (simp del: elem_parse.simps)
  qed
  have rv: "read_value n e q ns = read_value m e q ns" if h: "ptr_length q \<le> Suc L" "2 * Suc L + 2 \<le> n" "2 * Suc L + 2 \<le> m" for n m e q ns
  proof -
    have "node_parse (n - 1) e (c # s) = node_parse (m - 1) e (c # s)" if "length (c # s) \<le> ptr_length q" for c s
      by (rule node_parse_eq, rule el) (use h that in auto)
    moreover have "read_value (n - 1) e q' ns' = read_value (m - 1) e q' ns'" if "ptr_length q' < ptr_length q" for q' ns'
      using Suc.IH h that by simp
    ultimately have "read_value (Suc (n - 1)) e q ns = read_value (Suc (m - 1)) e q ns" by (rule read_value_cong)
    then show ?thesis using h by (simp del: read_value.simps)
  qed
  show ?case using el rv by blast
qed

lemma node_parse_fuel:
  "length (c # s) \<le> L \<Longrightarrow> 2 * L + 1 \<le> n \<Longrightarrow> 2 * L + 1 \<le> m \<Longrightarrow> node_parse n e (c # s) = node_parse m e (c # s)"
  by (rule node_parse_eq) (use fuel_irrelevant [of L] in blast)

lemma SkipWhiteSpace_ptr_length: "SkipWhiteSpace e p = Some q \<Longrightarrow> ptr_length q \<le> ptr_length p"
  using skip_white_length by (cases p) (auto split: if_splits)

lemma document_loop_node:
  "document_loop (Suc n) e (At (60 # s)) nodes error = do {
     (node, p1, err) \<leftarrow> node_parse n e (60 # s);
     p2 \<leftarrow> SkipWhiteSpace (next_encoding e node) p1;
     document_loop n (next_encoding e node) p2 (nodes @ [node]) (error \<or> err) }"
  by (simp add: node_parse_def Let_def)

lemma document_loop_fuel:
  "ptr_length p \<le> L \<Longrightarrow> 2 * L + 2 \<le> n \<Longrightarrow> 2 * L + 2 \<le> m \<Longrightarrow>
     document_loop n e p nodes error = document_loop m e p nodes error"
proof (induction L arbitrary: n m e p nodes error)
  case 0
  obtain n' m' where nm: "n = Suc n'" "m = Suc m'" using 0(2,3) by (cases n; cases m) auto
  show ?case using 0(1) unfolding nm by (cases p) simp_all
next
  case (Suc L)
  obtain n' m' where nm: "n = Suc n'" "m = Suc m'" using Suc.prems(2,3) by (cases n; cases m) auto
  show ?case
  proof (cases "\<exists>s. p = At (60 # s)")
    case False
    then show ?thesis unfolding nm by (cases p) (simp_all split: list.split)
  next
    case True
    then obtain s where s: "p = At (60 # s)" by blast
    have nd: "node_parse n' e (60 # s) = node_parse m' e (60 # s)"
      by (rule node_parse_fuel [of _ _ "Suc L"]) (use Suc.prems s nm in auto)
    have "document_loop n' e1 p2 ns b = document_loop m' e1 p2 ns b"
      if "node_parse m' e (60 # s) = Some (x, p1, err)" "SkipWhiteSpace e1 p1 = Some p2" for x p1 err e1 p2 ns b
    proof (rule Suc.IH)
      have "ptr_length p1 < length (60 # s)"
        by (rule node_parse_shorter [OF _ that(1)]) (use parse_shorter [of m'] in blast)
      then show "ptr_length p2 \<le> L" using SkipWhiteSpace_ptr_length [OF that(2)] Suc.prems(1) s by simp
    qed (use Suc.prems nm in auto)
    then show ?thesis unfolding s nm document_loop_node nd
      by (intro Option.bind_cong refl) (clarsimp simp del: document_loop.simps SkipWhiteSpace.simps, rule Option.bind_cong [OF refl], blast)
  qed
qed

text \<open>The counter of the document is enough: a larger one gives the same.\<close>

lemma parser_finishes:
  assumes "SkipWhiteSpace e (At p) = Some q" "parse_fuel p \<le> n"
  shows "document_loop n e q nodes error = document_loop (parse_fuel p) e q nodes error"
  by (rule document_loop_fuel [of _ "length p"])
     (use assms SkipWhiteSpace_ptr_length [OF assms(1)] in \<open>auto simp: parse_fuel_def\<close>)

end
