(* ===== verification/Xmlfile.thy ===== *)
theory Xmlfile
  imports Tinyxml
begin

text \<open>
  Files of the XML library: what the printer of \<open>Tinyxml.thy\<close> writes is what its parser reads, for documents of a
  declaration and elements with attributes, in every encoding, with and without a byte order mark and with the
  ends of lines of both platforms; and what it reads from such a file that is cut off.
\<close>

section \<open>Documents that are written and read back\<close>

definition xml_name :: "buffer \<Rightarrow> bool" where
  "xml_name n \<longleftrightarrow> n \<noteq> [] \<and> name_start (hd n) \<and> list_all (\<lambda>c. name_char c \<and> c < 127) n"

text \<open>A value: no zero bytes, nothing that looks like a hexadecimal character reference, and in UTF-8 no sequence that is
  cut off.\<close>

function text_ok :: "encoding \<Rightarrow> buffer \<Rightarrow> bool" where
  "text_ok e v = (case v of [] \<Rightarrow> True
     | c # r \<Rightarrow> (let n = (if e = ENCODING_UTF8 then utf8ByteTable c else 1) in
         c \<noteq> 0 \<and> take 3 v \<noteq> [38, 35, 120] \<and> n \<le> length v \<and> list_all (\<lambda>b. 128 \<le> b) (take (n - 1) r) \<and> text_ok e (drop n v)))"
  by pat_completeness auto

termination
  by (relation "measure (\<lambda>(e, v). length v)") (auto simp: utf8ByteTable_def)

declare text_ok.simps [simp del]

definition attrs_ok :: "encoding \<Rightarrow> (buffer \<times> buffer) list \<Rightarrow> bool" where
  "attrs_ok e attrs \<longleftrightarrow> distinct (map fst attrs) \<and> list_all (\<lambda>(n, v). xml_name n \<and> text_ok e v) attrs"

fun elem_ok :: "encoding \<Rightarrow> xml_node \<Rightarrow> bool" where
  "elem_ok e (Element n attrs nodes) \<longleftrightarrow> xml_name n \<and> attrs_ok e attrs \<and> list_all (elem_ok e) nodes"
| "elem_ok e _ = False"

section \<open>Text\<close>

lemma skip_white_blank:
  assumes "list_all (\<lambda>b. b = 10 \<or> b = 32) ws" "\<not> IsWhiteSpace c" "c \<noteq> 0xEF"
  shows "skip_white e (ws @ c # r) = c # r"
proof -
  have "skip_utf8 (ws @ c # r) = c # r" using assms(1)
  proof (induction ws)
    case Nil
    then show ?case using assms(2,3) by (simp add: skip_utf8.simps [of "c # r"] byte_order_mark_def)
  next
    case (Cons b ws)
    then have "b = 10 \<or> b = 32" "skip_utf8 (ws @ c # r) = c # r" by auto
    then show ?case by (auto simp: skip_utf8.simps [of "b # ws @ c # r"] byte_order_mark_def IsWhiteSpace_def)
  qed
  moreover have "dropWhile IsWhiteSpace (ws @ c # r) = c # r"
    using assms by (auto simp: dropWhile_append list_all_iff IsWhiteSpace_def)
  ultimately show ?thesis by (simp add: skip_white_def)
qed

lemma SkipWhiteSpace_blank:
  assumes "list_all (\<lambda>b. b = 10 \<or> b = 32) ws" "\<not> IsWhiteSpace c" "c \<noteq> 0xEF"
  shows "SkipWhiteSpace e (At (ws @ c # r)) = Some (At (c # r))"
  using skip_white_blank [OF assms] by simp

lemma xml_name_start:
  assumes "xml_name n"
  obtains c r where "n = c # r" "\<not> IsWhiteSpace c" "c \<noteq> 0xEF" "name_start c" "c \<notin> {33, 47, 60, 61, 62, 63}"
proof -
  from assms obtain c r where c: "n = c # r" "name_start c" "name_char c" "c < 127" by (cases n) (auto simp: xml_name_def)
  then have "\<not> IsWhiteSpace c" "c \<noteq> 0xEF" "c \<notin> {33, 47, 60, 61, 62, 63}"
    by (auto simp: name_start_def IsAlpha_def IsWhiteSpace_def word_le_nat_alt)
  with c show ?thesis using that by blast
qed

lemma ReadName_name:
  assumes "xml_name n" "\<not> name_char c"
  shows "ReadName (At (n @ c # r)) = Some (n, At (c # r))"
proof -
  obtain d s where d: "n = d # s" "name_start d" using xml_name_start [OF assms(1)] by metis
  have all: "\<forall>x\<in>set n. name_char x" using assms(1) by (auto simp: xml_name_def list_all_iff)
  have "takeWhile name_char (n @ c # r) = n" "dropWhile name_char (n @ c # r) = c # r"
    using all assms(2) by (simp_all add: takeWhile_append dropWhile_append)
  then show ?thesis using d by simp
qed

lemma hex_digit_upper: "0 \<le> v \<Longrightarrow> v < 16 \<Longrightarrow> hex_digit_value (hex_upper_digit v) = Some v \<and> hex_upper_digit v \<notin> {59, 120}"
proof -
  assume "0 \<le> v" "v < 16"
  then have "v \<in> set [0..15]" by simp
  moreover have "list_all (\<lambda>v. hex_digit_value (hex_upper_digit v) = Some v \<and> hex_upper_digit v \<notin> {59, 120}) [0..15]"
    by code_simp
  ultimately show ?thesis by (simp only: list_all_iff) blast
qed

lemma char_reference_put:
  assumes "c < 32"
  shows "char_reference e (38 # 35 # 120 # hex_upper_digit (uint c div 16) # hex_upper_digit (uint c mod 16) # 59 # rest) = ([c], At rest)"
proof -
  let ?a = "hex_upper_digit (uint c div 16)" and ?b = "hex_upper_digit (uint c mod 16)"
  have r: "0 \<le> uint c div 16" "uint c div 16 < 16" "0 \<le> uint c mod 16" "uint c mod 16 < 16" and c: "uint c < 32"
    using assms by (auto simp: word_less_def pos_imp_zdiv_nonneg_iff)
  have h: "hex_digit_value ?a = Some (uint c div 16)" "?a \<noteq> 59" "?a \<noteq> 120" "hex_digit_value ?b = Some (uint c mod 16)" "?b \<noteq> 59" "?b \<noteq> 120"
    using hex_digit_upper [OF r(1,2)] hex_digit_upper [OF r(3,4)] by auto
  have "u32 (u32 (uint c mod 16) + u32 (16 * (uint c div 16))) = uint c"
    using c r by (subst (2) u32_id, simp, simp, subst (2) u32_id, simp, simp, subst u32_id) simp_all
  then have "sum_digits hex_digit_value 16 [?b, ?a] 1 0 = Some (uint c)"
    using h by (simp add: u32_id)
  then show ?thesis
    using h c by (simp add: char_reference_def Let_def ConvertUTF32ToUTF8_def)
qed

lemma GetChar_put:
  assumes "e = ENCODING_UTF8 \<Longrightarrow> utf8ByteTable c = 1"
  shows "GetChar e (put_char c @ rest) = ([c], At rest)"
proof -
  consider "c \<in> {38, 60, 62, 34, 39}" | "c < 32" | "\<not> c < 32" "c \<notin> {38, 60, 62, 34, 39}" by blast
  then show ?thesis
  proof cases
    case 1
    then show ?thesis
      by (auto simp: put_char_def GetChar_def GetEntity_def entity_def bytes_of_def utf8ByteTable_def)
  next
    case 2
    then have "c \<notin> {38, 60, 62, 34, 39}" by auto
    then have "put_char c @ rest = 38 # 35 # 120 # hex_upper_digit (uint c div 16) # hex_upper_digit (uint c mod 16) # 59 # rest"
      using 2 by (simp add: put_char_def bytes_of_def)
    then show ?thesis using char_reference_put [OF 2, of e rest] by (auto simp: GetChar_def GetEntity_def utf8ByteTable_def)
  next
    case 3
    then show ?thesis using assms by (simp add: put_char_def GetChar_def)
  qed
qed

lemma put_char_head: "q \<in> {34, 39} \<Longrightarrow> \<not> StringEqual (put_char c @ rest) [q] False"
  by (auto simp: put_char_def StringEqual_def bytes_of_def)

lemma PutString_Nil [simp]: "PutString [] = []"
  by (simp add: PutString.simps [of "[]"])

lemma PutString_Cons: "take 3 (c # r) \<noteq> [38, 35, 120] \<Longrightarrow> PutString (c # r) = put_char c @ PutString r"
  by (auto simp: PutString.simps [of "c # r"] numeral_3_eq_3 numeral_2_eq_2)

lemma put_char_high: "128 \<le> c \<Longrightarrow> put_char c = [c]"
  by (auto simp: put_char_def word_le_nat_alt word_less_nat_alt)

lemma PutString_high: "list_all (\<lambda>b. 128 \<le> b) bs \<Longrightarrow> PutString (bs @ r) = bs @ PutString r"
proof (induction bs)
  case (Cons b bs)
  then have "take 3 (b # bs @ r) \<noteq> [38, 35, 120]" by auto
  then show ?case using Cons by (simp add: PutString_Cons put_char_high)
qed simp

text \<open>A value is read character by character: single bytes and, in UTF-8, sequences of high bytes.\<close>

lemma text_ok_induct [consumes 1, case_names Nil Char Sequence]:
  assumes "text_ok e v"
    and nil: "P []"
    and char: "\<And>c r. c \<noteq> 0 \<Longrightarrow> take 3 (c # r) \<noteq> [38, 35, 120] \<Longrightarrow> (e = ENCODING_UTF8 \<Longrightarrow> utf8ByteTable c = 1) \<Longrightarrow> P r \<Longrightarrow> P (c # r)"
    and seq: "\<And>xs r. e = ENCODING_UTF8 \<Longrightarrow> 1 < length xs \<Longrightarrow> utf8ByteTable (hd xs) = length xs \<Longrightarrow> list_all (\<lambda>b. 128 \<le> b) xs
      \<Longrightarrow> P r \<Longrightarrow> P (xs @ r)"
  shows "P v"
  using assms
proof (induction e v rule: text_ok.induct)
  case (1 e v)
  show ?case
  proof (cases v)
    case Nil
    then show ?thesis using 1(3) by simp
  next
    case (Cons c r)
    define n where "n = (if e = ENCODING_UTF8 then utf8ByteTable c else 1)"
    have ok: "c \<noteq> 0" "take 3 (c # r) \<noteq> [38, 35, 120]" "n \<le> length v" "list_all (\<lambda>b. 128 \<le> b) (take (n - 1) r)" "text_ok e (drop n v)"
      using 1(2) by (simp_all add: text_ok.simps [of e "c # r"] Cons n_def Let_def)
    have IH: "P (drop n v)" by (rule "1.IH" [OF Cons n_def ok(5) 1(3-5)])
    have n: "1 \<le> n" by (simp add: n_def utf8ByteTable_def)
    show ?thesis
    proof (cases "n = 1")
      case True
      have "utf8ByteTable c = 1" if "e = ENCODING_UTF8" using True that by (simp add: n_def)
      then show ?thesis using 1(4) [OF ok(1,2)] IH Cons True by simp
    next
      case False
      then have e: "e = ENCODING_UTF8" "1 < utf8ByteTable c" "n = utf8ByteTable c" using n by (auto simp: n_def split: if_splits)
      then have "128 \<le> c" by (auto simp: utf8ByteTable_def word_le_nat_alt word_less_nat_alt split: if_splits)
      moreover have "r \<noteq> []" using ok(3) e Cons by auto
      ultimately have "P ((c # take (n - 1) r) @ drop n v)"
        using 1(5) [of "c # take (n - 1) r" "drop n v"] e ok(3,4) IH Cons n by simp
      moreover have "(c # take (n - 1) r) @ drop n v = v" using Cons n by (cases n) auto
      ultimately show ?thesis by simp
    qed
  qed
qed

lemma read_keep_put:
  assumes "text_ok e v" "q \<in> {34, 39}"
  shows "read_keep e [q] (PutString v @ q # rest) = Some (v, At (q # rest))"
  using assms(1)
proof (induction rule: text_ok_induct)
  case Nil
  then show ?case by (simp add: read_keep_end StringEqual_def)
next
  case (Char c r)
  have g: "GetChar e (put_char c @ PutString r @ q # rest) = ([c], At (PutString r @ q # rest))"
    by (rule GetChar_put) (rule Char(3))
  show ?case using read_keep_char [OF _ _ g, of "[q]"] put_char_head [OF assms(2)] PutString_Cons [OF Char(2)] Char(4) by simp
next
  case (Sequence xs r)
  have g: "GetChar e (xs @ PutString r @ q # rest) = (xs, At (PutString r @ q # rest))"
    using Sequence(1-3) by (cases xs) (auto simp: GetChar_def Let_def)
  have "\<not> StringEqual (xs @ s) [q] False" "xs @ s \<noteq> []" for s
    using Sequence(2,4) assms(2) by (cases xs; auto simp: StringEqual_def)+
  then show ?case using read_keep_char [OF _ _ g, of "[q]"] PutString_high [OF Sequence(4)] Sequence(5) by simp
qed

text \<open>What is written contains neither zeros nor carriage returns.\<close>

definition printable :: "buffer \<Rightarrow> bool" where
  "printable s \<longleftrightarrow> 0 \<notin> set s \<and> 13 \<notin> set s"

lemma printable_simps [simp]:
  "printable []" "printable (c # s) \<longleftrightarrow> c \<noteq> 0 \<and> c \<noteq> 13 \<and> printable s" "printable (s @ t) \<longleftrightarrow> printable s \<and> printable t"
  by (auto simp: printable_def)

lemma printable_concat: "printable (concat ss) \<longleftrightarrow> (\<forall>s\<in>set ss. printable s)"
  by (auto simp: printable_def)

lemma printable_put_char: "c \<noteq> 0 \<Longrightarrow> printable (put_char c)"
proof -
  assume "c \<noteq> 0"
  have "0 \<le> x div 16 \<and> x div 16 < 16" if "0 \<le> x" "x < 256" for x :: int using that by presburger
  then have "0 \<le> uint c div 16" "uint c div 16 < 16" "0 \<le> uint c mod 16" "uint c mod 16 < 16"
    using uint_bounded [of c] by auto
  then have h: "hex_digit_value (hex_upper_digit (uint c div 16)) \<noteq> None" "hex_digit_value (hex_upper_digit (uint c mod 16)) \<noteq> None"
    using hex_digit_upper by auto
  have "x \<noteq> 0 \<and> x \<noteq> 13" if "hex_digit_value x \<noteq> None" for x using that by (auto simp: hex_digit_value_def)
  then show ?thesis using \<open>c \<noteq> 0\<close> h by (auto simp: put_char_def bytes_of_def)
qed

lemma printable_PutString: "text_ok e v \<Longrightarrow> printable (PutString v)"
proof (induction rule: text_ok_induct)
  case (Char c r)
  then show ?case by (simp add: PutString_Cons printable_put_char)
next
  case (Sequence xs r)
  then show ?case by (auto simp: PutString_high printable_def list_all_iff)
qed simp

section \<open>Attributes and elements\<close>

lemma put_char_plain: "32 \<le> c \<Longrightarrow> c \<notin> {34, 38, 39, 60, 62} \<Longrightarrow> put_char c = [c]"
  by (auto simp: put_char_def word_le_nat_alt word_less_nat_alt)

lemma PutString_plain: "list_all (\<lambda>c. 32 \<le> c \<and> c \<notin> {34, 38, 39, 60, 62}) v \<Longrightarrow> PutString v = v"
proof (induction v)
  case (Cons c v)
  then have "take 3 (c # v) \<noteq> [38, 35, 120]" by auto
  then show ?case using Cons by (simp add: PutString_Cons put_char_plain)
qed simp

lemma name_char_plain: "name_char c \<Longrightarrow> c < 127 \<Longrightarrow> 32 \<le> c \<and> c \<notin> {34, 38, 39, 60, 62}"
  by (auto simp: name_char_def IsAlphaNum_def word_le_nat_alt)

lemma PutString_name: "xml_name n \<Longrightarrow> PutString n = n"
  by (rule PutString_plain) (auto simp: xml_name_def list_all_iff dest: name_char_plain)

lemma not_name_char: "\<not> name_char 32" "\<not> name_char 61" "\<not> name_char 62"
  by (simp_all add: name_char_def IsAlphaNum_def)

lemma skip_white_text: "\<not> IsWhiteSpace c \<Longrightarrow> c \<noteq> 0xEF \<Longrightarrow> skip_white e (c # r) = c # r"
  using skip_white_blank [of "[]" c e r] by simp

lemma xml_name_printable: "xml_name n \<Longrightarrow> printable n"
  using name_char_plain by (fastforce simp: xml_name_def list_all_iff printable_def)

lemma printable_c_str: "printable s \<Longrightarrow> c_str s = s"
  by (simp add: printable_def)

definition quote_for :: "buffer \<Rightarrow> uchar" where
  "quote_for v = (if 34 \<in> set v then 39 else 34)"

lemma print_attribute_text:
  assumes "xml_name n" "text_ok e v"
  shows "print_attribute (n, v) = n @ 61 # quote_for v # PutString v @ [quote_for v]"
proof -
  have "0 \<notin> set v" using assms(2) by (induction rule: text_ok_induct) (auto simp: list_all_iff)
  then show ?thesis
    using PutString_name [OF assms(1)] printable_c_str [OF xml_name_printable [OF assms(1)]]
      printable_c_str [OF printable_PutString [OF assms(2)]]
    by (simp add: print_attribute_def quote_for_def)
qed

lemma attr_parse_print:
  assumes "xml_name n" "text_ok e v"
  shows "attr_parse e (At (print_attribute (n, v) @ rest)) = Some ((n, v), At rest, False)"
proof -
  define q where "q = quote_for v"
  have q: "q \<in> {34, 39}" by (simp add: q_def quote_for_def)
  have p: "print_attribute (n, v) @ rest = n @ 61 # q # PutString v @ q # rest"
    using print_attribute_text [OF assms] by (simp add: q_def)
  obtain c r where c: "n = c # r" "\<not> IsWhiteSpace c" "c \<noteq> 0xEF" using xml_name_start [OF assms(1)] by metis
  have "SkipWhiteSpace e (At (n @ s)) = Some (At (n @ s))" for s
    using skip_white_text [OF c(2,3), of e "r @ s"] c(1) by simp
  moreover have "ReadName (At (n @ 61 # s)) = Some (n, At (61 # s))" for s
    by (rule ReadName_name [OF assms(1) not_name_char(2)])
  moreover have "SkipWhiteSpace e (At (61 # s)) = Some (At (61 # s))" for s
    using skip_white_text [of 61 e s] by (simp add: IsWhiteSpace_def)
  moreover have "SkipWhiteSpace e (At (q # s)) = Some (At (q # s))" for s
    using skip_white_text [of q e s] q by (auto simp: IsWhiteSpace_def)
  moreover have "attr_value e (q # PutString v @ q # rest) = Some (v, At rest)"
    using q read_keep_put [OF assms(2) q, of rest] by (auto simp: attr_value_def ReadText_def)
  ultimately show ?thesis using c(1) unfolding p attr_parse_def by (simp del: SkipWhiteSpace.simps ReadName.simps)
qed

definition attributes_text :: "(buffer \<times> buffer) list \<Rightarrow> buffer" where
  "attributes_text attrs = concat (map (\<lambda>a. 32 # print_attribute a) attrs)"

lemma attr_loop_print:
  assumes "list_all (\<lambda>(n, v). xml_name n \<and> text_ok e v) attrs" "distinct (map fst (acc @ attrs))" "tail \<noteq> []"
  shows "attr_loop e acc (attributes_text attrs @ tail) = attr_loop e (acc @ attrs) tail"
  using assms
proof (induction attrs arbitrary: acc)
  case Nil
  then show ?case by (simp add: attributes_text_def)
next
  case (Cons a attrs)
  obtain n v where a: "a = (n, v)" by (cases a)
  have ok: "xml_name n" "text_ok e v" using Cons.prems(1) a by auto
  obtain x t where xt: "attributes_text attrs @ tail = x # t" using Cons.prems(3) by (cases "attributes_text attrs @ tail") auto
  obtain c r where c: "n = c # r" "\<not> IsWhiteSpace c" "c \<noteq> 0xEF" "c \<notin> {47, 62}" using xml_name_start [OF ok(1)] by (metis insert_iff)
  obtain s where s: "print_attribute (n, v) @ x # t = c # s"
    using c(1) print_attribute_text [OF ok] by simp
  have sk: "skip_white e (32 # c # s) = c # s" using skip_white_blank [of "[32]" c e s] c by simp
  have pa: "attr_parse e (At (c # s)) = Some ((n, v), At (x # t), False)" using attr_parse_print [OF ok, of "x # t"] s by simp
  have new: "attr_find n acc = None" using Cons.prems(2) a by (auto simp: attr_find_def map_of_eq_None_iff)
  have "attributes_text (a # attrs) @ tail = 32 # c # s" using a xt s by (simp add: attributes_text_def)
  then have "attr_loop e acc (attributes_text (a # attrs) @ tail) = attr_loop e (acc @ [a]) (x # t)"
    using sk pa c(4) new a by (simp add: attr_loop.simps [of e acc "32 # c # s"])
  also have "\<dots> = attr_loop e (acc @ a # attrs) tail"
    using Cons.IH [of "acc @ [a]"] Cons.prems xt by simp
  finally show ?case .
qed

lemma attr_loop_open: "attr_loop e attrs (62 # r) = Some (attrs, Tag_open r)"
  using skip_white_text [of 62 e r] by (simp add: attr_loop.simps [of e attrs "62 # r"] IsWhiteSpace_def)

lemma attr_loop_empty: "attr_loop e attrs (32 # 47 # 62 # r) = Some (attrs, Tag_empty r)"
  using skip_white_blank [of "[32]" 47 e "62 # r"]
  by (simp add: attr_loop.simps [of e attrs "32 # 47 # 62 # r"] IsWhiteSpace_def)

text \<open>The text of an element without the indentation of its first line.\<close>

fun elem_text :: "nat \<Rightarrow> xml_node \<Rightarrow> buffer" where
  "elem_text d (Element name attrs nodes) =
     60 # name @ attributes_text attrs @
     (if nodes = [] then [32, 47, 62]
      else 62 # concat (map (\<lambda>n. 10 # indent (Suc d) @ elem_text (Suc d) n) nodes) @ 10 # indent d @ [60, 47] @ name @ [62])"
| "elem_text d _ = []"

lemma print_elem_text: "elem_ok e x \<Longrightarrow> print_node d x = indent d @ elem_text d x"
proof (induction d x rule: elem_text.induct)
  case (1 d name attrs nodes)
  have tx: "\<not> is_text n" if "n \<in> set nodes" for n using 1(2) that by (cases n) (auto simp: list_all_iff)
  have nd: "print_node (Suc d) n = indent (Suc d) @ elem_text (Suc d) n" if "n \<in> set nodes" for n
    using 1 that by (cases nodes) (auto simp: list_all_iff)
  have "concat (map (\<lambda>n. (if is_text n then [] else [10]) @ print_node (Suc d) n) nodes)
      = concat (map (\<lambda>n. 10 # indent (Suc d) @ elem_text (Suc d) n) nodes)"
    by (rule arg_cong [where f = concat], rule map_cong) (use tx nd in auto)
  moreover have "\<not> (length nodes = 1 \<and> list_all is_text nodes)" using tx by (cases nodes) auto
  moreover have "c_str name = name" using 1(2) xml_name_printable printable_c_str by simp
  ultimately show ?case by (auto simp: bytes_of_def attributes_text_def)
qed auto

lemma elem_text_start:
  assumes "elem_ok e x"
  obtains c s where "elem_text d x = 60 # c # s" "name_start c" "c \<notin> {33, 47, 63}"
proof (cases x)
  case (Element n attrs nodes)
  then have "xml_name n" using assms by simp
  then obtain c r where "n = c # r" "name_start c" "c \<notin> {33, 47, 60, 61, 62, 63}" by (rule xml_name_start)
  then show ?thesis using that [of c] Element by simp
qed (use assms in simp_all)

lemma ToLower_question: "ToLower c = 63 \<longleftrightarrow> c = 63"
proof -
  have "uint (c + 32) = uint c + 32" if "c \<le> 90"
    using that by (simp add: uint_word_ariths word_le_def)
  then show ?thesis by (auto simp: ToLower_def word_le_def word_uint_eq_iff)
qed

lemma Identify_element: "name_start c \<Longrightarrow> c \<notin> {33, 47, 63} \<Longrightarrow> Identify (60 # c # s) = K_element"
  using ToLower_question [of c] by (auto simp: Identify_def StringEqual_def bytes_of_def ToLower_def)

lemma blanks_indent: "list_all (\<lambda>b. b = 10 \<or> b = 32) (10 # indent d)"
  by (simp add: indent_def list_all_iff)

lemma SkipWhiteSpace_line: "SkipWhiteSpace e (At (10 # indent d @ 60 # s)) = Some (At (60 # s))"
  using SkipWhiteSpace_blank [OF blanks_indent, of 60 e d s] by (simp add: IsWhiteSpace_def)

text \<open>An element is read back whenever the counter is large enough.\<close>

definition reads_back :: "encoding \<Rightarrow> xml_node \<Rightarrow> bool" where
  "reads_back e x \<longleftrightarrow> (\<exists>k. \<forall>n\<ge>k. \<forall>d rest. elem_parse n e (elem_text d x @ rest) = Some (x, At rest, False))"

definition nodes_text :: "nat \<Rightarrow> xml_node list \<Rightarrow> buffer" where
  "nodes_text d nodes = concat (map (\<lambda>n. 10 # indent (Suc d) @ elem_text (Suc d) n) nodes)"

text \<open>What the content of an element ends in: its text is left, and nothing is added.\<close>

definition ends_content :: "encoding \<Rightarrow> buffer \<Rightarrow> ptr \<Rightarrow> bool" where
  "ends_content e tail q \<longleftrightarrow> (\<forall>n acc. read_value (Suc n) e (At tail) acc = Some (acc, q, False))"

lemma end_tag_ends: "ends_content e (10 # indent d @ 60 # 47 # rest) (At (60 # 47 # rest))"
  using read_value_end [OF SkipWhiteSpace_line, of "47 # rest"] by (simp add: ends_content_def StringEqual_def bytes_of_def)

lemma blank_ends: "ends_content e [10] (At [])"
  by (simp add: ends_content_def skip_white_def skip_utf8.simps [of "[10]"] skip_utf8.simps [of "[]"] byte_order_mark_def IsWhiteSpace_def)

lemma read_value_print:
  assumes "list_all (elem_ok e) nodes" "\<And>x. x \<in> set nodes \<Longrightarrow> reads_back e x"
  shows "\<exists>k. \<forall>n\<ge>k. \<forall>d acc tail q. ends_content e tail q \<longrightarrow>
     read_value n e (At (nodes_text d nodes @ tail)) acc = Some (acc @ nodes, q, False)"
  using assms
proof (induction nodes)
  case Nil
  have "read_value n e (At tail) acc = Some (acc, q, False)" if "1 \<le> n" "ends_content e tail q" for n acc tail q
    using that by (cases n) (auto simp: ends_content_def)
  then show ?case by (intro exI [of _ 1]) (simp add: nodes_text_def)
next
  case (Cons x nodes)
  obtain k1 where k1: "\<And>n d rest. k1 \<le> n \<Longrightarrow> elem_parse n e (elem_text d x @ rest) = Some (x, At rest, False)"
    using Cons.prems(2) [of x] by (auto simp: reads_back_def)
  obtain k2 where k2: "\<And>n d acc tail q. k2 \<le> n \<Longrightarrow> ends_content e tail q \<Longrightarrow>
      read_value n e (At (nodes_text d nodes @ tail)) acc = Some (acc @ nodes, q, False)"
    using Cons.IH Cons.prems unfolding list_all_iff by (metis list.set_intros(2))
  have "read_value n e (At (nodes_text d (x # nodes) @ tail)) acc = Some (acc @ x # nodes, q, False)"
    if n: "Suc (max k1 k2) \<le> n" "ends_content e tail q" for n d acc tail q
  proof -
    obtain m where m: "n = Suc m" "k1 \<le> m" "k2 \<le> m" using n(1) by (cases n) auto
    let ?r = "nodes_text d nodes @ tail"
    have "elem_ok e x" using Cons.prems(1) by simp
    then obtain c s where c: "elem_text (Suc d) x = 60 # c # s" "name_start c" "c \<notin> {33, 47, 63}"
      by (rule elem_text_start)
    have t: "nodes_text d (x # nodes) @ tail = 10 # indent (Suc d) @ 60 # c # s @ ?r"
      using c(1) by (simp add: nodes_text_def)
    have "node_parse m e (60 # c # s @ ?r) = Some (x, At ?r, False)"
      using k1 [OF m(2), of "Suc d" ?r] c Identify_element [OF c(2,3)] by (simp add: node_parse_def)
    moreover have "\<not> StringEqual (60 # c # s @ ?r) (bytes_of ''</'') False" using c(3) by (simp add: StringEqual_def bytes_of_def)
    ultimately show ?thesis
      unfolding t m(1) read_value_node [OF SkipWhiteSpace_line \<open>\<not> StringEqual _ _ _\<close>] using k2 [OF m(3) n(2)] by simp
  qed
  then show ?case by blast
qed

lemma elem_parse_Cons:
  assumes "xml_name n" "\<not> name_char c"
  shows "elem_parse (Suc k) e (60 # n @ c # s) = do {
     (attrs, t) \<leftarrow> attr_loop e [] (c # s);
     case t of
       Tag_empty r \<Rightarrow> Some (Element n attrs [], At r, False)
     | Tag_failed err \<Rightarrow> Some (Element n attrs [], Null, err)
     | Tag_open r \<Rightarrow> do {
         (nodes, p3, err) \<leftarrow> read_value k e (At r) [];
         case p3 of At (d # u) \<Rightarrow>
             let endTag = bytes_of ''</'' @ n @ bytes_of ''>'' in
             if StringEqual (d # u) endTag False then Some (Element n attrs nodes, advance (length endTag) (At (d # u)), err)
             else Some (Element n attrs nodes, Null, True)
         | Wild \<Rightarrow> None
         | _ \<Rightarrow> Some (Element n attrs nodes, Null, err) } }"
proof -
  obtain b r where b: "n = b # r" "\<not> IsWhiteSpace b" "b \<noteq> 0xEF" using xml_name_start [OF assms(1)] by metis
  have "SkipWhiteSpace e (At (n @ c # s)) = Some (At (n @ c # s))" using skip_white_text [OF b(2,3), of e "r @ c # s"] b(1) by simp
  moreover have "ReadName (At (n @ c # s)) = Some (n, At (c # s))" by (rule ReadName_name [OF assms])
  ultimately show ?thesis by (simp del: SkipWhiteSpace.simps ReadName.simps)
qed

text \<open>What becomes of an element whose content is read.\<close>

definition close_element :: "buffer \<Rightarrow> xml_node \<Rightarrow> ptr \<Rightarrow> (xml_node \<times> ptr \<times> bool) option" where
  "close_element name x q = (case q of
       At (d # u) \<Rightarrow>
         let endTag = bytes_of ''</'' @ name @ bytes_of ''>'' in
         if StringEqual (d # u) endTag False then Some (x, advance (length endTag) (At (d # u)), False) else Some (x, Null, True)
     | Wild \<Rightarrow> None
     | _ \<Rightarrow> Some (x, Null, False))"

lemma close_element_end: "close_element name x (At (60 # 47 # name @ 62 # rest)) = Some (x, At rest, False)"
  by (simp add: close_element_def StringEqual_def bytes_of_def)

lemma open_element:
  assumes "elem_ok e (Element name attrs nodes)" "\<And>x. x \<in> set nodes \<Longrightarrow> reads_back e x"
  shows "\<exists>k. \<forall>n\<ge>k. \<forall>d tail q. ends_content e tail q \<longrightarrow>
     elem_parse n e (60 # name @ attributes_text attrs @ 62 # nodes_text d nodes @ tail) = close_element name (Element name attrs nodes) q"
proof -
  have ok: "xml_name name" "distinct (map fst ([] @ attrs))" "list_all (\<lambda>(n, v). xml_name n \<and> text_ok e v) attrs" "list_all (elem_ok e) nodes"
    using assms(1) by (auto simp: attrs_ok_def)
  obtain k where k: "\<And>n d acc tail q. k \<le> n \<Longrightarrow> ends_content e tail q \<Longrightarrow>
      read_value n e (At (nodes_text d nodes @ tail)) acc = Some (acc @ nodes, q, False)"
    using read_value_print [OF ok(4) assms(2)] by blast
  have "elem_parse n e (60 # name @ attributes_text attrs @ 62 # nodes_text d nodes @ tail) = close_element name (Element name attrs nodes) q" if n: "Suc k \<le> n" "ends_content e tail q" for n d tail q
  proof -
    let ?t = "62 # nodes_text d nodes @ tail"
    obtain m where m: "n = Suc m" "k \<le> m" using n(1) by (cases n) auto
    obtain c s where c: "attributes_text attrs @ ?t = c # s" "\<not> name_char c"
      using not_name_char by (cases attrs) (auto simp: attributes_text_def)
    have "attr_loop e [] (c # s) = Some (attrs, Tag_open (nodes_text d nodes @ tail))"
      using attr_loop_print [OF ok(3,2), of ?t] attr_loop_open c(1) by simp
    then show ?thesis
      using elem_parse_Cons [OF ok(1) c(2), of m e s] k [OF m(2) n(2), where d = d and acc = "[]"] c(1) m(1)
      by (simp add: close_element_def del: elem_parse.simps advance.simps)
  qed
  then show ?thesis by blast
qed

lemma empty_element:
  assumes "elem_ok e (Element name attrs [])"
  shows "elem_parse (Suc n) e (60 # name @ attributes_text attrs @ 32 # 47 # 62 # rest) = Some (Element name attrs [], At rest, False)"
proof -
  have ok: "xml_name name" "distinct (map fst ([] @ attrs))" "list_all (\<lambda>(n, v). xml_name n \<and> text_ok e v) attrs"
    using assms by (auto simp: attrs_ok_def)
  let ?t = "32 # 47 # 62 # rest"
  obtain c s where c: "attributes_text attrs @ ?t = c # s" "c = 32" by (cases attrs) (auto simp: attributes_text_def)
  have "attr_loop e [] (c # s) = Some (attrs, Tag_empty rest)"
    using attr_loop_print [OF ok(3,2), of ?t] attr_loop_empty c(1) by simp
  then show ?thesis using elem_parse_Cons [OF ok(1), of c n e s] c not_name_char by simp
qed

lemma elem_reads_back: "elem_ok e x \<Longrightarrow> reads_back e x"
proof (induction e x rule: elem_ok.induct)
  case (1 e name attrs nodes)
  show ?case
  proof (cases "nodes = []")
    case True
    have "elem_parse n e (elem_text d (Element name attrs nodes) @ rest) = Some (Element name attrs nodes, At rest, False)"
      if "1 \<le> n" for n d rest
      using empty_element [of e name attrs "n - 1" rest] 1(2) True that by simp
    then show ?thesis unfolding reads_back_def by blast
  next
    case False
    have IH: "\<And>x. x \<in> set nodes \<Longrightarrow> reads_back e x" using 1 by (auto simp: list_all_iff)
    from open_element [OF 1(2) IH] obtain k where k: "\<And>n d tail q. k \<le> n \<Longrightarrow> ends_content e tail q \<Longrightarrow>
        elem_parse n e (60 # name @ attributes_text attrs @ 62 # nodes_text d nodes @ tail) = close_element name (Element name attrs nodes) q"
      by blast
    have "elem_parse n e (elem_text d (Element name attrs nodes) @ rest) = Some (Element name attrs nodes, At rest, False)"
      if "k \<le> n" for n d rest
      using k [OF that end_tag_ends, where d = d and d1 = d and rest1 = "name @ 62 # rest"] close_element_end False
      by (simp add: nodes_text_def)
    then show ?thesis unfolding reads_back_def by blast
  qed
qed simp_all

section \<open>Documents\<close>

definition part_ok :: "buffer \<Rightarrow> bool" where
  "part_ok v \<longleftrightarrow> list_all (\<lambda>c. 32 \<le> c \<and> c < 127 \<and> c \<notin> {34, 38, 39, 60, 62}) v"

text \<open>A declaration, which may be missing, and elements; the declaration is white space and ASCII.\<close>

fun nodes_ok :: "encoding \<Rightarrow> xml_node list \<Rightarrow> bool" where
  "nodes_ok e (Declaration ver enc std # nodes) \<longleftrightarrow> part_ok ver \<and> part_ok enc \<and> part_ok std \<and>
     list_all (elem_ok (next_encoding e (Declaration ver enc std))) nodes"
| "nodes_ok e nodes \<longleftrightarrow> nodes \<noteq> [] \<and> list_all (elem_ok e) nodes"

definition start_encoding :: "document \<Rightarrow> encoding" where
  "start_encoding d = (if d_bom d then ENCODING_UTF8 else ENCODING_UNKNOWN)"

definition doc_ok :: "document \<Rightarrow> bool" where
  "doc_ok d \<longleftrightarrow> \<not> d_error d \<and> nodes_ok (start_encoding d) (d_nodes d)"

lemma nodes_ok_cases:
  assumes "nodes_ok e nodes"
  obtains (Declared) ver enc std ns where "nodes = Declaration ver enc std # ns" "part_ok ver" "part_ok enc" "part_ok std"
      "list_all (elem_ok (next_encoding e (Declaration ver enc std))) ns"
  | (Elements) x ns where "nodes = x # ns" "elem_ok e x" "list_all (elem_ok e) nodes"
  using assms by (cases "(e, nodes)" rule: nodes_ok.cases) auto

lemma part_text:
  assumes "part_ok v"
  shows "PutString v = v" "text_ok e v" "c_str v = v" "printable v"
proof -
  show "PutString v = v" using assms by (intro PutString_plain) (auto simp: part_ok_def list_all_iff)
  show "text_ok e v" using assms
  proof (induction v)
    case (Cons c v)
    then have "c \<noteq> 0" "utf8ByteTable c = 1" "take 3 (c # v) \<noteq> [38, 35, 120]"
      by (auto simp: part_ok_def utf8ByteTable_def word_less_nat_alt)
    moreover have "text_ok e v" using Cons by (simp add: part_ok_def)
    ultimately show ?case by (simp add: text_ok.simps [of e "c # v"]) blast
  qed (simp add: text_ok.simps [of e "[]"])
  have "32 \<le> c" if "c \<in> set v" for c using assms that by (simp add: part_ok_def list_all_iff)
  from this [of 0] this [of 13] have "0 \<notin> set v" "13 \<notin> set v" by auto
  then show "c_str v = v" "printable v" by (simp_all add: c_str_id printable_def)
qed

lemma attr_parse_part:
  assumes "xml_name n" "part_ok v"
  shows "attr_parse e (At (n @ 61 # 34 # v @ 34 # rest)) = Some ((n, v), At rest, False)"
proof -
  have "34 \<notin> set v" using assms(2) by (auto simp: part_ok_def list_all_iff)
  then have "print_attribute (n, v) @ rest = n @ 61 # 34 # v @ 34 # rest"
    using print_attribute_text [OF assms(1) part_text(2) [OF assms(2)]] part_text(1) [OF assms(2)] by (simp add: quote_for_def)
  then show ?thesis using attr_parse_print [OF assms(1) part_text(2) [OF assms(2)], of e rest] by simp
qed

lemma decl_loop_part:
  assumes "xml_name n" "part_ok v" "\<And>s. decl_store (n @ s) d = Some put"
  shows "decl_loop e d (32 # n @ 61 # 34 # v @ 34 # rest) = decl_loop e (put v) rest"
proof -
  let ?s = "n @ 61 # 34 # v @ 34 # rest"
  obtain c r where c: "n = c # r" "\<not> IsWhiteSpace c" "c \<noteq> 0xEF" using xml_name_start [OF assms(1)] by metis
  have "skip_white e (32 # ?s) = ?s" using skip_white_blank [of "[32]" c e "r @ 61 # 34 # v @ 34 # rest"] c by simp
  then show ?thesis
    using attr_parse_part [OF assms(1,2), of e rest] assms(3) part_text(3) [OF assms(2)]
    by (simp add: decl_loop.simps [of e d "32 # ?s"])
qed

lemma part_names:
  "xml_name (bytes_of ''version'')" "xml_name (bytes_of ''encoding'')" "xml_name (bytes_of ''standalone'')"
  "decl_store (bytes_of ''version'' @ s) (a, b, c) = Some (\<lambda>x. (x, b, c))"
  "decl_store (bytes_of ''encoding'' @ s) (a, b, c) = Some (\<lambda>x. (a, x, c))"
  "decl_store (bytes_of ''standalone'' @ s) (a, b, c) = Some (\<lambda>x. (a, b, x))"
  by (simp_all add: xml_name_def decl_store_def StringEqual_def bytes_of_def ToLower_def name_start_def name_char_def IsAlpha_def
      IsAlphaNum_def)

lemma decl_loop_parts:
  assumes "part_ok v"
  shows "decl_loop e ([], b, c) (32 # print_part ''version'' v @ rest) = decl_loop e (v, b, c) (32 # rest)"
    and "decl_loop e (a, [], c) (32 # print_part ''encoding'' v @ rest) = decl_loop e (a, v, c) (32 # rest)"
    and "decl_loop e (a, b, []) (32 # print_part ''standalone'' v @ rest) = decl_loop e (a, b, v) (32 # rest)"
  using decl_loop_part [OF part_names(1) assms part_names(4)] decl_loop_part [OF part_names(2) assms part_names(5)]
    decl_loop_part [OF part_names(3) assms part_names(6)] part_text(3) [OF assms]
  by (simp_all add: print_part_def)

lemma decl_loop_end: "decl_loop e d (32 # 63 # 62 # rest) = Some (d, At rest)"
proof -
  have "skip_white e (32 # 63 # 62 # rest) = 63 # 62 # rest" using skip_white_blank [of "[32]" 63 e "62 # rest"] by (simp add: IsWhiteSpace_def)
  moreover have "decl_store (63 # s) d = None" for s by (cases d) (simp add: decl_store_def StringEqual_def bytes_of_def ToLower_def)
  ultimately have "decl_loop e d (32 # 63 # 62 # rest) = decl_loop e d (62 # rest)"
    by (simp add: decl_loop.simps [of e d "32 # 63 # 62 # rest"] IsWhiteSpace_def)
  then show ?thesis by (simp add: decl_loop.simps [of e d "62 # rest"])
qed

lemma declaration_reads_back:
  assumes "part_ok ver" "part_ok enc" "part_ok std"
  shows "node_parse n e (print_node 0 (Declaration ver enc std) @ rest) = Some (Declaration ver enc std, At rest, False)"
proof -
  let ?p = "print_node 0 (Declaration ver enc std) @ rest"
  let ?q = "print_part ''version'' ver @ print_part ''encoding'' enc @ print_part ''standalone'' std @ 63 # 62 # rest"
  have "?p = 60 # 63 # 120 # 109 # 108 # 32 # ?q" by (simp add: bytes_of_def)
  moreover have "Identify (60 # 63 # 120 # 109 # 108 # s) = K_declaration" for s
    by (simp add: Identify_def StringEqual_def bytes_of_def ToLower_def)
  moreover have "decl_loop e ([], [], []) (32 # ?q) = Some ((ver, enc, std), At rest)"
    using decl_loop_parts assms decl_loop_end by simp
  ultimately show ?thesis by (simp add: node_parse_def)
qed

abbreviation lines_of :: "xml_node list \<Rightarrow> buffer" where
  "lines_of nodes \<equiv> concat (map (\<lambda>x. print_node 0 x @ [10]) nodes)"

lemma print_first_line: "elem_ok e x \<Longrightarrow> print_node 0 x = elem_text 0 x"
  using print_elem_text [of e x 0] by (simp add: indent_def)

lemma lines_of_start:
  assumes "elem_ok e x"
  obtains s where "lines_of (x # nodes) = 60 # s"
proof -
  obtain c s where "elem_text 0 x = 60 # c # s" using elem_text_start [OF assms] .
  then show ?thesis using print_first_line [OF assms] that by simp
qed

lemma SkipWhiteSpace_lines:
  assumes "list_all (elem_ok e) nodes"
  shows "SkipWhiteSpace e (At (10 # lines_of nodes)) = Some (At (lines_of nodes))"
proof (cases nodes)
  case Nil
  then show ?thesis by (simp add: skip_white_def skip_utf8.simps [of "[10]"] skip_utf8.simps [of "[]"] byte_order_mark_def IsWhiteSpace_def)
next
  case (Cons y ys)
  then have y: "elem_ok e y" using assms by simp
  obtain s where s: "lines_of (y # ys) = 60 # s" using lines_of_start [OF y] .
  show ?thesis using SkipWhiteSpace_blank [of "[10]" 60 e s] unfolding Cons s by (simp add: IsWhiteSpace_def)
qed

text \<open>A text whose nodes are read without an error whenever the counter is large enough.\<close>

definition loads :: "encoding \<Rightarrow> buffer \<Rightarrow> xml_node list \<Rightarrow> bool" where
  "loads e p nodes \<longleftrightarrow> (\<exists>k. \<forall>n\<ge>k. \<forall>acc. document_loop n e (At p) acc False = Some (acc @ nodes, False))"

lemma loads_node:
  assumes x: "\<And>m. k \<le> m \<Longrightarrow> node_parse m e (60 # s) = Some (x, At (10 # p), False)"
    and p: "SkipWhiteSpace (next_encoding e x) (At (10 # p)) = Some (At p)" "loads (next_encoding e x) p nodes"
  shows "loads e (60 # s) (x # nodes)"
proof -
  obtain j where j: "\<And>n acc. j \<le> n \<Longrightarrow> document_loop n (next_encoding e x) (At p) acc False = Some (acc @ nodes, False)"
    using p(2) by (auto simp: loads_def)
  have "document_loop n e (At (60 # s)) acc False = Some (acc @ x # nodes, False)" if n: "Suc (max k j) \<le> n" for n acc
  proof -
    obtain m where m: "n = Suc m" "k \<le> m" "j \<le> m" using n by (cases n) auto
    show ?thesis
      unfolding m(1) document_loop_node x [OF m(2)] using p(1) j [OF m(3)] by (simp del: SkipWhiteSpace.simps)
  qed
  then show ?thesis unfolding loads_def by blast
qed

lemma element_node:
  assumes "elem_ok e x"
  obtains k where "\<And>m rest. k \<le> m \<Longrightarrow> node_parse m e (print_node 0 x @ rest) = Some (x, At rest, False)"
proof -
  obtain k where k: "\<And>n d rest. k \<le> n \<Longrightarrow> elem_parse n e (elem_text d x @ rest) = Some (x, At rest, False)"
    using elem_reads_back [OF assms] by (auto simp: reads_back_def)
  obtain c s where c: "elem_text 0 x = 60 # c # s" "name_start c" "c \<notin> {33, 47, 63}" using elem_text_start [OF assms] .
  have "node_parse m e (print_node 0 x @ rest) = Some (x, At rest, False)" if "k \<le> m" for m rest
    using k [OF that, of 0 rest] c print_first_line [OF assms] Identify_element [OF c(2,3)] by (simp add: node_parse_def)
  then show ?thesis by (rule that)
qed

lemma elements_load: "list_all (elem_ok e) nodes \<Longrightarrow> loads e (lines_of nodes) nodes"
proof (induction nodes)
  case Nil
  have "document_loop n e (At []) acc False = Some (acc, False)" if "1 \<le> n" for n acc using that by (cases n) auto
  then show ?case unfolding loads_def by (intro exI [of _ 1]) simp
next
  case (Cons x nodes)
  then have x: "elem_ok e x" and r: "list_all (elem_ok e) nodes" "loads e (lines_of nodes) nodes" by auto
  obtain k where k: "\<And>m rest. k \<le> m \<Longrightarrow> node_parse m e (print_node 0 x @ rest) = Some (x, At rest, False)"
    using element_node [OF x] by blast
  obtain s where s: "lines_of (x # nodes) = 60 # s" using lines_of_start [OF x] .
  have "next_encoding e x = e" using x by (cases x) (auto simp: next_encoding_def)
  then have "loads e (60 # s) (x # nodes)"
    using k [of _ "10 # lines_of nodes"] s r SkipWhiteSpace_lines [OF r(1)] by (intro loads_node [where p = "lines_of nodes"]) simp_all
  then show ?case by (simp only: s)
qed

lemma declaration_loads:
  assumes "part_ok ver" "part_ok enc" "part_ok std"
    and "SkipWhiteSpace (next_encoding e (Declaration ver enc std)) (At (10 # p)) = Some (At p)"
    and "loads (next_encoding e (Declaration ver enc std)) p nodes"
  shows "loads e (lines_of [Declaration ver enc std] @ p) (Declaration ver enc std # nodes)"
proof -
  let ?d = "Declaration ver enc std"
  obtain s where s: "print_node 0 ?d = 60 # s" by (simp add: bytes_of_def)
  have "loads e (60 # s @ 10 # p) (?d # nodes)"
    using declaration_reads_back [OF assms(1-3), where rest = "10 # p"] s assms(4,5)
    by (intro loads_node) (simp_all del: print_node.simps)
  then show ?thesis using s by (simp del: print_node.simps)
qed

lemma nodes_load:
  assumes "nodes_ok e nodes"
  shows "loads e (lines_of nodes) nodes"
  using assms
proof (cases rule: nodes_ok_cases)
  case (Elements x ns)
  then show ?thesis by (intro elements_load)
next
  case (Declared ver enc std ns)
  then show ?thesis using declaration_loads [OF Declared(2-4) SkipWhiteSpace_lines elements_load] by simp
qed

lemma printable_attribute: "xml_name n \<Longrightarrow> text_ok e v \<Longrightarrow> printable (print_attribute (n, v))"
  using xml_name_printable printable_PutString by (simp add: print_attribute_text quote_for_def)

lemma printable_element: "elem_ok e x \<Longrightarrow> printable (elem_text d x)"
proof (induction d x rule: elem_text.induct)
  case (1 d name attrs nodes)
  have "printable name" using 1(2) xml_name_printable by simp
  moreover have "printable (attributes_text attrs)"
    using 1(2) printable_attribute by (auto simp: attributes_text_def printable_concat attrs_ok_def list_all_iff)
  moreover have "printable (indent k)" for k by (simp add: indent_def printable_def)
  ultimately show ?case using 1 by (auto simp: printable_concat list_all_iff)
qed simp_all

lemma printable_lines:
  assumes "nodes_ok e nodes"
  shows "printable (lines_of nodes)"
proof -
  have el: "printable (lines_of ns)" if "list_all (elem_ok f) ns" for f ns
    using that printable_element print_first_line by (fastforce simp: printable_concat list_all_iff)
  show ?thesis using assms
  proof (cases rule: nodes_ok_cases)
    case (Declared ver enc std ns)
    then show ?thesis using el part_text(3,4) by (simp add: print_part_def bytes_of_def)
  qed (rule el)
qed

lemma nodes_ok_start:
  assumes "nodes_ok e nodes"
  obtains s where "lines_of nodes = 60 # s"
  using assms
proof (cases rule: nodes_ok_cases)
  case (Elements x ns)
  then show ?thesis using that lines_of_start by metis
qed (use that in \<open>simp add: bytes_of_def\<close>)

lemma skip_mark: "\<not> IsWhiteSpace c \<Longrightarrow> c \<noteq> 0xEF \<Longrightarrow> skip_utf8 (0xEF # 0xBB # 0xBF # c # s) = c # s"
  by (simp add: skip_utf8.simps [of "0xEF # _"] skip_utf8.simps [of "c # s"] byte_order_mark_def)

lemma norm_eol_text_out: "13 \<notin> set s \<Longrightarrow> norm_eol (text_out win s) = s"
  by (cases win; induction s) (auto simp: text_out_def)

lemma text_out_no_zero: "0 \<notin> set s \<Longrightarrow> 0 \<notin> set (text_out win s)"
  by (auto simp: text_out_def)

definition mark :: "bool \<Rightarrow> buffer" where
  "mark bom = (if bom then [0xEF, 0xBB, 0xBF] else [])"

lemma load_text:
  assumes "loads (start_encoding d) (60 # s) nodes" "nodes \<noteq> []" "printable (60 # s)"
  shows "LoadFile (Some (text_out win (mark (d_bom d) @ 60 # s))) = Some (d\<lparr>d_nodes := nodes, d_error := False\<rparr>)"
proof -
  let ?t = "mark (d_bom d) @ 60 # s" and ?e = "start_encoding d"
  have sk: "SkipWhiteSpace ?e (At ?t) = Some (At (60 # s))"
    using SkipWhiteSpace_blank [of "[]" 60 _ s] skip_mark [of 60 s]
    by (simp add: start_encoding_def mark_def skip_white_def IsWhiteSpace_def)
  obtain k where k: "\<And>n. k \<le> n \<Longrightarrow> document_loop n ?e (At (60 # s)) [] False = Some (nodes, False)"
    using assms(1) unfolding loads_def by fastforce
  have "document_loop (parse_fuel ?t) ?e (At (60 # s)) [] False = document_loop (max k (parse_fuel ?t)) ?e (At (60 # s)) [] False"
    by (rule parser_finishes [OF sk, symmetric]) simp
  also have "\<dots> = Some (nodes, False)" by (rule k) simp
  finally have "Document_Parse ?t = Some (d\<lparr>d_nodes := nodes, d_error := False\<rparr>)"
    using sk assms(2) by (cases d; cases "d_bom d") (simp_all add: Document_Parse_def Let_def start_encoding_def mark_def del: SkipWhiteSpace.simps)
  moreover have "printable ?t" using assms(3) by (simp add: mark_def)
  then have "norm_eol (c_str (text_out win ?t)) = ?t"
    using norm_eol_text_out [of ?t win] text_out_no_zero [of ?t win] by (simp add: printable_def)
  moreover have "text_out win ?t \<noteq> []" by (simp add: text_out_def)
  ultimately show ?thesis by (simp add: LoadFile_def)
qed

lemma SaveFile_lines: "SaveFile win d = text_out win (mark (d_bom d) @ lines_of (d_nodes d))"
  by (simp add: SaveFile_def Document_Print_def mark_def)

lemma save_load:
  assumes "doc_ok d"
  shows "LoadFile (Some (SaveFile win d)) = Some d"
proof -
  have ok: "nodes_ok (start_encoding d) (d_nodes d)" "\<not> d_error d" using assms by (auto simp: doc_ok_def)
  obtain s where s: "lines_of (d_nodes d) = 60 # s" using nodes_ok_start [OF ok(1)] .
  have "d_nodes d \<noteq> []" using ok(1) by auto
  then show ?thesis
    using load_text [of d s "d_nodes d" win] nodes_load [OF ok(1)] printable_lines [OF ok(1)] ok(2)
    unfolding SaveFile_lines s by (cases d) simp
qed

section \<open>A file that is cut off\<close>

lemma cut_element_loads:
  assumes "elem_ok e (Element name attrs nodes)"
  shows "loads e (60 # name @ attributes_text attrs @ 62 # nodes_text 0 nodes @ [10]) [Element name attrs nodes]"
proof -
  let ?x = "Element name attrs nodes" and ?s = "name @ attributes_text attrs @ 62 # nodes_text 0 nodes @ [10]"
  have "\<And>x. x \<in> set nodes \<Longrightarrow> reads_back e x" using assms elem_reads_back by (auto simp: list_all_iff)
  from open_element [OF assms this] obtain k where k: "\<And>n d tail q. k \<le> n \<Longrightarrow> ends_content e tail q \<Longrightarrow>
      elem_parse n e (60 # name @ attributes_text attrs @ 62 # nodes_text d nodes @ tail) = close_element name ?x q"
    by blast
  have "xml_name name" using assms by simp
  then obtain c r where c: "name = c # r" "name_start c" "c \<notin> {33, 47, 60, 61, 62, 63}" by (rule xml_name_start)
  then have "Identify (60 # ?s) = K_element" using Identify_element [of c] by simp
  then have np: "node_parse m e (60 # ?s) = Some (?x, Null, False)" if "k \<le> m" for m
    using k [OF that blank_ends, of 0] by (simp add: node_parse_def close_element_def)
  have "document_loop n e (At (60 # ?s)) acc False = Some (acc @ [?x], False)" if n: "Suc (Suc k) \<le> n" for n acc
  proof -
    obtain m where m: "n = Suc (Suc m)" "k \<le> Suc m" using n by (cases n rule: old.nat.exhaust; simp) (metis Suc_le_D Suc_le_mono)
    show ?thesis unfolding m(1) document_loop_node np [OF m(2)] by simp
  qed
  then show ?thesis unfolding loads_def by blast
qed

lemma nodes_text_append: "nodes_text d (xs @ ys) = nodes_text d xs @ nodes_text d ys"
  by (simp add: nodes_text_def)

text \<open>Behind every line of a saved file.\<close>

lemma cut_root:
  assumes "zs \<noteq> []"
  obtains more where "elem_text 0 (Element name attrs (ys @ zs)) =
     (60 # name @ attributes_text attrs @ 62 # nodes_text 0 ys @ [10]) @ more" "more \<noteq> []"
proof -
  obtain z zs' where z: "zs = z # zs'" using assms by (cases zs) auto
  have "elem_text 0 (Element name attrs (ys @ zs)) = 60 # name @ attributes_text attrs @ 62 # nodes_text 0 (ys @ zs) @ 10 # indent 0 @ [60, 47] @ name @ [62]"
    using assms by (simp add: nodes_text_def)
  also have "\<dots> = (60 # name @ attributes_text attrs @ 62 # nodes_text 0 ys @ [10]) @
      indent 1 @ elem_text 1 z @ nodes_text 0 zs' @ 10 # indent 0 @ [60, 47] @ name @ [62]"
    using z by (simp add: nodes_text_def)
  finally show ?thesis by (rule that) simp
qed

lemma elem_ok_prefix: "elem_ok e (Element name attrs (ys @ zs)) \<Longrightarrow> elem_ok e (Element name attrs ys)"
  by simp

lemma cut_text:
  assumes "nodes_ok e (pre @ [Element name attrs (ys @ zs)])" "list_all (\<lambda>x. \<not> is_element x) pre" "zs \<noteq> []"
  obtains s more where "lines_of (pre @ [Element name attrs (ys @ zs)]) = (60 # s) @ more" "more \<noteq> []"
    "loads e (60 # s) (pre @ [Element name attrs ys])"
proof -
  let ?x = "Element name attrs (ys @ zs)"
  let ?r = "60 # name @ attributes_text attrs @ 62 # nodes_text 0 ys @ [10]"
  obtain more where more: "elem_text 0 ?x = ?r @ more" using cut_root [OF assms(3)] .
  have line: "lines_of [?x] = ?r @ more @ [10]" if "elem_ok f ?x" for f using print_first_line [OF that] more by simp
  from assms(1) show ?thesis
  proof (cases rule: nodes_ok_cases)
    case (Elements x ns)
    then have "pre = []" using assms(2) by (cases pre; cases x) auto
    then have x: "elem_ok e ?x" using Elements by simp
    show ?thesis
      using line [OF x] cut_element_loads [OF elem_ok_prefix [OF x]] \<open>pre = []\<close> by (intro that [of _ "more @ [10]"]) simp_all
  next
    case (Declared ver enc std ns)
    let ?d = "Declaration ver enc std"
    obtain ns' where pre: "pre = ?d # ns'" "ns = ns' @ [?x]" using Declared(1) by (cases pre) auto
    then have "ns' = []" using assms(2) Declared(5) by (cases ns'; cases "hd ns'") auto
    then have x: "elem_ok (next_encoding e ?d) ?x" using Declared(5) pre by simp
    have "SkipWhiteSpace (next_encoding e ?d) (At (10 # ?r)) = Some (At ?r)"
      using SkipWhiteSpace_blank [of "[10]" 60] by (simp add: IsWhiteSpace_def)
    from declaration_loads [OF Declared(2-4) this cut_element_loads [OF elem_ok_prefix [OF x]]]
    have ld: "loads e (lines_of [?d] @ ?r) (pre @ [Element name attrs ys])" using pre \<open>ns' = []\<close> by simp
    obtain s where s: "lines_of [?d] = 60 # s" by (simp add: bytes_of_def)
    show ?thesis
    proof (rule that [of "s @ ?r" "more @ [10]"])
      show "loads e (60 # s @ ?r) (pre @ [Element name attrs ys])" using ld unfolding s by simp
      have "lines_of (pre @ [?x]) = lines_of [?d] @ lines_of [?x]" using pre \<open>ns' = []\<close> by simp
      then show "lines_of (pre @ [?x]) = (60 # s @ ?r) @ more @ [10]" unfolding s line [OF x] by simp
    qed simp
  qed
qed

lemma text_out_append: "text_out win (a @ b) = text_out win a @ text_out win b"
  by (simp add: text_out_def)

lemma cut_file:
  assumes "doc_ok d" "d_nodes d = pre @ [Element name attrs (ys @ zs)]" "list_all (\<lambda>x. \<not> is_element x) pre" "zs \<noteq> []"
  shows "\<exists>k < length (SaveFile win d). LoadFile (Some (take k (SaveFile win d))) = Some (d\<lparr>d_nodes := pre @ [Element name attrs ys]\<rparr>)"
proof -
  have ok: "nodes_ok (start_encoding d) (d_nodes d)" "\<not> d_error d" using assms(1) by (auto simp: doc_ok_def)
  obtain s more where m: "lines_of (d_nodes d) = (60 # s) @ more" "more \<noteq> []" "loads (start_encoding d) (60 # s) (pre @ [Element name attrs ys])"
    using cut_text [of "start_encoding d" pre name attrs ys zs] ok(1) assms(2-4) by metis
  let ?p = "text_out win (mark (d_bom d) @ 60 # s)"
  have "SaveFile win d = ?p @ text_out win more" unfolding SaveFile_lines m(1) text_out_append [symmetric] by simp
  moreover have "text_out win more \<noteq> []" using m(2) by (cases more) (auto simp: text_out_def)
  moreover have "printable (60 # s)" using printable_lines [OF ok(1)] m(1) by simp
  with load_text [OF m(3)] have "LoadFile (Some ?p) = Some (d\<lparr>d_nodes := pre @ [Element name attrs ys]\<rparr>)"
    using ok(2) by (cases d) simp
  ultimately show ?thesis by (intro exI [of _ "length ?p"]) simp
qed

section \<open>The round trip\<close>

definition demo_doc :: document where
  "demo_doc = \<lparr>d_nodes = [Element [97] [([98], [60, 38, 34, 39, 9])] [Element [99] [] []]], d_bom = True, d_error = False\<rparr>"

text \<open>C37: what is saved is loaded again. A document of a declaration, which may be missing, and elements, with any values that
  have no zeros, no cut off UTF-8 sequences and nothing that looks like a hexadecimal character reference, is read from the
  file it is written to exactly as it was, with its byte order mark, on both platforms.\<close>

theorem saved_document_reloads:
  assumes "doc_ok d"
  shows "LoadFile (Some (SaveFile win d)) = Some d"
  using assms by (rule save_load)

theorem saved_document_reloads_witness: "LoadFile (Some (SaveFile True demo_doc)) = Some demo_doc"
proof (rule saved_document_reloads)
  show "doc_ok demo_doc" by code_simp
qed

end
