(* ===== verification/Wmsclient.thy ===== *)
theory Wmsclient
  imports Clientdb Server
begin

text \<open>
  The connection of the client: \<open>wmsclient/wmsclient/ClientSocketServer.cpp\<close>, the handlers of \<open>HandlerMessage.cpp\<close>, the
  state shown by \<open>RefreshUI.cpp\<close> and the timer of \<open>wmsclientDlg.cpp\<close>; \<open>mRecv\<close> and \<open>mSend\<close> as they are compiled for the
  client's platform, where both return \<open>-3\<close> when the peer has closed the connection.

  The thread's socket and the member \<open>m_clientSocket\<close> are the same connection, \<open>w_conn\<close>; \<open>w_valid\<close> says that the member
  is not \<open>INVALID_SOCKET\<close>. Reading from or writing to a connection that was closed here is an
  error. A started handler that has not run
  yet is an element of \<open>w_handlers\<close>. The conversions between the two encodings, calls of the operating system, are the
  parameters \<open>gbk2utf8\<close> and \<open>utf82gbk\<close>.
\<close>

section \<open>Receiving and sending\<close>

function recv_loop_win :: "nat \<Rightarrow> conn \<Rightarrow> buffer \<Rightarrow> int \<times> buffer \<times> conn" where
  "recv_loop_win n c acc =
     (if n = 0 then (int (length acc), acc, c)
      else (case c_recv c n of (r, bs, c') \<Rightarrow>
        if r < 0 then (-2, acc, c')
        else if r = 0 then (-3, acc, c')
        else recv_loop_win (n - nat r) c' (acc @ bs)))"
  by pat_completeness auto
termination
  by (relation "measure (\<lambda>(n, c, acc). n)") auto

declare recv_loop_win.simps [simp del]

definition mRecv_win :: "conn \<Rightarrow> int \<Rightarrow> int \<times> buffer \<times> conn" where
  "mRecv_win c len = recv_loop_win (nat len) c []"

function send_loop_win :: "conn \<Rightarrow> buffer \<Rightarrow> int \<Rightarrow> int \<times> conn" where
  "send_loop_win c bs sent =
     (if bs = [] then (sent, c)
      else (case c_send c bs of (r, c') \<Rightarrow>
        if r < 0 then (-2, c')
        else if r = 0 then (-3, c')
        else send_loop_win c' (drop (nat r) bs) (sent + r)))"
  by pat_completeness auto
termination
  by (relation "measures [\<lambda>(c, bs, sent). length (out_room c), \<lambda>(c, bs, sent). length bs]")
     (auto simp: c_send_def split: list.splits if_splits)

declare send_loop_win.simps [simp del]

definition mSend_win :: "conn \<Rightarrow> buffer \<Rightarrow> int \<times> conn" where
  "mSend_win c bs = send_loop_win c bs 0"

section \<open>The state of the client\<close>

datatype thread_phase = Connecting | Receiving | Ended

record wms_client =
  w_phase :: thread_phase
  w_run :: bool
  w_conn :: conn
  w_valid :: bool
  w_storehouseCode :: buffer
  w_handlers :: "(socket_header \<times> buffer) list"
  w_updates :: "update_data list"
  w_connected :: bool
  w_timer :: bool
  w_lastHeartbeat :: int

definition closesocket :: "conn \<Rightarrow> conn" where
  "closesocket c = c\<lparr>in_segs := [], in_end := -1, out_room := [-1]\<rparr>"

text \<open>The message id of an outgoing message is not initialised: \<open>junk\<close>.\<close>

definition SendMessage :: "(buffer \<Rightarrow> buffer) \<Rightarrow> buffer \<Rightarrow> int \<Rightarrow> buffer \<Rightarrow> wms_client \<Rightarrow> bool \<times> wms_client" where
  "SendMessage gbk2utf8 junk type strMessage w =
     (if \<not> w_valid w then (False, w)
      else (let strMessage = gbk2utf8 strMessage;
                iSendLen = s32 (int (length strMessage) + HEADER_SIZE);
                msgData = \<lparr>sh_code = type, sh_data_len = iSendLen, sh_message_id = junk\<rparr>;
                (n, c1) = mSend_win (w_conn w) (header_bytes msgData @ strMessage) in
            if n \<noteq> iSendLen then (False, w\<lparr>w_conn := closesocket c1, w_valid := False\<rparr>)
            else (let (m, c2) = mSend_win c1 MESSAGE_BUFFER_OVER in
                  if m \<noteq> int (length MESSAGE_BUFFER_OVER) then (False, w\<lparr>w_conn := closesocket c2, w_valid := False\<rparr>)
                  else (True, w\<lparr>w_conn := c2\<rparr>))))"

definition SendStoreCode :: "(buffer \<Rightarrow> buffer) \<Rightarrow> buffer \<Rightarrow> wms_client \<Rightarrow> bool \<times> wms_client" where
  "SendStoreCode gbk2utf8 junk w = SendMessage gbk2utf8 junk MSG_TYPE_STORECODE (w_storehouseCode w) w"

definition SendHeartbeat :: "(buffer \<Rightarrow> buffer) \<Rightarrow> buffer \<Rightarrow> wms_client \<Rightarrow> bool \<times> wms_client" where
  "SendHeartbeat gbk2utf8 junk w =
     (if \<not> w_valid w then (False, w) else SendMessage gbk2utf8 junk MSG_TYPE_HEART_BEAT (bytes_of ''heartbeat'') w)"

section \<open>The threads\<close>

text \<open>A successful \<open>connect\<close>: the thread goes on with the new connection \<open>c\<close>.\<close>

definition connect_done :: "conn \<Rightarrow> wms_client \<Rightarrow> wms_client" where
  "connect_done c w = w\<lparr>w_conn := c, w_valid := True, w_run := True, w_phase := Receiving\<rparr>"

definition thread_exit :: "conn \<Rightarrow> wms_client \<Rightarrow> wms_client" where
  "thread_exit c w = w\<lparr>w_conn := closesocket c, w_phase := Ended\<rparr>"

text \<open>One round of the receiving loop at time \<open>now\<close>. A negative body length makes the allocation or the comparison fail.\<close>

definition receive_round :: "(buffer \<Rightarrow> buffer) \<Rightarrow> int \<Rightarrow> wms_client \<Rightarrow> wms_client" where
  "receive_round utf82gbk now w =
     (if \<not> w_run w then thread_exit (w_conn w) w
      else (case mRecv_win (w_conn w) HEADER_SIZE of (r, hb, c1) \<Rightarrow>
        if r \<le> 0 then w\<lparr>w_conn := c1\<rparr>
        else (case header_of hb of None \<Rightarrow> w\<lparr>w_conn := c1\<rparr>
          | Some msgHeader \<Rightarrow>
             (let bodyLen = s32 (sh_data_len msgHeader - HEADER_SIZE) in
              if bodyLen < 0 then thread_exit c1 w
              else (case mRecv_win c1 bodyLen of (r2, body, c2) \<Rightarrow>
                if r2 \<noteq> bodyLen then thread_exit c2 w
                else (case mRecv_win c2 MESSAGE_BUFFER_OVER_LEN of (r3, ov, c3) \<Rightarrow>
                  if r3 \<noteq> MESSAGE_BUFFER_OVER_LEN then w\<lparr>w_conn := c3\<rparr>
                  else if ov \<noteq> MESSAGE_BUFFER_OVER then w\<lparr>w_conn := c3\<rparr>
                  else w\<lparr>w_conn := c3, w_lastHeartbeat := now,
                         w_handlers := w_handlers w @ [(msgHeader, utf82gbk (c_str body))]\<rparr>))))))"

text \<open>The thread of a handler.\<close>

definition ThreadProcHandler :: "(buffer \<Rightarrow> buffer) \<Rightarrow> buffer \<Rightarrow> socket_header \<times> buffer \<Rightarrow> wms_client \<Rightarrow> wms_client" where
  "ThreadProcHandler gbk2utf8 junk = (\<lambda>(header, strData) w.
     if sh_code header = MSG_TYPE_UPDATE_DATABASE then
       (let w1 = snd (SendHeartbeat gbk2utf8 junk w) in w1\<lparr>w_updates := fst (update_ProductData header strData (w_updates w1))\<rparr>)
     else if sh_code header = MSG_TYPE_HEART_BEAT then
       (if strData = bytes_of ''begin'' then snd (SendStoreCode gbk2utf8 junk w) else snd (SendHeartbeat gbk2utf8 junk w))
     else if sh_code header = MSG_TYPE_CONNECT_SUCCESS then w\<lparr>w_connected := True, w_timer := True\<rparr>
     else w)"

text \<open>Handler \<open>i\<close> runs; handlers are threads of their own and may run in any order.\<close>

definition run_handler :: "(buffer \<Rightarrow> buffer) \<Rightarrow> buffer \<Rightarrow> nat \<Rightarrow> wms_client \<Rightarrow> wms_client" where
  "run_handler gbk2utf8 junk i w =
     ThreadProcHandler gbk2utf8 junk (w_handlers w ! i) (w\<lparr>w_handlers := take i (w_handlers w) @ drop (Suc i) (w_handlers w)\<rparr>)"

definition ChangeConnectionState :: "int \<Rightarrow> wms_client \<Rightarrow> bool \<times> wms_client" where
  "ChangeConnectionState now w =
     (if now - w_lastHeartbeat w > 16 then (False, w\<lparr>w_connected := False\<rparr>) else (True, w\<lparr>w_connected := True\<rparr>))"

text \<open>\<open>TerminateServer\<close> and \<open>Run\<close>: the loop is asked to end and its thread is killed two seconds later, so \<open>exited\<close> says
  whether it came to its end by itself; then a new thread tries to connect.\<close>

definition restart :: "bool \<Rightarrow> wms_client \<Rightarrow> wms_client" where
  "restart exited w =
     (let w1 = w\<lparr>w_run := False\<rparr> in (if exited then thread_exit (w_conn w1) w1 else w1)\<lparr>w_phase := Connecting\<rparr>)"

definition OnTimer :: "bool \<Rightarrow> int \<Rightarrow> wms_client \<Rightarrow> wms_client" where
  "OnTimer exited now w =
     (case ChangeConnectionState now w of
        (False, w1) \<Rightarrow> restart exited (w1\<lparr>w_timer := False\<rparr>)
      | (True, w1) \<Rightarrow> w1)"

text \<open>The wait after a failed \<open>connect\<close>, in milliseconds, and the next value of \<open>nsec\<close>.\<close>

definition connect_failed :: "nat \<Rightarrow> nat \<times> nat" where
  "connect_failed nsec = (let nsec = (if nsec \<ge> 32 then 1 else nsec) in (nsec * 1000, 2 * nsec))"

fun connect_waits :: "nat \<Rightarrow> nat \<Rightarrow> nat list" where
  "connect_waits 0 nsec = []"
| "connect_waits (Suc k) nsec = fst (connect_failed nsec) # connect_waits k (snd (connect_failed nsec))"

section \<open>Steps\<close>

inductive wms_step :: "(buffer \<Rightarrow> buffer) \<Rightarrow> (buffer \<Rightarrow> buffer) \<Rightarrow> wms_client \<Rightarrow> wms_client \<Rightarrow> bool" for gbk2utf8 utf82gbk where
  connect: "w_phase w = Connecting \<Longrightarrow> wms_step gbk2utf8 utf82gbk w (connect_done c w)"
| receive: "w_phase w = Receiving \<Longrightarrow> wms_step gbk2utf8 utf82gbk w (receive_round utf82gbk now w)"
| handler: "i < length (w_handlers w) \<Longrightarrow> wms_step gbk2utf8 utf82gbk w (run_handler gbk2utf8 junk i w)"
| timer: "w_timer w \<Longrightarrow> wms_step gbk2utf8 utf82gbk w (OnTimer exited now w)"

inductive_cases wms_stepE: "wms_step gbk2utf8 utf82gbk w w'"

inductive wms_run :: "(buffer \<Rightarrow> buffer) \<Rightarrow> (buffer \<Rightarrow> buffer) \<Rightarrow> wms_client \<Rightarrow> wms_client \<Rightarrow> bool" for gbk2utf8 utf82gbk where
  none: "wms_run gbk2utf8 utf82gbk w w"
| more: "wms_run gbk2utf8 utf82gbk w w' \<Longrightarrow> wms_step gbk2utf8 utf82gbk w' w'' \<Longrightarrow> wms_run gbk2utf8 utf82gbk w w''"

section \<open>Streams on the client's platform\<close>

lemma recv_loop_win_same: "recv_loop n c acc = Some r \<Longrightarrow> recv_loop_win n c acc = r"
proof (induction n c acc rule: recv_loop.induct)
  case (1 n c acc)
  show ?case
  proof (cases "n = 0")
    case True
    then show ?thesis using "1.prems" by (simp add: recv_loop.simps [of 0] recv_loop_win.simps [of 0])
  next
    case False
    obtain k bs c' where R: "c_recv c n = (k, bs, c')" by (cases "c_recv c n")
    show ?thesis
    proof (cases "k \<le> 0")
      case True
      then show ?thesis using "1.prems" False R
        by (auto simp: recv_loop.simps [of n] recv_loop_win.simps [of n] split: if_splits)
    next
      case F: False
      then have "recv_loop (n - nat k) c' (acc @ bs) = Some r" using "1.prems" False R by (simp add: recv_loop.simps [of n])
      from "1.IH" [OF False R [symmetric] refl _ _ this] F show ?thesis
        using False R by (simp add: recv_loop_win.simps [of n])
    qed
  qed
qed

lemma mRecv_win_stream:
  assumes "in_data c = xs @ ys"
  obtains ss where "mRecv_win c (int (length xs)) = (int (length xs), xs, c\<lparr>in_segs := ss\<rparr>)" "concat ss = ys"
proof (rule mRecv_stream [OF assms])
  fix ss assume "mRecv c (int (length xs)) = Some (int (length xs), xs, c\<lparr>in_segs := ss\<rparr>)" "concat ss = ys"
  with that show thesis using recv_loop_win_same by (auto simp: mRecv_def mRecv_win_def)
qed

lemma mRecv_win_ended:
  assumes "concat (in_segs c) = []" "in_end c \<le> 0" "0 < n"
  shows "mRecv_win c n = (if in_end c = 0 then -3 else -2, [], c\<lparr>in_segs := []\<rparr>)"
proof -
  have "dropWhile (\<lambda>s. s = []) (in_segs c) = []" using assms(1) by simp
  then have "c_recv c (nat n) = (in_end c, [], c\<lparr>in_segs := []\<rparr>)" by (simp only: c_recv_def list.case)
  then show ?thesis using assms by (auto simp: mRecv_win_def recv_loop_win.simps [of "nat n"])
qed

lemma send_loop_win_stream:
  "\<forall>r \<in> set (out_room c). 0 < r \<Longrightarrow>
   \<exists>rs. send_loop_win c bs n = (n + int (length bs), c\<lparr>out_room := rs, out_bytes := out_bytes c @ bs\<rparr>) \<and> set rs \<subseteq> set (out_room c)"
proof (induction c bs n rule: send_loop_win.induct)
  case (1 c bs n)
  show ?case
  proof (cases "bs = []")
    case True
    then show ?thesis by (auto simp: send_loop_win.simps intro!: exI [of _ "out_room c"])
  next
    case False
    show ?thesis
    proof (cases "out_room c")
      case Nil
      then show ?thesis using False
        by (simp add: send_loop_win.simps [of c bs] send_loop_win.simps [of _ "[]"] c_send_def)
    next
      case (Cons r rs)
      let ?c = "c\<lparr>out_room := rs, out_bytes := out_bytes c @ take (nat r) bs\<rparr>" and ?k = "min r (int (length bs))"
      have r: "0 < r" "0 < ?k" using "1.prems" Cons False by simp_all
      then have S: "c_send c bs = (?k, ?c)" by (simp add: c_send_def Cons)
      obtain rs' where "send_loop_win ?c (drop (nat ?k) bs) (n + ?k)
          = (n + ?k + int (length (drop (nat ?k) bs)), ?c\<lparr>out_room := rs', out_bytes := out_bytes ?c @ drop (nat ?k) bs\<rparr>)"
          "set rs' \<subseteq> set rs"
        using "1.IH" [OF False S [symmetric]] r "1.prems" Cons by auto
      then show ?thesis using False r
        by (intro exI [of _ rs']) (auto simp: send_loop_win.simps [of c bs] S Cons min_def)
    qed
  qed
qed

definition send_ok :: "conn \<Rightarrow> bool" where "send_ok c \<longleftrightarrow> list_all (\<lambda>r. 0 < r) (out_room c)"

lemma mSend_win_stream:
  assumes "send_ok c"
  shows "\<exists>rs. mSend_win c bs = (int (length bs), c\<lparr>out_room := rs, out_bytes := out_bytes c @ bs\<rparr>) \<and>
     send_ok (c\<lparr>out_room := rs, out_bytes := out_bytes c @ bs\<rparr>)"
  using send_loop_win_stream [of c bs 0] assms by (fastforce simp: mSend_win_def send_ok_def list_all_iff)

text \<open>A message by type, as it is on the wire.\<close>

definition typed_header :: "buffer \<Rightarrow> int \<Rightarrow> buffer \<Rightarrow> socket_header" where
  "typed_header junk type body = \<lparr>sh_code = type, sh_data_len = int (length body) + HEADER_SIZE, sh_message_id = junk\<rparr>"

definition typed_message :: "buffer \<Rightarrow> int \<Rightarrow> buffer \<Rightarrow> buffer" where
  "typed_message junk type body = message_bytes (typed_header junk type body) body"

definition typed_ok :: "buffer \<Rightarrow> int \<Rightarrow> buffer \<Rightarrow> bool" where
  "typed_ok junk type body \<longleftrightarrow> length junk = 36 \<and> - (2 ^ 31) \<le> type \<and> type < 2 ^ 31 \<and> int (length body) + HEADER_SIZE < 2 ^ 31 \<and> 0 \<notin> set body"

lemma typed_header_ok: "typed_ok junk type body \<Longrightarrow> header_ok (typed_header junk type body) body"
  by (simp add: typed_ok_def header_ok_def typed_header_def)

lemma typed_len: "typed_ok junk type body \<Longrightarrow> s32 (int (length body) + HEADER_SIZE) = int (length body) + HEADER_SIZE"
  by (simp add: typed_ok_def s32_id HEADER_SIZE_def)

lemma SendMessage_bytes:
  assumes "w_valid w" "send_ok (w_conn w)" "typed_ok junk type (gbk2utf8 body)"
  shows "\<exists>c. SendMessage gbk2utf8 junk type body w = (True, w\<lparr>w_conn := c\<rparr>) \<and> send_ok c \<and> in_segs c = in_segs (w_conn w) \<and>
     in_end c = in_end (w_conn w) \<and> out_bytes c = out_bytes (w_conn w) @ typed_message junk type (gbk2utf8 body)"
proof -
  let ?h = "typed_header junk type (gbk2utf8 body)" and ?b = "gbk2utf8 body"
  have L: "int (length (header_bytes ?h @ ?b)) = int (length ?b) + HEADER_SIZE"
    using header_len [of ?h] assms(3) by (simp add: typed_ok_def typed_header_def)
  have H: "\<lparr>sh_code = type, sh_data_len = int (length ?b) + HEADER_SIZE, sh_message_id = junk\<rparr> = ?h"
    by (simp only: typed_header_def)
  obtain rs where 1: "mSend_win (w_conn w) (header_bytes ?h @ ?b) = (int (length ?b) + HEADER_SIZE,
      (w_conn w)\<lparr>out_room := rs, out_bytes := out_bytes (w_conn w) @ header_bytes ?h @ ?b\<rparr>)"
    and ok1: "send_ok ((w_conn w)\<lparr>out_room := rs, out_bytes := out_bytes (w_conn w) @ header_bytes ?h @ ?b\<rparr>)"
    using mSend_win_stream [OF assms(2), of "header_bytes ?h @ ?b"] L by auto
  obtain rs' where 2: "mSend_win ((w_conn w)\<lparr>out_room := rs, out_bytes := out_bytes (w_conn w) @ header_bytes ?h @ ?b\<rparr>) MESSAGE_BUFFER_OVER =
      (int (length MESSAGE_BUFFER_OVER), (w_conn w)\<lparr>out_room := rs', out_bytes := out_bytes (w_conn w) @ message_bytes ?h ?b\<rparr>)"
    and ok2: "send_ok ((w_conn w)\<lparr>out_room := rs', out_bytes := out_bytes (w_conn w) @ message_bytes ?h ?b\<rparr>)"
    using mSend_win_stream [OF ok1, of MESSAGE_BUFFER_OVER] by (auto simp: message_bytes_def)
  show ?thesis using assms(1) ok2
    by (intro exI [of _ "(w_conn w)\<lparr>out_room := rs', out_bytes := out_bytes (w_conn w) @ message_bytes ?h ?b\<rparr>"])
      (simp add: SendMessage_def Let_def H 1 2 typed_len [OF assms(3)] typed_message_def)
qed

lemma receive_round_bytes:
  assumes "w_run w" "header_ok h body" "concat (in_segs (w_conn w)) = message_bytes h body @ rest"
  shows "\<exists>ss. receive_round utf82gbk now w = w\<lparr>w_conn := (w_conn w)\<lparr>in_segs := ss\<rparr>, w_lastHeartbeat := now,
     w_handlers := w_handlers w @ [(h, utf82gbk (c_str body))]\<rparr> \<and> concat ss = rest"
proof -
  let ?c = "w_conn w"
  have H: "int (length (header_bytes h)) = HEADER_SIZE" using assms(2) header_len [of h] by (simp add: header_ok_def)
  have "in_data ?c = header_bytes h @ body @ MESSAGE_BUFFER_OVER @ rest" using assms(3) by (simp add: in_data_def message_bytes_def)
  then obtain s1 where 1: "mRecv_win ?c HEADER_SIZE = (HEADER_SIZE, header_bytes h, ?c\<lparr>in_segs := s1\<rparr>)"
    "concat s1 = body @ MESSAGE_BUFFER_OVER @ rest"
    by (rule mRecv_win_stream) (auto simp: H)
  have "in_data (?c\<lparr>in_segs := s1\<rparr>) = body @ MESSAGE_BUFFER_OVER @ rest" by (simp add: in_data_def 1)
  then obtain s2 where 2: "mRecv_win (?c\<lparr>in_segs := s1\<rparr>) (int (length body)) = (int (length body), body, ?c\<lparr>in_segs := s2\<rparr>)"
    "concat s2 = MESSAGE_BUFFER_OVER @ rest"
    by (rule mRecv_win_stream) auto
  have "in_data (?c\<lparr>in_segs := s2\<rparr>) = MESSAGE_BUFFER_OVER @ rest" by (simp add: in_data_def 2)
  then obtain s3 where 3: "mRecv_win (?c\<lparr>in_segs := s2\<rparr>) MESSAGE_BUFFER_OVER_LEN = (MESSAGE_BUFFER_OVER_LEN, MESSAGE_BUFFER_OVER, ?c\<lparr>in_segs := s3\<rparr>)"
    "concat s3 = rest"
    by (rule mRecv_win_stream) (auto simp: over_len)
  have B: "s32 (sh_data_len h - HEADER_SIZE) = int (length body)" "\<not> HEADER_SIZE \<le> 0"
    using assms(2) by (simp_all add: header_ok_def s32_id HEADER_SIZE_def)
  show ?thesis
    using assms(1) 3(2) by (intro exI [of _ s3]) (simp add: receive_round_def 1 2 3 B header_read_back [OF assms(2)])
qed

lemma connect_waits_bound: "nsec \<in> {1, 2, 4, 8, 16, 32} \<Longrightarrow> set (connect_waits k nsec) \<subseteq> {1000, 2000, 4000, 8000, 16000}"
  by (induction k nsec rule: connect_waits.induct) (auto simp: connect_failed_def)

section \<open>The greeting\<close>

lemma send_loop_room: "set (out_room (snd (send_loop c bs n))) \<subseteq> set (out_room c)"
proof (induction c bs n rule: send_loop.induct)
  case (1 c bs n)
  obtain r c' where S: "c_send c bs = (r, c')" by (cases "c_send c bs")
  then have "set (out_room c') \<subseteq> set (out_room c)" by (auto simp: c_send_def split: list.splits if_splits)
  then show ?case using "1.IH" [OF _ S [symmetric]] S by (auto simp: send_loop.simps [of c bs n] not_less)
qed

lemma mSend_room: "mSend c bs = (n, c') \<Longrightarrow> set (out_room c') \<subseteq> set (out_room c)"
  using send_loop_room [of c bs 0] by (simp add: mSend_def)

lemma sendMessage_room:
  assumes "sendMessage h body c = Some (b, c')" shows "set (out_room c') \<subseteq> set (out_room c)"
proof -
  obtain buf n c1 where 1: "mSend c buf = (n, c1)" "c' = c1 \<or> (\<exists>m. mSend c1 MESSAGE_BUFFER_OVER = (m, c'))"
    using assms by (auto simp: sendMessage_def Let_def split: if_splits prod.splits)
  then show ?thesis using mSend_room [OF 1(1)] mSend_room [of c1 MESSAGE_BUFFER_OVER _ c'] by blast
qed

definition room_ok :: "conn \<Rightarrow> bool" where "room_ok c \<longleftrightarrow> list_all (\<lambda>r. 0 \<le> r) (out_room c)"

lemma server_typed_send:
  assumes "typed_ok junk type body" "room_ok (m_conn (m_clients s ! i))"
  shows "\<exists>c. client_send junk type body i s = Some (set_client i ((m_clients s ! i)\<lparr>m_conn := c\<rparr>) s) \<and> room_ok c \<and>
     in_segs c = in_segs (m_conn (m_clients s ! i)) \<and> in_end c = in_end (m_conn (m_clients s ! i)) \<and>
     out_bytes c = out_bytes (m_conn (m_clients s ! i)) @ typed_message junk type body"
proof -
  let ?c = "m_conn (m_clients s ! i)"
  have r: "\<forall>r \<in> set (out_room ?c). 0 \<le> r" using assms(2) by (simp add: room_ok_def list_all_iff)
  obtain rs where S: "sendMessage (typed_header junk type body) body ?c =
      Some (True, ?c\<lparr>out_room := rs, out_bytes := out_bytes ?c @ typed_message junk type body\<rparr>)"
    unfolding typed_message_def by (rule sendMessage_bytes [OF typed_header_ok [OF assms(1)] r])
  have "sendMessage_type junk type body ?c = sendMessage (typed_header junk type body) body ?c"
    by (simp only: sendMessage_type_def typed_header_def typed_len [OF assms(1)])
  then have "client_send junk type body i s = Some (set_client i ((m_clients s ! i)\<lparr>m_conn :=
      ?c\<lparr>out_room := rs, out_bytes := out_bytes ?c @ typed_message junk type body\<rparr>\<rparr>) s)"
    by (simp add: client_send_def send_type_to_def S)
  moreover have "room_ok (?c\<lparr>out_room := rs, out_bytes := out_bytes ?c @ typed_message junk type body\<rparr>)"
    using sendMessage_room [OF S] r by (auto simp: room_ok_def list_all_iff)
  ultimately show ?thesis by (intro exI conjI) (assumption, assumption, simp_all)
qed

lemma server_typed_recv:
  assumes "typed_ok junk type body" "concat (in_segs (m_conn (m_clients s ! i))) = typed_message junk type body @ rest"
  shows "\<exists>ss. client_recv i s = Some (Some (typed_header junk type body, body),
     set_client i ((m_clients s ! i)\<lparr>m_conn := (m_conn (m_clients s ! i))\<lparr>in_segs := ss\<rparr>\<rparr>) s) \<and> concat ss = rest"
proof -
  have "in_data (m_conn (m_clients s ! i)) = header_bytes (typed_header junk type body) @ body @ MESSAGE_BUFFER_OVER @ rest"
    using assms(2) by (simp add: in_data_def typed_message_def message_bytes_def)
  then obtain ss where "recvMessage (m_conn (m_clients s ! i)) = Some (Some (typed_header junk type body, c_str body),
      (m_conn (m_clients s ! i))\<lparr>in_segs := ss\<rparr>)" "concat ss = rest"
    using recvMessage_bytes [OF typed_header_ok [OF assms(1)], of "m_conn (m_clients s ! i)" MESSAGE_BUFFER_OVER rest] by auto
  then show ?thesis using assms(1) by (auto simp: client_recv_def typed_ok_def)
qed

lemma set_client_simps [simp]:
  "i < length (m_clients s) \<Longrightarrow> m_clients (set_client i cl s) ! i = cl"
  "length (m_clients (set_client i cl s)) = length (m_clients s)"
  "set_client i cl (set_client i cl' s) = set_client i cl s"
  by (simp_all add: set_client_def)

lemma checkClientsIdExist_set:
  "i < length (m_clients s) \<Longrightarrow> m_client_id cl = m_client_id (m_clients s ! i) \<Longrightarrow>
     checkClientsIdExist code (set_client i cl s) = checkClientsIdExist code s"
proof -
  have *: "id_loop code cs = (code \<in> set (map m_client_id cs))" for cs by (induction cs) auto
  assume "i < length (m_clients s)" "m_client_id cl = m_client_id (m_clients s ! i)"
  then have "map m_client_id ((m_clients s)[i := cl]) = map m_client_id (m_clients s)" by (metis list_update_id map_update)
  then show ?thesis by (simp add: checkClientsIdExist_def * set_client_def)
qed

text \<open>The server's part of the greeting, for a client that answers with a store code: accepted when the code is free,
  refused when it is in use.\<close>

definition greeted :: "buffer \<Rightarrow> buffer \<Rightarrow> bool \<Rightarrow> conn \<Rightarrow> conn \<Rightarrow> bool" where
  "greeted junk code accepted c c' \<longleftrightarrow> out_bytes c' = out_bytes c @ typed_message junk MSG_TYPE_HEART_BEAT (bytes_of ''begin'') @
     (if accepted then typed_message junk MSG_TYPE_CONNECT_SUCCESS (bytes_of ''i am server'') else [])"

lemma greeting_texts_ok:
  "length junk = 36 \<Longrightarrow> typed_ok junk MSG_TYPE_HEART_BEAT (bytes_of ''begin'')"
  "length junk = 36 \<Longrightarrow> typed_ok junk MSG_TYPE_CONNECT_SUCCESS (bytes_of ''i am server'')"
  "length junk = 36 \<Longrightarrow> typed_ok junk MSG_TYPE_HEART_BEAT (bytes_of ''heartbeat'')"
  by (simp_all add: typed_ok_def msg_defs bytes_of_def HEADER_SIZE_def)

lemma initConnect_greets:
  assumes "i < length (m_clients s)" "length junk = 36" "typed_ok junk' MSG_TYPE_STORECODE code" "code \<noteq> []"
    and "room_ok (m_conn (m_clients s ! i))"
    and "concat (in_segs (m_conn (m_clients s ! i))) = typed_message junk' MSG_TYPE_STORECODE code"
  shows "\<exists>s'. initConnect junk i now h0 s = Some (\<not> checkClientsIdExist code s, s') \<and> i < length (m_clients s') \<and>
     greeted junk code (\<not> checkClientsIdExist code s) (m_conn (m_clients s ! i)) (m_conn (m_clients s' ! i)) \<and>
     m_client_id (m_clients s' ! i) = (if checkClientsIdExist code s then m_client_id (m_clients s ! i) else code)"
proof -
  obtain c1 where 1: "client_send junk MSG_TYPE_HEART_BEAT (bytes_of ''begin'') i s = Some (set_client i ((m_clients s ! i)\<lparr>m_conn := c1\<rparr>) s)"
      "room_ok c1" "in_segs c1 = in_segs (m_conn (m_clients s ! i))"
      "out_bytes c1 = out_bytes (m_conn (m_clients s ! i)) @ typed_message junk MSG_TYPE_HEART_BEAT (bytes_of ''begin'')"
    using server_typed_send [OF greeting_texts_ok(1) [OF assms(2)] assms(5)] by blast
  let ?s1 = "set_client i ((m_clients s ! i)\<lparr>m_conn := c1\<rparr>) s"
  obtain ss where 2: "client_recv i ?s1 = Some (Some (typed_header junk' MSG_TYPE_STORECODE code, code),
      set_client i ((m_clients s ! i)\<lparr>m_conn := c1\<lparr>in_segs := ss\<rparr>\<rparr>) s)"
    using server_typed_recv [OF assms(3), of ?s1 i "[]"] assms(1,6) 1(3) by auto
  let ?s2 = "set_client i ((m_clients s ! i)\<lparr>m_conn := c1\<lparr>in_segs := ss\<rparr>\<rparr>) s"
  have E: "checkClientsIdExist code ?s2 = checkClientsIdExist code s"
    by (rule checkClientsIdExist_set) (simp_all add: assms(1))
  let ?cl = "(m_clients s ! i)\<lparr>m_conn := c1\<lparr>in_segs := ss\<rparr>, m_last_heartbeat_timestamp := now, m_client_id := code\<rparr>"
  let ?s3 = "(set_client i ?cl s)\<lparr>m_disconnect_store := removeDisconnectStore code (m_disconnect_store s)\<rparr>"
  have h: "handlerMessage i (typed_header junk' MSG_TYPE_STORECODE code) code now h0 ?s2 =
      (if checkClientsIdExist code s then (False, ?s2) else (True, ?s3))"
    using assms(1,4) by (simp add: handlerMessage_def E typed_header_def) (simp add: set_client_def)
  show ?thesis
  proof (cases "checkClientsIdExist code s")
    case True
    then show ?thesis using assms(1) 1 2 h by (simp add: initConnect_def typed_header_def [of junk'] greeted_def)
  next
    case False
    have c3: "m_clients ?s3 ! i = ?cl" using assms(1) by (simp add: set_client_def)
    obtain c4 where 4: "client_send junk MSG_TYPE_CONNECT_SUCCESS (bytes_of ''i am server'') i ?s3 = Some (set_client i (?cl\<lparr>m_conn := c4\<rparr>) ?s3)"
      "out_bytes c4 = out_bytes c1 @ typed_message junk MSG_TYPE_CONNECT_SUCCESS (bytes_of ''i am server'')"
      using server_typed_send [OF greeting_texts_ok(2) [OF assms(2)], of ?s3 i] 1(2) c3 by (auto simp: room_ok_def)
    have "i < length (m_clients (set_client i (?cl\<lparr>m_conn := c4\<rparr>) ?s3))" "m_clients (set_client i (?cl\<lparr>m_conn := c4\<rparr>) ?s3) ! i = ?cl\<lparr>m_conn := c4\<rparr>"
      using assms(1) by (simp_all add: set_client_def)
    then show ?thesis using False 1 2 h 4 by (simp add: initConnect_def typed_header_def [of junk'] greeted_def)
  qed
qed

lemma SendMessage_sel [simp]:
  "w_phase (snd (SendMessage g junk type body w)) = w_phase w" "w_run (snd (SendMessage g junk type body w)) = w_run w"
  "w_handlers (snd (SendMessage g junk type body w)) = w_handlers w" "w_updates (snd (SendMessage g junk type body w)) = w_updates w"
  by (simp_all add: SendMessage_def Let_def split: prod.splits)

lemma SendHeartbeat_sel [simp]:
  "w_phase (snd (SendHeartbeat g junk w)) = w_phase w" "w_run (snd (SendHeartbeat g junk w)) = w_run w"
  "w_handlers (snd (SendHeartbeat g junk w)) = w_handlers w" "w_updates (snd (SendHeartbeat g junk w)) = w_updates w"
  by (simp_all add: SendHeartbeat_def)

text \<open>The client's part of the greeting.\<close>

lemma client_answers:
  assumes "w_run w" "w_valid w" "w_handlers w = []" "send_ok (w_conn w)" "length junks = 36"
    and "typed_ok junk MSG_TYPE_STORECODE (gbk2utf8 (w_storehouseCode w))" "utf82gbk (bytes_of ''begin'') = bytes_of ''begin''"
    and "concat (in_segs (w_conn w)) = typed_message junks MSG_TYPE_HEART_BEAT (bytes_of ''begin'') @ rest"
  shows "\<exists>c. run_handler gbk2utf8 junk 0 (receive_round utf82gbk now w) = w\<lparr>w_conn := c, w_lastHeartbeat := now\<rparr> \<and>
     send_ok c \<and> concat (in_segs c) = rest \<and> in_end c = in_end (w_conn w) \<and>
     out_bytes c = out_bytes (w_conn w) @ typed_message junk MSG_TYPE_STORECODE (gbk2utf8 (w_storehouseCode w))"
proof -
  let ?h = "typed_header junks MSG_TYPE_HEART_BEAT (bytes_of ''begin'')"
  note ok = greeting_texts_ok(1) [OF assms(5)]
  obtain ss where R: "receive_round utf82gbk now w = w\<lparr>w_conn := (w_conn w)\<lparr>in_segs := ss\<rparr>, w_lastHeartbeat := now,
      w_handlers := [(?h, bytes_of ''begin'')]\<rparr>" "concat ss = rest"
    using receive_round_bytes [OF assms(1) typed_header_ok [OF ok], of rest utf82gbk now] ok assms(3,7,8)
    by (auto simp: typed_message_def typed_ok_def)
  let ?w = "w\<lparr>w_conn := (w_conn w)\<lparr>in_segs := ss\<rparr>, w_lastHeartbeat := now\<rparr>"
  obtain c where S: "SendMessage gbk2utf8 junk MSG_TYPE_STORECODE (w_storehouseCode w) ?w = (True, ?w\<lparr>w_conn := c\<rparr>)"
    and c: "send_ok c" "in_segs c = ss" "in_end c = in_end (w_conn w)"
      "out_bytes c = out_bytes (w_conn w) @ typed_message junk MSG_TYPE_STORECODE (gbk2utf8 (w_storehouseCode w))"
    using SendMessage_bytes [of ?w junk MSG_TYPE_STORECODE gbk2utf8 "w_storehouseCode w"] assms(2,4,6) by (auto simp: send_ok_def)
  have E: "?w\<lparr>w_handlers := []\<rparr> = ?w" using assms(3) by (cases w) simp
  have "run_handler gbk2utf8 junk 0 (receive_round utf82gbk now w) = snd (SendStoreCode gbk2utf8 junk (?w\<lparr>w_handlers := []\<rparr>))"
    by (simp add: run_handler_def ThreadProcHandler_def typed_header_def [of junks] msg_defs R(1))
  also have "\<dots> = ?w\<lparr>w_conn := c\<rparr>" unfolding E using S by (simp add: SendStoreCode_def)
  finally show ?thesis using c R(2) by (intro exI [of _ c]) simp
qed

lemma client_connected:
  assumes "w_run w" "w_handlers w = []" "length junks = 36"
    and "concat (in_segs (w_conn w)) = typed_message junks MSG_TYPE_CONNECT_SUCCESS (bytes_of ''i am server'') @ rest"
  shows "\<exists>ss. run_handler gbk2utf8 junk 0 (receive_round utf82gbk now w) = w\<lparr>w_conn := (w_conn w)\<lparr>in_segs := ss\<rparr>,
     w_lastHeartbeat := now, w_connected := True, w_timer := True\<rparr> \<and> concat ss = rest"
proof -
  note ok = greeting_texts_ok(2) [OF assms(3)]
  obtain ss where "receive_round utf82gbk now w = w\<lparr>w_conn := (w_conn w)\<lparr>in_segs := ss\<rparr>, w_lastHeartbeat := now,
      w_handlers := [(typed_header junks MSG_TYPE_CONNECT_SUCCESS (bytes_of ''i am server''), utf82gbk (bytes_of ''i am server''))]\<rparr>"
      "concat ss = rest"
    using receive_round_bytes [OF assms(1) typed_header_ok [OF ok], of rest utf82gbk now] ok assms(2,4)
    by (auto simp: typed_message_def typed_ok_def)
  moreover have "w\<lparr>w_handlers := []\<rparr> = w" using assms(2) by (cases w) simp
  ultimately show ?thesis using assms(2)
    by (intro exI [of _ ss]) (simp add: run_handler_def ThreadProcHandler_def typed_header_def msg_defs)
qed

lemma wms_run_one: "wms_step g u w w' \<Longrightarrow> wms_run g u w w'"
  using wms_run.none wms_run.more by blast

lemma wms_run_trans: "wms_run g u w' w'' \<Longrightarrow> wms_run g u w w' \<Longrightarrow> wms_run g u w w''"
  by (induction rule: wms_run.induct) (auto intro: wms_run.more)

text \<open>A message is received and its handler runs.\<close>

lemma wms_run_message:
  assumes "w_phase w = Receiving" "w_handlers (receive_round u now w) \<noteq> []"
  shows "wms_run g u w (run_handler g junk 0 (receive_round u now w))"
  by (rule wms_run.more [OF wms_run_one [OF wms_step.receive [OF assms(1)]]]) (rule wms_step.handler, use assms(2) in simp)

text \<open>A client whose connection was closed before it was accepted.\<close>

definition stuck :: "wms_client \<Rightarrow> bool" where
  "stuck w \<longleftrightarrow> w_phase w = Receiving \<and> w_run w \<and> w_handlers w = [] \<and> \<not> w_timer w \<and> \<not> w_connected w \<and>
     concat (in_segs (w_conn w)) = [] \<and> in_end (w_conn w) \<le> 0"

lemma stuck_step:
  assumes "wms_step g u w w'" "stuck w"
  shows "stuck w' \<and> w_lastHeartbeat w' = w_lastHeartbeat w"
  using assms(1)
proof (rule wms_stepE)
  fix now assume "w' = receive_round u now w"
  then show ?thesis using assms(2) mRecv_win_ended [of "w_conn w" HEADER_SIZE]
    by (auto simp: stuck_def receive_round_def HEADER_SIZE_def)
qed (use assms(2) in \<open>auto simp: stuck_def\<close>)

lemma stuck_run: "wms_run g u w w' \<Longrightarrow> stuck w \<Longrightarrow> stuck w'"
  by (induction rule: wms_run.induct) (auto dest: stuck_step)

lemma update_handler:
  assumes "sh_code h = MSG_TYPE_UPDATE_DATABASE"
  shows "w_updates (ThreadProcHandler g junk (h, body) w) = fst (update_ProductData h body (w_updates w))"
    "w_handlers (ThreadProcHandler g junk (h, body) w) = w_handlers w"
  using assms by (simp_all add: ThreadProcHandler_def Let_def)

section \<open>Client and server together\<close>

text \<open>A client that has just connected, and a server handler that has just accepted it.\<close>

definition fresh_client :: "wms_client \<Rightarrow> bool" where
  "fresh_client w \<longleftrightarrow> w_phase w = Receiving \<and> w_run w \<and> w_valid w \<and> w_handlers w = [] \<and> send_ok (w_conn w)"

lemma client_answers_run:
  assumes "fresh_client w" "length junks = 36" "typed_ok junk MSG_TYPE_STORECODE (gbk2utf8 (w_storehouseCode w))"
    and "utf82gbk (bytes_of ''begin'') = bytes_of ''begin''"
    and "concat (in_segs (w_conn w)) = typed_message junks MSG_TYPE_HEART_BEAT (bytes_of ''begin'') @ rest"
  shows "\<exists>c. wms_run gbk2utf8 utf82gbk w (w\<lparr>w_conn := c, w_lastHeartbeat := now\<rparr>) \<and>
     send_ok c \<and> concat (in_segs c) = rest \<and> in_end c = in_end (w_conn w) \<and>
     out_bytes c = out_bytes (w_conn w) @ typed_message junk MSG_TYPE_STORECODE (gbk2utf8 (w_storehouseCode w))"
proof -
  have w: "w_phase w = Receiving" "w_run w" "w_valid w" "w_handlers w = []" "send_ok (w_conn w)"
    using assms(1) by (simp_all add: fresh_client_def)
  obtain c where c: "run_handler gbk2utf8 junk 0 (receive_round utf82gbk now w) = w\<lparr>w_conn := c, w_lastHeartbeat := now\<rparr>"
     "send_ok c" "concat (in_segs c) = rest" "in_end c = in_end (w_conn w)"
     "out_bytes c = out_bytes (w_conn w) @ typed_message junk MSG_TYPE_STORECODE (gbk2utf8 (w_storehouseCode w))"
    using client_answers [where ?gbk2utf8.0 = gbk2utf8 and utf82gbk = utf82gbk, OF w(2-5) assms(2-5)] by blast
  have "w_handlers (receive_round utf82gbk now w) \<noteq> []"
    using receive_round_bytes [OF w(2) typed_header_ok [OF greeting_texts_ok(1) [OF assms(2)]], of rest utf82gbk now] assms(5)
    by (auto simp: typed_message_def)
  then show ?thesis using wms_run_message [OF w(1), of utf82gbk now gbk2utf8 junk] c by auto
qed


text \<open>C24: a client that the server refuses never tries again. When the store code is still listed, as it is for a
  while after a connection was lost, the server closes the connection without a word; the client's timer is only started by the
  acceptance, so nothing ends its receiving loop: in every state it can reach from there it is still in that loop, not
  connected and without a timer.\<close>

theorem refused_client_stays:
  assumes "fresh_client w" "\<not> w_connected w" "\<not> w_timer w" "i < length (m_clients s)" "room_ok (m_conn (m_clients s ! i))"
    and "length junks = 36" "code = gbk2utf8 (w_storehouseCode w)" "typed_ok junk MSG_TYPE_STORECODE code" "code \<noteq> []"
    and "utf82gbk (bytes_of ''begin'') = bytes_of ''begin''" "checkClientsIdExist code s"
    and "concat (in_segs (m_conn (m_clients s ! i))) = typed_message junk MSG_TYPE_STORECODE code"
    and "concat (in_segs (w_conn w)) = typed_message junks MSG_TYPE_HEART_BEAT (bytes_of ''begin'')" "in_end (w_conn w) = 0"
  shows "\<exists>s' w'. initConnect junks i now h0 s = Some (False, s') \<and>
     out_bytes (m_conn (m_clients s' ! i)) = out_bytes (m_conn (m_clients s ! i)) @ concat (in_segs (w_conn w)) \<and>
     wms_run gbk2utf8 utf82gbk w w' \<and>
     out_bytes (w_conn w') = out_bytes (w_conn w) @ concat (in_segs (m_conn (m_clients s ! i))) \<and>
     (\<forall>w''. wms_run gbk2utf8 utf82gbk w' w'' \<longrightarrow> w_phase w'' = Receiving \<and> \<not> w_connected w'' \<and> \<not> w_timer w'')"
proof -
  obtain s' where s': "initConnect junks i now h0 s = Some (False, s')"
      "out_bytes (m_conn (m_clients s' ! i)) = out_bytes (m_conn (m_clients s ! i)) @ concat (in_segs (w_conn w))"
    using initConnect_greets [OF assms(4,6,8,9,5,12), of now h0] assms(11,13) by (auto simp: greeted_def)
  obtain c where c: "wms_run gbk2utf8 utf82gbk w (w\<lparr>w_conn := c, w_lastHeartbeat := now\<rparr>)" "concat (in_segs c) = []" "in_end c = 0"
      "out_bytes c = out_bytes (w_conn w) @ typed_message junk MSG_TYPE_STORECODE code"
    using client_answers_run [where ?gbk2utf8.0 = gbk2utf8 and utf82gbk = utf82gbk and now = now and junk = junk and rest = "[]",
        OF assms(1,6) _ assms(10)] assms(7,8,13,14) by auto
  have "stuck (w\<lparr>w_conn := c, w_lastHeartbeat := now\<rparr>)"
    using assms(1-3) c by (simp add: stuck_def fresh_client_def)
  then have "w_phase w'' = Receiving \<and> \<not> w_connected w'' \<and> \<not> w_timer w''"
    if "wms_run gbk2utf8 utf82gbk (w\<lparr>w_conn := c, w_lastHeartbeat := now\<rparr>) w''" for w''
    using stuck_run [OF that] by (simp add: stuck_def)
  with s' c assms(12) show ?thesis by (intro exI [of _ s'] exI [of _ "w\<lparr>w_conn := c, w_lastHeartbeat := now\<rparr>"]) simp
qed

definition demo_junk :: buffer where "demo_junk = replicate 36 0"

definition demo_conn :: "buffer list \<Rightarrow> conn" where
  "demo_conn segs = \<lparr>in_segs = segs, in_end = 0, out_room = [], out_bytes = []\<rparr>"

text \<open>The server of the other examples with what its second client sends, and a client that has connected to it.\<close>

definition demo_accepting :: "buffer \<Rightarrow> server" where
  "demo_accepting code = set_client 1 ((m_clients demo_server ! 1)\<lparr>m_conn := demo_conn [typed_message demo_junk MSG_TYPE_STORECODE code]\<rparr>) demo_server"

definition demo_wms :: "buffer \<Rightarrow> buffer list \<Rightarrow> wms_client" where
  "demo_wms code segs = \<lparr>w_phase = Receiving, w_run = True, w_conn = demo_conn segs, w_valid = True, w_storehouseCode = code,
     w_handlers = [], w_updates = [], w_connected = False, w_timer = False, w_lastHeartbeat = 0\<rparr>"

lemma demo_accepting_facts:
  "1 < length (m_clients (demo_accepting code))" "room_ok (m_conn (m_clients (demo_accepting code) ! 1))"
  "concat (in_segs (m_conn (m_clients (demo_accepting code) ! 1))) = typed_message demo_junk MSG_TYPE_STORECODE code"
  "checkClientsIdExist code (demo_accepting code') \<longleftrightarrow> code = bytes_of ''S1'' \<or> code = []"
  by (auto simp: demo_accepting_def set_client_def demo_server_def server_init_def HandlerClientSocket_def Let_def room_ok_def demo_conn_def
      checkClientsIdExist_def)

lemma demo_wms_facts: "fresh_client (demo_wms code segs)" "\<not> w_connected (demo_wms code segs)" "\<not> w_timer (demo_wms code segs)"
  "w_conn (demo_wms code segs) = demo_conn segs" "w_storehouseCode (demo_wms code segs) = code"
  by (simp_all add: fresh_client_def demo_wms_def send_ok_def demo_conn_def)

lemma demo_codes: "length demo_junk = 36" "typed_ok demo_junk MSG_TYPE_STORECODE (bytes_of ''S3'')" "bytes_of ''S3'' \<noteq> []"
  "typed_ok demo_junk MSG_TYPE_STORECODE (bytes_of ''S1'')" "bytes_of ''S1'' \<noteq> []" "bytes_of ''S3'' \<noteq> bytes_of ''S1''"
  by (simp_all add: demo_junk_def typed_ok_def msg_defs bytes_of_def HEADER_SIZE_def)


theorem refused_client_stays_witness:
  "\<exists>segs s' w'. initConnect demo_junk 1 7 (typed_header demo_junk 0 []) (demo_accepting (bytes_of ''S1'')) = Some (False, s') \<and>
     wms_run (\<lambda>t. t) (\<lambda>t. t) (demo_wms (bytes_of ''S1'') segs) w' \<and>
     (\<forall>w''. wms_run (\<lambda>t. t) (\<lambda>t. t) w' w'' \<longrightarrow> w_phase w'' = Receiving \<and> \<not> w_connected w'' \<and> \<not> w_timer w'')"
proof -
  let ?segs = "[typed_message demo_junk MSG_TYPE_HEART_BEAT (bytes_of ''begin'')]"
  have "\<exists>s' w'. initConnect demo_junk 1 7 (typed_header demo_junk 0 []) (demo_accepting (bytes_of ''S1'')) = Some (False, s') \<and>
     out_bytes (m_conn (m_clients s' ! 1)) = out_bytes (m_conn (m_clients (demo_accepting (bytes_of ''S1'')) ! 1))
       @ concat (in_segs (w_conn (demo_wms (bytes_of ''S1'') ?segs))) \<and>
     wms_run (\<lambda>t. t) (\<lambda>t. t) (demo_wms (bytes_of ''S1'') ?segs) w' \<and>
     out_bytes (w_conn w') = out_bytes (w_conn (demo_wms (bytes_of ''S1'') ?segs))
       @ concat (in_segs (m_conn (m_clients (demo_accepting (bytes_of ''S1'')) ! 1))) \<and>
     (\<forall>w''. wms_run (\<lambda>t. t) (\<lambda>t. t) w' w'' \<longrightarrow> w_phase w'' = Receiving \<and> \<not> w_connected w'' \<and> \<not> w_timer w'')"
    by (rule refused_client_stays [where junk = demo_junk])
      (simp_all add: demo_accepting_facts demo_wms_facts demo_codes demo_conn_def del: One_nat_def)
  then show ?thesis by blast
qed

text \<open>A connection that has gone silent: once no message came for more than 16 seconds, the timer, if it runs, ends the
  connection and the client tries to connect again.\<close>

lemma silent_connection_restarted:
  assumes "w_timer w" "now - w_lastHeartbeat w > 16"
  shows "wms_step g u w (OnTimer exited now w) \<and> w_phase (OnTimer exited now w) = Connecting \<and> \<not> w_timer (OnTimer exited now w) \<and>
     \<not> w_connected (OnTimer exited now w)"
  using assms wms_step.timer [of w g u exited now] by (simp add: OnTimer_def ChangeConnectionState_def restart_def thread_exit_def Let_def)

text \<open>Receiving an update and handling it.\<close>

lemma update_received:
  assumes "w_run w" "header_ok h d" "sh_code h = MSG_TYPE_UPDATE_DATABASE" "0 \<notin> set d"
    and "w_handlers w = []" "concat (in_segs (w_conn w)) = message_bytes h d @ rest"
  shows "w_updates (run_handler g junk 0 (receive_round u now w)) = fst (update_ProductData h (u d) (w_updates w))"
proof -
  obtain ss where "receive_round u now w = w\<lparr>w_conn := (w_conn w)\<lparr>in_segs := ss\<rparr>, w_lastHeartbeat := now, w_handlers := [(h, u d)]\<rparr>"
    using receive_round_bytes [OF assms(1,2,6), of u now] assms(4,5) by auto
  then show ?thesis by (simp add: run_handler_def update_handler [OF assms(3)])
qed

lemma dispatch_one_client:
  assumes "server_ok s" "header_ok h d" "conns_ok (m_clients s)" "\<forall>cl \<in> set (m_clients s). 0 \<notin> set (m_client_id cl)"
    and "i < length (m_clients s)" "m_client_id (m_clients s ! i) = code" "code \<noteq> []"
  shows "\<exists>s'. dispatchMessage ons h (bytes_of ''1'') code d s = Some s' \<and>
     out_bytes (m_conn (m_clients s' ! i)) = out_bytes (m_conn (m_clients s ! i)) @ message_bytes h d"
proof -
  have mem: "code \<in> set (client_ids (m_clients s))" "0 \<notin> set code"
    using assms(4-7) nth_mem [OF assms(5)] by (auto simp: client_ids_def)
  have dist: "distinct (client_ids (m_clients s))" "code \<notin> set (m_disconnect_store s)"
    using assms(1) mem(1) by (auto simp: server_ok_def known_stores_def)
  obtain cs where cs: "send_first h d code (m_clients s) = Some (code \<in> set (client_ids (m_clients s)), cs)"
      "delivered (\<lambda>i. i = code) h d (m_clients s) cs"
    using send_first_ok [OF assms(2,3) dist(1) assms(7) mem(2) assms(4)] by blast
  have "deal_one ons code d ds a = Some a" if "code \<notin> set ds" for ds a
    using that by (induction ds) auto
  then have "dispatchMessage ons h (bytes_of ''1'') code d s = Some (s\<lparr>m_clients := cs, sv_ali := sv_ali s\<rparr>)"
    using cs(1) dist(2) by (simp add: dispatchMessage_def)
  moreover have "got_message h d (m_clients s ! i) (cs ! i)"
    using cs(2) assms(5,6) by (auto simp: delivered_def list_all2_conv_all_nth)
  ultimately show ?thesis by (auto simp: got_message_def)
qed



text \<open>Updates can overtake each other. Every message is handled by a thread of its own, so when two updates were received in
  one order, their handlers can queue them in the other, and the older values are written last.\<close>

lemma updates_reordered:
  assumes "w_phase w = Receiving" "w_run w" "w_handlers w = []" "w_updates w = []"
    and "header_ok h1 d1" "sh_code h1 = MSG_TYPE_UPDATE_DATABASE" "0 \<notin> set d1"
    and "header_ok h2 d2" "sh_code h2 = MSG_TYPE_UPDATE_DATABASE" "0 \<notin> set d2"
    and "concat (in_segs (w_conn w)) = message_bytes h1 d1 @ message_bytes h2 d2"
  shows "\<exists>w'. wms_run gbk2utf8 utf82gbk w w' \<and> in_data (w_conn (receive_round utf82gbk now (receive_round utf82gbk now w))) = [] \<and>
     w_updates w' = [\<lparr>ud_header = h2, ud_body = utf82gbk d2\<rparr>, \<lparr>ud_header = h1, ud_body = utf82gbk d1\<rparr>]"
proof -
  obtain s1 where 1: "receive_round utf82gbk now w = w\<lparr>w_conn := (w_conn w)\<lparr>in_segs := s1\<rparr>, w_lastHeartbeat := now, w_handlers := [(h1, utf82gbk d1)]\<rparr>"
      "concat s1 = message_bytes h2 d2"
    using receive_round_bytes [OF assms(2,5,11), of utf82gbk now] assms(3,7) by auto
  let ?w1 = "receive_round utf82gbk now w"
  have r1: "w_run ?w1" "w_phase ?w1 = Receiving" "concat (in_segs (w_conn ?w1)) = message_bytes h2 d2 @ []"
    using 1 assms(1,2) by simp_all
  obtain s2 where 2: "receive_round utf82gbk now ?w1 = ?w1\<lparr>w_conn := (w_conn ?w1)\<lparr>in_segs := s2\<rparr>, w_lastHeartbeat := now,
      w_handlers := w_handlers ?w1 @ [(h2, utf82gbk d2)]\<rparr>" "concat s2 = []"
    using receive_round_bytes [OF r1(1) assms(8) r1(3), of utf82gbk now] assms(10) by auto
  let ?w2 = "receive_round utf82gbk now ?w1"
  have h: "w_handlers ?w2 = [(h1, utf82gbk d1), (h2, utf82gbk d2)]" "w_updates ?w2 = []" "in_data (w_conn ?w2) = []"
    using 1 2 assms(4) by (simp_all add: in_data_def)
  let ?w3 = "run_handler gbk2utf8 demo_junk 1 ?w2" and ?w4 = "run_handler gbk2utf8 demo_junk 0 (run_handler gbk2utf8 demo_junk 1 ?w2)"
  have 3: "w_handlers ?w3 = [(h1, utf82gbk d1)]" "w_updates ?w3 = [\<lparr>ud_header = h2, ud_body = utf82gbk d2\<rparr>]"
    using h(1,2) update_handler [OF assms(9)]
    by (simp_all add: run_handler_def update_ProductData_def product_def UPDATE_ROWS_DATA_MAX_SIZE_def)
  have 4: "w_updates ?w4 = [\<lparr>ud_header = h2, ud_body = utf82gbk d2\<rparr>, \<lparr>ud_header = h1, ud_body = utf82gbk d1\<rparr>]"
    using 3 update_handler(1) [OF assms(6)]
    by (simp add: run_handler_def [of _ _ 0] update_ProductData_def product_def UPDATE_ROWS_DATA_MAX_SIZE_def)
  have "wms_run gbk2utf8 utf82gbk w ?w2"
    by (rule wms_run.more [OF wms_run_one [OF wms_step.receive [OF assms(1)]] wms_step.receive [OF r1(2)]])
  then have "wms_run gbk2utf8 utf82gbk w ?w3" by (rule wms_run.more) (rule wms_step.handler, simp add: h(1))
  then have "wms_run gbk2utf8 utf82gbk w ?w4" by (rule wms_run.more) (rule wms_step.handler, simp add: 3(1) del: One_nat_def)
  with 4 h(3) show ?thesis by blast
qed

lemma updates_reordered_witness:
  "\<exists>w w'. concat (in_segs (w_conn w)) = typed_message demo_junk MSG_TYPE_UPDATE_DATABASE [1] @ typed_message demo_junk MSG_TYPE_UPDATE_DATABASE [2] \<and>
     wms_run (\<lambda>t. t) (\<lambda>t. t) w w' \<and> map ud_body (w_updates w') = [[2], [1]]"
proof -
  let ?h = "\<lambda>b. typed_header demo_junk MSG_TYPE_UPDATE_DATABASE [b]"
  let ?w = "demo_wms (bytes_of ''S1'') [message_bytes (?h 1) [1], message_bytes (?h 2) [2]]"
  have h: "header_ok (?h b) [b]" "sh_code (?h b) = MSG_TYPE_UPDATE_DATABASE" for b
    by (simp_all add: header_ok_def typed_header_def demo_junk_def msg_defs HEADER_SIZE_def)
  have w: "w_phase ?w = Receiving" "w_run ?w" "w_handlers ?w = []" "w_updates ?w = []"
      "concat (in_segs (w_conn ?w)) = message_bytes (?h 1) [1] @ message_bytes (?h 2) [2]"
    by (simp_all add: demo_wms_def demo_conn_def)
  from updates_reordered [where utf82gbk = "\<lambda>t. t" and ?gbk2utf8.0 = "\<lambda>t. t" and now = 0, OF w(1-4) h _ h _ w(5)]
  obtain w' where "wms_run (\<lambda>t. t) (\<lambda>t. t) ?w w'" "map ud_body (w_updates w') = [[2], [1]]" by auto
  with w(5) show ?thesis unfolding typed_message_def by (intro exI conjI) assumption+
qed

end
