(* ===== verification/Jsoncpp.thy ===== *)
theory Jsoncpp
  imports Buildsql Configfile
begin

text \<open>
  The JSON library the client carries with it, as far as the client uses it: the classes \<open>FastWriter\<close>
  (\<open>jsoncpp/src/lib_json/json_writer.cpp\<close>) and \<open>Reader\<close> (\<open>json_reader.cpp\<close>) with the features of the default constructor.

  The position \<open>current_\<close> of the reader is the rest of the document, the text of a token what lies between two
  positions. Comments only decorate the values and are dropped, and so are the error messages and the offsets. Once
  an error has occurred nothing but the result false can follow: the recovery reads tokens up to a closing bracket and
  returns false, and every caller does the same; so the recovery is not modelled. The nesting is bounded by
  \<open>stackLimit_g\<close>, beyond which an exception is thrown. The conversions of doubles are the parameters \<open>real_text\<close> and
  \<open>read_double\<close>.
\<close>

unbundle bit_operations_syntax

section \<open>The writer\<close>

definition isControlCharacter :: "uchar \<Rightarrow> bool" where
  "isControlCharacter ch \<longleftrightarrow> ch \<noteq> 0 \<and> ch \<le> 31"

definition containsControlCharacter0 :: "buffer \<Rightarrow> bool" where
  "containsControlCharacter0 s = list_ex (\<lambda>c. isControlCharacter c \<or> c = 0) s"

text \<open>Whether one of the bytes of \<open>accept\<close> occurs.\<close>

definition strnpbrk :: "buffer \<Rightarrow> buffer \<Rightarrow> bool" where
  "strnpbrk s accept = list_ex (\<lambda>c. c \<in> set accept) s"

definition hex_upper :: "uchar \<Rightarrow> uchar" where
  "hex_upper k = (if k < 10 then 48 + k else 55 + k)"

definition quoted_char :: "uchar \<Rightarrow> buffer" where
  "quoted_char c =
     (if c = 34 then [92, 34] else if c = 92 then [92, 92] else if c = 8 then [92, 98] else if c = 12 then [92, 102]
      else if c = 10 then [92, 110] else if c = 13 then [92, 114] else if c = 9 then [92, 116]
      else if isControlCharacter c \<or> c = 0 then [92, 117, 48, 48, hex_upper (c div 16), hex_upper (c mod 16)]
      else [c])"

definition valueToQuotedStringN :: "buffer \<Rightarrow> buffer" where
  "valueToQuotedStringN s =
     (if \<not> strnpbrk s [34, 92, 8, 12, 10, 13, 9] \<and> \<not> containsControlCharacter0 s then [34] @ c_str s @ [34]
      else [34] @ concat (map quoted_char s) @ [34])"

fun writeValue :: "('r \<Rightarrow> buffer) \<Rightarrow> 'r json \<Rightarrow> buffer" where
  "writeValue real_text nullValue = lit ''null''"
| "writeValue real_text (intValue x) = dec_text x"
| "writeValue real_text (uintValue x) = dec_text x"
| "writeValue real_text (realValue r) = real_text r"
| "writeValue real_text (stringValue s) = valueToQuotedStringN s"
| "writeValue real_text (booleanValue b) = lit (if b then ''true'' else ''false'')"
| "writeValue real_text (arrayValue vs) = [91] @ join [44] (map (writeValue real_text) vs) @ [93]"
| "writeValue real_text (objectValue ms) =
     [123] @ join [44] (map (\<lambda>(name, v). valueToQuotedStringN name @ [58] @ writeValue real_text v) ms) @ [125]"

definition FastWriter_write :: "('r \<Rightarrow> buffer) \<Rightarrow> 'r json \<Rightarrow> buffer" where
  "FastWriter_write real_text root = writeValue real_text root @ [10]"

section \<open>Tokens\<close>

datatype token_type = tokenEndOfStream | tokenObjectBegin | tokenObjectEnd | tokenArrayBegin | tokenArrayEnd | tokenString
  | tokenNumber | tokenTrue | tokenFalse | tokenNull | tokenArraySeparator | tokenMemberSeparator | tokenComment | tokenError

definition getNextChar :: "buffer \<Rightarrow> uchar \<times> buffer" where
  "getNextChar s = (case s of [] \<Rightarrow> (0, []) | c # s' \<Rightarrow> (c, s'))"

text \<open>The character at the position: the document ends with a zero.\<close>

definition peek :: "buffer \<Rightarrow> uchar" where
  "peek s = (case s of [] \<Rightarrow> 0 | c # _ \<Rightarrow> c)"

definition skipSpaces :: "buffer \<Rightarrow> buffer" where
  "skipSpaces s = dropWhile (\<lambda>c. c = 32 \<or> c = 9 \<or> c = 13 \<or> c = 10) s"

definition reader_match :: "buffer \<Rightarrow> buffer \<Rightarrow> bool \<times> buffer" where
  "reader_match pattern s =
     (if length s < length pattern then (False, s)
      else if take (length pattern) s = pattern then (True, drop (length pattern) s) else (False, s))"

fun c_comment_loop :: "buffer \<Rightarrow> buffer" where
  "c_comment_loop [] = []"
| "c_comment_loop (c # s) = (if c = 42 \<and> peek s = 47 then s else c_comment_loop s)"

definition readCStyleComment :: "buffer \<Rightarrow> bool \<times> buffer" where
  "readCStyleComment s = (let (c, s') = getNextChar (c_comment_loop s) in (c = 47, s'))"

fun cpp_comment_loop :: "buffer \<Rightarrow> buffer" where
  "cpp_comment_loop [] = []"
| "cpp_comment_loop (c # s) =
     (if c = 10 then s else if c = 13 then (if s \<noteq> [] \<and> peek s = 10 then tl s else s) else cpp_comment_loop s)"

definition readCppStyleComment :: "buffer \<Rightarrow> bool \<times> buffer" where
  "readCppStyleComment s = (True, cpp_comment_loop s)"

definition readComment :: "buffer \<Rightarrow> bool \<times> buffer" where
  "readComment s =
     (let (c, s1) = getNextChar s in
      if c = 42 then readCStyleComment s1 else if c = 47 then readCppStyleComment s1 else (False, s1))"

definition readNumber :: "buffer \<Rightarrow> buffer" where
  "readNumber s =
     (let digits = dropWhile (\<lambda>c. c_isdigit c);
          s1 = digits s;
          s2 = (if peek s1 = 46 then digits (tl s1) else s1) in
      if peek s2 = 101 \<or> peek s2 = 69
      then (let s3 = tl s2 in digits (if peek s3 = 43 \<or> peek s3 = 45 then tl s3 else s3))
      else s2)"

fun readString :: "buffer \<Rightarrow> bool \<times> buffer" where
  "readString [] = (False, [])"
| "readString (c # s) = (if c = 92 then readString (drop 1 s) else if c = 34 then (True, s) else readString s)"

text \<open>The cases of \<open>readToken\<close> for the first character of a token, and the token: its type, its text and the rest.\<close>

definition token_at :: "uchar \<Rightarrow> buffer \<Rightarrow> token_type \<times> bool \<times> buffer" where
  "token_at c s1 =
     (if c = 123 then (tokenObjectBegin, True, s1)
      else if c = 125 then (tokenObjectEnd, True, s1)
      else if c = 91 then (tokenArrayBegin, True, s1)
      else if c = 93 then (tokenArrayEnd, True, s1)
      else if c = 34 then (tokenString, readString s1)
      else if c = 47 then (tokenComment, readComment s1)
      else if c_isdigit c \<or> c = 45 then (tokenNumber, True, readNumber s1)
      else if c = 116 then (tokenTrue, reader_match (lit ''rue'') s1)
      else if c = 102 then (tokenFalse, reader_match (lit ''alse'') s1)
      else if c = 110 then (tokenNull, reader_match (lit ''ull'') s1)
      else if c = 44 then (tokenArraySeparator, True, s1)
      else if c = 58 then (tokenMemberSeparator, True, s1)
      else if c = 0 then (tokenEndOfStream, True, s1)
      else (tokenError, False, s1))"

definition readToken :: "buffer \<Rightarrow> token_type \<times> buffer \<times> buffer" where
  "readToken s0 =
     (let s = skipSpaces s0;
          (c, s1) = getNextChar s;
          (type, ok, s2) = token_at c s1 in
      (if ok then type else tokenError, take (length s - length s2) s, s2))"

lemma getNextChar_length: "length (snd (getNextChar s)) = length s - 1"
  by (simp add: getNextChar_def split: list.split)

lemma c_comment_loop_length: "length (c_comment_loop s) \<le> length s"
  by (induction s) auto

lemma cpp_comment_loop_length: "length (cpp_comment_loop s) \<le> length s"
  by (induction s) auto

lemma readComment_length: "length (snd (readComment s)) \<le> length s"
proof -
  have "length (c_comment_loop t) - 1 \<le> length s" "length (cpp_comment_loop t) \<le> length s" if "length t \<le> length s" for t
    using c_comment_loop_length [of t] cpp_comment_loop_length [of t] that by linarith+
  moreover have "length (snd (getNextChar s)) \<le> length s" using getNextChar_length [of s] by simp
  ultimately show ?thesis
    by (simp add: readComment_def readCStyleComment_def readCppStyleComment_def case_prod_unfold Let_def getNextChar_length)
qed

lemma readString_length: "length (snd (readString s)) \<le> length s"
  by (induction s rule: readString.induct) auto

lemma readNumber_length: "length (readNumber s) \<le> length s"
proof -
  have d: "length (dropWhile P (tl x)) \<le> length x" "length (dropWhile P (tl (tl x))) \<le> length x"
    "length (dropWhile P x) \<le> length x" for P and x :: buffer
    using length_dropWhile_le [of P "tl x"] length_dropWhile_le [of P "tl (tl x)"] length_dropWhile_le [of P x] by simp_all
  show ?thesis by (auto simp: readNumber_def Let_def intro: d order_trans [OF d(1)] order_trans [OF d(2)] order_trans [OF d(3)])
qed

lemma reader_match_length: "length (snd (reader_match p s)) \<le> length s"
  by (simp add: reader_match_def)

lemma token_at_length: "length (snd (snd (token_at c s))) \<le> length s"
  by (simp add: token_at_def readComment_length readString_length readNumber_length reader_match_length)

text \<open>A token shortens the rest, unless it is the end of the stream.\<close>

lemma readToken_shrinks:
  assumes "readToken s = (t, text, s')"
  shows "length s' \<le> length s" "t \<noteq> tokenEndOfStream \<Longrightarrow> length s' < length s"
proof -
  obtain c s1 where c: "getNextChar (skipSpaces s) = (c, s1)" by fastforce
  have l: "length s1 = length (skipSpaces s) - 1" "length (skipSpaces s) \<le> length s"
    using getNextChar_length [of "skipSpaces s"] c by (simp_all add: skipSpaces_def length_dropWhile_le)
  have "length s' \<le> length s1"
    using assms c token_at_length [of c s1] by (auto simp: readToken_def case_prod_unfold Let_def)
  then show "length s' \<le> length s" using l by simp
  show "length s' < length s" if "t \<noteq> tokenEndOfStream"
  proof -
    have "skipSpaces s \<noteq> []"
    proof
      assume "skipSpaces s = []"
      then have "readToken s = (tokenEndOfStream, [], [])" by (simp add: readToken_def getNextChar_def token_at_def)
      with assms that show False by simp
    qed
    then have "length s1 < length s" using l by (cases "skipSpaces s") auto
    with \<open>length s' \<le> length s1\<close> show ?thesis by simp
  qed
qed

function skipCommentTokens :: "buffer \<Rightarrow> token_type \<times> buffer \<times> buffer" where
  "skipCommentTokens s =
     (case readToken s of (type, text, s') \<Rightarrow> if type = tokenComment then skipCommentTokens s' else (type, text, s'))"
  by pat_completeness auto
termination
  by (relation "measure length") (auto intro: readToken_shrinks(2) [OF sym])

declare skipCommentTokens.simps [simp del]

section \<open>Numbers and strings\<close>

fun number_loop :: "int \<Rightarrow> buffer \<Rightarrow> int \<Rightarrow> int option" where
  "number_loop maxIntegerValue [] value = Some value"
| "number_loop maxIntegerValue (c # cs) value =
     (let threshold = maxIntegerValue div 10; digit = uint c - 48 in
      if \<not> c_isdigit c then None
      else if value \<ge> threshold \<and> (value > threshold \<or> cs \<noteq> [] \<or> digit > maxIntegerValue mod 10) then None
      else number_loop maxIntegerValue cs (value * 10 + digit))"

definition decodeDouble :: "(buffer \<Rightarrow> 'r option) \<Rightarrow> buffer \<Rightarrow> 'r json option" where
  "decodeDouble read_double text = map_option realValue (read_double text)"

definition decodeNumber :: "(buffer \<Rightarrow> 'r option) \<Rightarrow> buffer \<Rightarrow> 'r json option" where
  "decodeNumber read_double text =
     (let isNegative = peek text = 45;
          maxIntegerValue = (if isNegative then 2 ^ 63 else 2 ^ 64 - 1) in
      case number_loop maxIntegerValue (if isNegative then tl text else text) 0 of
        None \<Rightarrow> decodeDouble read_double text
      | Some value \<Rightarrow>
          Some (if isNegative then intValue (- value)
                else if value \<le> 2 ^ 31 - 1 then intValue value else uintValue value))"

fun hex_loop :: "nat \<Rightarrow> buffer \<Rightarrow> int \<Rightarrow> (int \<times> buffer) option" where
  "hex_loop 0 s unicode = Some (unicode, s)"
| "hex_loop (Suc n) s unicode =
     (case hex_digit (peek s) of None \<Rightarrow> None | Some d \<Rightarrow> hex_loop n (tl s) (unicode * 16 + d))"

definition decodeUnicodeEscapeSequence :: "buffer \<Rightarrow> (int \<times> buffer) option" where
  "decodeUnicodeEscapeSequence s = (if length s < 4 then None else hex_loop 4 s 0)"

definition decodeUnicodeCodePoint :: "buffer \<Rightarrow> (int \<times> buffer) option" where
  "decodeUnicodeCodePoint s = do {
     (unicode, s1) \<leftarrow> decodeUnicodeEscapeSequence s;
     if 0xD800 \<le> unicode \<and> unicode \<le> 0xDBFF
     then if length s1 < 6 then None
          else if s1 ! 0 = 92 \<and> s1 ! 1 = 117
          then do {
            (surrogatePair, s2) \<leftarrow> decodeUnicodeEscapeSequence (drop 2 s1);
            Some (0x10000 + (unicode mod 0x400) * 0x400 + surrogatePair mod 0x400, s2) }
          else None
     else Some (unicode, s1) }"

definition codePointToUTF8 :: "int \<Rightarrow> buffer" where
  "codePointToUTF8 cp =
     (if cp \<le> 0x7F then [word_of_int cp]
      else if cp \<le> 0x7FF then [0xC0 OR word_of_int (cp div 2 ^ 6 mod 0x20), 0x80 OR word_of_int (cp mod 0x40)]
      else if cp \<le> 0xFFFF then [0xE0 OR word_of_int (cp div 2 ^ 12 mod 0x10), 0x80 OR word_of_int (cp div 2 ^ 6 mod 0x40),
                               0x80 OR word_of_int (cp mod 0x40)]
      else if cp \<le> 0x10FFFF then [0xF0 OR word_of_int (cp div 2 ^ 18 mod 0x8), 0x80 OR word_of_int (cp div 2 ^ 12 mod 0x40),
                               0x80 OR word_of_int (cp div 2 ^ 6 mod 0x40), 0x80 OR word_of_int (cp mod 0x40)]
      else [])"

text \<open>The characters after a backslash that stand for one byte.\<close>

definition simple_escape :: "uchar \<Rightarrow> uchar option" where
  "simple_escape e =
     (if e = 34 then Some 34 else if e = 47 then Some 47 else if e = 92 then Some 92 else if e = 98 then Some 8
      else if e = 102 then Some 12 else if e = 110 then Some 10 else if e = 114 then Some 13 else if e = 116 then Some 9 else None)"

lemma hex_loop_rest: "hex_loop n s u = Some (v, s') \<Longrightarrow> s' = drop n s"
proof (induction n arbitrary: s u)
  case (Suc n)
  then show ?case by (cases s) (fastforce split: option.splits)+
qed simp

lemma decodeUnicodeCodePoint_shrinks: "decodeUnicodeCodePoint s = Some (u, s') \<Longrightarrow> length s' \<le> length s"
  by (auto simp: decodeUnicodeCodePoint_def decodeUnicodeEscapeSequence_def split: Option.bind_splits if_splits dest!: hex_loop_rest)

function unescape_loop :: "buffer \<Rightarrow> buffer \<Rightarrow> buffer option" where
  "unescape_loop [] decoded = Some decoded"
| "unescape_loop (c # s) decoded =
     (if c = 34 then Some decoded
      else if c = 92 then
        (case s of [] \<Rightarrow> None
         | e # s1 \<Rightarrow>
            if e = 117 then (case decodeUnicodeCodePoint s1 of None \<Rightarrow> None
                             | Some (unicode, s2) \<Rightarrow> unescape_loop s2 (decoded @ codePointToUTF8 unicode))
            else (case simple_escape e of None \<Rightarrow> None | Some b \<Rightarrow> unescape_loop s1 (decoded @ [b])))
      else unescape_loop s (decoded @ [c]))"
  by pat_completeness auto
termination
  by (relation "measure (length \<circ> fst)") (auto dest!: decodeUnicodeCodePoint_shrinks)

definition decodeString :: "buffer \<Rightarrow> buffer option" where
  "decodeString text = unescape_loop (drop 1 (butlast text)) []"

section \<open>The reader\<close>

text \<open>The result false and the exception of the stack limit. The loops over members and elements count down from a
  number; \<open>Read_unfinished\<close> would be that it is used up, which never happens (\<open>reader_finishes\<close> below).\<close>

datatype 'r read = Read "'r json" buffer | Read_failed | Read_thrown | Read_unfinished

fun CZString_less :: "buffer \<Rightarrow> buffer \<Rightarrow> bool" where
  "CZString_less [] [] = False"
| "CZString_less [] (y # ys) = True"
| "CZString_less (x # xs) [] = False"
| "CZString_less (x # xs) (y # ys) = (if x < y then True else if y < x then False else CZString_less xs ys)"

text \<open>The member of the map with this name gets the value.\<close>

fun set_member :: "buffer \<Rightarrow> 'r json \<Rightarrow> (buffer \<times> 'r json) list \<Rightarrow> (buffer \<times> 'r json) list" where
  "set_member name v [] = [(name, v)]"
| "set_member name v ((n, w) # ms) =
     (if CZString_less name n then (name, v) # (n, w) # ms
      else if CZString_less n name then (n, w) # set_member name v ms
      else (n, v) # ms)"

fun read_elements :: "(buffer \<Rightarrow> 'r read) \<Rightarrow> nat \<Rightarrow> buffer \<Rightarrow> 'r json list \<Rightarrow> 'r read" where
  "read_elements readV 0 s vs = Read_unfinished"
| "read_elements readV (Suc n) s vs =
     (case readV s of
        Read v s1 \<Rightarrow>
          (case skipCommentTokens s1 of (type, _, s2) \<Rightarrow>
             if type = tokenArraySeparator then read_elements readV n s2 (vs @ [v])
             else if type = tokenArrayEnd then Read (arrayValue (vs @ [v])) s2
             else Read_failed)
      | r \<Rightarrow> r)"

definition readArray :: "(buffer \<Rightarrow> 'r read) \<Rightarrow> buffer \<Rightarrow> 'r read" where
  "readArray readV s =
     (let s1 = skipSpaces s in
      if peek s1 = 93 then (case readToken s1 of (_, _, s2) \<Rightarrow> Read (arrayValue []) s2)
      else read_elements readV (Suc (length s1)) s1 [])"

fun read_members :: "(buffer \<Rightarrow> 'r read) \<Rightarrow> nat \<Rightarrow> buffer \<Rightarrow> buffer \<Rightarrow> (buffer \<times> 'r json) list \<Rightarrow> 'r read" where
  "read_members readV 0 s name ms = Read_unfinished"
| "read_members readV (Suc n) s name ms =
     (case skipCommentTokens s of (t1, text, s1) \<Rightarrow>
        if t1 = tokenObjectEnd \<and> name = [] then Read (objectValue ms) s1
        else if t1 \<noteq> tokenString then Read_failed
        else (case decodeString text of None \<Rightarrow> Read_failed
              | Some name' \<Rightarrow>
                 (case readToken s1 of (t2, _, s2) \<Rightarrow>
                    if t2 \<noteq> tokenMemberSeparator then Read_failed
                    else (case readV s2 of
                            Read v s3 \<Rightarrow>
                              (case readToken s3 of (t3, _, s4) \<Rightarrow>
                                 if t3 \<notin> {tokenObjectEnd, tokenArraySeparator, tokenComment} then Read_failed
                                 else (case (if t3 = tokenComment then skipCommentTokens s4 else (t3, [], s4)) of (t4, _, s5) \<Rightarrow>
                                         if t4 = tokenObjectEnd then Read (objectValue (set_member name' v ms)) s5
                                         else read_members readV n s5 name' (set_member name' v ms)))
                          | r \<Rightarrow> r))))"

definition readObject :: "(buffer \<Rightarrow> 'r read) \<Rightarrow> buffer \<Rightarrow> 'r read" where
  "readObject readV s = read_members readV (Suc (length s)) s [] []"

definition of_decoded :: "'r json option \<Rightarrow> buffer \<Rightarrow> 'r read" where
  "of_decoded d s = (case d of None \<Rightarrow> Read_failed | Some v \<Rightarrow> Read v s)"

text \<open>The first argument is what the stack limit leaves.\<close>

primrec readValue :: "(buffer \<Rightarrow> 'r option) \<Rightarrow> nat \<Rightarrow> buffer \<Rightarrow> 'r read" where
  "readValue read_double 0 s = Read_thrown"
| "readValue read_double (Suc depth) s =
     (case skipCommentTokens s of (type, text, s1) \<Rightarrow>
        (case type of
           tokenObjectBegin \<Rightarrow> readObject (readValue read_double depth) s1
         | tokenArrayBegin \<Rightarrow> readArray (readValue read_double depth) s1
         | tokenNumber \<Rightarrow> of_decoded (decodeNumber read_double text) s1
         | tokenString \<Rightarrow> of_decoded (map_option stringValue (decodeString text)) s1
         | tokenTrue \<Rightarrow> Read (booleanValue True) s1
         | tokenFalse \<Rightarrow> Read (booleanValue False) s1
         | tokenNull \<Rightarrow> Read nullValue s1
         | _ \<Rightarrow> Read_failed))"

definition stackLimit_g :: nat where "stackLimit_g = 1000"

text \<open>The document is copied up to the capacity of its string: \<open>slack\<close> is what lies behind its text, beginning with the
  terminating zero.\<close>

definition Reader_parse :: "(buffer \<Rightarrow> 'r option) \<Rightarrow> buffer \<Rightarrow> buffer \<Rightarrow> 'r read" where
  "Reader_parse read_double slack document = readValue read_double stackLimit_g (document @ slack)"

section \<open>The reader ends\<close>

lemma skipCommentTokens_shrinks:
  "skipCommentTokens s = (t, tx, s') \<Longrightarrow> length s' \<le> length s \<and> (t \<noteq> tokenEndOfStream \<longrightarrow> length s' < length s)"
proof (induction s rule: skipCommentTokens.induct)
  case (1 s)
  obtain t1 tx1 s1 where r: "readToken s = (t1, tx1, s1)" by (cases "readToken s")
  show ?case
  proof (cases "t1 = tokenComment")
    case True
    then have "skipCommentTokens s1 = (t, tx, s')" using "1.prems" r by (simp add: skipCommentTokens.simps [of s])
    then show ?thesis using "1.IH" [OF r [symmetric] refl True] readToken_shrinks(1) [OF r] readToken_shrinks(2) [OF r] True by auto
  next
    case False
    then have "(t, tx, s') = (t1, tx1, s1)" using "1.prems" r by (simp add: skipCommentTokens.simps [of s])
    then show ?thesis using readToken_shrinks [OF r] by simp
  qed
qed

definition ends_before :: "buffer \<Rightarrow> 'r read \<Rightarrow> bool" where
  "ends_before s r = (case r of Read v s' \<Rightarrow> length s' < length s | Read_unfinished \<Rightarrow> False | _ \<Rightarrow> True)"

lemma ends_before_simps [simp]:
  "ends_before s (Read v s') \<longleftrightarrow> length s' < length s" "ends_before s Read_failed" "ends_before s Read_thrown"
  "\<not> ends_before s Read_unfinished"
  by (simp_all add: ends_before_def)

lemma ends_before_mono: "ends_before s1 r \<Longrightarrow> length s1 \<le> length s \<Longrightarrow> ends_before s r"
  by (cases r) simp_all

lemma read_elements_shorter:
  assumes "\<And>s. ends_before s (readV s)" "length s < n"
  shows "ends_before s (read_elements readV n s vs)"
  using assms(2)
proof (induction n arbitrary: s vs)
  case (Suc n)
  show ?case
  proof (cases "readV s")
    case (Read v s1)
    then have "length s1 < length s" using assms(1) [of s] by simp
    moreover obtain t tx s2 where t: "skipCommentTokens s1 = (t, tx, s2)" by (cases "skipCommentTokens s1")
    ultimately have l: "length s2 < length s" "length s2 < n"
      using skipCommentTokens_shrinks [OF t] Suc.prems by linarith+
    have "ends_before s (read_elements readV n s2 (vs @ [v]))" using ends_before_mono [OF Suc.IH [OF l(2)]] l(1) by simp
    then show ?thesis using Read t l by simp
  qed (use assms(1) [of s] in simp_all)
qed simp

lemma read_members_shorter:
  assumes "\<And>s. ends_before s (readV s)" "length s < n"
  shows "ends_before s (read_members readV n s name ms)"
  using assms(2)
proof (induction n arbitrary: s name ms)
  case (Suc n)
  obtain t1 tx s1 where t1: "skipCommentTokens s = (t1, tx, s1)" by (cases "skipCommentTokens s")
  obtain t2 tx2 s2 where t2: "readToken s1 = (t2, tx2, s2)" by (cases "readToken s1")
  have l2: "length s2 \<le> length s" "t1 = tokenObjectEnd \<Longrightarrow> length s1 < length s"
    using skipCommentTokens_shrinks [OF t1] readToken_shrinks [OF t2] by auto
  show ?case
  proof (cases "readV s2")
    case (Read v s3)
    obtain t3 tx3 s4 where t3: "readToken s3 = (t3, tx3, s4)" by (cases "readToken s3")
    obtain t4 tx4 s5 where t4: "(if t3 = tokenComment then skipCommentTokens s4 else (t3, [], s4)) = (t4, tx4, s5)"
      by (cases "if t3 = tokenComment then skipCommentTokens s4 else (t3, [], s4)")
    have "length s5 \<le> length s4" using t4 skipCommentTokens_shrinks [of s4 t4 tx4 s5] by (auto split: if_splits)
    then have l: "length s5 < length s" "length s5 < n"
      using Read assms(1) [of s2] l2 readToken_shrinks(1) [OF t3] Suc.prems by simp_all
    have "ends_before s (read_members readV n s5 name' ms')" for name' ms'
      using ends_before_mono [OF Suc.IH [OF l(2)]] l(1) by simp
    then show ?thesis using Read t1 l l2 t4 by (cases "t3 = tokenComment") (simp_all add: t2 t3 split: option.split)
  qed (use assms(1) [of s2] t1 t2 l2 in \<open>simp_all split: option.split\<close>)
qed simp

lemma readArray_shorter:
  assumes "\<And>s. ends_before s (readV s)" "length s1 < length s"
  shows "ends_before s (readArray readV s1)"
proof -
  have sp: "length (skipSpaces s1) \<le> length s1" by (simp add: skipSpaces_def length_dropWhile_le)
  obtain u tx s2 where u: "readToken (skipSpaces s1) = (u, tx, s2)" by (cases "readToken (skipSpaces s1)")
  have "ends_before s (read_elements readV (Suc (length (skipSpaces s1))) (skipSpaces s1) [])"
    by (rule ends_before_mono [OF read_elements_shorter [OF assms(1)]]) (use sp assms(2) in simp_all)
  then show ?thesis using readToken_shrinks(1) [OF u] sp u assms(2) by (simp add: readArray_def Let_def del: read_elements.simps)
qed

lemma readObject_shorter:
  assumes "\<And>s. ends_before s (readV s)" "length s1 < length s"
  shows "ends_before s (readObject readV s1)"
  unfolding readObject_def by (rule ends_before_mono [OF read_members_shorter [OF assms(1)]]) (use assms(2) in simp_all)

lemma readValue_shorter: "ends_before s (readValue read_double depth s)"
proof (induction depth arbitrary: s)
  case (Suc depth)
  obtain t tx s1 where t: "skipCommentTokens s = (t, tx, s1)" by (cases "skipCommentTokens s")
  show ?case
  proof (cases "t = tokenEndOfStream")
    case False
    then have "length s1 < length s" using skipCommentTokens_shrinks [OF t] by simp
    moreover from this have "ends_before s (of_decoded d s1)" for d :: "'a json option" by (simp add: of_decoded_def split: option.split)
    ultimately show ?thesis
      using t readArray_shorter [OF Suc.IH, of s1 s] readObject_shorter [OF Suc.IH, of s1 s] by (cases t) simp_all
  qed (simp add: t)
qed simp


section \<open>What is written is read back\<close>

subsection \<open>Strings\<close>

lemma hex_upper_digit:
  assumes "k < 16"
  shows "hex_digit (hex_upper k) = Some (uint k)" "hex_upper k \<noteq> 34" "hex_upper k \<noteq> 92"
proof -
  have "unat k < 16" using assms by (simp add: word_less_nat_alt)
  then have "unat k = 0 \<or> unat k = 1 \<or> unat k = 2 \<or> unat k = 3 \<or> unat k = 4 \<or> unat k = 5 \<or> unat k = 6 \<or> unat k = 7 \<or> unat k = 8 \<or>
      unat k = 9 \<or> unat k = 10 \<or> unat k = 11 \<or> unat k = 12 \<or> unat k = 13 \<or> unat k = 14 \<or> unat k = 15" by presburger
  then have "k \<in> set [0, 1, 2, 3, 4, 5, 6, 7, 8, 9, 10, 11, 12, 13, 14, 15]" by (simp add: word_unat_eq_iff)
  moreover have "list_all (\<lambda>k. hex_digit (hex_upper k) = Some (uint k) \<and> hex_upper k \<noteq> 34 \<and> hex_upper k \<noteq> 92)
      [0, 1, 2, 3, 4, 5, 6, 7, 8, 9, 10, 11, 12, 13, 14, 15]" by code_simp
  ultimately show "hex_digit (hex_upper k) = Some (uint k)" "hex_upper k \<noteq> 34" "hex_upper k \<noteq> 92"
    unfolding list_all_iff by blast+
qed

lemma control_parts:
  assumes "c \<le> (31 :: uchar)"
  shows "c div 16 < 16" "c mod 16 < 16" "uint (c div 16) * 16 + uint (c mod 16) = uint c"
proof -
  show "c div 16 < 16" using assms by (simp add: word_less_nat_alt word_le_nat_alt unat_div)
  show "c mod 16 < 16" by (simp add: word_less_nat_alt unat_mod)
  show "uint (c div 16) * 16 + uint (c mod 16) = uint c" by (simp add: uint_div uint_mod)
qed

text \<open>The three forms of a written character.\<close>

lemma quoted_char_cases:
  obtains "quoted_char c = [c]" "c \<noteq> 34" "c \<noteq> 92" "\<not> c \<le> 31"
  | e where "quoted_char c = [92, e]" "e \<noteq> 117" "simple_escape e = Some c"
  | "quoted_char c = [92, 117, 48, 48, hex_upper (c div 16), hex_upper (c mod 16)]" "c \<le> 31"
proof (cases "c \<in> {34, 92, 8, 12, 10, 13, 9}")
  case True
  then show ?thesis by (auto simp: quoted_char_def simple_escape_def intro: that(2))
next
  case False
  then show ?thesis
  proof (cases "c \<le> 31")
    case True
    with False show ?thesis by (intro that(3)) (auto simp: quoted_char_def isControlCharacter_def)
  next
    case no: False
    then have "c \<noteq> 0" by auto
    with False no show ?thesis by (intro that(1)) (auto simp: quoted_char_def isControlCharacter_def)
  qed
qed

lemma valueToQuotedStringN_eq: "valueToQuotedStringN s = [34] @ concat (map quoted_char s) @ [34]"
proof (cases "\<not> strnpbrk s [34, 92, 8, 12, 10, 13, 9] \<and> \<not> containsControlCharacter0 s")
  case True
  then have "quoted_char c = [c]" if "c \<in> set s" for c
    using that by (auto simp: strnpbrk_def containsControlCharacter0_def list_ex_iff quoted_char_def)
  then have m: "map quoted_char s = map (\<lambda>c. [c]) s" by simp
  have "c_str s = s" using True by (auto simp: containsControlCharacter0_def list_ex_iff)
  then show ?thesis using True by (simp add: valueToQuotedStringN_def m)
qed (auto simp: valueToQuotedStringN_def)

lemma readString_quoted: "readString (concat (map quoted_char s) @ 34 # rest) = (True, rest)"
proof (induction s)
  case (Cons c s)
  show ?case
  proof (cases c rule: quoted_char_cases)
    case (2 e)
    then show ?thesis using Cons by simp
  next
    case 3
    then show ?thesis using Cons hex_upper_digit(2,3) [OF control_parts(1)] hex_upper_digit(2,3) [OF control_parts(2)] by simp
  qed (use Cons in simp)
qed simp

lemma decode_control:
  assumes "c \<le> 31"
  shows "decodeUnicodeCodePoint (48 # 48 # hex_upper (c div 16) # hex_upper (c mod 16) # s) = Some (uint c, s)"
    "codePointToUTF8 (uint c) = [c]"
proof -
  have "uint c \<le> 31" using assms by (simp add: word_le_def)
  moreover have "hex_digit 48 = Some 0" by (simp add: hex_digit_def)
  ultimately show "decodeUnicodeCodePoint (48 # 48 # hex_upper (c div 16) # hex_upper (c mod 16) # s) = Some (uint c, s)"
    using hex_upper_digit(1) [OF control_parts(1) [OF assms]] hex_upper_digit(1) [OF control_parts(2) [OF assms]] control_parts(3) [OF assms]
    by (simp add: decodeUnicodeCodePoint_def decodeUnicodeEscapeSequence_def peek_def eval_nat_numeral)
  show "codePointToUTF8 (uint c) = [c]" using \<open>uint c \<le> 31\<close> by (simp add: codePointToUTF8_def)
qed

lemma unescape_loop_quoted: "unescape_loop (concat (map quoted_char s)) acc = Some (acc @ s)"
proof (induction s arbitrary: acc)
  case (Cons c s)
  show ?case
  proof (cases c rule: quoted_char_cases)
    case 3
    then show ?thesis using Cons decode_control [OF 3(2)] by simp
  qed (use Cons in simp_all)
qed simp

lemma decodeString_quoted: "decodeString (valueToQuotedStringN s) = Some s"
  by (simp add: decodeString_def valueToQuotedStringN_eq butlast_append unescape_loop_quoted)

subsection \<open>Tokens\<close>

lemma readToken_at:
  assumes "\<not> (c = 32 \<or> c = 9 \<or> c = 13 \<or> c = 10)"
  shows "readToken (c # s) = (case token_at c s of (t, ok, s2) \<Rightarrow>
     (if ok then t else tokenError, take (Suc (length s) - length s2) (c # s), s2))"
  using assms by (simp add: readToken_def skipSpaces_def getNextChar_def)

lemma readToken_punctuation [simp]:
  "readToken (44 # s) = (tokenArraySeparator, [44], s)" "readToken (58 # s) = (tokenMemberSeparator, [58], s)"
  "readToken (91 # s) = (tokenArrayBegin, [91], s)" "readToken (93 # s) = (tokenArrayEnd, [93], s)"
  "readToken (123 # s) = (tokenObjectBegin, [123], s)" "readToken (125 # s) = (tokenObjectEnd, [125], s)"
  by (simp_all add: readToken_at token_at_def)

lemma readToken_quoted: "readToken (valueToQuotedStringN s @ rest) = (tokenString, valueToQuotedStringN s, rest)"
  using readString_quoted [of s rest] by (simp add: valueToQuotedStringN_eq readToken_at token_at_def)

lemma skipCommentTokens_token: "readToken s = (t, tx, s') \<Longrightarrow> t \<noteq> tokenComment \<Longrightarrow> skipCommentTokens s = (t, tx, s')"
  by (simp add: skipCommentTokens.simps [of s])

lemma skipCommentTokens_punctuation [simp]:
  "skipCommentTokens (44 # s) = (tokenArraySeparator, [44], s)"
  "skipCommentTokens (91 # s) = (tokenArrayBegin, [91], s)" "skipCommentTokens (93 # s) = (tokenArrayEnd, [93], s)"
  "skipCommentTokens (123 # s) = (tokenObjectBegin, [123], s)" "skipCommentTokens (125 # s) = (tokenObjectEnd, [125], s)"
  by (simp_all add: skipCommentTokens_token)

subsection \<open>Numbers\<close>

lemma dec_value_bytes: "all_digits s \<Longrightarrow> dec_value (bytes_of s) = int (dec_val s)"
proof (induction s rule: rev_induct)
  case Nil
  then show ?case by (simp add: dec_value_def bytes_of_def dec_val_def)
next
  case (snoc c s)
  then obtain k where k: "k < 10" "c = digit_char k" "all_digits s" by (auto simp: all_digits_def)
  then show ?case using snoc digit_byte [of k] digit_byte_range [of k]
    by (simp add: dec_value_def bytes_of_def)
qed

abbreviation number_step :: "int \<Rightarrow> uchar \<Rightarrow> int" where
  "number_step a c \<equiv> a * 10 + (uint c - 48)"

lemma number_step_ge:
  "\<lbrakk>\<And>b. b \<in> set cs \<Longrightarrow> 48 \<le> b \<and> b \<le> 57; 0 \<le> v\<rbrakk> \<Longrightarrow> v \<le> foldl number_step v cs"
proof (induction cs arbitrary: v)
  case (Cons c cs)
  then have c: "48 \<le> uint c" by (simp add: word_le_def)
  then have "v \<le> number_step v c" using Cons.prems(2) by simp
  also have "\<dots> \<le> foldl number_step (number_step v c) cs" using Cons.prems c by (intro Cons.IH) simp_all
  finally show ?case by simp
qed simp

lemma number_step_ge10:
  assumes "\<And>b. b \<in> set cs \<Longrightarrow> 48 \<le> b \<and> b \<le> 57" "0 \<le> v" "cs \<noteq> []"
  shows "10 * v \<le> foldl number_step v cs"
proof -
  obtain c ds where c: "cs = c # ds" using assms(3) by (cases cs) auto
  then have "48 \<le> uint c" using assms(1) by (simp add: word_le_def)
  then have "10 * v \<le> number_step v c" by simp
  also have "\<dots> \<le> foldl number_step (number_step v c) ds" using assms c \<open>48 \<le> uint c\<close> by (intro number_step_ge) simp_all
  finally show ?thesis by (simp add: c)
qed

lemma number_loop_digits:
  assumes "10 \<le> M"
  shows "\<lbrakk>\<And>b. b \<in> set cs \<Longrightarrow> 48 \<le> b \<and> b \<le> 57; 0 \<le> v; foldl number_step v cs \<le> M\<rbrakk> \<Longrightarrow>
     number_loop M cs v = Some (foldl number_step v cs)"
proof (induction cs arbitrary: v)
  case (Cons c cs)
  let ?w = "number_step v c"
  have d: "48 \<le> uint c" "uint c \<le> 57" using Cons.prems(1) [of c] by (simp_all add: word_le_def)
  then have w: "0 \<le> ?w" using Cons.prems(2) by simp
  have ge: "?w \<le> M" "cs \<noteq> [] \<Longrightarrow> 10 * ?w \<le> M"
    using number_step_ge [of cs ?w] number_step_ge10 [of cs ?w] Cons.prems w by force+
  have "\<not> v > M div 10" using ge(1) d by linarith
  moreover have "\<not> (v = M div 10 \<and> cs \<noteq> [])"
  proof
    assume v: "v = M div 10 \<and> cs \<noteq> []"
    then have "10 * (10 * (M div 10)) \<le> M" using ge(2) d(1) by auto
    moreover have "1 \<le> M div 10" using assms by linarith
    ultimately show False by linarith
  qed
  moreover have "\<not> (v = M div 10 \<and> uint c - 48 > M mod 10)"
  proof
    assume v: "v = M div 10 \<and> uint c - 48 > M mod 10"
    have "M = 10 * (M div 10) + M mod 10" by simp
    moreover have "v = M div 10" "M mod 10 < uint c - 48" using v by simp_all
    ultimately show False using ge(1) by linarith
  qed
  moreover have "number_loop M cs ?w = Some (foldl number_step ?w cs)"
    using Cons.prems w by (intro Cons.IH) simp_all
  ultimately show ?case using Cons.prems(1) [of c] by (auto simp: Let_def not_less)
qed simp

lemma dec_text_cases:
  obtains n where "0 \<le> x" "dec_text x = bytes_of (dec_nat n)" "int n = x"
  | n where "x < 0" "dec_text x = 45 # bytes_of (dec_nat n)" "int n = - x"
proof (cases "0 \<le> x")
  case True
  then show ?thesis by (intro that(1) [of "nat x"]) (simp_all add: dec_text_def fmt_d_def)
next
  case False
  then show ?thesis by (intro that(2) [of "nat (- x)"]) (simp_all add: dec_text_def fmt_d_def bytes_of_def)
qed

lemma number_loop_dec_nat:
  assumes "int n \<le> M" "10 \<le> M"
  shows "number_loop M (bytes_of (dec_nat n)) 0 = Some (int n)"
proof -
  have "foldl number_step 0 (bytes_of (dec_nat n)) = int n"
    using dec_value_bytes [OF dec_nat_digits [of n]] by (simp add: dec_value_def)
  then show ?thesis
    using number_loop_digits [OF assms(2), of "bytes_of (dec_nat n)" 0] digit_bytes [OF dec_nat_digits, of _ n] assms(1) by simp
qed

lemma dec_nat_not_Nil: "bytes_of (dec_nat n) \<noteq> []"
  by (simp add: bytes_of_def dec_nat.simps [of n])

lemma decodeNumber_text:
  assumes "- (2 ^ 63) \<le> x" "x < 2 ^ 64"
  shows "decodeNumber read_double (dec_text x) = Some (if x < 2 ^ 31 then intValue x else uintValue x)"
proof (cases x rule: dec_text_cases)
  case (1 n)
  obtain b t where b: "bytes_of (dec_nat n) = b # t" using dec_nat_not_Nil by (cases "bytes_of (dec_nat n)") auto
  then have "b \<noteq> 45" using digit_bytes [OF dec_nat_digits, of b n] by auto
  then have "peek (dec_text x) \<noteq> 45" using 1 b by (simp add: peek_def)
  then show ?thesis using number_loop_dec_nat [of n "2 ^ 64 - 1"] 1 assms by (simp add: decodeNumber_def)
next
  case (2 n)
  then show ?thesis using number_loop_dec_nat [of n "2 ^ 63"] assms by (simp add: decodeNumber_def peek_def)
qed

text \<open>The rest does not go on with the number.\<close>

definition stops_number :: "buffer \<Rightarrow> bool" where
  "stops_number rest \<longleftrightarrow> \<not> c_isdigit (peek rest) \<and> peek rest \<notin> {46, 101, 69}"

lemma readNumber_digits:
  assumes "\<And>b. b \<in> set ds \<Longrightarrow> 48 \<le> b \<and> b \<le> 57" "stops_number rest"
  shows "readNumber (ds @ rest) = rest"
proof -
  have "dropWhile (\<lambda>c. c_isdigit c) (ds @ rest) = rest"
    using assms by (cases rest) (auto simp: dropWhile_append stops_number_def peek_def)
  then show ?thesis using assms(2) by (simp add: readNumber_def stops_number_def)
qed

lemma readToken_number:
  assumes "stops_number rest"
  shows "readToken (dec_text x @ rest) = (tokenNumber, dec_text x, rest)"
proof (cases x rule: dec_text_cases)
  case (1 n)
  obtain b t where b: "bytes_of (dec_nat n) = b # t" using dec_nat_not_Nil by (cases "bytes_of (dec_nat n)") auto
  have ds: "48 \<le> a \<and> a \<le> 57" if "a \<in> set (b # t)" for a using digit_bytes [OF dec_nat_digits, of a n] that b by simp
  then have "c_isdigit b" by simp
  then have "b \<notin> {32, 9, 13, 10, 123, 125, 91, 93, 34, 47}" by (auto simp: word_le_def)
  then have "token_at b (t @ rest) = (tokenNumber, True, rest)"
    using readNumber_digits [of t rest] ds assms by (simp add: token_at_def)
  then show ?thesis using 1 b \<open>b \<notin> _\<close> by (simp add: readToken_at)
next
  case (2 n)
  then show ?thesis using readNumber_digits [of "bytes_of (dec_nat n)" rest] digit_bytes [OF dec_nat_digits, of _ n] assms
    by (simp add: readToken_at token_at_def)
qed

lemma readToken_word:
  "readToken (lit ''null'' @ rest) = (tokenNull, lit ''null'', rest)"
  "readToken (lit ''true'' @ rest) = (tokenTrue, lit ''true'', rest)"
  "readToken (lit ''false'' @ rest) = (tokenFalse, lit ''false'', rest)"
  by (simp_all add: lit_def bytes_of_def readToken_at token_at_def reader_match_def)

subsection \<open>Values\<close>

text \<open>The values the text keeps: nested no deeper than a bound, integers in the range of their kind (a small integer is read as
  \<open>intValue\<close>, one from \<open>2\<^sup>3\<^sup>1\<close> on as \<open>uintValue\<close>), no doubles, the members of objects in the order of the map.\<close>

primrec json_fits :: "nat \<Rightarrow> 'r json \<Rightarrow> bool" where
  "json_fits 0 v = False"
| "json_fits (Suc depth) v =
     (case v of arrayValue vs \<Rightarrow> list_all (json_fits depth) vs
      | objectValue ms \<Rightarrow> sorted_wrt CZString_less (map fst ms) \<and> list_all (\<lambda>(n, w). json_fits depth w) ms
      | intValue x \<Rightarrow> - (2 ^ 63) \<le> x \<and> x < 2 ^ 31 | uintValue x \<Rightarrow> 2 ^ 31 \<le> x \<and> x < 2 ^ 64
      | realValue r \<Rightarrow> False | _ \<Rightarrow> True)"

lemma CZString_less_asym: "CZString_less a b \<Longrightarrow> \<not> CZString_less b a"
  by (induction a b rule: CZString_less.induct) (auto split: if_splits)

lemma set_member_last:
  "\<forall>(n, w) \<in> set ms. CZString_less n name \<Longrightarrow> set_member name v ms = ms @ [(name, v)]"
  by (induction ms) (auto dest: CZString_less_asym)

lemma stops_number_simps [simp]: "stops_number (44 # s)" "stops_number (93 # s)" "stops_number (125 # s)" "stops_number (10 # s)"
  by (simp_all add: stops_number_def peek_def)

lemma join_Cons: "xs \<noteq> [] \<Longrightarrow> join sep (x # xs) = x @ sep @ join sep xs"
  by (cases xs) simp_all

lemma length_join: "length xs \<le> Suc (length (join [44 :: uchar] xs))"
proof (induction xs)
  case (Cons x xs)
  then show ?case by (cases xs) simp_all
qed simp

lemma read_elements_written:
  assumes "\<And>v rest. v \<in> set vs \<Longrightarrow> stops_number rest \<Longrightarrow> readV (w v @ rest) = Read v rest"
    "vs \<noteq> []" "length vs \<le> n"
  shows "read_elements readV n (join [44] (map w vs) @ 93 # rest) acc = Read (arrayValue (acc @ vs)) rest"
  using assms
proof (induction vs arbitrary: n acc)
  case (Cons v vs)
  obtain m where n: "n = Suc m" using Cons.prems(3) by (cases n) auto
  show ?case
  proof (cases vs)
    case Nil
    then show ?thesis using Cons.prems(1) [of v "93 # rest"] n by simp
  next
    case (Cons u us)
    then have "join [44] (map w (v # vs)) @ 93 # rest = w v @ 44 # (join [44] (map w vs) @ 93 # rest)" by simp
    moreover have "read_elements readV m (join [44] (map w vs) @ 93 # rest) (acc @ [v]) = Read (arrayValue ((acc @ [v]) @ vs)) rest"
      using Cons Cons.prems n by (intro Cons.IH) auto
    ultimately show ?thesis using Cons.prems(1) [of v "44 # (join [44] (map w vs) @ 93 # rest)"] n by simp
  qed
qed simp

lemma read_members_written:
  assumes "\<And>n v rest. (n, v) \<in> set ms \<Longrightarrow> stops_number rest \<Longrightarrow> readV (w v @ rest) = Read v rest"
    "ms \<noteq> []" "length ms \<le> k" "sorted_wrt CZString_less (map fst (acc @ ms))"
  shows "read_members readV k (join [44] (map (\<lambda>(n, v). valueToQuotedStringN n @ [58] @ w v) ms) @ 125 # rest) name acc =
     Read (objectValue (acc @ ms)) rest"
  using assms
proof (induction ms arbitrary: k name acc)
  case (Cons m ms)
  obtain n v where m: "m = (n, v)" by (cases m)
  obtain j where k: "k = Suc j" using Cons.prems(3) by (cases k) auto
  let ?w = "\<lambda>(n, v). valueToQuotedStringN n @ [58] @ w v"
  have set: "set_member n v acc = acc @ [(n, v)]"
    using Cons.prems(4) by (intro set_member_last) (auto simp: m sorted_wrt_append)
  have tok: "skipCommentTokens (valueToQuotedStringN n @ s) = (tokenString, valueToQuotedStringN n, s)" for s
    by (simp add: skipCommentTokens_token readToken_quoted)
  show ?case
  proof (cases ms)
    case Nil
    then show ?thesis using Cons.prems(1) [of n v "125 # rest"] tok set by (simp add: m k decodeString_quoted)
  next
    case (Cons u us)
    then have "join [44] (map ?w (m # ms)) @ 125 # rest =
        valueToQuotedStringN n @ 58 # (w v @ 44 # (join [44] (map ?w ms) @ 125 # rest))" by (simp add: m)
    moreover have "read_members readV j (join [44] (map ?w ms) @ 125 # rest) n (acc @ [(n, v)]) =
        Read (objectValue ((acc @ [(n, v)]) @ ms)) rest"
      using Cons Cons.prems k m by (intro Cons.IH) auto
    ultimately show ?thesis using Cons.prems(1) [of n v "44 # (join [44] (map ?w ms) @ 125 # rest)"] tok set
      by (simp add: m k decodeString_quoted)
  qed
qed simp

text \<open>The first byte of the text of a value.\<close>

lemma written_head:
  assumes "json_fits depth v" obtains c t where "writeValue real_text v = c # t" "c \<notin> {32, 9, 13, 10, 93}"
proof -
  have num: "\<exists>c t. dec_text x = c # t \<and> c \<notin> {32, 9, 13, 10, 93}" for x
  proof (cases x rule: dec_text_cases)
    case (1 n)
    obtain b t where b: "bytes_of (dec_nat n) = b # t" using dec_nat_not_Nil by (cases "bytes_of (dec_nat n)") auto
    then have "48 \<le> b \<and> b \<le> 57" using digit_bytes [OF dec_nat_digits, of b n] by simp
    then show ?thesis using 1 b by (auto simp: word_le_def)
  qed simp
  obtain d where "depth = Suc d" using assms by (cases depth) auto
  then have "\<exists>c t. writeValue real_text v = c # t \<and> c \<notin> {32, 9, 13, 10, 93}"
    using assms num by (cases v) (auto simp: lit_def bytes_of_def valueToQuotedStringN_eq)
  then show ?thesis using that by blast
qed

lemma written_list_head:
  assumes "list_all (json_fits depth) vs" "vs \<noteq> []"
  obtains c t where "join [44] (map (writeValue real_text) vs) @ rest = c # t" "c \<notin> {32, 9, 13, 10, 93}"
proof -
  obtain v us where vs: "vs = v # us" using assms(2) by (cases vs) auto
  then obtain c t where "writeValue real_text v = c # t" "c \<notin> {32, 9, 13, 10, 93}"
    using assms(1) written_head [of depth v] by auto
  then show ?thesis using vs that by (cases us) auto
qed

lemma readArray_written:
  assumes "\<And>v rest. v \<in> set vs \<Longrightarrow> stops_number rest \<Longrightarrow> readV (writeValue real_text v @ rest) = Read v rest"
    "list_all (json_fits depth) vs"
  shows "readArray readV (join [44] (map (writeValue real_text) vs) @ 93 # rest) = Read (arrayValue vs) rest"
proof (cases "vs = []")
  case True
  then show ?thesis by (simp add: readArray_def skipSpaces_def peek_def)
next
  case False
  let ?s = "join [44] (map (writeValue real_text) vs) @ 93 # rest"
  obtain c t where c: "?s = c # t" "c \<notin> {32, 9, 13, 10, 93}" using written_list_head [OF assms(2) False] .
  then have "skipSpaces ?s = ?s" "peek ?s \<noteq> 93" by (simp_all add: skipSpaces_def peek_def)
  moreover have "read_elements readV (Suc (length ?s)) ?s [] = Read (arrayValue ([] @ vs)) rest"
    using assms(1) False length_join [of "map (writeValue real_text) vs"] by (intro read_elements_written) simp_all
  ultimately show ?thesis by (simp add: readArray_def del: read_elements.simps)
qed

lemma readObject_written:
  assumes "\<And>n v rest. (n, v) \<in> set ms \<Longrightarrow> stops_number rest \<Longrightarrow> readV (writeValue real_text v @ rest) = Read v rest"
    "sorted_wrt CZString_less (map fst ms)"
  shows "readObject readV (join [44] (map (\<lambda>(n, v). valueToQuotedStringN n @ [58] @ writeValue real_text v) ms) @ 125 # rest) =
     Read (objectValue ms) rest"
proof (cases "ms = []")
  case False
  let ?s = "join [44] (map (\<lambda>(n, v). valueToQuotedStringN n @ [58] @ writeValue real_text v) ms) @ 125 # rest"
  have "length ms \<le> Suc (length ?s)" using length_join [of "map (\<lambda>(n, v). valueToQuotedStringN n @ [58] @ writeValue real_text v) ms"] by simp
  then have "read_members readV (Suc (length ?s)) ?s [] [] = Read (objectValue ([] @ ms)) rest"
    using assms False by (intro read_members_written) simp_all
  then show ?thesis by (simp add: readObject_def del: read_members.simps)
qed (simp add: readObject_def)

lemma read_written:
  "json_fits depth v \<Longrightarrow> stops_number rest \<Longrightarrow> readValue read_double depth (writeValue real_text v @ rest) = Read v rest"
proof (induction depth arbitrary: v rest)
  case (Suc depth)
  note tok = skipCommentTokens_token readToken_word readToken_number [OF Suc.prems(2)] readToken_quoted
  show ?case
  proof (cases v)
    case (arrayValue vs)
    then have fits: "list_all (json_fits depth) vs" using Suc.prems(1) by simp
    then have "readArray (readValue read_double depth) (join [44] (map (writeValue real_text) vs) @ 93 # rest) = Read (arrayValue vs) rest"
      using Suc.IH by (intro readArray_written) (auto simp: list_all_iff)
    then show ?thesis using arrayValue by simp
  next
    case (objectValue ms)
    then have fits: "list_all (\<lambda>(n, w). json_fits depth w) ms" "sorted_wrt CZString_less (map fst ms)" using Suc.prems(1) by simp_all
    then have "readObject (readValue read_double depth)
        (join [44] (map (\<lambda>(n, v). valueToQuotedStringN n @ [58] @ writeValue real_text v) ms) @ 125 # rest) = Read (objectValue ms) rest"
      using Suc.IH by (intro readObject_written) (auto simp: list_all_iff)
    then show ?thesis using objectValue by simp
  qed (use Suc.prems(1) in \<open>simp_all add: tok of_decoded_def decodeNumber_text decodeString_quoted\<close>)
qed simp

text \<open>C4: what the writer writes the reader reads back. For every value without doubles that is nested at most as deep as the
  reader allows, with integers of any kind in their ranges and strings of arbitrary bytes (quotes, backslashes, control
  characters and zeros are escaped), \<open>parse\<close> of the written document returns exactly that value, whatever the memory behind
  the document holds.\<close>

theorem json_roundtrip:
  assumes "json_fits stackLimit_g v"
  shows "Reader_parse read_double slack (FastWriter_write real_text v) = Read v (10 # slack)"
  using read_written [OF assms, of "10 # slack" read_double real_text] by (simp add: Reader_parse_def FastWriter_write_def)

lemma json_fits_numeral:
  "json_fits (numeral k) v =
     (case v of arrayValue vs \<Rightarrow> list_all (json_fits (pred_numeral k)) vs
      | objectValue ms \<Rightarrow> sorted_wrt CZString_less (map fst ms) \<and> list_all (\<lambda>(n, w). json_fits (pred_numeral k) w) ms
      | intValue x \<Rightarrow> - (2 ^ 63) \<le> x \<and> x < 2 ^ 31 | uintValue x \<Rightarrow> 2 ^ 31 \<le> x \<and> x < 2 ^ 64
      | realValue r \<Rightarrow> False | _ \<Rightarrow> True)"
  by (simp add: numeral_eq_Suc)

text \<open>An order form with a quote, a control character and a zero in its strings.\<close>

definition demo_json :: "unit json" where
  "demo_json = objectValue
     [(lit ''column'', arrayValue [stringValue [34, 92, 7, 0, 255], nullValue]), (lit ''id'', uintValue 4294967296),
      (lit ''qty'', intValue (- 12))]"

theorem json_roundtrip_witness:
  "Reader_parse (\<lambda>_. None) [0, 34] (FastWriter_write (\<lambda>_. []) demo_json) = Read demo_json [10, 0, 34]"
proof -
  have "json_fits stackLimit_g demo_json"
    by (simp add: demo_json_def stackLimit_g_def json_fits_numeral lit_def bytes_of_def)
  then show ?thesis by (rule json_roundtrip)
qed

section \<open>Messages\<close>

text \<open>The reader as \<open>LoadJson\<close> calls it.\<close>

definition reader_result :: "(buffer \<Rightarrow> 'r option) \<Rightarrow> buffer \<Rightarrow> buffer \<Rightarrow> 'r json option" where
  "reader_result read_double slack document =
     (case Reader_parse read_double slack document of Read v s \<Rightarrow> Some v | _ \<Rightarrow> None)"

definition message_json :: "'r table list \<Rightarrow> 'r json" where
  "message_json ts = objectValue [(lit ''tables'', arrayValue (map table_json ts))]"

lemma message_tables_json:
  assumes "\<And>name cvs keys. (name, cvs, keys) \<in> set ts \<Longrightarrow> cvs \<noteq> [] \<and> keys \<noteq> []" "parse d = Some (message_json ts)"
  shows "message_tables parse real_text d = Some ts"
proof -
  have "map (table_of real_text) (map table_json ts) = map Some ts"
    using assms(1) by (auto simp: table_of_json)
  then show ?thesis using assms(2) by (simp add: message_tables_def message_json_def member_def those_eq_Some)
qed


definition demo_sku :: "unit table list" where
  "demo_sku = [(lit ''wm_sku'', [(lit ''qty'', intValue 7)], [(lit ''id'', stringValue (lit ''a''))])]"


section \<open>What the reader returns\<close>

text \<open>The invariant of values that were read: bounded nesting, integers in the range of their kind, the members of an object
  under distinct names in the order of the map.\<close>

primrec json_wf :: "nat \<Rightarrow> 'r json \<Rightarrow> bool" where
  "json_wf 0 v = False"
| "json_wf (Suc depth) v =
     (case v of arrayValue vs \<Rightarrow> list_all (json_wf depth) vs
      | objectValue ms \<Rightarrow> sorted_wrt CZString_less (map fst ms) \<and> list_all (\<lambda>(n, w). json_wf depth w) ms
      | intValue x \<Rightarrow> - (2 ^ 63) \<le> x \<and> x < 2 ^ 31 | uintValue x \<Rightarrow> 2 ^ 31 \<le> x \<and> x < 2 ^ 64
      | _ \<Rightarrow> True)"

lemma CZString_less_trans: "CZString_less a b \<Longrightarrow> CZString_less b c \<Longrightarrow> CZString_less a c"
proof (induction a b arbitrary: c rule: CZString_less.induct)
  case (2 y ys)
  then show ?case by (cases c) auto
next
  case (4 x xs y ys)
  then show ?case by (cases c) (auto split: if_splits)
qed auto

lemma CZString_less_total: "\<not> CZString_less a b \<Longrightarrow> \<not> CZString_less b a \<Longrightarrow> a = b"
  by (induction a b rule: CZString_less.induct) (auto split: if_splits)

lemma set_member_names: "fst ` set (set_member name v ms) = insert name (fst ` set ms)"
proof (induction ms)
  case (Cons m ms)
  obtain n w where m: "m = (n, w)" by (cases m)
  show ?case using Cons CZString_less_total [of n name]
    by (cases "CZString_less name n"; cases "CZString_less n name") (simp_all add: m insert_commute)
qed simp

lemma set_member_sorted: "sorted_wrt CZString_less (map fst ms) \<Longrightarrow> sorted_wrt CZString_less (map fst (set_member name v ms))"
proof (induction ms)
  case (Cons m ms)
  obtain n w where m: "m = (n, w)" by (cases m)
  have "CZString_less n k" if "k \<in> fst ` set (set_member name v ms)" "CZString_less n name" for k
    using that Cons.prems by (auto simp: set_member_names m)
  then show ?case using Cons by (auto simp: m intro: CZString_less_trans)
qed simp

lemma set_member_all: "P v \<Longrightarrow> list_all (\<lambda>(n, w). P w) ms \<Longrightarrow> list_all (\<lambda>(n, w). P w) (set_member name v ms)"
  by (induction ms) auto

lemma number_loop_bounded:
  "number_loop M cs v = Some r \<Longrightarrow> 0 \<le> v \<Longrightarrow> v \<le> M \<Longrightarrow> 0 \<le> r \<and> r \<le> M"
proof (induction cs arbitrary: v)
  case (Cons c cs)
  let ?d = "uint c - 48"
  from Cons.prems(1) have c: "c_isdigit c" "number_loop M cs (v * 10 + ?d) = Some r"
    and t: "v < M div 10 \<or> v = M div 10 \<and> ?d \<le> M mod 10"
    by (auto simp: Let_def split: if_splits)
  have d: "0 \<le> ?d" "?d \<le> 9" using c(1) by (simp_all add: word_le_def)
  have "v * 10 + ?d \<le> M" using t
  proof
    assume "v < M div 10"
    then show ?thesis using d(2) by linarith
  next
    assume v: "v = M div 10 \<and> ?d \<le> M mod 10"
    moreover have "M = 10 * (M div 10) + M mod 10" by simp
    ultimately show ?thesis by linarith
  qed
  then show ?case using Cons.IH [OF c(2)] d(1) Cons.prems(2) by simp
qed simp

lemma decodeNumber_wf: "decodeNumber read_double tx = Some v \<Longrightarrow> json_wf (Suc depth) v"
  using number_loop_bounded [of "2 ^ 63" "tl tx" 0] number_loop_bounded [of "2 ^ 64 - 1" tx 0]
  by (auto simp: decodeNumber_def decodeDouble_def Let_def split: option.splits if_splits simp del: number_loop.simps)

lemma read_elements_wf:
  assumes "\<And>s v s'. readV s = Read v s' \<Longrightarrow> json_wf depth v"
  shows "read_elements readV n s vs = Read v s' \<Longrightarrow> list_all (json_wf depth) vs \<Longrightarrow> json_wf (Suc depth) v"
proof (induction n arbitrary: s vs)
  case (Suc n)
  then obtain u s1 where u: "readV s = Read u s1" by (auto split: read.splits)
  show ?case using Suc assms [OF u] u by (auto split: prod.splits if_splits)
qed simp

lemma read_members_wf:
  assumes "\<And>s v s'. readV s = Read v s' \<Longrightarrow> json_wf depth v"
  shows "read_members readV n s name ms = Read v s' \<Longrightarrow> json_wf (Suc depth) (objectValue ms) \<Longrightarrow> json_wf (Suc depth) v"
proof (induction n arbitrary: s name ms)
  case (Suc n)
  have step: "json_wf (Suc depth) (objectValue (set_member k u ms))" if "readV t = Read u t'" for k u t t'
    using set_member_sorted [of ms k u] set_member_all [of "json_wf depth" u ms k] assms [OF that] Suc.prems(2) by simp
  obtain t1 tx s1 where t1: "skipCommentTokens s = (t1, tx, s1)" by (cases "skipCommentTokens s")
  obtain t2 tx2 s2 where t2: "readToken s1 = (t2, tx2, s2)" by (cases "readToken s1")
  show ?case
  proof (cases "t1 = tokenObjectEnd \<and> name = []")
    case True
    then show ?thesis using Suc.prems t1 by simp
  next
    case False
    then obtain k u s3 where k: "decodeString tx = Some k" "readV s2 = Read u s3" "t1 = tokenString" "t2 = tokenMemberSeparator"
      using Suc.prems(1) t1 t2 by (auto split: if_splits option.splits read.splits)
    obtain t3 tx3 s4 where t3: "readToken s3 = (t3, tx3, s4)" by (cases "readToken s3")
    obtain t4 tx4 s5 where t4: "(if t3 = tokenComment then skipCommentTokens s4 else (t3, [], s4)) = (t4, tx4, s5)"
      by (cases "if t3 = tokenComment then skipCommentTokens s4 else (t3, [], s4)")
    have "v = objectValue (set_member k u ms) \<or> read_members readV n s5 k (set_member k u ms) = Read v s'"
      using Suc.prems(1) t1 t2 k t3 t4 by (cases "t3 = tokenComment") (auto split: if_splits)
    then show ?thesis using Suc.IH step [OF k(2)] by blast
  qed
qed simp

lemma readValue_wf: "readValue read_double depth s = Read v s' \<Longrightarrow> json_wf depth v"
proof (induction depth arbitrary: s v s')
  case (Suc depth)
  obtain t tx s1 where t: "skipCommentTokens s = (t, tx, s1)" by (cases "skipCommentTokens s")
  have "json_wf (Suc depth) v" if "readArray (readValue read_double depth) s1 = Read v s'"
    using that read_elements_wf [of "readValue read_double depth" depth _ _ "[]" v s', OF Suc.IH]
    by (auto simp: readArray_def Let_def split: if_splits prod.splits simp del: read_elements.simps)
  moreover have "json_wf (Suc depth) v" if "readObject (readValue read_double depth) s1 = Read v s'"
    using that read_members_wf [of "readValue read_double depth" depth _ _ "[]" "[]" v s', OF Suc.IH]
    by (simp add: readObject_def del: read_members.simps)
  ultimately show ?case using Suc.prems t decodeNumber_wf [of read_double tx v depth]
    by (cases t) (auto simp: of_decoded_def split: option.splits)
qed simp

text \<open>C29: every value the reader returns is well-formed, whatever the document: nested no deeper than the stack limit, its
  integers in the range of their kind, small ones always of the signed kind, and its objects with each name once, in
  the order of the names.\<close>

theorem reader_wellformed:
  assumes "Reader_parse read_double slack document = Read v s'"
  shows "json_wf stackLimit_g v"
  using assms readValue_wf by (auto simp: Reader_parse_def)

theorem reader_wellformed_witness:
  "json_wf stackLimit_g demo_json \<and> Reader_parse (\<lambda>_. None) [0, 34] (FastWriter_write (\<lambda>_. []) demo_json) = Read demo_json [10, 0, 34]"
proof -
  have "json_fits stackLimit_g demo_json"
    by (simp add: demo_json_def stackLimit_g_def json_fits_numeral lit_def bytes_of_def)
  then have "Reader_parse (\<lambda>_. None) [0, 34] (FastWriter_write (\<lambda>_. []) demo_json) = Read demo_json [10, 0, 34]"
    using read_written [of stackLimit_g demo_json "[10, 0, 34]"] by (simp add: Reader_parse_def FastWriter_write_def)
  then show ?thesis using reader_wellformed by blast
qed

end
