(* ===== verification/Increment.thy ===== *)
theory Increment
  imports Wmsclient Jsoncpp
begin

text \<open>
  The upload of changed rows by the client: \<open>wmsclient/wmsclient/increment_export.cpp\<close>, the class \<open>CMysqlQueue\<close> of
  \<open>MyslqQueue.cpp\<close> and \<open>PreBinlog.cpp\<close>. At a fixed period the rows whose column \<open>hm_update_timestamp\<close> lies in the last period are
  read, put into a queue as numbered messages and sent to the server as JSON.

  The XML file of the tables is its root element: the attribute \<open>period_time\<close> and the attributes \<open>name\<close> and
  \<open>hm_update_timestamp\<close> of the children; an attribute that is missing is a null pointer, of which the code makes a
  \<open>string\<close> (\<open>None\<close> here). The calendar of the C library is the pair of parameters \<open>mk\<close> (\<open>mktime\<close>) and \<open>lt\<close> (\<open>localtime\<close>). Positions in
  strings are 32-bit numbers, \<open>npos\<close> the largest of them; \<open>substr\<close> throws when it starts behind the end.
\<close>

section \<open>Times\<close>

record tm =
  tm_year :: int
  tm_mon :: int
  tm_mday :: int
  tm_hour :: int
  tm_min :: int
  tm_sec :: int

definition npos :: int where "npos = 4294967295"

definition str_find :: "uchar \<Rightarrow> buffer \<Rightarrow> int" where
  "str_find c s = (if c \<in> set s then int (length (takeWhile (\<lambda>b. b \<noteq> c) s)) else npos)"

definition find_last_of :: "uchar \<Rightarrow> buffer \<Rightarrow> int" where
  "find_last_of c s = (if c \<in> set s then int (length s) - 1 - int (length (takeWhile (\<lambda>b. b \<noteq> c) (rev s))) else npos)"

definition substr :: "buffer \<Rightarrow> int \<Rightarrow> int \<Rightarrow> buffer option" where
  "substr s pos n = (if pos > int (length s) then None else Some (take (nat n) (drop (nat pos) s)))"

text \<open>The text of a time; \<open>None\<close> when \<open>localtime\<close> fails or the text does not fit into its buffer.\<close>

definition tm_text :: "tm \<Rightarrow> buffer" where
  "tm_text p = dec_text (tm_year p + 1900) @ [45] @ dec_text (tm_mon p + 1) @ [45] @ dec_text (tm_mday p) @ [32] @
     dec_text (tm_hour p) @ [58] @ dec_text (tm_min p) @ [58] @ dec_text (tm_sec p)"

definition GetStrFromTime :: "(int \<Rightarrow> tm option) \<Rightarrow> int \<Rightarrow> buffer option" where
  "GetStrFromTime lt iTimeStamp =
     (case lt iTimeStamp of None \<Rightarrow> None | Some p \<Rightarrow> if length (tm_text p) < 24 then Some (tm_text p) else None)"

text \<open>Characters of a C string, its terminating zero included.\<close>

definition c_field :: "buffer \<Rightarrow> nat \<Rightarrow> nat \<Rightarrow> buffer option" where
  "c_field s i n = bytes_at (s @ [0]) i n"

definition GetTimeStampByStr :: "(tm \<Rightarrow> int) \<Rightarrow> buffer \<Rightarrow> int option" where
  "GetTimeStampByStr mk pDate = do {
     szYear \<leftarrow> c_field pDate 0 4;
     szMonth \<leftarrow> c_field pDate 5 2;
     szDay \<leftarrow> c_field pDate 8 2;
     szHour \<leftarrow> c_field pDate 11 2;
     szMin \<leftarrow> c_field pDate 14 2;
     szSec \<leftarrow> c_field pDate 17 2;
     Some (u32 (mk \<lparr>tm_year = c_atoi (c_str szYear) - 1900, tm_mon = c_atoi (c_str szMonth) - 1, tm_mday = c_atoi (c_str szDay),
                    tm_hour = c_atoi (c_str szHour), tm_min = c_atoi (c_str szMin), tm_sec = c_atoi (c_str szSec)\<rparr>)) }"

definition pad2 :: "buffer \<Rightarrow> buffer" where
  "pad2 s = (if length s \<noteq> 2 then 48 # s else s)"

definition GetWriteXmlTime :: "buffer \<Rightarrow> buffer option" where
  "GetWriteXmlTime sTime =
     (if length sTime = 19 then Some sTime
      else do {
        let size = int (length sTime);
        let colon = str_find 58 sTime;
        let dash = find_last_of 45 sTime;
        let gap = str_find 32 sTime;
        let colon2 = find_last_of 58 sTime;
        temp \<leftarrow> substr sTime (u32 (colon + 1)) (u32 (size - colon - 1));
        syear \<leftarrow> substr sTime 0 4;
        smon \<leftarrow> substr sTime 5 (u32 (dash - 5));
        sday \<leftarrow> substr sTime (u32 (dash + 1)) (u32 (gap - dash - 1));
        shour \<leftarrow> substr sTime (u32 (gap + 1)) (u32 (colon - gap - 1));
        smin \<leftarrow> substr temp 0 (str_find 58 temp);
        ssec \<leftarrow> substr sTime (u32 (colon2 + 1)) (u32 (size - colon2 - 1));
        Some (syear @ [45] @ pad2 smon @ [45] @ pad2 sday @ [32] @ pad2 shour @ [58] @ pad2 smin @ [58] @ pad2 ssec) })"

section \<open>The tables and their time windows\<close>

record table_xml =
  xml_period :: "buffer option"
  xml_tables :: "(buffer option \<times> buffer option) list"

record export_globals =
  glb_table_name :: "buffer list"
  glb_timestamp :: "buffer list"
  glb_period_time :: int

fun xml_loop :: "(buffer option \<times> buffer option) list \<Rightarrow> export_globals \<Rightarrow> export_globals option" where
  "xml_loop [] g = Some g"
| "xml_loop ((Some name, Some timetasp) # es) g =
     xml_loop es (g\<lparr>glb_table_name := glb_table_name g @ [name], glb_timestamp := glb_timestamp g @ [timetasp]\<rparr>)"
| "xml_loop (_ # es) g = None"

text \<open>The file that does not load, and a document without a root, are \<open>None\<close> as the document.\<close>

definition InitConfig :: "table_xml option \<Rightarrow> export_globals \<Rightarrow> (bool \<times> export_globals) option" where
  "InitConfig doc g =
     (let g0 = g\<lparr>glb_table_name := [], glb_timestamp := []\<rparr> in
      case doc of None \<Rightarrow> Some (False, g0)
      | Some rootElement \<Rightarrow>
          (case xml_period rootElement of None \<Rightarrow> None
           | Some time_break \<Rightarrow> do {
               g1 \<leftarrow> xml_loop (xml_tables rootElement) (g0\<lparr>glb_period_time := c_atoi (c_str time_break)\<rparr>);
               Some (glb_table_name g1 \<noteq> [] \<and> glb_timestamp g1 \<noteq> [], g1) }))"

definition WriteTimeUpdateXML :: "buffer \<Rightarrow> buffer \<Rightarrow> table_xml option \<Rightarrow> (bool \<times> table_xml option) option" where
  "WriteTimeUpdateXML tableName keyValues doc =
     (case doc of None \<Rightarrow> Some (False, doc)
      | Some rootElement \<Rightarrow>
          if list_ex (\<lambda>(name, t). name = None) (xml_tables rootElement) then None
          else Some (True, Some (rootElement\<lparr>xml_tables :=
                 map (\<lambda>(name, t). (name, if name = Some tableName then Some keyValues else t)) (xml_tables rootElement)\<rparr>)))"

definition window_sql :: "buffer \<Rightarrow> buffer \<Rightarrow> buffer \<Rightarrow> buffer" where
  "window_sql table after until = lit ''select * from '' @ table @ lit '' where hm_update_timestamp >'' @ [39] @ after @ [39] @
     lit '' and hm_update_timestamp <='' @ [39] @ until @ [39]"

definition columns_sql :: "buffer \<Rightarrow> buffer" where
  "columns_sql table = lit ''select COLUMN_NAME from information_schema.COLUMNS where table_name='' @ [39] @ table @ [39]"

text \<open>The time of the first table, less some seconds, as text.\<close>

definition before_text :: "(tm \<Rightarrow> int) \<Rightarrow> (int \<Rightarrow> tm option) \<Rightarrow> export_globals \<Rightarrow> int \<Rightarrow> buffer option" where
  "before_text mk lt g seconds = do {
     first \<leftarrow> (case glb_timestamp g of [] \<Rightarrow> None | t # _ \<Rightarrow> Some t);
     nTime \<leftarrow> GetTimeStampByStr mk first;
     GetStrFromTime lt (s32 (s32 nTime - seconds)) }"

fun select_loop :: "(tm \<Rightarrow> int) \<Rightarrow> (int \<Rightarrow> tm option) \<Rightarrow> export_globals \<Rightarrow> buffer list \<Rightarrow> buffer list
    \<Rightarrow> (buffer list \<times> buffer list) option" where
  "select_loop mk lt g [] ts = Some ([], [])"
| "select_loop mk lt g (name # names) [] = None"
| "select_loop mk lt g (name # names) (t # ts) = do {
     preQueryTime \<leftarrow> before_text mk lt g (glb_period_time g);
     (stamps, curs) \<leftarrow> select_loop mk lt g names ts;
     Some (columns_sql name # stamps, window_sql name preQueryTime t # curs) }"

fun previous_loop :: "(tm \<Rightarrow> int) \<Rightarrow> (int \<Rightarrow> tm option) \<Rightarrow> export_globals \<Rightarrow> buffer list \<Rightarrow> buffer list option" where
  "previous_loop mk lt g [] = Some []"
| "previous_loop mk lt g (name # names) = do {
     preQueryTime \<leftarrow> before_text mk lt g (glb_period_time g * 2);
     prePreQueryTime \<leftarrow> before_text mk lt g (glb_period_time g * 4);
     curs \<leftarrow> previous_loop mk lt g names;
     Some (window_sql name prePreQueryTime preQueryTime # curs) }"

definition GetSelectSql :: "(tm \<Rightarrow> int) \<Rightarrow> (int \<Rightarrow> tm option) \<Rightarrow> export_globals \<Rightarrow> (buffer list \<times> buffer list) option" where
  "GetSelectSql mk lt g = do {
     (stamps, curs) \<leftarrow> select_loop mk lt g (glb_table_name g) (glb_timestamp g);
     prevs \<leftarrow> previous_loop mk lt g (glb_table_name g);
     Some (stamps, curs @ prevs) }"

section \<open>Queries\<close>

text \<open>What a query gives: an error, no result, or rows of columns, \<open>None\<close> for NULL. The database may change between the
  queries; \<open>query\<close> returns it.\<close>

datatype select_reply = Select_failed | Select_none | Select_rows "buffer option list list"

text \<open>The last two fields are the static variables of \<open>execMutilSql\<close>.\<close>

record 'db mysql_queue =
  q_connect :: bool
  q_db :: 'db
  q_preKeys :: "buffer list list"
  q_preValues :: "buffer list list list"

type_synonym 'db query = "'db \<Rightarrow> buffer \<Rightarrow> select_reply \<times> 'db"

datatype 'a q_outcome = Q_returned int 'a | Q_thrown

text \<open>The loop over the columns of a row of \<open>getQueryKeysData\<close>: the values with a comma behind each, up to the last comma.\<close>

definition joined_row :: "buffer option list \<Rightarrow> buffer" where
  "joined_row row =
     (let strTem = concat (map (\<lambda>f. (case f of None \<Rightarrow> lit ''NULL'' | Some v \<Rightarrow> v) @ [44]) row) in
      take (nat (find_last_of 44 strTem)) strTem)"

definition getQueryKeysData :: "'db query \<Rightarrow> buffer \<Rightarrow> buffer list \<Rightarrow> 'db mysql_queue \<Rightarrow> buffer list q_outcome \<times> 'db mysql_queue" where
  "getQueryKeysData query strColum vecColum s =
     (if \<not> q_connect s then (Q_returned mysql_dbDisconnection vecColum, s)
      else (case query (q_db s) strColum of
              (Select_rows rows, d) \<Rightarrow> (Q_returned mysql_success (vecColum @ map joined_row rows), s\<lparr>q_db := d\<rparr>)
            | (_, d) \<Rightarrow> (Q_thrown, s\<lparr>q_db := d\<rparr>)))"

definition cell_text :: "buffer option \<Rightarrow> buffer" where
  "cell_text f = (let rTem = (case f of None \<Rightarrow> lit ''NULL'' | Some v \<Rightarrow> v) in if rTem = [] then lit ''NULL'' else rTem)"

definition getQueryData :: "'db query \<Rightarrow> buffer \<Rightarrow> buffer list list \<Rightarrow> 'db mysql_queue \<Rightarrow> buffer list list q_outcome \<times> 'db mysql_queue" where
  "getQueryData query strQuery vecValues s =
     (if \<not> q_connect s then (Q_returned mysql_dbDisconnection vecValues, s)
      else (case query (q_db s) strQuery of
              (Select_rows rows, d) \<Rightarrow> (Q_returned mysql_success (vecValues @ map (map cell_text) rows), s\<lparr>q_db := d\<rparr>)
            | (_, d) \<Rightarrow> (Q_thrown, s\<lparr>q_db := d\<rparr>)))"

text \<open>What a series of queries has collected: the tables with rows, their columns and their rows.\<close>

record found_tables =
  f_names :: "buffer list"
  f_keys :: "buffer list list"
  f_values :: "buffer list list list"

definition nothing_found :: found_tables where "nothing_found = \<lparr>f_names = [], f_keys = [], f_values = []\<rparr>"

definition mysql_dbMuilFailed :: int where "mysql_dbMuilFailed = -1004"

definition execQuerySql :: "'db query \<Rightarrow> buffer \<Rightarrow> buffer \<Rightarrow> buffer \<Rightarrow> found_tables \<Rightarrow> 'db mysql_queue
    \<Rightarrow> found_tables q_outcome \<times> 'db mysql_queue" where
  "execQuerySql query strQuery strColum tableName f s =
     (case getQueryKeysData query strColum [] s of
        (Q_thrown, s1) \<Rightarrow> (Q_thrown, s1)
      | (Q_returned r vecOneKey, s1) \<Rightarrow>
          if r \<noteq> mysql_success then (Q_returned mysql_dbMuilFailed f, s1)
          else (case getQueryData query strQuery [] s1 of
                  (Q_thrown, s2) \<Rightarrow> (Q_thrown, s2)
                | (Q_returned r2 vecOneValue, s2) \<Rightarrow>
                    if r2 \<noteq> mysql_success then (Q_returned mysql_dbMuilFailed f, s2)
                    else (Q_returned mysql_success
                           (if vecOneValue \<noteq> [] then \<lparr>f_names = f_names f @ [tableName], f_keys = f_keys f @ [vecOneKey],
                                                      f_values = f_values f @ [vecOneValue]\<rparr> else f), s2)))"

text \<open>The loops over the queries with the indices of a list: \<open>None\<close> when one of the three vectors is too short.\<close>

fun exec_queries :: "'db query \<Rightarrow> buffer list \<Rightarrow> buffer list \<Rightarrow> buffer list \<Rightarrow> nat list \<Rightarrow> found_tables \<Rightarrow> 'db mysql_queue
    \<Rightarrow> (found_tables q_outcome \<times> 'db mysql_queue) option" where
  "exec_queries query sqlSelec strColum tableName [] f s = Some (Q_returned mysql_success f, s)"
| "exec_queries query sqlSelec strColum tableName (i # is) f s = do {
     sql \<leftarrow> nth_sql sqlSelec i;
     col \<leftarrow> nth_sql strColum i;
     name \<leftarrow> nth_sql tableName i;
     (case execQuerySql query sql col name f s of
        (Q_thrown, s1) \<Rightarrow> Some (Q_thrown, s1)
      | (Q_returned r f1, s1) \<Rightarrow>
          if r \<noteq> mysql_success then Some (Q_thrown, s1)
          else exec_queries query sqlSelec strColum tableName is f1 s1) }"

section \<open>Messages\<close>

record generate_data =
  tableName_' :: buffer
  columnKey_' :: "buffer list"
  columnVal_' :: "buffer list"

record head_generate_data =
  headID_' :: buffer
  headNumber_' :: int
  headOrder_' :: int
  headBody :: "generate_data list"

definition INCREMENT_ROWS_MAX :: nat where "INCREMENT_ROWS_MAX = 1000"

definition ProductDataGenerate :: "head_generate_data \<Rightarrow> head_generate_data list \<Rightarrow> head_generate_data list \<times> bool" where
  "ProductDataGenerate getDate q = product INCREMENT_ROWS_MAX getDate q"

text \<open>The pointer that is returned is not initialised: \<open>junk\<close> when the queue is empty after the wait.\<close>

definition VectorHeadConsumerDataGenerate :: "'p \<Rightarrow> head_generate_data list \<Rightarrow> ('p + head_generate_data) \<times> head_generate_data list" where
  "VectorHeadConsumerDataGenerate junk q = (case q of [] \<Rightarrow> (Inl junk, q) | x # q' \<Rightarrow> (Inr x, q'))"

definition one_message :: "buffer \<Rightarrow> int \<Rightarrow> int \<Rightarrow> generate_data list \<Rightarrow> head_generate_data" where
  "one_message k n i body = \<lparr>headID_' = k, headNumber_' = n, headOrder_' = i, headBody = body\<rparr>"

fun put_rows :: "buffer \<Rightarrow> int \<Rightarrow> buffer \<Rightarrow> buffer list \<Rightarrow> buffer list list \<Rightarrow> int \<Rightarrow> head_generate_data list \<Rightarrow> int \<times> head_generate_data list" where
  "put_rows k n name keys [] SendPro q = (SendPro, q)"
| "put_rows k n name keys (v # vs) SendPro q =
     put_rows k n name keys vs (SendPro + 1)
       (fst (ProductDataGenerate (one_message k n (SendPro + 1) [\<lparr>tableName_' = name, columnKey_' = keys, columnVal_' = v\<rparr>]) q))"

fun put_tables :: "buffer \<Rightarrow> int \<Rightarrow> buffer list \<Rightarrow> buffer list list \<Rightarrow> buffer list list list \<Rightarrow> int \<Rightarrow> head_generate_data list
    \<Rightarrow> head_generate_data list option" where
  "put_tables k n names keys [] SendPro q = Some q"
| "put_tables k n (name # names) (ks # keys) (vs # vals) SendPro q =
     (case put_rows k n name ks vs SendPro q of (SendPro', q') \<Rightarrow> put_tables k n names keys vals SendPro' q')"
| "put_tables k n names keys (vs # vals) SendPro q =
     (if vs = [] then put_tables k n (tl names) (tl keys) vals SendPro q else None)"

definition PutOneMessageQueue :: "buffer \<Rightarrow> found_tables \<Rightarrow> head_generate_data list \<Rightarrow> (bool \<times> head_generate_data list) option" where
  "PutOneMessageQueue msgHeadKey f q =
     (if f_values f = [] \<or> f_keys f = [] then Some (False, q)
      else map_option (Pair True)
             (put_tables msgHeadKey (int (sum_list (map length (f_values f)))) (f_names f) (f_keys f) (f_values f) 0 q))"

section \<open>The messages of one table, two rows in each\<close>

text \<open>\<open>PutMessageQueue\<close> in its two forms and the \<open>PutOneMessageQueue\<close> they call are not called by \<open>execMutilSql\<close>.\<close>

definition chunk_data :: "buffer \<Rightarrow> buffer list \<Rightarrow> buffer list list \<Rightarrow> generate_data list" where
  "chunk_data name keys vals = map (\<lambda>v. \<lparr>tableName_' = name, columnKey_' = keys, columnVal_' = v\<rparr>) (filter (\<lambda>v. v \<noteq> []) vals)"

definition chunk_count :: "nat \<Rightarrow> nat" where
  "chunk_count n = (if n mod 2 \<noteq> 0 then n div 2 + 1 else n div 2)"

text \<open>The rows of message \<open>jIndex\<close>.\<close>

definition chunk_rows :: "'a list \<Rightarrow> nat \<Rightarrow> 'a list" where
  "chunk_rows vals jIndex =
     (let execData = 2; iRemainder = length vals mod execData in
      if jIndex = chunk_count (length vals) - 1 \<and> iRemainder \<noteq> 0
      then map (\<lambda>nIndex. vals ! ((execData - iRemainder) * jIndex + nIndex)) [0..<execData - iRemainder]
      else map (\<lambda>nIndex. vals ! (execData * jIndex + nIndex)) [0..<execData])"

fun put_chunks :: "buffer \<Rightarrow> int \<Rightarrow> int \<Rightarrow> buffer \<Rightarrow> buffer list \<Rightarrow> buffer list list \<Rightarrow> nat list \<Rightarrow> head_generate_data list
    \<Rightarrow> head_generate_data list" where
  "put_chunks k number base name keys vals [] q = q"
| "put_chunks k number base name keys vals (j # js) q =
     put_chunks k number base name keys vals js
       (fst (ProductDataGenerate (one_message k number (base + int j + 1) (chunk_data name keys (chunk_rows vals j))) q))"

definition PutMessageQueue :: "buffer \<Rightarrow> buffer \<Rightarrow> buffer list \<Rightarrow> buffer list list \<Rightarrow> head_generate_data list \<Rightarrow> bool \<times> head_generate_data list" where
  "PutMessageQueue k name keys vals q =
     (if vals = [] \<or> keys = [] then (False, q)
      else if length vals \<le> 2 then (True, fst (ProductDataGenerate (one_message k 1 1 (chunk_data name keys vals)) q))
      else (True, put_chunks k (int (chunk_count (length vals))) 0 name keys vals [0..<chunk_count (length vals)] q))"

definition PutOneMessageQueue_table :: "buffer \<Rightarrow> int \<Rightarrow> int \<Rightarrow> buffer \<Rightarrow> buffer list \<Rightarrow> buffer list list \<Rightarrow> head_generate_data list
    \<Rightarrow> bool \<times> head_generate_data list" where
  "PutOneMessageQueue_table k totalNum theFirstFew name keys vals q =
     (if vals = [] \<or> keys = [] then (False, q)
      else if length vals \<le> 2 then (True, fst (ProductDataGenerate (one_message k totalNum theFirstFew (chunk_data name keys vals)) q))
      else (True, put_chunks k totalNum theFirstFew name keys vals [0..<chunk_count (length vals)] q))"

fun put_all_tables :: "buffer \<Rightarrow> int \<Rightarrow> int \<Rightarrow> buffer list \<Rightarrow> buffer list list \<Rightarrow> buffer list list list \<Rightarrow> head_generate_data list
    \<Rightarrow> head_generate_data list option" where
  "put_all_tables k SendNumber lSendNum names keys [] q = Some q"
| "put_all_tables k SendNumber lSendNum (name # names) (ks # keys) (vs # vals) q =
     put_all_tables k SendNumber (lSendNum + int (chunk_count (length vs))) names keys vals
       (snd (PutOneMessageQueue_table k SendNumber lSendNum name ks vs q))"
| "put_all_tables k SendNumber lSendNum names keys (vs # vals) q = None"

text \<open>With few messages the rows of the first table are sent, if the tables of the same indices have rows.\<close>

definition PutMessageQueue_tables :: "buffer \<Rightarrow> found_tables \<Rightarrow> head_generate_data list \<Rightarrow> (bool \<times> head_generate_data list) option" where
  "PutMessageQueue_tables k f q =
     (if f_values f = [] \<or> f_keys f = [] then Some (False, q)
      else (let SendNumber = sum_list (map (chunk_count \<circ> length) (f_values f)) in
        if SendNumber \<le> 2
        then (let rows = hd (f_values f) in
              if length rows > length (f_values f) \<or> rows \<noteq> [] \<and> f_names f = [] then None
              else Some (True, fst (ProductDataGenerate (one_message k 1 1
                     (map (\<lambda>i. \<lparr>tableName_' = hd (f_names f), columnKey_' = hd (f_keys f), columnVal_' = rows ! i\<rparr>)
                        (filter (\<lambda>i. f_values f ! i \<noteq> []) [0..<length rows]))) q)))
        else map_option (Pair True) (put_all_tables k (int SendNumber) 0 (f_names f) (f_keys f) (f_values f) q)))"

section \<open>The period\<close>

text \<open>The rows of the last but one period are compared with those found in the period before and added to the tables found
  now. The three vectors of a \<open>found_tables\<close> have the same length.\<close>

definition index_of :: "buffer \<Rightarrow> buffer list \<Rightarrow> nat" where
  "index_of x xs = length (takeWhile (\<lambda>y. y \<noteq> x) xs)"

definition add_table :: "buffer \<Rightarrow> buffer list \<Rightarrow> buffer list list \<Rightarrow> found_tables \<Rightarrow> found_tables" where
  "add_table name ks rows f =
     (let iRet = index_of name (f_names f) in
      if iRet = length (f_names f)
      then \<lparr>f_names = f_names f @ [name], f_keys = f_keys f @ [ks], f_values = f_values f @ [rows]\<rparr>
      else f\<lparr>f_values := (f_values f)[iRet := f_values f ! iRet @ rows]\<rparr>)"

fun merge_tables :: "buffer list \<Rightarrow> buffer list list list \<Rightarrow> buffer list \<Rightarrow> buffer list list \<Rightarrow> buffer list list list \<Rightarrow> found_tables
    \<Rightarrow> found_tables option" where
  "merge_tables preNames preValues (name # names) (ks # keys) (rows # vals) f =
     (let LPre = index_of name preNames in
      if LPre = length preNames then merge_tables preNames preValues names keys vals (add_table name ks rows f)
      else if length preValues \<le> LPre then None
      else merge_tables preNames preValues names keys vals
             (fold (\<lambda>row f. if row \<in> set (preValues ! LPre) then f else add_table name ks rows f) rows f))"
| "merge_tables preNames preValues _ _ _ f = Some f"

text \<open>\<open>execMutilSql\<close>, with \<open>headID\<close> the digest of the time. The local variable \<open>PreQeueFindTableName\<close> is empty.\<close>

definition export_execMutilSql :: "'db query \<Rightarrow> buffer \<Rightarrow> buffer list \<Rightarrow> buffer list \<Rightarrow> buffer list
    \<Rightarrow> 'db mysql_queue \<times> head_generate_data list \<Rightarrow> (unit q_outcome \<times> 'db mysql_queue \<times> head_generate_data list) option" where
  "export_execMutilSql query headID sqlSelec strColum tableName c =
     (case exec_queries query sqlSelec strColum tableName [0..<4] nothing_found (fst c) of
        None \<Rightarrow> None
      | Some (Q_thrown, s1) \<Rightarrow> Some (Q_thrown, s1, snd c)
      | Some (Q_returned _ f, s1) \<Rightarrow>
         (case exec_queries query sqlSelec strColum tableName [4..<length sqlSelec] nothing_found s1 of
            None \<Rightarrow> None
          | Some (Q_thrown, s2) \<Rightarrow> Some (Q_thrown, s2, snd c)
          | Some (Q_returned _ p, s2) \<Rightarrow> do {
              let PreQeueFindTableName = [];
              f' \<leftarrow> (if PreQeueFindTableName \<noteq> []
                    then merge_tables PreQeueFindTableName (q_preValues s2) (f_names p) (f_keys p) (f_values p) f else Some f);
              (_, q) \<leftarrow> PutOneMessageQueue headID f' (snd c);
              Some (Q_returned mysql_success (), s2\<lparr>q_preKeys := f_keys f', q_preValues := f_values f'\<rparr>, q) }))"

definition write_all :: "buffer list \<Rightarrow> buffer \<Rightarrow> table_xml option \<Rightarrow> table_xml option option" where
  "write_all names t doc = fold (\<lambda>n d. do { doc \<leftarrow> d; (_, doc') \<leftarrow> WriteTimeUpdateXML n t doc; Some doc' }) names (Some doc)"

text \<open>\<open>None\<close> is undefined behaviour, \<open>Some Q_thrown\<close> an exception, which nothing catches.\<close>

definition readData :: "(tm \<Rightarrow> int) \<Rightarrow> (int \<Rightarrow> tm option) \<Rightarrow> 'db query \<Rightarrow> buffer \<Rightarrow> export_globals
    \<Rightarrow> table_xml option \<times> 'db mysql_queue \<times> head_generate_data list
    \<Rightarrow> (unit q_outcome \<times> table_xml option \<times> 'db mysql_queue \<times> head_generate_data list) option" where
  "readData mk lt query headID g c =
     (if glb_table_name g = [] \<or> glb_timestamp g = [] then Some (Q_returned 0 (), c)
      else do {
        (stamps, curs) \<leftarrow> GetSelectSql mk lt g;
        (r, c1) \<leftarrow> export_execMutilSql query headID curs stamps (glb_table_name g) (snd c);
        (case r of Q_thrown \<Rightarrow> Some (Q_thrown, fst c, c1)
         | Q_returned _ _ \<Rightarrow> do {
             strQueryTime \<leftarrow> before_text mk lt g (- glb_period_time g);
             strQueryTime \<leftarrow> GetWriteXmlTime strQueryTime;
             doc \<leftarrow> write_all (glb_table_name g) strQueryTime (fst c);
             Some (Q_returned 0 (), doc, c1) }) })"

text \<open>A round of the thread, and what it then sleeps, in milliseconds. The result of \<open>InitConfig\<close> is not used.\<close>

definition ThreadProcServer_round :: "(tm \<Rightarrow> int) \<Rightarrow> (int \<Rightarrow> tm option) \<Rightarrow> 'db query \<Rightarrow> buffer \<Rightarrow> export_globals
    \<Rightarrow> table_xml option \<times> 'db mysql_queue \<times> head_generate_data list
    \<Rightarrow> (unit q_outcome \<times> int \<times> export_globals \<times> table_xml option \<times> 'db mysql_queue \<times> head_generate_data list) option" where
  "ThreadProcServer_round mk lt query headID g c =
     (case InitConfig (fst c) g of None \<Rightarrow> None
      | Some (_, g1) \<Rightarrow> do {
          (r, c1) \<leftarrow> readData mk lt query headID g1 c;
          Some (r, if glb_period_time g1 \<noteq> 0 then s32 (glb_period_time g1 * 1000) else 30000, g1, c1) })"

section \<open>The export does not get through\<close>

lemma select_loop_lengths:
  "select_loop mk lt g names ts = Some (stamps, curs) \<Longrightarrow> length stamps = length names \<and> length curs = length names"
proof (induction mk lt g names ts arbitrary: stamps curs rule: select_loop.induct)
  case (3 mk lt g name names t ts)
  then show ?case by (auto split: Option.bind_splits)
qed auto

lemma previous_loop_length: "previous_loop mk lt g names = Some curs \<Longrightarrow> length curs = length names"
  by (induction names arbitrary: curs) (auto split: Option.bind_splits)

lemma GetSelectSql_lengths:
  "GetSelectSql mk lt g = Some (stamps, curs) \<Longrightarrow> length stamps = length (glb_table_name g) \<and> length curs = 2 * length (glb_table_name g)"
  by (auto simp: GetSelectSql_def split: Option.bind_splits dest!: select_loop_lengths previous_loop_length)

lemma exec_queries_in_bounds:
  "exec_queries query sqls cols names is f s = Some (Q_returned r f', s') \<Longrightarrow> \<forall>i \<in> set is. i < length cols"
proof (induction query sqls cols names "is" f s rule: exec_queries.induct)
  case (2 query sqls cols names i "is" f s)
  from "2.prems" have i: "i < length cols" by (auto simp: nth_sql_def split: Option.bind_splits if_splits)
  from "2.prems" obtain f1 s1 where "exec_queries query sqls cols names is f1 s1 = Some (Q_returned r f', s')"
      "\<exists>sql col name r1. nth_sql sqls i = Some sql \<and> nth_sql cols i = Some col \<and> nth_sql names i = Some name \<and>
         execQuerySql query sql col name f s = (Q_returned r1 f1, s1) \<and> r1 = mysql_success"
    by (auto split: Option.bind_splits prod.splits q_outcome.splits if_splits)
  then show ?case using "2.IH" i by auto
qed simp

lemma export_out_of_bounds:
  assumes "length cols = n" "length sqls = 2 * n" "0 < n"
  shows "export_execMutilSql query headID sqls cols names c \<noteq> Some (Q_returned r u, c')"
proof
  assume "export_execMutilSql query headID sqls cols names c = Some (Q_returned r u, c')"
  then obtain r1 f1 s1 r2 f2 s2 where q:
      "exec_queries query sqls cols names [0..<4] nothing_found (fst c) = Some (Q_returned r1 f1, s1)"
      "exec_queries query sqls cols names [4..<length sqls] nothing_found s1 = Some (Q_returned r2 f2, s2)"
    by (auto simp: export_execMutilSql_def split: option.splits prod.splits q_outcome.splits Option.bind_splits)
  have "3 < n" using exec_queries_in_bounds [OF q(1)] assms(1) by auto
  then have "2 * n - 1 \<in> set [4..<length sqls]" using assms(2) by auto
  then have "2 * n - 1 < n" using exec_queries_in_bounds [OF q(2)] assms(1) by blast
  then show False using \<open>3 < n\<close> by simp
qed

text \<open>With a connection and a database that answers every query nothing is thrown.\<close>

definition answers :: "'db query \<Rightarrow> bool" where
  "answers query \<longleftrightarrow> (\<forall>d sql. \<exists>rows d'. query d sql = (Select_rows rows, d'))"

lemma execQuerySql_answers:
  assumes "answers query" "q_connect s"
  shows "\<exists>f' s'. execQuerySql query sql col name f s = (Q_returned mysql_success f', s') \<and> q_connect s'"
proof -
  obtain rows d where 1: "query (q_db s) col = (Select_rows rows, d)" using assms(1) unfolding answers_def by blast
  obtain rows2 d2 where 2: "query d sql = (Select_rows rows2, d2)" using assms(1) unfolding answers_def by blast
  show ?thesis using assms(2) by (simp add: execQuerySql_def getQueryKeysData_def getQueryData_def 1 2)
qed

lemma exec_queries_answers:
  "answers query \<Longrightarrow> q_connect s \<Longrightarrow> exec_queries query sqls cols names is f s = Some (r, s') \<Longrightarrow> r \<noteq> Q_thrown \<and> q_connect s'"
proof (induction "is" arbitrary: f s)
  case (Cons i "is")
  from Cons.prems(3) obtain sql col name where n: "nth_sql sqls i = Some sql" "nth_sql cols i = Some col" "nth_sql names i = Some name"
    by (auto split: Option.bind_splits)
  obtain f1 s1 where "execQuerySql query sql col name f s = (Q_returned mysql_success f1, s1)" "q_connect s1"
    using execQuerySql_answers [OF Cons.prems(1,2)] by blast
  then show ?case using Cons n by auto
qed auto

lemma export_answers:
  assumes "answers query" "q_connect (fst c)"
  shows "export_execMutilSql query headID sqls cols names c \<noteq> Some (Q_thrown, c')"
proof
  assume "export_execMutilSql query headID sqls cols names c = Some (Q_thrown, c')"
  then consider s1 where "exec_queries query sqls cols names [0..<4] nothing_found (fst c) = Some (Q_thrown, s1)"
    | r f s1 s2 where "exec_queries query sqls cols names [0..<4] nothing_found (fst c) = Some (Q_returned r f, s1)"
      "exec_queries query sqls cols names [4..<length sqls] nothing_found s1 = Some (Q_thrown, s2)"
    by (auto simp: export_execMutilSql_def split: option.splits prod.splits q_outcome.splits Option.bind_splits)
  then show False
  proof cases
    case 1
    then show ?thesis using exec_queries_answers [OF assms] by blast
  next
    case 2
    then have "q_connect s1" using exec_queries_answers [OF assms 2(1)] by simp
    then show ?thesis using exec_queries_answers [OF assms(1) _ 2(2)] by blast
  qed
qed

lemma readData_never_completes:
  assumes "glb_table_name g \<noteq> []" "glb_timestamp g \<noteq> []"
  shows "readData mk lt query headID g c \<in> {None} \<union> range (\<lambda>c'. Some (Q_thrown, c')) \<and>
     (answers query \<and> q_connect (fst (snd c)) \<longrightarrow> readData mk lt query headID g c = None)"
proof (cases "readData mk lt query headID g c")
  case (Some x)
  then obtain stamps curs r c1 where sel: "GetSelectSql mk lt g = Some (stamps, curs)"
      and ex: "export_execMutilSql query headID curs stamps (glb_table_name g) (snd c) = Some (r, c1)"
    using assms by (auto simp: readData_def split: Option.bind_splits)
  have "r \<noteq> Q_returned i u" for i u
    using export_out_of_bounds [of stamps "length (glb_table_name g)" curs query headID "glb_table_name g" "snd c" i u c1]
      GetSelectSql_lengths [OF sel] ex assms(1) by auto
  then have "r = Q_thrown" by (cases r) auto
  then have "x = (Q_thrown, fst c, c1)" "\<not> (answers query \<and> q_connect (fst (snd c)))"
    using Some sel ex assms export_answers [of query "snd c" headID curs stamps "glb_table_name g" c1] by (auto simp: readData_def)
  then show ?thesis using Some by simp
qed simp

text \<open>C34: the export of a period never completes. For every file with a table, the queries are twice as many as the vectors of
  table names and column queries that are indexed with them: whatever the tables hold, a round of the thread never
  ends with a result, but in an exception when a query fails; with a database that answers every query it always ends in
  the access behind these vectors.\<close>

theorem export_never_completes:
  assumes "InitConfig doc g = Some (True, g1)"
  shows "ThreadProcServer_round mk lt query headID g (doc, s, q) \<in> {None} \<union> range (\<lambda>c'. Some (Q_thrown, c')) \<and>
     (answers query \<and> q_connect s \<longrightarrow> ThreadProcServer_round mk lt query headID g (doc, s, q) = None)"
proof -
  have "glb_table_name g1 \<noteq> []" "glb_timestamp g1 \<noteq> []"
    using assms by (auto simp: InitConfig_def Let_def split: option.splits Option.bind_splits)
  from readData_never_completes [OF this, of mk lt query headID "(doc, s, q)"] show ?thesis
    by (auto simp: ThreadProcServer_round_def assms)
qed

definition demo_tm :: tm where
  "demo_tm = \<lparr>tm_year = 116, tm_mon = 4, tm_mday = 4, tm_hour = 18, tm_min = 39, tm_sec = 57\<rparr>"

definition demo_xml :: table_xml where
  "demo_xml = \<lparr>xml_period = Some (lit ''30''), xml_tables = map (\<lambda>t. (Some (lit t), Some (lit ''2016-05-04 18:39:57'')))
     [''WM_SO_HEADER'', ''WM_SO_DETAIL'', ''wm_asn_header'', ''wm_asn_detail'']\<rparr>"

definition demo_queue :: "unit mysql_queue" where
  "demo_queue = \<lparr>q_connect = True, q_db = (), q_preKeys = [], q_preValues = []\<rparr>"

theorem export_never_completes_witness:
  "ThreadProcServer_round (\<lambda>_. 0) (\<lambda>_. Some demo_tm) (\<lambda>d sql. (Select_rows [], d)) [] \<lparr>glb_table_name = [], glb_timestamp = [], glb_period_time = 0\<rparr>
     (Some demo_xml, demo_queue, []) = None"
proof -
  let ?g = "\<lparr>glb_table_name = [], glb_timestamp = [], glb_period_time = 0\<rparr>"
  have "answers (\<lambda>d sql. (Select_rows [], d :: unit))" by (simp add: answers_def)
  moreover have "q_connect demo_queue" by (simp add: demo_queue_def)
  moreover have "\<exists>g1. InitConfig (Some demo_xml) ?g = Some (True, g1)" by (simp add: InitConfig_def demo_xml_def)
  ultimately show ?thesis using export_never_completes [of "Some demo_xml" ?g] by blast
qed

section \<open>Texts of times\<close>

lemma length_dec_nat_ge: "10 ^ k \<le> n \<Longrightarrow> k < length (dec_nat n)"
proof (induction n arbitrary: k rule: dec_nat.induct)
  case (1 n)
  show ?case
  proof (cases k)
    case (Suc j)
    then have "10 * 10 ^ j \<le> n" using "1.prems" by simp
    moreover have "(1 :: nat) \<le> 10 ^ j" by simp
    ultimately have "\<not> n < 10" by linarith
    moreover have "10 ^ j \<le> n div 10" using "1.prems" Suc by (simp add: less_eq_div_iff_mult_less_eq mult.commute)
    ultimately show ?thesis using "1.IH" [of j] Suc by (simp add: dec_nat.simps [of n])
  qed (simp add: dec_nat.simps [of n])
qed

lemma c_atoi_digits:
  assumes "all_digits s" "s \<noteq> []" "dec_val s < 2 ^ 31"
  shows "c_atoi (c_str (bytes_of s)) = int (dec_val s)"
proof -
  have d: "\<And>b. b \<in> set (bytes_of s) \<Longrightarrow> 48 \<le> b \<and> b \<le> 57" using digit_bytes [OF assms(1)] .
  then have "0 \<notin> set (bytes_of s)" by fastforce
  then have c: "c_str (bytes_of s) = bytes_of s" by simp
  obtain b t where b: "bytes_of s = b # t" using assms(2) by (cases "bytes_of s") (auto simp: bytes_of_def)
  have "48 \<le> b \<and> b \<le> 57" using d b by simp
  then have nb: "\<not> c_isspace b" "b \<noteq> 45" "b \<noteq> 43" by (auto simp: word_le_nat_alt)
  have "takeWhile (\<lambda>b. c_isdigit b) (bytes_of s) = bytes_of s" using d by (simp add: takeWhile_eq_all_conv)
  moreover have "dropWhile (\<lambda>b. c_isspace b) (bytes_of s) = bytes_of s" unfolding b using nb(1) by (simp only: dropWhile.simps if_False)
  ultimately have "scan_d (bytes_of s) = Some (s32 (dec_value (bytes_of s)))"
    using nb(2,3) b by (simp add: scan_d_def scan_sign_def)
  then show ?thesis using assms(1,3) c by (simp add: c_atoi_def dec_value_bytes s32_id)
qed

text \<open>The text with all fields at their full width, and the times it has room for.\<close>

definition tm_xml :: "tm \<Rightarrow> buffer" where
  "tm_xml p = bytes_of (fmt_u 4 (tm_year p + 1900)) @ [45] @ bytes_of (fmt_u 2 (tm_mon p + 1)) @ [45] @ bytes_of (fmt_u 2 (tm_mday p)) @ [32] @
     bytes_of (fmt_u 2 (tm_hour p)) @ [58] @ bytes_of (fmt_u 2 (tm_min p)) @ [58] @ bytes_of (fmt_u 2 (tm_sec p))"

definition tm_ok :: "tm \<Rightarrow> bool" where
  "tm_ok p \<longleftrightarrow> 1000 \<le> tm_year p + 1900 \<and> tm_year p + 1900 < 10000 \<and> list_all (\<lambda>x. 0 \<le> x \<and> x < 100)
     [tm_mon p + 1, tm_mday p, tm_hour p, tm_min p, tm_sec p]"

lemma fmt_u_field:
  assumes "0 < w" "0 \<le> x" "x < 10 ^ w" "w < 10"
  shows "length (fmt_u w x) = w" "c_atoi (c_str (bytes_of (fmt_u w x))) = x"
proof -
  show len: "length (fmt_u w x) = w" using assms by (simp add: length_fmt_u)
  have "x < 2 ^ 31" using assms(3,4) power_increasing [of w 9 "10 :: int"] by simp
  then show "c_atoi (c_str (bytes_of (fmt_u w x))) = x"
    using c_atoi_digits [OF fmt_u_digits, of w x] assms len by (fastforce simp: dec_val_fmt_u)
qed

lemma timestamp_of_xml:
  assumes "tm_ok p" shows "GetTimeStampByStr mk (tm_xml p) = Some (u32 (mk p))"
proof -
  have f: "length (fmt_u 4 (tm_year p + 1900)) = 4" "c_atoi (c_str (bytes_of (fmt_u 4 (tm_year p + 1900)))) = tm_year p + 1900"
    and g: "\<And>x. 0 \<le> x \<Longrightarrow> x < 100 \<Longrightarrow> length (fmt_u 2 x) = 2 \<and> c_atoi (c_str (bytes_of (fmt_u 2 x))) = x"
    using assms fmt_u_field [of 4] fmt_u_field [of 2] by (simp_all add: tm_ok_def)
  have eta: "\<lparr>tm_year = tm_year p, tm_mon = tm_mon p, tm_mday = tm_mday p, tm_hour = tm_hour p, tm_min = tm_min p,
      tm_sec = tm_sec p\<rparr> = p" by (cases p) simp
  show ?thesis using f g assms
    by (simp add: eta GetTimeStampByStr_def c_field_def tm_xml_def bytes_at_def tm_ok_def)
qed

lemma str_find_app: "c \<notin> set xs \<Longrightarrow> str_find c (xs @ c # ys) = int (length xs)"
  by (auto simp: str_find_def takeWhile_append)

lemma find_last_app: "c \<notin> set ys \<Longrightarrow> find_last_of c (xs @ c # ys) = int (length xs)"
  by (auto simp: find_last_of_def takeWhile_append)

lemma substr_app:
  "t = xs @ ys @ zs \<Longrightarrow> pos = int (length xs) \<Longrightarrow> n = int (length ys) \<Longrightarrow> length t < 2 ^ 31 \<Longrightarrow> substr t (u32 pos) (u32 n) = Some ys"
  by (simp add: substr_def u32_id)

text \<open>A text of six fields, each without separators.\<close>

lemma write_xml_fields:
  assumes seps: "\<And>x. x \<in> {Y, M, D, h, m, s} \<Longrightarrow> {45, 32, 58} \<inter> set x = {}"
    and len: "length Y = 4" "\<And>x. x \<in> {M, D, h, m, s} \<Longrightarrow> length x = 1 \<or> length x = 2"
  shows "GetWriteXmlTime (Y @ [45] @ M @ [45] @ D @ [32] @ h @ [58] @ m @ [58] @ s) =
     Some (Y @ [45] @ pad2 M @ [45] @ pad2 D @ [32] @ pad2 h @ [58] @ pad2 m @ [58] @ pad2 s)" (is "GetWriteXmlTime ?t = _")
proof -
  have sep: "45 \<notin> set x" "32 \<notin> set x" "58 \<notin> set x" if "x \<in> {Y, M, D, h, m, s}" for x using seps [OF that] by auto
  have L: "length x \<le> 2" "0 < length x" if "x \<in> {M, D, h, m, s}" for x using len(2) [OF that] by auto
  show ?thesis
  proof (cases "length ?t = 19")
    case True
    then have "length x = 2" if "x \<in> {M, D, h, m, s}" for x using that len(1) L [of M] L [of D] L [of h] L [of m] L [of s] by auto
    then show ?thesis using True by (simp add: GetWriteXmlTime_def pad2_def)
  next
    case False
    let ?hd = "Y @ [45] @ M @ [45] @ D @ [32] @ h"
    have colon: "str_find 58 ?t = int (length ?hd)" using sep str_find_app [of 58 ?hd "m @ [58] @ s"] by simp
    have dash: "find_last_of 45 ?t = int (length (Y @ [45] @ M))"
      using sep find_last_app [of 45 "D @ [32] @ h @ [58] @ m @ [58] @ s" "Y @ [45] @ M"] by simp
    have gap: "str_find 32 ?t = int (length (Y @ [45] @ M @ [45] @ D))"
      using sep str_find_app [of 32 "Y @ [45] @ M @ [45] @ D" "h @ [58] @ m @ [58] @ s"] by simp
    have colon2: "find_last_of 58 ?t = int (length (?hd @ [58] @ m))" using sep find_last_app [of 58 s "?hd @ [58] @ m"] by simp
    have colon3: "str_find 58 (m @ [58] @ s) = int (length m)" using sep str_find_app [of 58 m s] by simp
    note l = L [of M] L [of D] L [of h] L [of m] L [of s] len(1)
    have "substr ?t (u32 (str_find 58 ?t + 1)) (u32 (int (length ?t) - str_find 58 ?t - 1)) = Some (m @ [58] @ s)"
      unfolding colon by (rule substr_app [of _ "?hd @ [58]" _ "[]"]) (use l in simp_all)
    moreover have "substr ?t 0 4 = Some Y" using l by (simp add: substr_def)
    moreover have "substr ?t 5 (u32 (find_last_of 45 ?t - 5)) = Some M"
      using substr_app [of ?t "Y @ [45]" M "[45] @ D @ [32] @ h @ [58] @ m @ [58] @ s" 5 "find_last_of 45 ?t - 5"] l
      unfolding dash by (simp add: u32_id)
    moreover have "substr ?t (u32 (find_last_of 45 ?t + 1)) (u32 (str_find 32 ?t - find_last_of 45 ?t - 1)) = Some D"
      unfolding dash gap by (rule substr_app [of _ "Y @ [45] @ M @ [45]" _ "[32] @ h @ [58] @ m @ [58] @ s"]) (use l in simp_all)
    moreover have "substr ?t (u32 (str_find 32 ?t + 1)) (u32 (str_find 58 ?t - str_find 32 ?t - 1)) = Some h"
      unfolding gap colon by (rule substr_app [of _ "Y @ [45] @ M @ [45] @ D @ [32]" _ "[58] @ m @ [58] @ s"]) (use l in simp_all)
    moreover have "substr ?t (u32 (find_last_of 58 ?t + 1)) (u32 (int (length ?t) - find_last_of 58 ?t - 1)) = Some s"
      unfolding colon2 by (rule substr_app [of _ "?hd @ [58] @ m @ [58]" _ "[]"]) (use l in simp_all)
    moreover have "substr (m @ [58] @ s) 0 (str_find 58 (m @ [58] @ s)) = Some m" unfolding colon3 by (simp add: substr_def)
    ultimately show ?thesis using False unfolding GetWriteXmlTime_def Let_def by (simp only: if_False Option.bind.bind_lunit)
  qed
qed

lemma pad2_dec_text:
  assumes "0 \<le> x" "x < 100"
  shows "pad2 (dec_text x) = bytes_of (fmt_u 2 x)" "length (dec_text x) = 1 \<or> length (dec_text x) = 2"
proof -
  have "length (dec_nat (nat x)) \<le> 2" "0 < length (dec_nat (nat x))"
    using assms length_dec_nat [of 2 "nat x"] by (simp_all add: dec_nat.simps [of "nat x"])
  then have "length (dec_nat (nat x)) = 1 \<or> length (dec_nat (nat x)) = 2" by linarith
  then show "length (dec_text x) = 1 \<or> length (dec_text x) = 2" using assms by (auto simp: dec_text_def fmt_d_def)
  then show "pad2 (dec_text x) = bytes_of (fmt_u 2 x)"
    using assms by (auto simp: pad2_def dec_text_def fmt_d_def fmt_u_def Let_def bytes_of_def)
qed

lemma dec_text_seps: "0 \<le> x \<Longrightarrow> {45, 32, 58} \<inter> set (dec_text x) = {}"
  using digit_bytes [OF dec_nat_digits, of _ "nat x"] by (force simp: dec_text_def fmt_d_def)

lemma xml_of_text:
  assumes "tm_ok p" shows "GetWriteXmlTime (tm_text p) = Some (tm_xml p)"
proof -
  let ?Y = "tm_year p + 1900" and ?F = "{tm_mon p + 1, tm_mday p, tm_hour p, tm_min p, tm_sec p}"
  have f: "0 \<le> x" "x < 100" if "x \<in> ?F" for x using assms that by (auto simp: tm_ok_def)
  have y: "1000 \<le> ?Y" "?Y < 10000" using assms by (simp_all add: tm_ok_def)
  have "length (dec_nat (nat ?Y)) = 4"
    using length_dec_nat_ge [of 3 "nat ?Y"] length_dec_nat [of 4 "nat ?Y"] y by force
  then have ytext: "dec_text ?Y = bytes_of (fmt_u 4 ?Y)" "length (dec_text ?Y) = 4"
    using y by (simp_all add: dec_text_def fmt_d_def fmt_u_def)
  have pads: "pad2 (dec_text x) = bytes_of (fmt_u 2 x)" "length (dec_text x) = 1 \<or> length (dec_text x) = 2" if "x \<in> ?F" for x
    using pad2_dec_text f [OF that] by blast+
  have seps: "{45, 32, 58} \<inter> set (dec_text x) = {}" if "x \<in> insert ?Y ?F" for x
    by (rule dec_text_seps) (use that f y in fastforce)
  have "GetWriteXmlTime (tm_text p) = Some (dec_text ?Y @ [45] @ pad2 (dec_text (tm_mon p + 1)) @ [45] @
      pad2 (dec_text (tm_mday p)) @ [32] @ pad2 (dec_text (tm_hour p)) @ [58] @ pad2 (dec_text (tm_min p)) @ [58] @ pad2 (dec_text (tm_sec p)))"
    unfolding tm_text_def
  proof (rule write_xml_fields)
    show "{45, 32, 58} \<inter> set x = {}" if "x \<in> {dec_text ?Y, dec_text (tm_mon p + 1), dec_text (tm_mday p),
        dec_text (tm_hour p), dec_text (tm_min p), dec_text (tm_sec p)}" for x
      using that seps by blast
    show "length x = 1 \<or> length x = 2" if "x \<in> {dec_text (tm_mon p + 1), dec_text (tm_mday p), dec_text (tm_hour p), dec_text (tm_min p),
        dec_text (tm_sec p)}" for x
      using that pads(2) by blast
  qed (rule ytext(2))
  then show ?thesis using pads(1) by (simp only: tm_xml_def ytext(1) insertI1 insertI2)
qed

text \<open>The time of the next period survives the file. The text that \<open>readData\<close> writes into the XML for a time with a
  year of four digits is the padded text, and reading it back gives the time itself, whatever calendar the C library
  uses, up to the 32 bits of the result.\<close>

lemma xml_time_roundtrip:
  assumes "lt t = Some p" "tm_ok p" "length (tm_text p) < 24"
  shows "(do { text \<leftarrow> GetStrFromTime lt t; xml \<leftarrow> GetWriteXmlTime text; GetTimeStampByStr mk xml }) = Some (u32 (mk p))"
  using assms timestamp_of_xml [OF assms(2)] xml_of_text [OF assms(2)] by (simp add: GetStrFromTime_def)

lemma xml_time_roundtrip_witness:
  "(do { text \<leftarrow> GetStrFromTime (\<lambda>_. Some demo_tm) 1462358397; xml \<leftarrow> GetWriteXmlTime text; GetTimeStampByStr (\<lambda>p. tm_sec p + 60 * tm_min p) xml })
     = Some (57 + 60 * 39)"
  using xml_time_roundtrip [of "\<lambda>_. Some demo_tm" 1462358397 demo_tm "\<lambda>p. tm_sec p + 60 * tm_min p"]
  by (simp add: tm_ok_def demo_tm_def tm_text_def dec_text_def fmt_d_def dec_nat.simps u32_id)

section \<open>The queue of messages\<close>

interpretation export_queue: bounded_queue INCREMENT_ROWS_MAX "\<lambda>q. q" ProductDataGenerate
    "\<lambda>q. case VectorHeadConsumerDataGenerate () q of (Inl _, q') \<Rightarrow> (None, q') | (Inr x, q') \<Rightarrow> (Some x, q')"
  by unfold_locales (auto simp: ProductDataGenerate_def product_def VectorHeadConsumerDataGenerate_def split: list.split)

text \<open>Specification: the rows found, in order, each in a message of its own, numbered from one.\<close>

definition found_rows :: "found_tables \<Rightarrow> generate_data list" where
  "found_rows f = concat (map (\<lambda>(name, ks, vs). map (\<lambda>v. \<lparr>tableName_' = name, columnKey_' = ks, columnVal_' = v\<rparr>) vs)
     (zip (f_names f) (zip (f_keys f) (f_values f))))"

definition numbered :: "buffer \<Rightarrow> int \<Rightarrow> int \<Rightarrow> generate_data list \<Rightarrow> head_generate_data list" where
  "numbered k n i ds = map (\<lambda>(j, d). one_message k n (i + int j + 1) [d]) (enumerate 0 ds)"

lemma numbered_simps:
  "numbered k n i [] = []" "numbered k n i (d # ds) = one_message k n (i + 1) [d] # numbered k n (i + 1) ds"
proof -
  have "enumerate (Suc m) xs = map (\<lambda>(j, d). (Suc j, d)) (enumerate m xs)" for m and xs :: "generate_data list"
    by (induction xs arbitrary: m) simp_all
  then show "numbered k n i (d # ds) = one_message k n (i + 1) [d] # numbered k n (i + 1) ds"
    by (simp add: numbered_def case_prod_unfold add.commute add.left_commute)
qed (simp add: numbered_def)

lemma numbered_append: "numbered k n i (ds @ es) = numbered k n i ds @ numbered k n (i + int (length ds)) es"
  by (induction ds arbitrary: i) (simp_all add: numbered_simps add.assoc)

lemma put_rows_numbered:
  "put_rows k n name keys vs i q = (i + int (length vs),
     put_all ProductDataGenerate (numbered k n i (map (\<lambda>v. \<lparr>tableName_' = name, columnKey_' = keys, columnVal_' = v\<rparr>) vs)) q)"
  by (induction vs arbitrary: i q) (simp_all add: numbered_simps)

lemma put_all_append: "put_all put (xs @ ys) s = put_all put ys (put_all put xs s)"
  by (induction xs arbitrary: s) simp_all

lemma put_tables_numbered:
  "length names = length vals \<Longrightarrow> length keys = length vals \<Longrightarrow>
     put_tables k n names keys vals i q =
       Some (put_all ProductDataGenerate (numbered k n i (found_rows \<lparr>f_names = names, f_keys = keys, f_values = vals\<rparr>)) q)"
proof (induction vals arbitrary: names keys i q)
  case (Cons vs vals)
  then obtain name names' ks keys' where "names = name # names'" "keys = ks # keys'" by (metis length_Suc_conv)
  then show ?case using Cons by (simp add: put_rows_numbered found_rows_def numbered_append put_all_append)
qed (simp add: found_rows_def numbered_simps)

lemma length_found_rows:
  "length (f_names f) = length (f_values f) \<Longrightarrow> length (f_keys f) = length (f_values f) \<Longrightarrow>
     length (found_rows f) = sum_list (map length (f_values f))"
proof -
  assume "length (f_names f) = length (f_values f)" "length (f_keys f) = length (f_values f)"
  then have "map (length \<circ> snd \<circ> snd) (zip (f_names f) (zip (f_keys f) (f_values f))) = map length (f_values f)"
    by (metis (no_types) comp_assoc length_map map_map map_snd_zip length_zip min.idem)
  then show ?thesis by (simp add: found_rows_def length_concat comp_def case_prod_unfold)
qed


definition demo_found :: found_tables where
  "demo_found = \<lparr>f_names = [[65], [66]], f_keys = [[[107]], [[108]]], f_values = [[[[1]], [[2]]], [[[3]]]]\<rparr>"


section \<open>Two rows in a message\<close>

lemma chunk_rows_cases:
  "Suc j < chunk_count (length vals) \<or> length vals mod 2 = 0 \<Longrightarrow> chunk_rows vals j = [vals ! (2 * j), vals ! Suc (2 * j)]"
  "length vals mod 2 = 1 \<Longrightarrow> chunk_rows vals (chunk_count (length vals) - 1) = [vals ! (length vals div 2)]"
  by (auto simp: chunk_rows_def chunk_count_def Let_def upt_rec numeral_2_eq_2)

lemma pairs_of_even: "concat (map (\<lambda>j. [vals ! (2 * j), vals ! Suc (2 * j)]) [0..<n]) = map (\<lambda>i. vals ! i) [0..<2 * n]"
  by (induction n) simp_all

lemma chunks_rows:
  assumes "2 < length vals"
  shows "concat (map (chunk_rows vals) [0..<chunk_count (length vals)]) =
     (if length vals mod 2 = 0 then vals else butlast vals @ [vals ! (length vals div 2)])"
proof (cases "length vals mod 2 = 0")
  case True
  then have n: "length vals = 2 * (length vals div 2)" "chunk_count (length vals) = length vals div 2" by (auto simp: chunk_count_def)
  have "map (chunk_rows vals) [0..<length vals div 2] = map (\<lambda>j. [vals ! (2 * j), vals ! Suc (2 * j)]) [0..<length vals div 2]"
    using True by (simp add: chunk_rows_cases(1))
  then show ?thesis using True n pairs_of_even [of vals "length vals div 2"] by (metis map_nth)
next
  case False
  then have n: "length vals = Suc (2 * (length vals div 2))" "chunk_count (length vals) = Suc (length vals div 2)" "length vals mod 2 = 1"
    using div_mult_mod_eq [of "length vals" 2] by (simp_all add: chunk_count_def)
  have m: "map (chunk_rows vals) [0..<length vals div 2] = map (\<lambda>j. [vals ! (2 * j), vals ! Suc (2 * j)]) [0..<length vals div 2]"
    using n(2) by (auto simp: chunk_rows_cases(1))
  have "map (\<lambda>i. vals ! i) [0..<2 * (length vals div 2)] = butlast vals"
    by (rule nth_equalityI) (use n(1) in \<open>simp_all add: nth_butlast\<close>)
  then show ?thesis using False n(2) chunk_rows_cases(2) [OF n(3)] pairs_of_even [of vals "length vals div 2"] by (simp add: m)
qed

lemma put_chunks_all:
  "put_chunks k number base name keys vals js q = put_all ProductDataGenerate
     (map (\<lambda>j. one_message k number (base + int j + 1) (chunk_data name keys (chunk_rows vals j))) js) q"
  by (induction js arbitrary: q) simp_all

text \<open>With an odd number of rows the last row is not sent. When rows go out in pairs, the messages of a table of three or
  more rows, as many as the queue holds, have in their bodies exactly the rows in their order if the number of rows is
  even; if it is odd, the last row is missing and the row in the middle comes a second time.\<close>

theorem last_odd_row_lost:
  assumes "2 < length vals" "keys \<noteq> []" "chunk_count (length vals) \<le> INCREMENT_ROWS_MAX"
  shows "\<exists>q. PutMessageQueue k name keys vals [] = (True, q) \<and> concat (map headBody q) =
     chunk_data name keys (if length vals mod 2 = 0 then vals else butlast vals @ [vals ! (length vals div 2)])"
proof -
  have "concat (map (\<lambda>j. chunk_data name keys (chunk_rows vals j)) js) = chunk_data name keys (concat (map (chunk_rows vals) js))" for js
    by (induction js) (simp_all add: chunk_data_def)
  then show ?thesis using assms chunks_rows [OF assms(1)]
    by (auto simp: PutMessageQueue_def put_chunks_all export_queue.put_all_items one_message_def comp_def)
qed

theorem last_odd_row_lost_witness:
  "\<exists>q. PutMessageQueue [72] [65] [[107]] [[[1]], [[2]], [[3]]] [] = (True, q) \<and> concat (map headBody q) = chunk_data [65] [[107]] [[[1]], [[2]], [[2]]]"
  using last_odd_row_lost [of "[[[1]], [[2]], [[3]]]" "[[107]]" "[72]" "[65]"] by (simp add: chunk_count_def INCREMENT_ROWS_MAX_def)

section \<open>Sending\<close>

text \<open>The JSON of a row. There are no doubles in it, so the texts of doubles do not matter.\<close>

definition table_value :: "generate_data \<Rightarrow> unit json" where
  "table_value d =
     (let put = (\<lambda>n xs ms. if xs = [] then ms else set_member n (arrayValue (map (\<lambda>x. stringValue (c_str x)) xs)) ms) in
      objectValue (put (lit ''values'') (columnVal_' d) (put (lit ''column'') (columnKey_' d)
        (set_member (lit ''name'') (stringValue (tableName_' d)) []))))"

definition root_value :: "head_generate_data \<Rightarrow> unit json" where
  "root_value pData =
     (if headBody pData = [] then nullValue else objectValue [(lit ''tables'', arrayValue (map table_value (headBody pData)))])"

definition send_prefix :: "buffer \<Rightarrow> head_generate_data \<Rightarrow> buffer" where
  "send_prefix m_storehouse_id pData =
     headID_' pData @ [44] @ dec_text (headNumber_' pData) @ [44] @ dec_text (headOrder_' pData) @ [44] @ m_storehouse_id"

definition BuildSendData :: "buffer \<Rightarrow> head_generate_data \<Rightarrow> buffer" where
  "BuildSendData m_storehouse_id pData =
     butlast (send_prefix m_storehouse_id pData @ FastWriter_write (\<lambda>_. []) (root_value pData))"

text \<open>One round of the thread: the tag under which the message is logged, with the message. An empty queue after the wait gives an
  uninitialised pointer, which is used: \<open>None\<close>.\<close>

definition ProcessBinlogThread_round :: "(buffer \<Rightarrow> buffer) \<Rightarrow> buffer \<Rightarrow> buffer \<Rightarrow> head_generate_data list \<times> wms_client
    \<Rightarrow> ((buffer \<times> buffer) \<times> head_generate_data list \<times> wms_client) option" where
  "ProcessBinlogThread_round gbk2utf8 junk m_storehouse_id c =
     (case VectorHeadConsumerDataGenerate () (fst c) of
        (Inl _, q) \<Rightarrow> None
      | (Inr pData, q) \<Rightarrow>
          (let sendMSG = BuildSendData m_storehouse_id pData; (ok, w) = SendMessage gbk2utf8 junk MSG_TYPE_BINLOG sendMSG (snd c) in
           Some ((if ok then lit ''RawData'' else lit ''FailRawData'', sendMSG), q, w)))"

text \<open>The tables the sending class cares for; nothing asks for them.\<close>

definition PreBinlog_InitConfig :: "table_xml option \<Rightarrow> buffer list \<Rightarrow> (bool \<times> buffer list) option" where
  "PreBinlog_InitConfig doc m_careTableName =
     (case doc of None \<Rightarrow> Some (False, m_careTableName)
      | Some rootElement \<Rightarrow> map_option (\<lambda>names. (names \<noteq> [], names)) (those (map fst (xml_tables rootElement))))"

definition FindTableName :: "buffer \<Rightarrow> buffer list \<Rightarrow> bool" where
  "FindTableName tableName m_careTableName = list_ex (\<lambda>n. n = tableName) m_careTableName"

lemma table_value_fits: "json_fits (Suc (Suc (Suc d))) (table_value x)"
  by (simp add: table_value_def list_all_iff lit_def bytes_of_def)

lemma root_value_fits: "json_fits stackLimit_g (root_value x)"
proof -
  have "json_fits (Suc (Suc (Suc (Suc (Suc d))))) (root_value x)" for d
    using table_value_fits [of d] by (simp add: root_value_def list_all_iff)
  from this [of 995] show ?thesis by (simp add: stackLimit_g_def)
qed

lemma BuildSendData_text:
  "BuildSendData m_storehouse_id x = send_prefix m_storehouse_id x @ writeValue (\<lambda>_. []) (root_value x)"
  by (simp add: BuildSendData_def FastWriter_write_def butlast_append)


text \<open>C5: an uploaded row is published. The round of the thread that takes the message from the queue sends it, and logs it as
  sent; the server that receives exactly the bytes the client sent queues it, and the thread of the raw queue publishes it
  under the configured topic, tagged with the id of the store and with the converted text of the message as its body.\<close>

theorem uploaded_row_published:
  assumes "w_valid w" "send_ok (w_conn w)" "typed_ok junk MSG_TYPE_BINLOG (gbk2utf8 (BuildSendData st x))" "gbk2utf8 (BuildSendData st x) \<noteq> []"
    and "i < length (m_clients s)" "m_client_id (m_clients s ! i) = code" "0 \<notin> set code" "m_raw_data (sv_mq s) = []" "ali_ok (sv_ali s)"
    and "concat (in_segs (m_conn (m_clients s ! i))) = typed_message junk MSG_TYPE_BINLOG (gbk2utf8 (BuildSendData st x))"
  shows "\<exists>w' s1 s2. ProcessBinlogThread_round gbk2utf8 junk st (x # q, w) = Some ((lit ''RawData'', BuildSendData st x), q, w') \<and>
     out_bytes (w_conn w') = out_bytes (w_conn w) @ concat (in_segs (m_conn (m_clients s ! i))) \<and>
     handler_round i now h0 s = Some s1 \<and> threadProcessRaw_round ons s1 = Some s2 \<and> m_raw_data (sv_mq s2) = [] \<and>
     mq_sent (sv_ali s2) = mq_sent (sv_ali s) @ filter ons
       [\<lparr>msg_topic = c_str (cfg_name (config_of (sv_ali s) queue_raw_topic)), msg_tag = code, msg_key = [], msg_body = gbk2utf8 (BuildSendData st x)\<rparr>]"
proof -
  let ?b = "gbk2utf8 (BuildSendData st x)"
  let ?msg = "\<lparr>msg_topic = c_str (cfg_name (config_of (sv_ali s) queue_raw_topic)), msg_tag = code, msg_key = [], msg_body = ?b\<rparr>"
  obtain c where c: "SendMessage gbk2utf8 junk MSG_TYPE_BINLOG (BuildSendData st x) w = (True, w\<lparr>w_conn := c\<rparr>)"
      "out_bytes c = out_bytes (w_conn w) @ typed_message junk MSG_TYPE_BINLOG ?b"
    using SendMessage_bytes [OF assms(1,2), of junk MSG_TYPE_BINLOG gbk2utf8 "BuildSendData st x"] assms(3) by blast
  then have round: "ProcessBinlogThread_round gbk2utf8 junk st (x # q, w) = Some ((lit ''RawData'', BuildSendData st x), q, w\<lparr>w_conn := c\<rparr>)"
    by (simp add: ProcessBinlogThread_round_def VectorHeadConsumerDataGenerate_def)
  have "concat (in_segs (m_conn (m_clients s ! i))) = typed_message junk MSG_TYPE_BINLOG ?b @ []" using assms(10) by simp
  from server_typed_recv [OF assms(3) this] obtain ss where
    r: "client_recv i s = Some (Some (typed_header junk MSG_TYPE_BINLOG ?b, ?b),
       set_client i ((m_clients s ! i)\<lparr>m_conn := (m_conn (m_clients s ! i))\<lparr>in_segs := ss\<rparr>\<rparr>) s)" by blast
  let ?s = "set_client i ((m_clients s ! i)\<lparr>m_conn := (m_conn (m_clients s ! i))\<lparr>in_segs := ss\<rparr>\<rparr>) s"
  have b: "c_str ?b = ?b" "c_str code = code" using assms(3,7) by (simp_all add: typed_ok_def)
  have "handler_round i now h0 s = Some (?s\<lparr>sv_mq := fst (ProductRawData h0 code ?b (sv_mq s))\<rparr>)"
    using assms(4,5,6) b by (simp add: handler_round_def r handlerMessage_def typed_header_def msg_defs set_client_def)
  moreover obtain d m where "ConsumerRawData () (fst (ProductRawData h0 code ?b (sv_mq s))) = (Inr d, m)" "mq_stores d = code" "mq_body d = ?b" "m_raw_data m = []"
    using assms(8) by (auto simp: ProductRawData_def product_def ConsumerRawData_def MAX_QUEUE_DATA_def)
  moreover obtain a where "pushMessage ons wms_producer code [] ?b (sv_ali s) = Some (ons ?msg, a)" "mq_sent a = mq_sent (sv_ali s) @ filter ons [?msg]"
    using pushMessage_ok [OF assms(9), of wms_producer ?msg code "[]" ?b ons] by (auto simp: createProducer_def)
  ultimately show ?thesis using round c(2) assms(10) by (auto simp: threadProcessRaw_round_def set_client_def)
qed

text \<open>A message of one row, and a server whose registered client has sent it.\<close>

definition demo_upload :: head_generate_data where
  "demo_upload = one_message (lit ''0A'') 1 1 [\<lparr>tableName_' = lit ''wm_sku'', columnKey_' = [lit ''id''], columnVal_' = [lit ''7'']\<rparr>]"

definition demo_uploading :: server where
  "demo_uploading = set_client 0 ((m_clients demo_server ! 0)\<lparr>m_conn :=
     demo_conn [typed_message demo_junk MSG_TYPE_BINLOG (BuildSendData (lit ''S1'') demo_upload)]\<rparr>) demo_server"

lemma demo_upload_text: "typed_ok demo_junk MSG_TYPE_BINLOG (BuildSendData (lit ''S1'') demo_upload)" "BuildSendData (lit ''S1'') demo_upload \<noteq> []"
  by (simp_all add: typed_ok_def demo_junk_def msg_defs HEADER_SIZE_def BuildSendData_text send_prefix_def root_value_def demo_upload_def one_message_def
      table_value_def lit_def bytes_of_def dec_text_def fmt_d_def dec_nat.simps digit_byte valueToQuotedStringN_eq quoted_char_def isControlCharacter_def)

theorem uploaded_row_published_witness:
  "\<exists>w' s1 s2. ProcessBinlogThread_round (\<lambda>t. t) demo_junk (lit ''S1'') ([demo_upload], demo_wms (bytes_of ''S1'') []) =
       Some ((lit ''RawData'', BuildSendData (lit ''S1'') demo_upload), [], w') \<and>
     out_bytes (w_conn w') = concat (in_segs (m_conn (m_clients demo_uploading ! 0))) \<and>
     handler_round 0 9 (typed_header demo_junk 0 []) demo_uploading = Some s1 \<and> threadProcessRaw_round (\<lambda>_. True) s1 = Some s2 \<and>
     mq_sent (sv_ali s2) = [\<lparr>msg_topic = c_str (cfg_name (config_of demo_ali queue_raw_topic)), msg_tag = bytes_of ''S1'', msg_key = [],
       msg_body = BuildSendData (lit ''S1'') demo_upload\<rparr>]"
proof -
  have s: "0 < length (m_clients demo_uploading)" "m_client_id (m_clients demo_uploading ! 0) = bytes_of ''S1''" "0 \<notin> set (bytes_of ''S1'')"
    "m_raw_data (sv_mq demo_uploading) = []" "sv_ali demo_uploading = demo_ali"
    "concat (in_segs (m_conn (m_clients demo_uploading ! 0))) = typed_message demo_junk MSG_TYPE_BINLOG (BuildSendData (lit ''S1'') demo_upload)"
    by (simp_all add: demo_uploading_def set_client_def demo_server_def server_init_def Let_def demo_conn_def bytes_of_def)
  have a: "ali_ok (sv_ali demo_uploading)" "mq_sent demo_ali = []" by (simp_all add: s(5) ali_ok_def demo_ali_def Let_def)
  have w: "w_valid (demo_wms (bytes_of ''S1'') [])" "send_ok (w_conn (demo_wms (bytes_of ''S1'') []))" "out_bytes (w_conn (demo_wms (bytes_of ''S1'') [])) = []"
    by (simp_all add: demo_wms_def send_ok_def demo_conn_def)
  show ?thesis
    using uploaded_row_published [where ?gbk2utf8.0 = "\<lambda>t. t" and q = "[]" and now = 9 and ons = "\<lambda>_. True" and ?h0.0 = "typed_header demo_junk 0 []",
        OF w(1,2) demo_upload_text s(1-4) a(1) s(6)] w(3) a(2) s(5) by auto
qed

end
