(* ===== verification/Tablefile.thy ===== *)
theory Tablefile
  imports Xmlfile Increment
begin

text \<open>
  The file of the exported tables (\<open>config/tableinfo.xml\<close>): \<open>InitConfig\<close> and \<open>WriteTimeUpdateXML\<close> of
  \<open>increment_export.cpp\<close> are stated in \<open>Increment.thy\<close> on the tables of the document; here they are on the bytes of
  the file, through the library of \<open>Tinyxml.thy\<close>, and the two agree.
\<close>

section \<open>The file\<close>

text \<open>The attributes of an element that the client asks for.\<close>

definition table_row :: "xml_node \<Rightarrow> buffer option \<times> buffer option" where
  "table_row x = (Attribute (lit ''name'') x, Attribute (lit ''hm_update_timestamp'') x)"

definition tables_of :: "document \<Rightarrow> table_xml option" where
  "tables_of d = (if d_error d then None
     else map_option (\<lambda>root. \<lparr>xml_period = Attribute (lit ''period_time'') root, xml_tables = map table_row (child_elements root)\<rparr>)
            (RootElement d))"

definition file_tables :: "buffer option \<Rightarrow> table_xml option" where
  "file_tables f = (case LoadFile f of None \<Rightarrow> None | Some d \<Rightarrow> tables_of d)"

text \<open>The loop over the children; a missing name makes a string of a null pointer.\<close>

definition touch :: "buffer \<Rightarrow> buffer \<Rightarrow> xml_node \<Rightarrow> xml_node option" where
  "touch tableName keyValues x =
     (if is_element x then
        (case Attribute (lit ''name'') x of None \<Rightarrow> None
         | Some name \<Rightarrow> Some (if name = tableName then SetAttribute (lit ''hm_update_timestamp'') keyValues x else x))
      else Some x)"

fun touch_root :: "buffer \<Rightarrow> buffer \<Rightarrow> xml_node list \<Rightarrow> xml_node list option" where
  "touch_root tableName keyValues [] = Some []"
| "touch_root tableName keyValues (Element n attrs nodes # xs) =
     map_option (\<lambda>nodes'. Element n attrs nodes' # xs) (those (map (touch tableName keyValues) nodes))"
| "touch_root tableName keyValues (x # xs) = map_option (\<lambda>xs'. x # xs') (touch_root tableName keyValues xs)"

text \<open>The result of \<open>SaveFile\<close> is not used: a file that cannot be opened for writing stays as it is.\<close>

definition WriteTimeUpdateXML_file ::
  "bool \<Rightarrow> bool \<Rightarrow> buffer \<Rightarrow> buffer \<Rightarrow> buffer option \<Rightarrow> (bool \<times> buffer option) option" where
  "WriteTimeUpdateXML_file can_write win32 tableName keyValues f = do {
     doc \<leftarrow> LoadFile f;
     if d_error doc \<or> RootElement doc = None then Some (False, f)
     else do {
       nodes \<leftarrow> touch_root tableName keyValues (d_nodes doc);
       Some (True, if can_write then Some (SaveFile win32 (doc\<lparr>d_nodes := nodes\<rparr>)) else f) } }"

section \<open>What the loop changes\<close>

lemma attr_find_set: "attr_find n (attr_set m v attrs) = (if n = m then Some v else attr_find n attrs)"
  by (induction m v attrs rule: attr_set.induct) (auto simp: attr_find_def)

lemma attr_set_names: "set (map fst (attr_set m v attrs)) = insert m (set (map fst attrs))"
  by (induction m v attrs rule: attr_set.induct) auto

lemma attrs_ok_set: "attrs_ok e attrs \<Longrightarrow> xml_name m \<Longrightarrow> text_ok e v \<Longrightarrow> attrs_ok e (attr_set m v attrs)"
proof (induction m v attrs rule: attr_set.induct)
  case (2 m v n w attrs)
  then show ?case using attr_set_names [of m v attrs] by (auto simp: attrs_ok_def)
qed (simp add: attrs_ok_def)

definition stamp_row :: "buffer \<Rightarrow> buffer \<Rightarrow> buffer option \<times> buffer option \<Rightarrow> buffer option \<times> buffer option" where
  "stamp_row t v = (\<lambda>(name, stamp). (name, if name = Some t then Some v else stamp))"

lemma touch_row:
  assumes "is_element x" "touch t v x = Some y" "0 \<notin> set v"
  shows "is_element y" "table_row y = stamp_row t v (table_row x)"
proof -
  obtain n attrs nodes where x: "x = Element n attrs nodes" using assms(1) by (cases x) auto
  then show "is_element y" "table_row y = stamp_row t v (table_row x)" using assms(2,3)
    by (auto simp: touch_def table_row_def stamp_row_def attr_find_set lit_def bytes_of_def split: option.splits if_splits)
qed

lemma touch_rows:
  assumes "those (map (touch t v) nodes) = Some nodes'" "0 \<notin> set v"
  shows "map table_row (filter is_element nodes') = map (stamp_row t v) (map table_row (filter is_element nodes))"
  using assms(1)
proof (induction nodes arbitrary: nodes')
  case (Cons x nodes)
  then obtain y ys where y: "touch t v x = Some y" "those (map (touch t v) nodes) = Some ys" "nodes' = y # ys"
    by (auto split: option.splits)
  show ?case
  proof (cases "is_element x")
    case True
    then show ?thesis using touch_row [OF True y(1) assms(2)] y Cons.IH by simp
  next
    case False
    then have "y = x" using y(1) by (simp add: touch_def)
    then show ?thesis using False y Cons.IH by simp
  qed
qed simp

lemma touch_fails:
  "those (map (touch t v) nodes) = None \<longleftrightarrow> list_ex (\<lambda>(name, stamp). name = None) (map table_row (filter is_element nodes))"
  by (induction nodes) (auto simp: touch_def table_row_def split: option.splits)

lemma touch_elem_ok:
  assumes "elem_ok e x" "touch t v x = Some y" "part_ok v"
  shows "elem_ok e y"
proof -
  obtain n attrs nodes where x: "x = Element n attrs nodes" "xml_name n" "attrs_ok e attrs" "list_all (elem_ok e) nodes"
    using assms(1) by (cases x) auto
  have "xml_name (lit ''hm_update_timestamp'')"
    by (simp add: xml_name_def lit_def bytes_of_def name_start_def name_char_def IsAlpha_def IsAlphaNum_def)
  then show ?thesis
    using x assms(2) attrs_ok_set part_text(2,3) [OF assms(3)] by (auto simp: touch_def split: option.splits if_splits)
qed

lemma touch_elems_ok:
  "those (map (touch t v) nodes) = Some nodes' \<Longrightarrow> list_all (elem_ok e) nodes \<Longrightarrow> part_ok v \<Longrightarrow> list_all (elem_ok e) nodes'"
  by (induction nodes arbitrary: nodes') (auto split: option.splits intro: touch_elem_ok)

lemma touch_root_elems:
  "touch_root t v xs = Some xs' \<Longrightarrow> list_all (elem_ok e) xs \<Longrightarrow> part_ok v \<Longrightarrow> list_all (elem_ok e) xs'"
  by (induction t v xs arbitrary: xs' rule: touch_root.induct) (auto intro: touch_elems_ok)

lemma touch_root_nodes:
  assumes "touch_root t v xs = Some xs'" "nodes_ok e xs" "part_ok v"
  shows "nodes_ok e xs'"
  using assms(2)
proof (cases rule: nodes_ok_cases)
  case (Declared ver enc std ns)
  then show ?thesis using assms touch_root_elems by auto
next
  case (Elements x ns)
  then have "list_all (elem_ok e) xs'" using touch_root_elems [OF assms(1)] assms(3) by simp
  moreover obtain n attrs nodes where "x = Element n attrs nodes" using Elements(2) by (cases x) auto
  then have "\<exists>nodes' ns'. xs' = Element n attrs nodes' # ns'" using assms(1) Elements(1) by auto
  ultimately show ?thesis by auto
qed

lemma touch_root_find:
  assumes "0 \<notin> set v"
  shows "touch_root t v xs = Some xs' \<Longrightarrow> find is_element xs = Some root \<Longrightarrow> \<exists>root'. find is_element xs' = Some root' \<and>
     (\<forall>a. Attribute a root' = Attribute a root) \<and> map table_row (child_elements root') = map (stamp_row t v) (map table_row (child_elements root))"
  using touch_rows [OF _ assms] by (induction t v xs arbitrary: xs' rule: touch_root.induct) auto

lemma touch_root_fails:
  "find is_element xs = Some root \<Longrightarrow> touch_root t v xs = None \<longleftrightarrow>
     list_ex (\<lambda>(name, stamp). name = None) (map table_row (child_elements root))"
  using touch_fails by (induction t v xs rule: touch_root.induct) auto

section \<open>Where the tables are kept\<close>

text \<open>A store of the tables: what it holds can be read, and writing a time changes what is read as it changes the
  document.\<close>

definition write_each :: "(buffer \<Rightarrow> buffer \<Rightarrow> 'f \<Rightarrow> (bool \<times> 'f) option) \<Rightarrow> buffer list \<Rightarrow> buffer \<Rightarrow> 'f \<Rightarrow> 'f option" where
  "write_each put names t f = fold (\<lambda>n d. do { f \<leftarrow> d; (_, f') \<leftarrow> put n t f; Some f' }) names (Some f)"

lemma fold_bind_None: "fold (\<lambda>n d. Option.bind d (g n)) names None = None"
  by (induction names) auto

locale table_store =
  fixes tables :: "'f \<Rightarrow> table_xml option"
    and valid :: "'f \<Rightarrow> bool"
    and put :: "buffer \<Rightarrow> buffer \<Rightarrow> 'f \<Rightarrow> (bool \<times> 'f) option"
    and stamp_ok :: "buffer \<Rightarrow> bool"
  assumes write_tables: "valid f \<Longrightarrow> stamp_ok t \<Longrightarrow> map_option (\<lambda>(ok, f'). (ok, tables f')) (put n t f) = WriteTimeUpdateXML n t (tables f)"
    and write_valid: "valid f \<Longrightarrow> stamp_ok t \<Longrightarrow> put n t f = Some (ok, f') \<Longrightarrow> valid f'"
begin

lemma write_each_tables:
  assumes "valid f" "stamp_ok t"
  shows "map_option tables (write_each put names t f) = write_all names t (tables f)"
  using assms(1)
proof (induction names arbitrary: f)
  case Nil
  then show ?case by (simp add: write_each_def write_all_def)
next
  case (Cons n names)
  show ?case
  proof (cases "put n t f")
    case None
    then have "WriteTimeUpdateXML n t (tables f) = None" using write_tables [OF Cons.prems assms(2), of n] by simp
    then show ?thesis using None by (simp add: write_each_def write_all_def fold_bind_None)
  next
    case (Some r)
    obtain ok f' where r: "r = (ok, f')" by (cases r)
    then have "WriteTimeUpdateXML n t (tables f) = Some (ok, tables f')" using write_tables [OF Cons.prems assms(2), of n] Some by simp
    moreover have "valid f'" using write_valid [OF Cons.prems assms(2)] Some r by blast
    ultimately show ?thesis using Cons.IH Some r by (simp add: write_each_def write_all_def)
  qed
qed

lemma write_each_valid:
  assumes "valid f" "stamp_ok t" "write_each put names t f = Some f'"
  shows "valid f'"
  using assms(1,3)
proof (induction names arbitrary: f)
  case (Cons n names)
  then obtain ok f1 where f1: "put n t f = Some (ok, f1)" "write_each put names t f1 = Some f'"
    by (cases "put n t f") (auto simp: write_each_def fold_bind_None)
  then show ?case using Cons.IH write_valid [OF Cons.prems(1) assms(2)] by blast
qed (simp add: write_each_def)

end

text \<open>The document itself, and the file with the document as its content.\<close>

interpretation doc_store: table_store "\<lambda>doc. doc" "\<lambda>_. True" WriteTimeUpdateXML "\<lambda>_. True"
  by unfold_locales (simp_all add: case_prod_Pair_iden option.map_id)

definition file_ok :: "buffer option \<Rightarrow> bool" where
  "file_ok f \<longleftrightarrow> (case LoadFile f of None \<Rightarrow> False | Some d \<Rightarrow> d_error d \<or> doc_ok d)"

lemma tables_of_touched:
  assumes "\<not> d_error d" "RootElement d = Some root" "touch_root t v (d_nodes d) = Some nodes" "0 \<notin> set v"
  shows "tables_of (d\<lparr>d_nodes := nodes\<rparr>) = map_option (\<lambda>x. x\<lparr>xml_tables := map (stamp_row t v) (xml_tables x)\<rparr>) (tables_of d)"
proof -
  obtain root' where "find is_element nodes = Some root'" "\<And>a. Attribute a root' = Attribute a root"
    "map table_row (child_elements root') = map (stamp_row t v) (map table_row (child_elements root))"
    using touch_root_find [OF assms(4,3)] assms(2) by (auto simp: RootElement_def)
  then show ?thesis using assms(1,2) by (simp add: tables_of_def RootElement_def)
qed

lemma file_write:
  assumes "file_ok f" "part_ok v"
  shows "map_option (\<lambda>(ok, f'). (ok, file_tables f')) (WriteTimeUpdateXML_file True win t v f) = WriteTimeUpdateXML t v (file_tables f)"
    and "WriteTimeUpdateXML_file True win t v f = Some (ok, f') \<Longrightarrow> file_ok f'"
proof -
  obtain d where d: "LoadFile f = Some d" "d_error d \<or> doc_ok d" using assms(1) by (auto simp: file_ok_def split: option.splits)
  have ft: "file_tables f = tables_of d" using d(1) by (simp add: file_tables_def)
  have "map_option (\<lambda>(ok, f'). (ok, file_tables f')) (WriteTimeUpdateXML_file True win t v f) = WriteTimeUpdateXML t v (file_tables f)
      \<and> (\<forall>ok f'. WriteTimeUpdateXML_file True win t v f = Some (ok, f') \<longrightarrow> file_ok f')"
  proof (cases "d_error d \<or> RootElement d = None")
    case True
    then have "file_tables f = None" using ft by (auto simp: tables_of_def)
    then show ?thesis using d(1) True assms(1) by (simp add: WriteTimeUpdateXML_file_def WriteTimeUpdateXML_def)
  next
    case False
    then have ok: "doc_ok d" "\<not> d_error d" using d(2) by auto
    obtain root where root: "RootElement d = Some root" using False by auto
    have z: "0 \<notin> set v" using part_text(4) [OF assms(2)] by (simp add: printable_def)
    show ?thesis
    proof (cases "touch_root t v (d_nodes d)")
      case None
      then have "list_ex (\<lambda>(name, stamp). name = None) (map table_row (child_elements root))"
        using touch_root_fails root unfolding RootElement_def by blast
      then show ?thesis using d(1) None False ft root by (simp add: WriteTimeUpdateXML_file_def WriteTimeUpdateXML_def tables_of_def)
    next
      case (Some nodes)
      let ?d = "d\<lparr>d_nodes := nodes\<rparr>"
      have "doc_ok ?d" using ok touch_root_nodes [OF Some _ assms(2)] by (simp add: doc_ok_def start_encoding_def)
      then have ld: "LoadFile (Some (SaveFile win ?d)) = Some ?d" by (rule save_load)
      have "\<not> list_ex (\<lambda>(name, stamp). name = None) (map table_row (child_elements root))"
        using touch_root_fails [of "d_nodes d" root t v] root Some by (simp add: RootElement_def)
      then have "WriteTimeUpdateXML t v (tables_of d) = Some (True, tables_of ?d)"
        unfolding tables_of_touched [OF ok(2) root Some z]
        using ok(2) root by (simp add: WriteTimeUpdateXML_def tables_of_def stamp_row_def)
      then show ?thesis
        using d(1) Some ok(2) root ft ld \<open>doc_ok ?d\<close> by (auto simp: WriteTimeUpdateXML_file_def file_tables_def file_ok_def)
    qed
  qed
  then show "map_option (\<lambda>(ok, f'). (ok, file_tables f')) (WriteTimeUpdateXML_file True win t v f) = WriteTimeUpdateXML t v (file_tables f)"
    and "WriteTimeUpdateXML_file True win t v f = Some (ok, f') \<Longrightarrow> file_ok f'" by blast+
qed

interpretation file_store: table_store file_tables file_ok "WriteTimeUpdateXML_file True win" part_ok for win
  by unfold_locales (rule file_write; assumption)+

text \<open>The times the client writes are such values.\<close>

lemma digits_part: "all_digits s \<Longrightarrow> part_ok (bytes_of s)"
  using digit_bytes [of s] by (fastforce simp: part_ok_def list_all_iff word_le_nat_alt word_less_nat_alt)

lemma tm_xml_part: "part_ok (tm_xml p)"
  using digits_part [OF fmt_u_digits] by (simp add: tm_xml_def part_ok_def)

lemma written_time_part: "tm_ok p \<Longrightarrow> \<exists>v. GetWriteXmlTime (tm_text p) = Some v \<and> part_ok v"
  using xml_of_text tm_xml_part by blast

text \<open>A file that cannot be written is reported as written.\<close>

lemma unwritable_file_reported:
  "file_ok f \<Longrightarrow> part_ok v \<Longrightarrow> WriteTimeUpdateXML_file True win t v f = Some (ok, f') \<Longrightarrow>
     WriteTimeUpdateXML_file False win t v f = Some (ok, f)"
  by (auto simp: WriteTimeUpdateXML_file_def split: Option.bind_splits if_splits)

section \<open>Properties of the file\<close>

text \<open>A file in the form of the one that comes with the client.\<close>

definition demo_table :: "string \<Rightarrow> string \<Rightarrow> xml_node" where
  "demo_table name stamp = Element (lit ''table'') [(lit ''name'', lit name), (lit ''hm_update_timestamp'', lit stamp)] []"

definition demo_tables :: "xml_node list" where
  "demo_tables = [demo_table ''WM_SO_HEADER'' ''2016-3-31 0:31:30'', demo_table ''WM_SO_DETAIL'' ''2016-5-3 4:1:30'']"

definition demo_header :: xml_node where
  "demo_header = Declaration (lit ''1.0'') (lit ''utf-8'') []"

definition demo_document :: document where
  "demo_document = \<lparr>d_nodes = [demo_header, Element (lit ''binlogCare'') [(lit ''period_time'', lit ''30'')] demo_tables],
     d_bom = True, d_error = False\<rparr>"

lemma demo_document_ok: "doc_ok demo_document"
  by code_simp

text \<open>C35: the times of the exported tables are kept in the file. Whatever tables are written, one after the other, to a file whose
  document can be written back, what is then read from the file is what the export computes on the document, on
  both platforms; and the file can be written to again.\<close>

theorem export_times_in_file:
  assumes "file_ok f" "part_ok t"
  shows "map_option file_tables (write_each (WriteTimeUpdateXML_file True win) names t f) = write_all names t (file_tables f) \<and>
     pred_option file_ok (write_each (WriteTimeUpdateXML_file True win) names t f)"
  using file_store.write_each_tables [OF assms] file_store.write_each_valid [OF assms] by (auto simp: pred_option_def)

theorem export_times_in_file_witness:
  "map_option file_tables (write_each (WriteTimeUpdateXML_file True True) [lit ''WM_SO_DETAIL''] (lit ''2016-05-04 18:39:57'')
       (Some (SaveFile True demo_document)))
     = Some (Some \<lparr>xml_period = Some (lit ''30''), xml_tables = [(Some (lit ''WM_SO_HEADER''), Some (lit ''2016-3-31 0:31:30'')),
         (Some (lit ''WM_SO_DETAIL''), Some (lit ''2016-05-04 18:39:57''))]\<rparr>)"
proof -
  have f: "file_ok (Some (SaveFile True demo_document))" "file_tables (Some (SaveFile True demo_document)) = tables_of demo_document"
    using save_load [OF demo_document_ok, of True] demo_document_ok by (simp_all add: file_ok_def file_tables_def)
  have p: "part_ok (lit ''2016-05-04 18:39:57'')" by code_simp
  have w: "write_all [lit ''WM_SO_DETAIL''] (lit ''2016-05-04 18:39:57'') (tables_of demo_document)
     = Some (Some \<lparr>xml_period = Some (lit ''30''), xml_tables = [(Some (lit ''WM_SO_HEADER''), Some (lit ''2016-3-31 0:31:30'')),
         (Some (lit ''WM_SO_DETAIL''), Some (lit ''2016-05-04 18:39:57''))]\<rparr>)" by code_simp
  from export_times_in_file [OF f(1) p, of True "[lit ''WM_SO_DETAIL'']"] show ?thesis by (simp only: f(2) w)
qed

lemma cut_document_ok:
  assumes "doc_ok d" "d_nodes d = pre @ [Element name attrs (ys @ zs)]" "list_all (\<lambda>x. \<not> is_element x) pre"
  shows "doc_ok (d\<lparr>d_nodes := pre @ [Element name attrs ys]\<rparr>)" "list_all is_element ys"
proof -
  let ?x = "Element name attrs (ys @ zs)"
  have ok: "nodes_ok (start_encoding d) (pre @ [?x])" "\<not> d_error d" using assms(1,2) by (auto simp: doc_ok_def)
  have el: "is_element y" if "elem_ok e y" for e y using that by (cases y) auto
  from ok(1) have "nodes_ok (start_encoding d) (pre @ [Element name attrs ys]) \<and> list_all is_element ys"
  proof (cases rule: nodes_ok_cases)
    case (Elements x ns)
    then have "pre = []" using assms(3) el by (cases pre) auto
    then have "elem_ok (start_encoding d) ?x" using Elements by simp
    then show ?thesis using \<open>pre = []\<close> list.pred_mono_strong [OF _ el] by auto
  next
    case (Declared ver enc std ns)
    then obtain ns' where pre: "pre = Declaration ver enc std # ns'" "ns = ns' @ [?x]" by (cases pre) auto
    then have "ns' = []" using assms(3) Declared(5) el by (cases ns') auto
    then show ?thesis using Declared pre list.pred_mono_strong [OF _ el] by auto
  qed
  then show "doc_ok (d\<lparr>d_nodes := pre @ [Element name attrs ys]\<rparr>)" "list_all is_element ys"
    using ok(2) by (auto simp: doc_ok_def start_encoding_def)
qed

lemma find_root: "list_all (\<lambda>x. \<not> is_element x) pre \<Longrightarrow> find is_element (pre @ [Element n attrs nodes]) = Some (Element n attrs nodes)"
  by (induction pre) auto

text \<open>C36: a file that is cut off loses tables without a trace. Whatever tables a saved file has, it can be cut off in
  front of any of them so that the next export reads it without an error as the file of the tables in front of the cut, and
  writes it back, successfully, with only those.\<close>

theorem cut_file_loses_tables:
  assumes "doc_ok d" "d_nodes d = pre @ [Element name attrs (ys @ zs)]" "list_all (\<lambda>x. \<not> is_element x) pre" "zs \<noteq> []"
    and "part_ok v" "list_all (\<lambda>x. Attribute (lit ''name'') x \<noteq> None) ys"
  shows "\<exists>k < length (SaveFile win d). \<exists>f. WriteTimeUpdateXML_file True win t v (Some (take k (SaveFile win d))) = Some (True, Some f) \<and>
     map_option xml_tables (file_tables (Some f)) = Some (map (\<lambda>x. stamp_row t v (table_row x)) ys)"
proof -
  let ?d = "d\<lparr>d_nodes := pre @ [Element name attrs ys]\<rparr>"
  have ok: "doc_ok ?d" "list_all is_element ys" using cut_document_ok [OF assms(1-3)] by auto
  obtain k where k: "k < length (SaveFile win d)" "LoadFile (Some (take k (SaveFile win d))) = Some ?d"
    using cut_file [OF assms(1-4)] by blast
  let ?f = "Some (take k (SaveFile win d))"
  have "file_ok ?f" "file_tables ?f = tables_of ?d" using k(2) ok(1) by (simp_all add: file_ok_def file_tables_def)
  moreover have "filter is_element ys = ys" using ok(2) by (simp add: filter_id_conv list_all_iff)
  moreover have "\<not> d_error d" using assms(1) by (simp add: doc_ok_def)
  ultimately have "\<exists>x. map_option (\<lambda>(ok, f'). (ok, file_tables f')) (WriteTimeUpdateXML_file True win t v ?f) = Some (True, Some x)
      \<and> xml_tables x = map (\<lambda>x. stamp_row t v (table_row x)) ys"
    using file_write(1) [of ?f v win t] assms(3,5,6) find_root [OF assms(3)]
    by (auto simp: WriteTimeUpdateXML_def tables_of_def RootElement_def table_row_def stamp_row_def list_ex_iff list_all_iff)
  then obtain f' x where f': "WriteTimeUpdateXML_file True win t v ?f = Some (True, f')" "file_tables f' = Some x"
      "xml_tables x = map (\<lambda>x. stamp_row t v (table_row x)) ys" by auto
  moreover obtain f where "f' = Some f" using f'(2) by (cases f') (auto simp: file_tables_def LoadFile_def failed_document_def tables_of_def)
  ultimately show ?thesis using k(1) by auto
qed

theorem cut_file_loses_tables_witness:
  "\<exists>k < length (SaveFile True demo_document). \<exists>f. WriteTimeUpdateXML_file True True (lit ''WM_SO_HEADER'') (lit ''2016-05-04 18:39:57'')
       (Some (take k (SaveFile True demo_document))) = Some (True, Some f) \<and>
     map_option xml_tables (file_tables (Some f)) = Some [(Some (lit ''WM_SO_HEADER''), Some (lit ''2016-05-04 18:39:57''))]"
proof -
  have p: "part_ok (lit ''2016-05-04 18:39:57'')" by code_simp
  have r: "map (\<lambda>x. stamp_row (lit ''WM_SO_HEADER'') (lit ''2016-05-04 18:39:57'') (table_row x)) (take 1 demo_tables)
      = [(Some (lit ''WM_SO_HEADER''), Some (lit ''2016-05-04 18:39:57''))]" by code_simp
  have n: "list_all (\<lambda>x. Attribute (lit ''name'') x \<noteq> None) (take 1 demo_tables)" by code_simp
  have d: "d_nodes demo_document = [demo_header] @ [Element (lit ''binlogCare'') [(lit ''period_time'', lit ''30'')]
      (take 1 demo_tables @ drop 1 demo_tables)]" by (simp add: demo_document_def)
  have h: "list_all (\<lambda>x. \<not> is_element x) [demo_header]" "drop 1 demo_tables \<noteq> []" by (simp_all add: demo_header_def demo_tables_def)
  from cut_file_loses_tables [OF demo_document_ok d h p n, of True "lit ''WM_SO_HEADER''"] show ?thesis by (simp only: r)
qed

end
