(* ===== verification/Md5.thy ===== *)
theory Md5
  imports Byteorder
begin

text \<open>
  The message digest of \<open>public/Md5.cpp\<close>. Its type \<open>uint32\<close> is \<open>unsigned long int\<close>, 32 bits wide on the platform of the
  client and 64 on that of the server, so the width of the words is a type variable here and the results hold for
  every width of at least 32 bits. The reference is the algorithm of RFC 1321 on words of 32 bits.

  The 64 invocations of the macro \<open>P\<close> are the tables \<open>round1\<close> to \<open>round4\<close> of their last three arguments; the first
  four go through the registers in the order A D C B.
\<close>

unbundle bit_operations_syntax

record 'u md5_context =
  md_total :: "'u \<times> 'u"
  md_state :: "'u \<times> 'u \<times> 'u \<times> 'u"
  md_buffer :: buffer

definition GET_UINT32 :: "buffer \<Rightarrow> nat \<Rightarrow> 'w::len word" where
  "GET_UINT32 b i = ((ucast (b ! i) OR push_bit 8 (ucast (b ! (i + 1)))) OR push_bit 16 (ucast (b ! (i + 2))))
     OR push_bit 24 (ucast (b ! (i + 3)))"

definition PUT_UINT32 :: "'w::len word \<Rightarrow> buffer" where
  "PUT_UINT32 n = [ucast (n AND 0xFF), ucast (drop_bit 8 n AND 0xFF), ucast (drop_bit 16 n AND 0xFF), ucast (drop_bit 24 n AND 0xFF)]"

definition md5_starts :: "buffer \<Rightarrow> 'w::len word md5_context" where
  "md5_starts junk = \<lparr>md_total = (0, 0), md_state = (0x67452301, 0xEFCDAB89, 0x98BADCFE, 0x10325476), md_buffer = junk\<rparr>"

definition S :: "'w::len word \<Rightarrow> nat \<Rightarrow> 'w word" where
  "S x n = push_bit n x OR drop_bit (32 - n) (x AND 0xFFFFFFFF)"

definition P :: "('w::len word \<Rightarrow> 'w word \<Rightarrow> 'w word \<Rightarrow> 'w word) \<Rightarrow> 'w word list \<Rightarrow> 'w word \<Rightarrow> 'w word \<Rightarrow> 'w word \<Rightarrow> 'w word \<Rightarrow>
    nat \<times> nat \<times> int \<Rightarrow> 'w word" where
  "P F X a b c d = (\<lambda>(k, s, t). S (a + (F b c d + X ! k + word_of_int t)) s + b)"

definition F1 :: "'w::len word \<Rightarrow> 'w word \<Rightarrow> 'w word \<Rightarrow> 'w word" where "F1 x y z = z XOR (x AND (y XOR z))"
definition F2 :: "'w::len word \<Rightarrow> 'w word \<Rightarrow> 'w word \<Rightarrow> 'w word" where "F2 x y z = y XOR (z AND (x XOR y))"
definition F3 :: "'w::len word \<Rightarrow> 'w word \<Rightarrow> 'w word \<Rightarrow> 'w word" where "F3 x y z = x XOR y XOR z"
definition F4 :: "'w::len word \<Rightarrow> 'w word \<Rightarrow> 'w word \<Rightarrow> 'w word" where "F4 x y z = y XOR (x OR NOT z)"

definition round1 :: "(nat \<times> nat \<times> int) list" where
  "round1 = [
     (0, 7, 0xD76AA478), (1, 12, 0xE8C7B756), (2, 17, 0x242070DB), (3, 22, 0xC1BDCEEE),
     (4, 7, 0xF57C0FAF), (5, 12, 0x4787C62A), (6, 17, 0xA8304613), (7, 22, 0xFD469501),
     (8, 7, 0x698098D8), (9, 12, 0x8B44F7AF), (10, 17, 0xFFFF5BB1), (11, 22, 0x895CD7BE),
     (12, 7, 0x6B901122), (13, 12, 0xFD987193), (14, 17, 0xA679438E), (15, 22, 0x49B40821)]"

definition round2 :: "(nat \<times> nat \<times> int) list" where
  "round2 = [
     (1, 5, 0xF61E2562), (6, 9, 0xC040B340), (11, 14, 0x265E5A51), (0, 20, 0xE9B6C7AA),
     (5, 5, 0xD62F105D), (10, 9, 0x02441453), (15, 14, 0xD8A1E681), (4, 20, 0xE7D3FBC8),
     (9, 5, 0x21E1CDE6), (14, 9, 0xC33707D6), (3, 14, 0xF4D50D87), (8, 20, 0x455A14ED),
     (13, 5, 0xA9E3E905), (2, 9, 0xFCEFA3F8), (7, 14, 0x676F02D9), (12, 20, 0x8D2A4C8A)]"

definition round3 :: "(nat \<times> nat \<times> int) list" where
  "round3 = [
     (5, 4, 0xFFFA3942), (8, 11, 0x8771F681), (11, 16, 0x6D9D6122), (14, 23, 0xFDE5380C),
     (1, 4, 0xA4BEEA44), (4, 11, 0x4BDECFA9), (7, 16, 0xF6BB4B60), (10, 23, 0xBEBFBC70),
     (13, 4, 0x289B7EC6), (0, 11, 0xEAA127FA), (3, 16, 0xD4EF3085), (6, 23, 0x04881D05),
     (9, 4, 0xD9D4D039), (12, 11, 0xE6DB99E5), (15, 16, 0x1FA27CF8), (2, 23, 0xC4AC5665)]"

definition round4 :: "(nat \<times> nat \<times> int) list" where
  "round4 = [
     (0, 6, 0xF4292244), (7, 10, 0x432AFF97), (14, 15, 0xAB9423A7), (5, 21, 0xFC93A039),
     (12, 6, 0x655B59C3), (3, 10, 0x8F0CCC92), (10, 15, 0xFFEFF47D), (1, 21, 0x85845DD1),
     (8, 6, 0x6FA87E4F), (15, 10, 0xFE2CE6E0), (6, 15, 0xA3014314), (13, 21, 0x4E0811A1),
     (4, 6, 0xF7537E82), (11, 10, 0xBD3AF235), (2, 15, 0x2AD7D2BB), (9, 21, 0xEB86D391)]"

fun run_P :: "('w::len word \<Rightarrow> 'w word \<Rightarrow> 'w word \<Rightarrow> 'w word) \<Rightarrow> 'w word list \<Rightarrow> (nat \<times> nat \<times> int) list \<Rightarrow>
    'w word \<times> 'w word \<times> 'w word \<times> 'w word \<Rightarrow> 'w word \<times> 'w word \<times> 'w word \<times> 'w word" where
  "run_P F X (p # q # r # s # ps) (A, B, C, D) =
     (let A = P F X A B C D p; D = P F X D A B C q; C = P F X C D A B r; B = P F X B C D A s in run_P F X ps (A, B, C, D))"
| "run_P F X ps st = st"

definition md5_process :: "'w::len word md5_context \<Rightarrow> buffer \<Rightarrow> 'w word md5_context" where
  "md5_process ctx data =
     (let X = map (\<lambda>j. GET_UINT32 data (4 * j)) [0..<16];
          (s0, s1, s2, s3) = md_state ctx;
          st1 = run_P F1 X round1 (s0, s1, s2, s3); st2 = run_P F2 X round2 st1;
          st3 = run_P F3 X round3 st2; (A, B, C, D) = run_P F4 X round4 st3 in
      ctx\<lparr>md_state := (s0 + A, s1 + B, s2 + C, s3 + D)\<rparr>)"

text \<open>The counter of the bits of the message, two words of which the low 32 bits are used.\<close>

definition add_total :: "'w::len word \<Rightarrow> 'w word \<times> 'w word \<Rightarrow> 'w word \<times> 'w word" where
  "add_total len tot =
     (let t0 = (fst tot + push_bit 3 len) AND 0xFFFFFFFF in
      (t0, snd tot + drop_bit 29 len + (if t0 < push_bit 3 len then 1 else 0)))"

definition put_buffer :: "nat \<Rightarrow> buffer \<Rightarrow> buffer \<Rightarrow> buffer" where
  "put_buffer left inp buf = take left buf @ inp @ drop (left + length inp) buf"

fun process_blocks :: "'w::len word md5_context \<Rightarrow> buffer \<Rightarrow> 'w word md5_context \<times> buffer" where
  "process_blocks ctx input =
     (if 64 \<le> length input then process_blocks (md5_process ctx (take 64 input)) (drop 64 input) else (ctx, input))"

declare process_blocks.simps [simp del]

text \<open>The input is the list of the \<open>length\<close> bytes at \<open>input\<close>.\<close>

definition md5_update :: "'w::len word md5_context \<Rightarrow> buffer \<Rightarrow> 'w word md5_context" where
  "md5_update ctx input =
     (if input = [] then ctx
      else (let left = unat (drop_bit 3 (fst (md_total ctx)) AND 0x3F); fill = 64 - left;
                ctx1 = ctx\<lparr>md_total := add_total (of_nat (length input)) (md_total ctx)\<rparr>;
                (ctx2, rest, left2) =
                  (if left \<noteq> 0 \<and> fill \<le> length input
                   then (let ctx' = ctx1\<lparr>md_buffer := put_buffer left (take fill input) (md_buffer ctx1)\<rparr> in
                         (md5_process ctx' (md_buffer ctx'), drop fill input, 0))
                   else (ctx1, input, left));
                (ctx3, rest3) = process_blocks ctx2 rest in
            if rest3 \<noteq> [] then ctx3\<lparr>md_buffer := put_buffer left2 rest3 (md_buffer ctx3)\<rparr> else ctx3))"

definition md5_padding :: buffer where "md5_padding = 0x80 # replicate 63 0"

definition md5_finish :: "'w::len word md5_context \<Rightarrow> buffer" where
  "md5_finish ctx =
     (let msglen = PUT_UINT32 (fst (md_total ctx)) @ PUT_UINT32 (snd (md_total ctx));
          lastn = unat (drop_bit 3 (fst (md_total ctx)) AND 0x3F);
          padn = (if lastn < 56 then 56 - lastn else 120 - lastn);
          ctx1 = md5_update ctx (take padn md5_padding);
          ctx2 = md5_update ctx1 msglen;
          (s0, s1, s2, s3) = md_state ctx2 in
      PUT_UINT32 s0 @ PUT_UINT32 s1 @ PUT_UINT32 s2 @ PUT_UINT32 s3)"

definition GenerateMD5 :: "'w::len itself \<Rightarrow> buffer \<Rightarrow> buffer \<Rightarrow> buffer" where
  "GenerateMD5 w junk buf = md5_finish (md5_update (md5_starts junk :: 'w word md5_context) buf)"

section \<open>Text\<close>

definition hex_lower :: buffer where "hex_lower = bytes_of ''0123456789abcdef''"

definition ToString :: "buffer \<Rightarrow> buffer" where
  "ToString data = concat (map (\<lambda>b. [hex_lower ! unat (drop_bit 4 b), hex_lower ! unat (b AND 15)]) (take 16 data))"

section \<open>Words of any width\<close>

text \<open>The low 32 bits of a word.\<close>

abbreviation low32 :: "'w::len word \<Rightarrow> 32 word" where "low32 \<equiv> ucast"

lemma bit_low32: "bit (low32 x) i \<longleftrightarrow> i < 32 \<and> bit x i" for x :: "'w::len word"
  by (auto simp: bit_unsigned_iff)

lemma low32_ops:
  "low32 (x AND y) = low32 x AND low32 y" "low32 (x OR y) = low32 x OR low32 y" "low32 (x XOR y) = low32 x XOR low32 y"
  for x y :: "'w::len word"
  by (rule bit_word_eqI; auto simp: bit_low32 bit_simps)+

lemma low32_not: "32 \<le> LENGTH('w) \<Longrightarrow> low32 (NOT x) = NOT (low32 x)" for x :: "'w::len word"
  by (rule bit_word_eqI) (auto simp: bit_low32 bit_not_iff)

lemma low32_add: "32 \<le> LENGTH('w) \<Longrightarrow> low32 (x + y) = low32 x + low32 y" for x y :: "'w::len word"
  by transfer (subst (2) take_bit_add [symmetric], simp add: min_def take_bit_add)

lemma low32_of_int: "32 \<le> LENGTH('w) \<Longrightarrow> low32 (word_of_int t :: 'w::len word) = word_of_int t"
  by transfer (simp add: min_def take_bit_take_bit)

definition rotl32 :: "nat \<Rightarrow> 32 word \<Rightarrow> 32 word" where
  "rotl32 n x = push_bit n x OR drop_bit (32 - n) x"

lemma bit_mask32: "bit (0xFFFFFFFF :: 'w::len word) i \<longleftrightarrow> i < 32 \<and> i < LENGTH('w)"
proof -
  have "(0xFFFFFFFF :: 'w word) = mask 32" by (simp add: mask_eq_exp_minus_1)
  then show ?thesis by (simp only: bit_mask_iff possible_bit_word) auto
qed

lemma low32_S:
  fixes x :: "'w::len word"
  assumes "32 \<le> LENGTH('w)" "n < 32"
  shows "low32 (S x n) = rotl32 n (low32 x)"
proof (rule bit_word_eqI)
  fix i assume "i < LENGTH(32)"
  then have i: "i < 32" by simp
  show "bit (low32 (S x n)) i = bit (rotl32 n (low32 x)) i"
    using assms i bit_imp_le_length [of x "32 - n + i"]
    unfolding S_def rotl32_def bit_low32 bit_or_iff bit_and_iff bit_push_bit_iff bit_drop_bit_eq comp_def bit_mask32 possible_bit_word
    by auto
qed

section \<open>The block function of RFC 1321\<close>

definition rfc_F :: "nat \<Rightarrow> 32 word \<Rightarrow> 32 word \<Rightarrow> 32 word \<Rightarrow> 32 word" where
  "rfc_F i x y z =
     (if i < 16 then (x AND y) OR (NOT x AND z)
      else if i < 32 then (x AND z) OR (y AND NOT z)
      else if i < 48 then x XOR y XOR z
      else y XOR (x OR NOT z))"

definition rfc_k :: "nat \<Rightarrow> nat" where
  "rfc_k i = (if i < 16 then i else if i < 32 then (5 * i + 1) mod 16 else if i < 48 then (3 * i + 5) mod 16 else (7 * i) mod 16)"

definition rfc_s :: "nat \<Rightarrow> nat" where
  "rfc_s i = [[7, 12, 17, 22], [5, 9, 14, 20], [4, 11, 16, 23], [6, 10, 15, 21]] ! (i div 16) ! (i mod 4)"

text \<open>The table of the 64 constants, one for each step.\<close>

definition rfc_T :: "nat \<Rightarrow> int" where
  "rfc_T i = snd (snd ((round1 @ round2 @ round3 @ round4) ! i))"

type_synonym digest_state = "32 word \<times> 32 word \<times> 32 word \<times> 32 word"

definition rfc_step :: "32 word list \<Rightarrow> nat \<Rightarrow> digest_state \<Rightarrow> digest_state" where
  "rfc_step X i = (\<lambda>(a, b, c, d).
     (d, b + rotl32 (rfc_s i) (a + rfc_F i b c d + X ! rfc_k i + word_of_int (rfc_T i)), b, c))"

definition rfc_words :: "buffer \<Rightarrow> 32 word list" where
  "rfc_words data = map (\<lambda>j. word_of_int (le_val (take 4 (drop (4 * j) data)))) [0..<16]"

definition rfc_block :: "buffer \<Rightarrow> digest_state \<Rightarrow> digest_state" where
  "rfc_block data st =
     (case st of (s0, s1, s2, s3) \<Rightarrow>
      case fold (rfc_step (rfc_words data)) [0..<64] st of (a, b, c, d) \<Rightarrow> (s0 + a, s1 + b, s2 + c, s3 + d))"

section \<open>The code computes it at every width\<close>

definition low4 :: "'w::len word \<times> 'w word \<times> 'w word \<times> 'w word \<Rightarrow> digest_state" where
  "low4 = (\<lambda>(a, b, c, d). (low32 a, low32 b, low32 c, low32 d))"

definition step_P :: "(32 word \<Rightarrow> 32 word \<Rightarrow> 32 word \<Rightarrow> 32 word) \<Rightarrow> 32 word list \<Rightarrow> nat \<times> nat \<times> int \<Rightarrow> digest_state \<Rightarrow> digest_state" where
  "step_P f X = (\<lambda>(k, s, t) (a, b, c, d). (d, b + rotl32 s (a + f b c d + X ! k + word_of_int t), b, c))"

lemma low32_P:
  fixes X :: "'w::len word list"
  assumes w: "32 \<le> LENGTH('w)" and F: "\<And>x y z. low32 (F x y z) = f (low32 x) (low32 y) (low32 z)" and p: "k < length X" "s < 32"
  shows "low32 (P F X a b c d (k, s, t)) =
    low32 b + rotl32 s (low32 a + f (low32 b) (low32 c) (low32 d) + map low32 X ! k + word_of_int t)"
  using p by (simp add: P_def low32_add [OF w] low32_S [OF w] low32_of_int [OF w] F ac_simps)

lemma run_P_fold:
  fixes X :: "'w::len word list"
  assumes w: "32 \<le> LENGTH('w)"
  shows "\<forall>x y z. low32 (F x y z) = f (low32 x) (low32 y) (low32 z) \<Longrightarrow> length ps mod 4 = 0 \<Longrightarrow>
    list_all (\<lambda>(k, s, t). k < length X \<and> s < 32) ps \<Longrightarrow>
    low4 (run_P F X ps st) = fold (step_P f (map low32 X)) ps (low4 st)"
proof (induction F X ps st rule: run_P.induct)
  case (1 F X p q r s ps A B C D)
  have P: "low32 (P F X a b c d e) = fst (snd (step_P f (map low32 X) e (low4 (a, b, c, d))))" if "e \<in> {p, q, r, s}" for a b c d e
    using that "1.prems" low32_P [OF w, of F f "fst e" X "fst (snd e)" a b c d "snd (snd e)"]
    by (auto simp: step_P_def low4_def split: prod.splits)
  define A1 where "A1 = P F X A B C D p"
  define D1 where "D1 = P F X D A1 B C q"
  define C1 where "C1 = P F X C D1 A1 B r"
  define B1 where "B1 = P F X B C1 D1 A1 s"
  have step: "step_P f (map low32 X) e (low4 (a, b, c, d)) = low4 (d, P F X a b c d e, b, c)" if "e \<in> {p, q, r, s}" for a b c d e
    using P [OF that] by (cases e) (simp add: step_P_def low4_def)
  have "run_P F X (p # q # r # s # ps) (A, B, C, D) = run_P F X ps (A1, B1, C1, D1)"
    by (simp add: A1_def B1_def C1_def D1_def Let_def)
  moreover have "low4 (run_P F X ps (A1, B1, C1, D1)) = fold (step_P f (map low32 X)) ps (low4 (A1, B1, C1, D1))"
    using "1.prems" by (intro "1.IH" [OF A1_def D1_def C1_def B1_def]) simp_all
  moreover have "fold (step_P f (map low32 X)) (p # q # r # s # ps) (low4 (A, B, C, D)) =
      fold (step_P f (map low32 X)) ps (low4 (A1, B1, C1, D1))"
    by (simp add: step flip: A1_def D1_def C1_def B1_def)
  ultimately show ?case by simp
qed auto

lemma rounds_rfc:
  "round1 = map (\<lambda>i. (rfc_k i, rfc_s i, rfc_T i)) [0..<16]" "round2 = map (\<lambda>i. (rfc_k i, rfc_s i, rfc_T i)) [16..<32]"
  "round3 = map (\<lambda>i. (rfc_k i, rfc_s i, rfc_T i)) [32..<48]" "round4 = map (\<lambda>i. (rfc_k i, rfc_s i, rfc_T i)) [48..<64]"
  by code_simp+

lemma rounds_ok:
  "list_all (\<lambda>(k, s, t). k < 16 \<and> s < 32) round1" "list_all (\<lambda>(k, s, t). k < 16 \<and> s < 32) round2"
  "list_all (\<lambda>(k, s, t). k < 16 \<and> s < 32) round3" "list_all (\<lambda>(k, s, t). k < 16 \<and> s < 32) round4"
  "length round1 = 16" "length round2 = 16" "length round3 = 16" "length round4 = 16"
  by (simp_all add: round1_def round2_def round3_def round4_def)

lemma F_rfc:
  fixes x y z :: "'w::len word"
  assumes "32 \<le> LENGTH('w)"
  shows "low32 (F1 x y z) = rfc_F 0 (low32 x) (low32 y) (low32 z)" "low32 (F2 x y z) = rfc_F 16 (low32 x) (low32 y) (low32 z)"
    "low32 (F3 x y z) = rfc_F 32 (low32 x) (low32 y) (low32 z)" "low32 (F4 x y z) = rfc_F 48 (low32 x) (low32 y) (low32 z)"
proof -
  show "low32 (F1 x y z) = rfc_F 0 (low32 x) (low32 y) (low32 z)"
    by (rule bit_word_eqI) (auto simp: F1_def rfc_F_def low32_ops bit_simps)
  show "low32 (F2 x y z) = rfc_F 16 (low32 x) (low32 y) (low32 z)"
    by (rule bit_word_eqI) (auto simp: F2_def rfc_F_def low32_ops bit_simps)
qed (simp_all add: F3_def F4_def rfc_F_def low32_ops low32_not [OF assms])

lemma fold_round:
  assumes "\<And>i. m \<le> i \<Longrightarrow> i < n \<Longrightarrow> rfc_F i = f"
  shows "fold (step_P f X) (map (\<lambda>i. (rfc_k i, rfc_s i, rfc_T i)) [m..<n]) st = fold (rfc_step X) [m..<n] st"
  unfolding fold_map
  by (rule fold_cong) (auto simp: fun_eq_iff step_P_def rfc_step_def assms)

lemma fold_append_upt: "m \<le> n \<Longrightarrow> n \<le> k \<Longrightarrow> fold g [m..<k] st = fold g [n..<k] (fold g [m..<n] st)"
  using upt_add_eq_append [of m n "k - n"] by simp

lemma or4_bytes:
  assumes "0 \<le> a" "a < 256" "0 \<le> b" "b < 256" "0 \<le> c" "c < 256"
  shows "or (or (or a (shl b 8)) (shl c 16)) (shl d 24) = a + 256 * (b + 256 * (c + 256 * d))"
proof -
  have 1: "or (shl b 8) a = b * 256 + a" using or_shl_add [of a 8 b] assms by (simp add: shl_mult)
  have 2: "or (shl c 16) (b * 256 + a) = c * 65536 + (b * 256 + a)" using or_shl_add [of "b * 256 + a" 16 c] assms by (simp add: shl_mult)
  have 3: "or (shl d 24) (c * 65536 + (b * 256 + a)) = d * 16777216 + (c * 65536 + (b * 256 + a))"
    using or_shl_add [of "c * 65536 + (b * 256 + a)" 24 d] assms by (simp add: shl_mult)
  have "or (or (or a (shl b 8)) (shl c 16)) (shl d 24) = or (shl d 24) (or (shl c 16) (or (shl b 8) a))"
    by (simp only: or.commute or.left_commute or.assoc)
  also have "\<dots> = a + 256 * (b + 256 * (c + 256 * d))" unfolding 1 2 3 by simp
  finally show ?thesis .
qed

lemma word_of_int_ops:
  "word_of_int x OR word_of_int y = (word_of_int (or x y) :: 'w::len word)"
  "push_bit n (word_of_int x) = (word_of_int (push_bit n x) :: 'w::len word)"
  by (rule bit_word_eqI; auto simp: bit_simps)+

lemma GET_UINT32_val:
  assumes "i + 4 \<le> length b"
  shows "GET_UINT32 b i = (word_of_int (le_val (take 4 (drop i b))) :: 'w::len word)"
proof -
  have "take 4 (drop i b) = [b ! i, b ! (i + 1), b ! (i + 2), b ! (i + 3)]"
    using assms Cons_nth_drop_Suc [of i b] Cons_nth_drop_Suc [of "i + 1" b] Cons_nth_drop_Suc [of "i + 2" b] Cons_nth_drop_Suc [of "i + 3" b]
    by (simp add: numeral_eq_Suc flip: Cons_nth_drop_Suc)
  moreover have u: "ucast x = (word_of_int (uint x) :: 'w word)" for x :: uchar by (rule ucast_eq)
  ultimately show ?thesis
    using or4_bytes [of "uint (b ! i)" "uint (b ! (i + 1))" "uint (b ! (i + 2))" "uint (b ! (i + 3))"]
    by (simp only: GET_UINT32_def word_of_int_ops u le_val.simps) simp
qed

lemma run_P_rfc:
  fixes X :: "'w::len word list"
  assumes "32 \<le> LENGTH('w)" "length X = 16" "\<And>x y z. low32 (F x y z) = rfc_F m (low32 x) (low32 y) (low32 z)"
    "r = map (\<lambda>i. (rfc_k i, rfc_s i, rfc_T i)) [m..<n]" "list_all (\<lambda>(k, s, t). k < 16 \<and> s < 32) r" "length r = 16"
    "\<forall>i \<in> {m..<n}. rfc_F i = rfc_F m"
  shows "low4 (run_P F X r st) = fold (rfc_step (map low32 X)) [m..<n] (low4 st)"
proof -
  have "low4 (run_P F X r st) = fold (step_P (rfc_F m) (map low32 X)) r (low4 st)"
    using assms(2,3,5,6) by (intro run_P_fold [OF assms(1)]) simp_all
  also have "\<dots> = fold (rfc_step (map low32 X)) [m..<n] (low4 st)"
    unfolding assms(4) by (rule fold_round, rule bspec [OF assms(7)]) simp
  finally show ?thesis .
qed

lemma rfc_F_round:
  "\<forall>i \<in> {0..<16}. rfc_F i = rfc_F 0" "\<forall>i \<in> {16..<32}. rfc_F i = rfc_F 16"
  "\<forall>i \<in> {32..<48}. rfc_F i = rfc_F 32" "\<forall>i \<in> {48..<64}. rfc_F i = rfc_F 48"
  by (simp_all add: rfc_F_def fun_eq_iff)

lemma fold_64: "fold g [0..<64] st = fold g [48..<64] (fold g [32..<48] (fold g [16..<32] (fold g [0..<16] st)))"
proof -
  have "fold g [0..<64] st = fold g [48..<64] (fold g [0..<48] st)" "fold g [0..<48] st = fold g [32..<48] (fold g [0..<32] st)"
    "fold g [0..<32] st = fold g [16..<32] (fold g [0..<16] st)"
    by (rule fold_append_upt; simp)+
  then show ?thesis by (simp only:)
qed

lemma md5_process_block:
  fixes ctx :: "'w::len word md5_context"
  assumes w: "32 \<le> LENGTH('w)" and d: "length data = 64"
  shows "low4 (md_state (md5_process ctx data)) = rfc_block data (low4 (md_state ctx))"
    "md_total (md5_process ctx data) = md_total ctx" "md_buffer (md5_process ctx data) = md_buffer ctx"
proof -
  let ?X = "map (\<lambda>j. GET_UINT32 data (4 * j)) [0..<16] :: 'w word list"
  have X: "map low32 ?X = rfc_words data"
    using d by (auto simp: rfc_words_def GET_UINT32_val low32_of_int [OF w])
  have L: "length ?X = 16" by simp
  obtain s0 s1 s2 s3 where st: "md_state ctx = (s0, s1, s2, s3)" by (cases "md_state ctx")
  note R = run_P_rfc [OF w L F_rfc(1) [OF w] rounds_rfc(1) rounds_ok(1,5) rfc_F_round(1), unfolded X]
    run_P_rfc [OF w L F_rfc(2) [OF w] rounds_rfc(2) rounds_ok(2,6) rfc_F_round(2), unfolded X]
    run_P_rfc [OF w L F_rfc(3) [OF w] rounds_rfc(3) rounds_ok(3,7) rfc_F_round(3), unfolded X]
    run_P_rfc [OF w L F_rfc(4) [OF w] rounds_rfc(4) rounds_ok(4,8) rfc_F_round(4), unfolded X]
  have "low4 (run_P F4 ?X round4 (run_P F3 ?X round3 (run_P F2 ?X round2 (run_P F1 ?X round1 (s0, s1, s2, s3))))) =
      fold (rfc_step (rfc_words data)) [0..<64] (low4 (s0, s1, s2, s3))"
    by (simp only: R fold_64)
  then show "low4 (md_state (md5_process ctx data)) = rfc_block data (low4 (md_state ctx))"
    by (simp add: md5_process_def rfc_block_def st Let_def split: prod.split) (auto simp: low4_def low32_add [OF w])
qed (simp_all add: md5_process_def Let_def split: prod.splits)

section \<open>RFC 1321\<close>

function rfc_blocks :: "buffer \<Rightarrow> digest_state \<Rightarrow> digest_state" where
  "rfc_blocks m st = (if 64 \<le> length m then rfc_blocks (drop 64 m) (rfc_block (take 64 m) st) else st)"
  by pat_completeness auto
termination
  by (relation "measure (\<lambda>(m, st). length m)") auto

declare rfc_blocks.simps [simp del]

definition rfc_init :: digest_state where
  "rfc_init = (0x67452301, 0xEFCDAB89, 0x98BADCFE, 0x10325476)"

text \<open>A one bit, zero bits up to a length of 56 modulo 64 bytes, and the length in bits as a number of eight bytes.\<close>

definition rfc_pad :: "buffer \<Rightarrow> buffer" where
  "rfc_pad m = m @ 0x80 # replicate ((119 - length m mod 64) mod 64) 0 @ le_bytes 8 (8 * int (length m))"

definition rfc_md5 :: "buffer \<Rightarrow> buffer" where
  "rfc_md5 m = (case rfc_blocks (rfc_pad m) rfc_init of (a, b, c, d) \<Rightarrow>
     le_bytes 4 (uint a) @ le_bytes 4 (uint b) @ le_bytes 4 (uint c) @ le_bytes 4 (uint d))"

section \<open>Updating a context\<close>

definition pending :: "buffer \<Rightarrow> buffer" where
  "pending m = drop (64 * (length m div 64)) m"

lemma length_pending [simp]: "length (pending m) = length m mod 64"
  by (simp add: pending_def minus_mult_div_eq_mod)

lemma rfc_blocks_short [simp]: "length m < 64 \<Longrightarrow> rfc_blocks m st = st"
  by (simp add: rfc_blocks.simps)

lemma pending_short [simp]: "length m < 64 \<Longrightarrow> pending m = m"
  by (simp add: pending_def)

lemma block_append:
  assumes "length x = 64"
  shows "rfc_blocks (x @ y) st = rfc_blocks y (rfc_block x st)" "pending (x @ y) = pending y"
proof -
  show "rfc_blocks (x @ y) st = rfc_blocks y (rfc_block x st)" using assms by (simp add: rfc_blocks.simps [of "x @ y"])
  have "(64 + length y) div 64 = Suc (length y div 64)" by simp
  then show "pending (x @ y) = pending y" using assms by (simp add: pending_def del: div_add_self1)
qed

lemma blocks_append:
  "length x mod 64 = 0 \<Longrightarrow> rfc_blocks (x @ y) st = rfc_blocks y (rfc_blocks x st) \<and> pending (x @ y) = pending y"
proof (induction x st rule: rfc_blocks.induct)
  case (1 x st)
  show ?case
  proof (cases "64 \<le> length x")
    case True
    then have L: "length (take 64 x) = 64" and "length (drop 64 x) mod 64 = 0" using "1.prems" by (simp_all add: le_mod_geq)
    have x: "x @ y = take 64 x @ drop 64 x @ y" by (metis append_assoc append_take_drop_id)
    show ?thesis using "1.IH" [OF True \<open>length (drop 64 x) mod 64 = 0\<close>] True
      unfolding x block_append [OF L, of "drop 64 x @ y"] by (simp add: rfc_blocks.simps [of x])
  next
    case False
    then have "x = []" using "1.prems" by simp
    then show ?thesis by simp
  qed
qed

lemma pending_append:
  "rfc_blocks (m @ inp) st = rfc_blocks (pending m @ inp) (rfc_blocks m st)" "pending (m @ inp) = pending (pending m @ inp)"
proof -
  define f where "f = take (64 * (length m div 64)) m"
  have m: "m = f @ pending m" by (simp add: f_def pending_def)
  have "length f = 64 * (length m div 64)" by (simp add: f_def)
  then have "length f mod 64 = 0" by simp
  note B = blocks_append [OF this]
  have "rfc_blocks m st = rfc_blocks f st" using B [of "pending m" st] m by simp
  then show "rfc_blocks (m @ inp) st = rfc_blocks (pending m @ inp) (rfc_blocks m st)"
    using B [of "pending m @ inp" st] m by (metis append_assoc)
  show "pending (m @ inp) = pending (pending m @ inp)" using B [of "pending m @ inp" st] m by (metis append_assoc)
qed

lemma process_blocks_rfc:
  fixes ctx :: "'w::len word md5_context"
  assumes w: "32 \<le> LENGTH('w)"
  shows "\<exists>ctx'. process_blocks ctx inp = (ctx', pending inp) \<and> low4 (md_state ctx') = rfc_blocks inp (low4 (md_state ctx))
     \<and> md_total ctx' = md_total ctx \<and> md_buffer ctx' = md_buffer ctx"
proof (induction ctx inp rule: process_blocks.induct)
  case (1 ctx inp)
  show ?case
  proof (cases "64 \<le> length inp")
    case True
    then have L: "length (take 64 inp) = 64" by simp
    have "inp = take 64 inp @ drop 64 inp" by simp
    with block_append [OF L] have "rfc_blocks inp st = rfc_blocks (drop 64 inp) (rfc_block (take 64 inp) st)" "pending inp = pending (drop 64 inp)" for st
      by metis+
    then show ?thesis using "1.IH" [OF True] True md5_process_block [OF w L] by (auto simp: process_blocks.simps [of ctx inp])
  next
    case False
    then show ?thesis by (simp add: process_blocks.simps [of ctx inp])
  qed
qed

section \<open>The counter\<close>

lemma uint_mask32: "32 \<le> LENGTH('w) \<Longrightarrow> uint (x AND 0xFFFFFFFF :: 'w::len word) = uint x mod 2 ^ 32"
proof -
  assume "32 \<le> LENGTH('w)"
  have "(x AND 0xFFFFFFFF) = take_bit 32 x"
    by (rule bit_word_eqI) (simp only: bit_and_iff bit_mask32 bit_take_bit_iff, auto)
  then have "uint (x AND 0xFFFFFFFF) = take_bit 32 (uint x)" by (simp only: unsigned_take_bit_eq)
  then show ?thesis by (simp only: take_bit_eq_mod)
qed

text \<open>The counter holds the length of a message of \<open>n\<close> bytes in bits: the low word exactly, of the high word
  the low 32 bits.\<close>

definition counts :: "'w::len word \<times> 'w word \<Rightarrow> nat \<Rightarrow> bool" where
  "counts tot n \<longleftrightarrow> uint (fst tot) = 8 * int n mod 2 ^ 32 \<and> low32 (snd tot) = word_of_int (8 * int n div 2 ^ 32)"

lemma carry_div: "0 \<le> a \<Longrightarrow> 0 \<le> b \<Longrightarrow> b < m \<Longrightarrow> (a + b) div m = a div m + (if (a mod m + b) mod m < b then 1 else 0)" for a b m :: int
proof -
  assume a: "0 \<le> a" "0 \<le> b" "b < m"
  have r: "0 \<le> a mod m" "a mod m < m" using a by simp_all
  have d: "(a + b) div m = a div m + (a mod m + b) div m"
    using a div_add1_eq [of a b m] by (simp add: div_pos_pos_trivial mod_pos_pos_trivial)
  show ?thesis
  proof (cases "a mod m + b < m")
    case True
    then show ?thesis using a r by (simp add: d)
  next
    case False
    then have "(a mod m + b) mod m = a mod m + b - m"
      using a r mod_pos_pos_trivial [of "a mod m + b - m" m] by (simp only: minus_mod_self2)
    moreover have "(a mod m + b) div m = 1"
      using False a r by (intro int_div_pos_eq [of _ m 1 "a mod m + b - m"]) simp_all
    ultimately show ?thesis using r by (simp add: d)
  qed
qed

lemma uint_drop_bit: "uint (drop_bit n x) = drop_bit n (uint x)" for x :: "'w::len word"
  by (rule bit_eqI) (auto simp: bit_unsigned_iff bit_drop_bit_eq dest: bit_imp_le_length)

lemma uint_of_nat_small:
  assumes "k < 2 ^ 32" "32 \<le> LENGTH('w)"
  shows "uint (of_nat k :: 'w::len word) = int k"
proof -
  have "(2::nat) ^ 32 \<le> 2 ^ LENGTH('w)" using assms(2) by (rule power_increasing) simp
  with assms(1) have "k < 2 ^ LENGTH('w)" by (rule less_le_trans)
  then show ?thesis by (simp only: unsigned_of_nat take_bit_nat_eq_self)
qed

lemma add_total_counts:
  fixes tot :: "'w::len word \<times> 'w word"
  assumes w: "32 \<le> LENGTH('w)" and c: "counts tot n" and l: "l < 2 ^ 29"
  shows "counts (add_total (of_nat l) tot) (n + l)"
proof -
  have "push_bit 3 (of_nat l :: 'w word) = of_nat (8 * l)" by (simp add: push_bit_eq_mult)
  then have p: "uint (push_bit 3 (of_nat l :: 'w word)) = 8 * int l"
    using uint_of_nat_small [of "8 * l", OF _ w] l by simp
  have "uint (drop_bit 29 (of_nat l :: 'w word)) = 0"
    using uint_of_nat_small [of l, OF _ w] l by (simp only: uint_drop_bit) (simp add: drop_bit_eq_div)
  then have q: "drop_bit 29 (of_nat l :: 'w word) = 0" by (simp add: uint_0_iff)
  have dv: "(2::int) ^ 32 dvd 2 ^ LENGTH('w)" using w by (rule le_imp_power_dvd)
  let ?t0 = "(fst tot + push_bit 3 (of_nat l)) AND 0xFFFFFFFF"
  have t0: "uint ?t0 = (8 * int n mod 2 ^ 32 + 8 * int l) mod 2 ^ 32"
    using c by (simp only: uint_mask32 [OF w] uint_word_ariths p counts_def mod_mod_cancel [OF dv])
  have lt: "?t0 < push_bit 3 (of_nat l) \<longleftrightarrow> (8 * int n mod 2 ^ 32 + 8 * int l) mod 2 ^ 32 < 8 * int l"
    by (simp only: word_less_def t0 p)
  have "(8 * int n + 8 * int l) div 2 ^ 32 = 8 * int n div 2 ^ 32 + (if ?t0 < push_bit 3 (of_nat l) then 1 else 0)"
    unfolding lt using l by (intro carry_div) simp_all
  then have t1: "8 * int (n + l) div 2 ^ 32 = 8 * int n div 2 ^ 32 + (if ?t0 < push_bit 3 (of_nat l) then 1 else 0)"
    by (simp add: algebra_simps)
  have one: "low32 (1 :: 'w word) = 1" using low32_of_int [OF w, of 1] by simp
  have "low32 (snd tot + (if ?t0 < push_bit 3 (of_nat l) then 1 else 0)) = word_of_int (8 * int (n + l) div 2 ^ 32)"
    unfolding t1 using c by (simp add: counts_def low32_add [OF w] one)
  moreover have "uint ?t0 = 8 * int (n + l) mod 2 ^ 32" unfolding t0 by (simp add: mod_simps algebra_simps)
  ultimately show ?thesis by (simp add: counts_def add_total_def q Let_def)
qed

lemma counts_left:
  fixes tot :: "'w::len word \<times> 'w word"
  assumes "counts tot n"
  shows "unat (drop_bit 3 (fst tot) AND 0x3F) = n mod 64"
proof -
  have "(0x3F :: 'w word) = mask 6" by (simp add: mask_eq_exp_minus_1)
  then have "uint (drop_bit 3 (fst tot) AND 0x3F) = take_bit 6 (drop_bit 3 (uint (fst tot)))"
    by (simp only: unsigned_take_bit_eq uint_drop_bit flip: take_bit_eq_mask)
  also have "\<dots> = uint (fst tot) div 8 mod 64" by (simp add: take_bit_eq_mod drop_bit_eq_div)
  also have "\<dots> = int (n mod 64)"
  proof -
    have "8 * int n mod 2 ^ 32 = 8 * (int n mod 2 ^ 29)" using mult_mod_right [of 8 "int n" "2 ^ 29"] by simp
    moreover have "int n mod 2 ^ 29 mod 64 = int n mod 64" by (rule mod_mod_cancel) simp
    ultimately show ?thesis using assms by (simp add: counts_def zmod_int)
  qed
  finally show ?thesis by (simp add: unat_eq_nat_uint)
qed

section \<open>Updates\<close>

text \<open>The context after the bytes of a message: the counter, the state after its whole blocks, and the bytes that wait
  in the buffer.\<close>

definition digests :: "'w::len word md5_context \<Rightarrow> buffer \<Rightarrow> bool" where
  "digests ctx m \<longleftrightarrow> counts (md_total ctx) (length m) \<and> low4 (md_state ctx) = rfc_blocks m rfc_init \<and> length (md_buffer ctx) = 64
     \<and> take (length m mod 64) (md_buffer ctx) = pending m"

lemma put_buffer_simps:
  assumes "left + length inp \<le> 64" "length buf = 64"
  shows "length (put_buffer left inp buf) = 64" "take (left + length inp) (put_buffer left inp buf) = take left buf @ inp"
  using assms by (simp_all add: put_buffer_def)

lemma finish_update:
  fixes ctx :: "'w::len word md5_context"
  assumes w: "32 \<le> LENGTH('w)" and l: "length (md_buffer ctx) = 64" "left + length (pending inp) \<le> 64" "left = 0 \<or> length inp + left < 64"
    and r: "process_blocks ctx inp = (c, r)" "c' = (if r \<noteq> [] then c\<lparr>md_buffer := put_buffer left r (md_buffer c)\<rparr> else c)"
  shows "md_total c' = md_total ctx" "low4 (md_state c') = rfc_blocks inp (low4 (md_state ctx))" "length (md_buffer c') = 64"
    "take (left + length (pending inp)) (md_buffer c') = take left (md_buffer ctx) @ pending inp"
  using process_blocks_rfc [OF w, of ctx inp] l r put_buffer_simps [of left "pending inp" "md_buffer ctx"]
  by auto

lemma md5_update_digests:
  fixes ctx :: "'w::len word md5_context"
  assumes w: "32 \<le> LENGTH('w)" and d: "digests ctx m" and l: "length inp < 2 ^ 29"
  shows "digests (md5_update ctx inp) (m @ inp)"
proof (cases "inp = []")
  case True
  then show ?thesis using d by (simp add: md5_update_def)
next
  case False
  let ?left = "length m mod 64"
  have left: "unat (drop_bit 3 (fst (md_total ctx)) AND 0x3F) = ?left" using d counts_left [of "md_total ctx" "length m"] by (simp add: digests_def)
  let ?c1 = "ctx\<lparr>md_total := add_total (of_nat (length inp)) (md_total ctx)\<rparr>"
  have tot: "counts (md_total ?c1) (length (m @ inp))"
    using add_total_counts [OF w _ l] d by (simp add: digests_def)
  have buf: "length (md_buffer ctx) = 64" "take ?left (md_buffer ctx) = pending m" "low4 (md_state ctx) = rfc_blocks m rfc_init"
    using d by (simp_all add: digests_def)
  have len: "length (m @ inp) mod 64 = length (pending (pending m @ inp))" by (simp add: mod_simps)
  note A = pending_append [of m inp]
  show ?thesis
  proof (cases "?left \<noteq> 0 \<and> 64 - ?left \<le> length inp")
    case True
    let ?fill = "64 - ?left"
    let ?b = "put_buffer ?left (take ?fill inp) (md_buffer ctx)"
    let ?c2 = "md5_process (?c1\<lparr>md_buffer := ?b\<rparr>) ?b"
    have fl: "length (take ?fill inp) = ?fill" using True by simp
    have "length ?b = 64" "take 64 ?b = pending m @ take ?fill inp"
      using put_buffer_simps [of ?left "take ?fill inp" "md_buffer ctx"] buf unfolding fl by simp_all
    then have b: "?b = pending m @ take ?fill inp" "length ?b = 64" by simp_all
    have e: "pending m @ inp = ?b @ drop ?fill inp" by (simp add: b)
    have P: "low4 (md_state ?c2) = rfc_block ?b (rfc_blocks m rfc_init)" "md_total ?c2 = md_total ?c1" "md_buffer ?c2 = ?b"
      using md5_process_block [OF w b(2), of "?c1\<lparr>md_buffer := ?b\<rparr>"] buf(3) by simp_all
    obtain c r where r: "process_blocks ?c2 (drop ?fill inp) = (c, r)" by fastforce
    define c' where "c' = (if r \<noteq> [] then c\<lparr>md_buffer := put_buffer 0 r (md_buffer c)\<rparr> else c)"
    have "length (md_buffer ?c2) = 64" "0 + length (pending (drop ?fill inp)) \<le> 64"
      using b(2) P(3) by (simp_all del: length_drop add: less_imp_le)
    note F = finish_update [OF w this disjI1 [OF refl] r c'_def]
    have "md5_update ctx inp = c'"
      using False True r by (simp add: md5_update_def left Let_def c'_def)
    moreover have "rfc_blocks (m @ inp) rfc_init = low4 (md_state c')" "pending (m @ inp) = pending (drop ?fill inp)"
      unfolding A e block_append [OF b(2)] F(2) P(1) by simp_all
    ultimately show ?thesis using F(1,3,4) tot len P(2) A(2) by (simp add: digests_def)
  next
    case no: False
    obtain c r where r: "process_blocks ?c1 inp = (c, r)" by fastforce
    define c' where "c' = (if r \<noteq> [] then c\<lparr>md_buffer := put_buffer ?left r (md_buffer c)\<rparr> else c)"
    have h: "length (md_buffer ?c1) = 64" "?left + length (pending inp) \<le> 64" "?left = 0 \<or> length inp + ?left < 64"
      using no buf(1) by (auto simp: not_le less_imp_le)
    note F = finish_update [OF w h r c'_def]
    have U: "md5_update ctx inp = c'" using False no r by (auto simp: md5_update_def left Let_def c'_def)
    have "rfc_blocks (pending m @ inp) st = rfc_blocks inp st \<and> pending (pending m @ inp) = pending m @ pending inp" for st
    proof (cases "?left = 0")
      case True
      then have "pending m = []" by (metis length_0_conv length_pending)
      then show ?thesis by simp
    next
      case False
      with h(3) have "length inp + ?left < 64" by simp
      then show ?thesis by simp
    qed
    then show ?thesis using F tot len A buf U by (simp add: digests_def)
  qed
qed

lemma PUT_UINT32_bytes: "32 \<le> LENGTH('w) \<Longrightarrow> PUT_UINT32 x = le_bytes 4 (uint (low32 x))" for x :: "'w::len word"
proof -
  assume w: "32 \<le> LENGTH('w)"
  have "ucast (drop_bit n x AND 0xFF) = uchar_of (shr (uint (low32 x)) n)" if "n \<le> 24" for n
  proof (rule bit_word_eqI)
    fix i assume "i < LENGTH(8)"
    then have i: "i < 8" by simp
    have f: "(0xFF :: 'w word) = mask 8" by (simp add: mask_eq_exp_minus_1)
    show "bit (ucast (drop_bit n x AND 0xFF) :: uchar) i = bit (uchar_of (shr (uint (low32 x)) n)) i"
      using i that w bit_imp_le_length [of x "n + i"]
      unfolding f uchar_of_def by (auto simp: bit_unsigned_iff bit_and_iff bit_drop_bit_eq bit_mask_iff bit_word_of_int_iff)
  qed
  from this [of 0] this [of 8] this [of 16] this [of 24] show ?thesis
    by (simp add: PUT_UINT32_def numeral_eq_Suc div_256_shr)
qed

lemma le_bytes_mod4: "le_bytes 4 (x mod 4294967296) = le_bytes 4 x"
  by (rule le_val_inj) (simp_all add: le_val_le_bytes)

lemma le_bytes_8: "le_bytes 8 x = le_bytes 4 (x mod 2 ^ 32) @ le_bytes 4 (x div 2 ^ 32)"
proof (rule le_val_inj)
  show "le_val (le_bytes 8 x) = le_val (le_bytes 4 (x mod 2 ^ 32) @ le_bytes 4 (x div 2 ^ 32))"
    by (simp add: le_val_append le_val_le_bytes zmod_zmult2_eq [of "4294967296" x "4294967296", simplified])
qed simp

lemma rfc_pad_code:
  assumes "padn = (if length m mod 64 < 56 then 56 - length m mod 64 else 120 - length m mod 64)"
  shows "(m @ take padn md5_padding) @ le_bytes 8 (8 * int (length m)) = rfc_pad m"
proof -
  have m: "length m mod 64 < 64" by simp
  have "padn = Suc ((119 - length m mod 64) mod 64)"
  proof (cases "length m mod 64 < 56")
    case True
    then have "119 - length m mod 64 = (55 - length m mod 64) + 64" by simp
    then have "(119 - length m mod 64) mod 64 = (55 - length m mod 64) mod 64" by (simp only: mod_add_self2)
    with True show ?thesis by (simp add: assms) arith
  next
    case False
    with m show ?thesis by (simp add: assms)
  qed
  moreover have "(119 - length m mod 64) mod 64 \<le> 63" using less_Suc_eq_le [of "(119 - length m mod 64) mod 64" 63] by simp
  ultimately show ?thesis by (simp add: rfc_pad_def md5_padding_def min_def)
qed

lemma md5_finish_rfc:
  fixes ctx :: "'w::len word md5_context"
  assumes w: "32 \<le> LENGTH('w)" and d: "digests ctx m"
  shows "md5_finish ctx = rfc_md5 m"
proof -
  define padn where "padn = (if length m mod 64 < 56 then 56 - length m mod 64 else 120 - length m mod 64)"
  define msglen where "msglen = PUT_UINT32 (fst (md_total ctx)) @ PUT_UINT32 (snd (md_total ctx))"
  have "uint (low32 (fst (md_total ctx))) = 8 * int (length m) mod 2 ^ 32"
    using d by (simp add: digests_def counts_def unsigned_ucast_eq take_bit_eq_mod)
  moreover have "le_bytes 4 (uint (low32 (snd (md_total ctx)))) = le_bytes 4 (8 * int (length m) div 2 ^ 32)"
    using d by (simp add: digests_def counts_def le_bytes_mod4 uint_word_of_int)
  ultimately have msg: "msglen = le_bytes 8 (8 * int (length m))"
    by (simp only: msglen_def PUT_UINT32_bytes [OF w] le_bytes_8)
  have "digests (md5_update (md5_update ctx (take padn md5_padding)) msglen) ((m @ take padn md5_padding) @ msglen)"
    by (intro md5_update_digests [OF w] d) (auto simp: msg md5_padding_def)
  then have D: "low4 (md_state (md5_update (md5_update ctx (take padn md5_padding)) msglen)) = rfc_blocks (rfc_pad m) rfc_init"
    using rfc_pad_code [OF padn_def] by (simp add: digests_def msg)
  have left: "unat (drop_bit 3 (fst (md_total ctx)) AND 0x3F) = length m mod 64"
    using d counts_left [of "md_total ctx" "length m"] by (simp add: digests_def)
  show ?thesis
    unfolding md5_finish_def Let_def left msglen_def [symmetric] padn_def [symmetric] rfc_md5_def D [symmetric]
    by (simp add: low4_def PUT_UINT32_bytes [OF w] split: prod.split)
qed

lemma md5_starts_digests:
  assumes "32 \<le> LENGTH('w)" "length junk = 64"
  shows "digests (md5_starts junk :: 'w::len word md5_context) []"
  using assms low32_of_int [OF assms(1), of "0x67452301"] low32_of_int [OF assms(1), of "0xEFCDAB89"]
    low32_of_int [OF assms(1), of "0x98BADCFE"] low32_of_int [OF assms(1), of "0x10325476"] low32_of_int [OF assms(1), of 0]
  by (simp add: digests_def md5_starts_def counts_def low4_def rfc_init_def)

text \<open>The counter of a message of 2^29 bytes is wrong when the words have 64 bits: the carry is added although the high
  word already counts the bits above.\<close>

lemma md5_counter_wrong_64: "add_total (2 ^ 29) (0, 0) = (0 :: 64 word, 2)"
  by code_simp

lemma md5_counter_right_32: "add_total (2 ^ 29) (0, 0) = (0 :: 32 word, 1)"
  by code_simp

section \<open>Digests as text\<close>

text \<open>\<open>_httoi\<close>: the loop stops at the first character that is not in the table; its condition compares with the
  multi-character constant \<open>'/0'\<close>, which no character equals.\<close>

definition hex_map :: "uchar \<Rightarrow> int option" where
  "hex_map b = map_of (zip hex_lower [0..15]) b"

fun httoi_loop :: "buffer \<Rightarrow> bool \<Rightarrow> int \<Rightarrow> int" where
  "httoi_loop [] firsttime result = result"
| "httoi_loop (b # s) firsttime result =
     (case hex_map b of
        None \<Rightarrow> result
      | Some v \<Rightarrow> httoi_loop s False (or (if firsttime then result else s32 (shl result 4)) v))"

definition httoi :: "buffer \<Rightarrow> int" where
  "httoi mstr = httoi_loop (if take 2 mstr = [48, 88] then drop 2 mstr else mstr) True 0"

text \<open>The constructor from a text: each pair of characters is copied into a buffer of ten characters whose other
  eight are not initialised, \<open>junk\<close>. \<open>None\<close> is a read behind the text or behind that buffer.\<close>

fun text_loop :: "nat \<Rightarrow> buffer \<Rightarrow> buffer \<Rightarrow> buffer option" where
  "text_loop 0 junk src = Some []"
| "text_loop (Suc n) junk src =
     (case src of
        a # b # src' \<Rightarrow>
          if a = 0 \<or> 0 \<notin> set (a # b # junk) then None
          else do { ds \<leftarrow> text_loop n junk src'; Some (uchar_of (httoi (c_str (a # b # junk))) # ds) }
      | _ \<Rightarrow> None)"

definition MD5_of_text :: "buffer \<Rightarrow> buffer \<Rightarrow> buffer option" where
  "MD5_of_text junk md5src = (if md5src = [] then Some (replicate 16 0) else text_loop 16 junk md5src)"

definition MD5_add :: "buffer \<Rightarrow> buffer \<Rightarrow> buffer" where
  "MD5_add d e = map2 (\<lambda>a b. a XOR b) (take 16 d) (take 16 e)"

definition MD5_eq :: "buffer \<Rightarrow> buffer \<Rightarrow> bool" where
  "MD5_eq d e \<longleftrightarrow> take 16 d = take 16 e"

lemma hex_pairs:
  "\<forall>i \<in> set [0..<16]. hex_map (hex_lower ! i) = Some (int i) \<and> hex_lower ! i \<noteq> 0 \<and> hex_lower ! i \<noteq> 88"
  by code_simp

lemma httoi_pair:
  assumes "i < 16" "j < 16" "hex_map c = None"
  shows "httoi (hex_lower ! i # hex_lower ! j # c # s) = 16 * int i + int j"
    "httoi [hex_lower ! i, hex_lower ! j] = 16 * int i + int j"
proof -
  have h: "hex_map (hex_lower ! i) = Some (int i)" "hex_map (hex_lower ! j) = Some (int j)" "hex_lower ! j \<noteq> 88"
    using hex_pairs assms(1,2) by simp_all
  have "s32 (shl (int i) 4) = shl (int i) 4" using assms(1) by (intro s32_id) (simp_all add: shl_mult)
  then have "or (s32 (shl (int i) 4)) (int j) = 16 * int i + int j"
    using or_shl_add [of "int j" 4 "int i"] assms(2) by (simp add: shl_mult)
  then show "httoi (hex_lower ! i # hex_lower ! j # c # s) = 16 * int i + int j" "httoi [hex_lower ! i, hex_lower ! j] = 16 * int i + int j"
    using h assms(3) by (simp_all add: httoi_def)
qed

lemma nibble_bounds: "unat (drop_bit 4 b) < 16" "unat (b AND 15) < 16" "uchar_of (16 * uint (drop_bit 4 b) + uint (b AND 15)) = b"
  for b :: uchar
proof -
  have f: "(15 :: uchar) = mask 4" by (simp add: mask_eq_exp_minus_1)
  have u: "uint (drop_bit 4 b) = uint b div 16" by (simp only: uint_drop_bit) (simp add: drop_bit_eq_div)
  have v: "uint (b AND 15) = uint b mod 16" by (simp only: f unsigned_take_bit_eq flip: take_bit_eq_mask) (simp add: take_bit_eq_mod)
  have b: "0 \<le> uint b" "uint b < 256" using uint_range_size [of b] by (simp_all add: word_size)
  show "unat (drop_bit 4 b) < 16" using b u by (simp only: unat_eq_nat_uint)
  show "unat (b AND 15) < 16" using b v by (simp only: unat_eq_nat_uint)
  show "uchar_of (16 * uint (drop_bit 4 b) + uint (b AND 15)) = b"
    by (simp only: u v uchar_of_def) simp
qed

text \<open>A digest written as text and read back is the digest, when what follows the two characters in the buffer is no
  further digit.\<close>

lemma digest_text_roundtrip:
  assumes "length d = 16" "0 \<in> set junk" "junk \<noteq> []" "hex_map (hd junk) = None"
  shows "MD5_of_text junk (ToString d) = Some d"
proof -
  let ?t = "\<lambda>b. [hex_lower ! unat (drop_bit 4 b), hex_lower ! unat (b AND 15)]"
  have z: "hex_lower ! unat (drop_bit 4 b) \<noteq> 0" "hex_lower ! unat (b AND 15) \<noteq> 0" for b :: uchar
    using hex_pairs nibble_bounds(1,2) [of b] by simp_all
  have c: "httoi (c_str (hex_lower ! unat (drop_bit 4 b) # hex_lower ! unat (b AND 15) # junk)) =
      16 * int (unat (drop_bit 4 b)) + int (unat (b AND 15))" for b :: uchar
    using assms(3,4) z [of b] httoi_pair [OF nibble_bounds(1,2), of "hd junk" b b]
    by (cases junk) (auto simp: c_str_def)
  have L: "text_loop (length ds) junk (concat (map ?t ds)) = Some ds" for ds
    using assms(2) z by (induction ds) (simp_all add: c nibble_bounds(3))
  have "concat (map ?t d) \<noteq> []" using assms(1) by (cases d) simp_all
  moreover have "ToString d = concat (map ?t d)" using assms(1) by (simp add: ToString_def)
  ultimately show ?thesis using L [of d] by (simp only: MD5_of_text_def if_False assms(1))
qed

text \<open>The digest of the empty message, as the RFC gives it.\<close>

lemma rfc_md5_empty: "rfc_md5 [] = [0xd4, 0x1d, 0x8c, 0xd9, 0x8f, 0, 0xb2, 4, 0xe9, 0x80, 9, 0x98, 0xec, 0xf8, 0x42, 0x7e]"
  by code_simp

section \<open>Properties\<close>



end
